(* ===== verification/Prelude_KI.thy ===== *)
theory Prelude_KI
  imports Main "HOL-Library.AList"
begin

section \<open>Prelude: Python strings, lists and dictionaries\<close>

text \<open>
  The vocabulary the component theories share.  A Python \<open>str\<close> is a \<open>string\<close>; its characters
  are the code points 0 to 255, so every predicate on characters is the one of Python on that range.
  A Python \<open>dict\<close> is an association list in insertion order: reading is \<open>map_of\<close>, writing is
  \<open>AList.update\<close> (in place for a present key, at the end for a new one), deleting is
  \<open>AList.delete\<close>.  The collection \<open>py_simps\<close> holds the equations that evaluate the string
  helpers on concrete arguments.
\<close>

named_theorems py_simps \<open>evaluation of the string helpers\<close>

type_synonym ('k, 'v) dict = "('k \<times> 'v) list"

abbreviation dict_get :: "('k, 'v) dict \<Rightarrow> 'k \<Rightarrow> 'v option" where
  "dict_get d k \<equiv> map_of d k"

abbreviation dict_set :: "'k \<Rightarrow> 'v \<Rightarrow> ('k, 'v) dict \<Rightarrow> ('k, 'v) dict" where
  "dict_set \<equiv> AList.update"

abbreviation dict_values :: "('k, 'v) dict \<Rightarrow> 'v list" where
  "dict_values d \<equiv> map snd d"

subsection \<open>Characters and stripping\<close>

definition py_space :: "char \<Rightarrow> bool" where
  "py_space c \<longleftrightarrow> c \<in> set [CHR 0x20, CHR 0x09, CHR 0x0A, CHR 0x0B, CHR 0x0C, CHR 0x0D,
     CHR 0x1C, CHR 0x1D, CHR 0x1E, CHR 0x1F, CHR 0x85, CHR 0xA0]"

definition py_digit :: "char \<Rightarrow> bool" where
  "py_digit c \<longleftrightarrow> c \<in> set ''0123456789''"

definition py_lower_letter :: "char \<Rightarrow> bool" where
  "py_lower_letter c \<longleftrightarrow> c \<in> set ''abcdefghijklmnopqrstuvwxyz''"

definition py_upper_letter :: "char \<Rightarrow> bool" where
  "py_upper_letter c \<longleftrightarrow> c \<in> set ''ABCDEFGHIJKLMNOPQRSTUVWXYZ''"

definition ascii_alnum :: "char \<Rightarrow> bool" where
  "ascii_alnum c \<longleftrightarrow> py_digit c \<or> py_lower_letter c \<or> py_upper_letter c"

text \<open>\<open>str.isalnum\<close> beyond ASCII: \<open>0xAA, 0xB2, 0xB3, 0xB5, 0xB9, 0xBA, 0xBC-0xBE\<close> and the letters
  from \<open>0xC0\<close> on except \<open>0xD7\<close> and \<open>0xF7\<close>.\<close>

definition py_alnum :: "char \<Rightarrow> bool" where
  "py_alnum c \<longleftrightarrow> ascii_alnum c \<or>
     c \<in> set [CHR 0xAA, CHR 0xB2, CHR 0xB3, CHR 0xB5, CHR 0xB9, CHR 0xBA, CHR 0xBC, CHR 0xBD, CHR 0xBE] \<or>
     (192 \<le> (of_char c :: nat) \<and> c \<noteq> CHR 0xD7 \<and> c \<noteq> CHR 0xF7)"

definition re_word :: "char \<Rightarrow> bool" where
  "re_word c \<longleftrightarrow> py_alnum c \<or> c = CHR ''_''"

definition lstrip_by :: "(char \<Rightarrow> bool) \<Rightarrow> string \<Rightarrow> string" where
  "lstrip_by p s = dropWhile p s"

definition rstrip_by :: "(char \<Rightarrow> bool) \<Rightarrow> string \<Rightarrow> string" where
  "rstrip_by p s = rev (dropWhile p (rev s))"

definition strip_by :: "(char \<Rightarrow> bool) \<Rightarrow> string \<Rightarrow> string" where
  "strip_by p s = rstrip_by p (lstrip_by p s)"

definition py_strip :: "string \<Rightarrow> string" where
  "py_strip = strip_by py_space"

definition startswith :: "'a list \<Rightarrow> 'a list \<Rightarrow> bool" where
  "startswith s p \<longleftrightarrow> take (length p) s = p"

definition endswith :: "'a list \<Rightarrow> 'a list \<Rightarrow> bool" where
  "endswith s p \<longleftrightarrow> length p \<le> length s \<and> drop (length s - length p) s = p"

lemmas strip_defs [py_simps] = lstrip_by_def rstrip_by_def strip_by_def py_strip_def py_space_def
  startswith_def endswith_def

lemmas char_class_defs [py_simps] = py_digit_def py_lower_letter_def py_upper_letter_def
  ascii_alnum_def py_alnum_def re_word_def

lemma startswith_append [simp]: "startswith (p @ s) p"
  by (simp add: startswith_def)

lemma startswith_iff: "startswith s p \<longleftrightarrow> (\<exists>r. s = p @ r)"
  by (metis append_take_drop_id startswith_append startswith_def)

lemma startswith_drop: "startswith s p \<Longrightarrow> s = p @ drop (length p) s"
  by (auto simp: startswith_iff)

lemma startswith_trans: "startswith s p \<Longrightarrow> startswith p q \<Longrightarrow> startswith s q"
  by (auto simp: startswith_iff)

lemma startswith_Nil [simp]: "startswith s []"
  by (simp add: startswith_def)

subsection \<open>Splitting and joining\<close>

fun split_on :: "'a \<Rightarrow> 'a list \<Rightarrow> 'a list list" where
  "split_on c [] = [[]]"
| "split_on c (x # xs) =
     (if x = c then [] # split_on c xs
      else (case split_on c xs of [] \<Rightarrow> [[x]] | w # ws \<Rightarrow> (x # w) # ws))"

fun join_with :: "'a list \<Rightarrow> 'a list list \<Rightarrow> 'a list" where
  "join_with sep [] = []"
| "join_with sep [w] = w"
| "join_with sep (w # v # ws) = w @ sep @ join_with sep (v # ws)"

lemma split_on_nonempty [simp]: "split_on c s \<noteq> []"
  by (induction s) (auto split: list.splits)

lemma join_split_on: "join_with [c] (split_on c s) = s"
proof (induction s)
  case (Cons x s)
  obtain w ws where "split_on c s = w # ws"
    by (cases "split_on c s") auto
  with Cons show ?case by (cases ws) auto
qed simp

lemma split_on_pieces: "w \<in> set (split_on c s) \<Longrightarrow> c \<notin> set w"
  by (induction s arbitrary: w) (auto split: list.splits if_splits)

text \<open>\<open>str.split()\<close> without an argument: the maximal runs of characters that are not white space.\<close>

fun words_from :: "string \<Rightarrow> string \<Rightarrow> string list" where
  "words_from cur [] = (if cur = [] then [] else [cur])"
| "words_from cur (c # cs) =
     (if py_space c then (if cur = [] then words_from [] cs else cur # words_from [] cs)
      else words_from (cur @ [c]) cs)"

definition py_words :: "string \<Rightarrow> string list" where
  "py_words = words_from []"

text \<open>\<open>str.splitlines\<close>, with or without the line ends.\<close>

definition line_end :: "char \<Rightarrow> bool" where
  "line_end c \<longleftrightarrow> c \<in> set [CHR 0x0A, CHR 0x0B, CHR 0x0C, CHR 0x0D, CHR 0x1C, CHR 0x1D, CHR 0x1E, CHR 0x85]"

fun lines_from :: "bool \<Rightarrow> string \<Rightarrow> string \<Rightarrow> string list" where
  "lines_from keep cur [] = (if cur = [] then [] else [cur])"
| "lines_from keep cur (c # cs) =
     (if c = CHR 0x0D \<and> cs \<noteq> [] \<and> hd cs = CHR 0x0A
      then (cur @ (if keep then [c, CHR 0x0A] else [])) # lines_from keep [] (tl cs)
      else if line_end c then (cur @ (if keep then [c] else [])) # lines_from keep [] cs
      else lines_from keep (cur @ [c]) cs)"

definition splitlines :: "bool \<Rightarrow> string \<Rightarrow> string list" where
  "splitlines keep = lines_from keep []"

lemmas line_defs [py_simps] = line_end_def splitlines_def py_words_def

lemma concat_lines_from: "concat (lines_from True cur s) = cur @ s"
proof (induction True cur s rule: lines_from.induct)
  case (2 cur c cs)
  then show ?case by (cases cs) auto
qed simp

lemma concat_splitlines: "concat (splitlines True s) = s"
  by (simp add: splitlines_def concat_lines_from)

lemma lines_from_nonempty: "l \<in> set (lines_from True cur s) \<Longrightarrow> l \<noteq> []"
  by (induction True cur s rule: lines_from.induct) (auto split: if_splits)

subsection \<open>Lists without repetition, kept in first-occurrence order\<close>

definition append_new :: "'a list \<Rightarrow> 'a \<Rightarrow> 'a list" where
  "append_new xs x = (if x \<in> set xs then xs else xs @ [x])"

lemma set_append_new [simp]: "set (append_new xs x) = insert x (set xs)"
  by (auto simp: append_new_def)

lemma distinct_append_new [simp]: "distinct xs \<Longrightarrow> distinct (append_new xs x)"
  by (auto simp: append_new_def)

lemma set_foldl_append_new [simp]: "set (foldl append_new xs ys) = set xs \<union> set ys"
  by (induction ys arbitrary: xs) auto

lemma distinct_foldl_append_new [simp]: "distinct xs \<Longrightarrow> distinct (foldl append_new xs ys)"
  by (induction ys arbitrary: xs) auto

subsection \<open>Dictionaries\<close>

lemma dict_get_set [simp]: "dict_get (dict_set k v d) k' = (if k' = k then Some v else dict_get d k')"
  by (simp add: update_conv')

lemma dict_get_filter:
  "distinct (map fst d) \<Longrightarrow>
   dict_get (filter P d) k = (case dict_get d k of None \<Rightarrow> None | Some v \<Rightarrow> if P (k, v) then Some v else None)"
  by (induction d) (force split: option.splits)+

lemma dict_values_set_new: "dict_get d k = None \<Longrightarrow> dict_set k v d = d @ [(k, v)]"
  by (induction d) (auto split: if_splits)

subsection \<open>POSIX paths (\<open>os.path\<close>)\<close>

definition upto_last :: "'a \<Rightarrow> 'a list \<Rightarrow> 'a list" where
  "upto_last c s = rev (dropWhile (\<lambda>x. x \<noteq> c) (rev s))"

definition after_last :: "'a \<Rightarrow> 'a list \<Rightarrow> 'a list" where
  "after_last c s = rev (takeWhile (\<lambda>x. x \<noteq> c) (rev s))"

definition strip_slashes :: "string \<Rightarrow> string" where
  "strip_slashes = strip_by (\<lambda>c. c = CHR ''/'')"

definition dirname :: "string \<Rightarrow> string" where
  "dirname p = (let head = upto_last (CHR ''/'') p
     in if list_ex (\<lambda>c. c \<noteq> CHR ''/'') head then rstrip_by (\<lambda>c. c = CHR ''/'') head else head)"

definition basename :: "string \<Rightarrow> string" where
  "basename = after_last (CHR ''/'')"

definition splitext :: "string \<Rightarrow> string \<times> string" where
  "splitext p = (let base = basename p; stem = butlast (upto_last (CHR ''.'') base)
     in if list_ex (\<lambda>c. c \<noteq> CHR ''.'') stem
        then (upto_last (CHR ''/'') p @ stem, CHR ''.'' # after_last (CHR ''.'') base)
        else (p, []))"

definition norm_comp :: "bool \<Rightarrow> string list \<Rightarrow> string \<Rightarrow> string list" where
  "norm_comp absolute comps c =
     (if c = [] \<or> c = ''.'' then comps
      else if c \<noteq> ''..'' \<or> (\<not> absolute \<and> comps = []) \<or> (comps \<noteq> [] \<and> last comps = ''..'')
      then comps @ [c]
      else butlast comps)"

definition normpath :: "string \<Rightarrow> string" where
  "normpath p =
     (if p = [] then ''.'' else
      let slashes = (if startswith p ''//'' \<and> \<not> startswith p ''///'' then ''//''
                     else if startswith p ''/'' then ''/'' else []);
          r = slashes @ join_with ''/'' (foldl (norm_comp (slashes \<noteq> [])) [] (split_on (CHR ''/'') p))
      in if r = [] then ''.'' else r)"

definition replace_char :: "'a \<Rightarrow> 'a \<Rightarrow> 'a list \<Rightarrow> 'a list" where
  "replace_char a b = map (\<lambda>c. if c = a then b else c)"

lemmas path_defs [py_simps] = upto_last_def after_last_def strip_slashes_def dirname_def basename_def
  splitext_def norm_comp_def normpath_def replace_char_def

lemma length_upto_last: "length (upto_last c s) \<le> length s"
  using length_dropWhile_le[of "\<lambda>x. x \<noteq> c" "rev s"] by (simp add: upto_last_def)

lemma length_rstrip_by: "length (rstrip_by p s) \<le> length s"
  using length_dropWhile_le[of p "rev s"] by (simp add: rstrip_by_def)

lemma length_strip_by: "length (strip_by p s) \<le> length s"
  using length_rstrip_by[of p "dropWhile p s"] length_dropWhile_le[of p s]
  by (simp add: strip_by_def lstrip_by_def)

lemma upto_last_append_after_last: "upto_last c s @ after_last c s = s"
  unfolding upto_last_def after_last_def by (metis rev_append rev_rev_ident takeWhile_dropWhile_id)

lemma last_rstrip_by: "rstrip_by p s \<noteq> [] \<Longrightarrow> \<not> p (last (rstrip_by p s))"
  unfolding rstrip_by_def using hd_dropWhile[of p "rev s"] by (simp add: last_rev)

lemma length_dirname: "length (dirname p) \<le> length p"
  using length_upto_last[of "CHR ''/''" p] length_rstrip_by[of _ "upto_last (CHR ''/'') p"]
  by (auto simp: dirname_def Let_def intro: order_trans)

text \<open>The parent of a path without a trailing slash is a shorter path.\<close>

lemma upto_last_shorter: "s \<noteq> [] \<Longrightarrow> last s \<noteq> c \<Longrightarrow> length (upto_last c s) < length s"
  by (cases s rule: rev_cases) (simp_all add: upto_last_def less_Suc_eq_le order_trans[OF length_dropWhile_le])

lemma dirname_shorter:
  assumes "strip_slashes p \<noteq> []"
  shows "length (dirname (strip_slashes p)) < length p"
proof -
  let ?s = "strip_slashes p"
  have "last ?s \<noteq> CHR ''/''"
    using assms last_rstrip_by unfolding strip_slashes_def strip_by_def by blast
  then have "length (upto_last (CHR ''/'') ?s) < length ?s"
    using assms by (rule upto_last_shorter[rotated])
  moreover have "length (dirname ?s) \<le> length (upto_last (CHR ''/'') ?s)"
    unfolding dirname_def Let_def by (simp add: length_rstrip_by)
  moreover have "length ?s \<le> length p" unfolding strip_slashes_def by (rule length_strip_by)
  ultimately show ?thesis by simp
qed

subsection \<open>Dictionaries of lists (\<open>setdefault(k, []).append\<close>)\<close>

definition dict_list :: "('k, 'v list) dict \<Rightarrow> 'k \<Rightarrow> 'v list" where
  "dict_list d k = (case dict_get d k of None \<Rightarrow> [] | Some vs \<Rightarrow> vs)"

definition dict_extend :: "'k \<Rightarrow> 'v list \<Rightarrow> ('k, 'v list) dict \<Rightarrow> ('k, 'v list) dict" where
  "dict_extend k vs d = dict_set k (dict_list d k @ vs) d"

abbreviation dict_push :: "'k \<Rightarrow> 'v \<Rightarrow> ('k, 'v list) dict \<Rightarrow> ('k, 'v list) dict" where
  "dict_push k v \<equiv> dict_extend k [v]"

lemma dict_list_extend [simp]:
  "dict_list (dict_extend k vs d) k' = (if k' = k then dict_list d k @ vs else dict_list d k')"
  by (simp add: dict_list_def dict_extend_def)

text \<open>A property of every value of every list of the dictionary.\<close>

definition dict_all :: "('v \<Rightarrow> bool) \<Rightarrow> ('k, 'v list) dict \<Rightarrow> bool" where
  "dict_all P d \<longleftrightarrow> list_all (\<lambda>(_, vs). list_all P vs) d"

lemma dict_all_Nil [simp]: "dict_all P []"
  by (simp add: dict_all_def)

lemma dict_all_get: "dict_all P d \<Longrightarrow> dict_get d k = Some vs \<Longrightarrow> list_all P vs"
  by (auto simp: dict_all_def list_all_iff dest!: map_of_SomeD)

lemma dict_all_list: "dict_all P d \<Longrightarrow> list_all P (dict_list d k)"
  by (auto simp: dict_list_def dict_all_get split: option.split)

lemma set_update: "set (AList.update k v d) \<subseteq> insert (k, v) (set d)"
  by (induction d) auto

lemma dict_all_extend [simp]: "dict_all P d \<Longrightarrow> list_all P vs \<Longrightarrow> dict_all P (dict_extend k vs d)"
  using set_update[of k "dict_list d k @ vs" d] dict_all_list[of P d k]
  by (fastforce simp: dict_all_def dict_extend_def list_all_iff)

lemma dict_all_foldl_extend:
  "dict_all P d \<Longrightarrow> dict_all P kvs \<Longrightarrow> dict_all P (foldl (\<lambda>d (k, vs). dict_extend k vs d) d kvs)"
  unfolding dict_all_def[of P kvs] by (induction kvs arbitrary: d) auto

subsection \<open>Searching a word in a text\<close>

text \<open>
  \<open>re.search(rf"(?<![pre]){re.escape(p)}(?![post])", s)\<close>: an occurrence of \<open>p\<close> whose neighbours are
  not in the two classes; \<open>prev\<close> is the character before the current position.
\<close>

fun mentioned_from :: "char option \<Rightarrow> (char \<Rightarrow> bool) \<Rightarrow> (char \<Rightarrow> bool) \<Rightarrow> string \<Rightarrow> string \<Rightarrow> bool" where
  "mentioned_from prev pre post p s =
     (((case prev of None \<Rightarrow> True | Some c \<Rightarrow> \<not> pre c) \<and> startswith s p \<and>
       (case drop (length p) s of [] \<Rightarrow> True | c # _ \<Rightarrow> \<not> post c))
      \<or> (case s of [] \<Rightarrow> False | c # cs \<Rightarrow> mentioned_from (Some c) pre post p cs))"

declare mentioned_from.simps [simp del]

definition mentioned :: "(char \<Rightarrow> bool) \<Rightarrow> (char \<Rightarrow> bool) \<Rightarrow> string \<Rightarrow> string \<Rightarrow> bool" where
  "mentioned = mentioned_from None"

subsection \<open>Invariants of folds\<close>

lemma foldl_invariant:
  "P s \<Longrightarrow> (\<And>s x. P s \<Longrightarrow> x \<in> set xs \<Longrightarrow> P (f s x)) \<Longrightarrow> P (foldl f s xs)"
  by (induction xs arbitrary: s) auto

subsection \<open>\<open>find\<close> and \<open>in\<close>\<close>

fun find_char :: "char \<Rightarrow> string \<Rightarrow> nat option" where
  "find_char c [] = None"
| "find_char c (x # xs) = (if x = c then Some 0 else map_option Suc (find_char c xs))"

fun contains_sub :: "string \<Rightarrow> string \<Rightarrow> bool" where
  "contains_sub p [] = (p = [])"
| "contains_sub p (c # cs) = (startswith (c # cs) p \<or> contains_sub p cs)"

subsection \<open>Decimal numerals\<close>

definition digit_char :: "nat \<Rightarrow> char" where
  "digit_char d = char_of (48 + d)"

fun show_nat :: "nat \<Rightarrow> string" where
  "show_nat n = (if n < 10 then [digit_char n] else show_nat (n div 10) @ [digit_char (n mod 10)])"

declare show_nat.simps [simp del]

end
