(* ===== verification/Kbuild_Conditions.thy ===== *)
theory Kbuild_Conditions
  imports Prelude_KI
begin

section \<open>Build conditions of Kbuild files (parser/kbuild\_conditions.py)\<close>

text \<open>
  A condition is a tristate expression in the JSON form of the module: a bare string is a constant
  (\<open>''y''\<close>, \<open>''m''\<close>, \<open>''n''\<close>, \<open>''?''\<close>), a one-key dict is one of the constructors below.  The
  folding constructors \<open>and_\<close>, \<open>or_\<close>, \<open>not_\<close> (\<open>kb_and\<close>, \<open>kb_or\<close>, \<open>kb_not\<close>), the evaluator, the stack of
  \<open>ifeq\<close>/\<open>else\<close>/\<open>endif\<close> frames, and the expansion of make references are the operations
  modelled here.  Values live in the chain \<open>n < ? < m < y\<close>.
\<close>

subsection \<open>Expressions\<close>

datatype bpart = Lit string | Val string

datatype bexpr =
    BConst string
  | BSym string
  | BDef string
  | BEq "bpart list" "bpart list"
  | BNot bexpr
  | BAnd "bexpr list"
  | BOr "bexpr list"

abbreviation Y :: bexpr where "Y \<equiv> BConst ''y''"
abbreviation M :: bexpr where "M \<equiv> BConst ''m''"
abbreviation N :: bexpr where "N \<equiv> BConst ''n''"
abbreviation UNKNOWN :: bexpr where "UNKNOWN \<equiv> BConst ''?''"

text \<open>The loops of \<open>and_\<close> and \<open>or_\<close>; \<open>None\<close> is the early return of the absorbing constant.\<close>

definition absorb_and :: "bexpr list \<Rightarrow> bexpr \<Rightarrow> bexpr list" where
  "absorb_and terms e = (case e of BAnd ts \<Rightarrow> foldl append_new terms ts | _ \<Rightarrow> append_new terms e)"

fun and_loop :: "bexpr list \<Rightarrow> bexpr list \<Rightarrow> bexpr list option" where
  "and_loop terms [] = Some terms"
| "and_loop terms (e # es) =
     (if e = N then None
      else if e = Y then and_loop terms es
      else and_loop (absorb_and terms e) es)"

definition kb_and :: "bexpr list \<Rightarrow> bexpr" where
  "kb_and exprs = (case and_loop [] exprs of
       None \<Rightarrow> N
     | Some [] \<Rightarrow> Y
     | Some [t] \<Rightarrow> t
     | Some terms \<Rightarrow> BAnd terms)"

definition absorb_or :: "bexpr list \<Rightarrow> bexpr \<Rightarrow> bexpr list" where
  "absorb_or terms e = (case e of BOr ts \<Rightarrow> foldl append_new terms ts | _ \<Rightarrow> append_new terms e)"

fun or_loop :: "bexpr list \<Rightarrow> bexpr list \<Rightarrow> bexpr list option" where
  "or_loop terms [] = Some terms"
| "or_loop terms (e # es) =
     (if e = Y then None
      else if e = N then or_loop terms es
      else or_loop (absorb_or terms e) es)"

definition kb_or :: "bexpr list \<Rightarrow> bexpr" where
  "kb_or exprs = (case or_loop [] exprs of
       None \<Rightarrow> Y
     | Some [] \<Rightarrow> N
     | Some [t] \<Rightarrow> t
     | Some terms \<Rightarrow> BOr terms)"

definition kb_not :: "bexpr \<Rightarrow> bexpr" where
  "kb_not e = (if e = Y \<or> e = M then N else if e = N then Y else if e = UNKNOWN then UNKNOWN else BNot e)"

subsection \<open>Evaluation\<close>

type_synonym valuation = "string \<Rightarrow> string option"

definition raw :: "valuation \<Rightarrow> string \<Rightarrow> string option" where
  "raw value_of s = map_option (\<lambda>v. if v = ''n'' then '''' else v) (value_of s)"

fun part_value :: "valuation \<Rightarrow> bpart \<Rightarrow> string option" where
  "part_value value_of (Lit s) = Some s"
| "part_value value_of (Val x) = raw value_of x"

fun side_value :: "valuation \<Rightarrow> bpart list \<Rightarrow> string option" where
  "side_value value_of [] = Some []"
| "side_value value_of (p # ps) =
     (case part_value value_of p of
        None \<Rightarrow> None
      | Some v \<Rightarrow> map_option (\<lambda>r. v @ r) (side_value value_of ps))"

definition tri_and :: "string list \<Rightarrow> string" where
  "tri_and vals = (if ''n'' \<in> set vals then ''n''
     else if ''?'' \<in> set vals then ''?''
     else if ''m'' \<in> set vals then ''m'' else ''y'')"

definition tri_or :: "string list \<Rightarrow> string" where
  "tri_or vals = (if ''y'' \<in> set vals then ''y''
     else if ''m'' \<in> set vals then ''m''
     else if ''?'' \<in> set vals then ''?'' else ''n'')"

definition tri_not :: "string \<Rightarrow> string" where
  "tri_not v = (if v = ''?'' then ''?'' else if v = ''y'' \<or> v = ''m'' then ''n'' else ''y'')"

fun evaluate :: "valuation \<Rightarrow> bexpr \<Rightarrow> string" where
  "evaluate value_of (BConst s) = s"
| "evaluate value_of (BSym x) =
     (case value_of x of None \<Rightarrow> ''?'' | Some v \<Rightarrow> if v = ''y'' \<or> v = ''m'' then v else ''n'')"
| "evaluate value_of (BDef x) =
     (case raw value_of x of None \<Rightarrow> ''?'' | Some v \<Rightarrow> if v \<noteq> [] then ''y'' else ''n'')"
| "evaluate value_of (BEq a b) =
     (case side_value value_of a of
        None \<Rightarrow> ''?''
      | Some sa \<Rightarrow> (case side_value value_of b of
            None \<Rightarrow> ''?''
          | Some sb \<Rightarrow> if py_strip sa = py_strip sb then ''y'' else ''n''))"
| "evaluate value_of (BNot e) = tri_not (evaluate value_of e)"
| "evaluate value_of (BAnd es) = tri_and (map (evaluate value_of) es)"
| "evaluate value_of (BOr es) = tri_or (map (evaluate value_of) es)"

text \<open>The constants an expression may hold: the four of the module.\<close>

definition tri_value :: "string \<Rightarrow> bool" where
  "tri_value v \<longleftrightarrow> v \<in> set [''n'', ''?'', ''m'', ''y'']"

fun wf_bexpr :: "bexpr \<Rightarrow> bool" where
  "wf_bexpr (BConst s) = tri_value s"
| "wf_bexpr (BNot e) = wf_bexpr e"
| "wf_bexpr (BAnd es) = list_all wf_bexpr es"
| "wf_bexpr (BOr es) = list_all wf_bexpr es"
| "wf_bexpr _ = True"

lemma tri_value_simps [simp]:
  "tri_value ''n''" "tri_value ''?''" "tri_value ''m''" "tri_value ''y''"
  by (simp_all add: tri_value_def)

lemma tri_value_ops [simp]: "tri_value (tri_and vs)" "tri_value (tri_or vs)" "tri_value (tri_not v)"
  by (simp_all add: tri_and_def tri_or_def tri_not_def)

lemma evaluate_tri_value [simp]: "wf_bexpr e \<Longrightarrow> tri_value (evaluate value_of e)"
  by (cases e) (auto split: option.splits)

subsection \<open>The folding constructors do not change the value\<close>

lemma tri_and_set: "set xs = set ys \<Longrightarrow> tri_and xs = tri_and ys"
  by (simp add: tri_and_def)

lemma tri_or_set: "set xs = set ys \<Longrightarrow> tri_or xs = tri_or ys"
  by (simp add: tri_or_def)

lemma tri_and_drop_y: "tri_and (xs @ ''y'' # zs) = tri_and (xs @ zs)"
  by (simp add: tri_and_def)

lemma tri_or_drop_n: "tri_or (xs @ ''n'' # zs) = tri_or (xs @ zs)"
  by (simp add: tri_or_def)

lemma tri_and_flatten: "tri_and (xs @ tri_and ys # zs) = tri_and (xs @ ys @ zs)"
  by (simp add: tri_and_def)

lemma tri_or_flatten: "tri_or (xs @ tri_or ys # zs) = tri_or (xs @ ys @ zs)"
  by (simp add: tri_or_def)

lemma tri_single: "tri_value v \<Longrightarrow> tri_and [v] = v" "tri_value v \<Longrightarrow> tri_or [v] = v"
  by (auto simp: tri_and_def tri_or_def tri_value_def)

lemma absorb_and_value:
  "tri_and (map (evaluate v) (absorb_and terms e @ es)) = tri_and (map (evaluate v) (terms @ e # es))"
proof (cases "\<exists>ts. e = BAnd ts")
  case True
  then obtain ts where e: "e = BAnd ts" by blast
  have "tri_and (map (evaluate v) (terms @ e # es)) =
      tri_and (map (evaluate v) terms @ map (evaluate v) ts @ map (evaluate v) es)"
    using e tri_and_flatten by simp
  also have "\<dots> = tri_and (map (evaluate v) (absorb_and terms e @ es))"
    by (rule tri_and_set) (auto simp: absorb_and_def e)
  finally show ?thesis by simp
next
  case False
  then have "absorb_and terms e = append_new terms e"
    by (auto simp: absorb_and_def split: bexpr.splits)
  then show ?thesis by (auto intro!: tri_and_set)
qed

lemma absorb_or_value:
  "tri_or (map (evaluate v) (absorb_or terms e @ es)) = tri_or (map (evaluate v) (terms @ e # es))"
proof (cases "\<exists>ts. e = BOr ts")
  case True
  then obtain ts where e: "e = BOr ts" by blast
  have "tri_or (map (evaluate v) (terms @ e # es)) =
      tri_or (map (evaluate v) terms @ map (evaluate v) ts @ map (evaluate v) es)"
    using e tri_or_flatten by simp
  also have "\<dots> = tri_or (map (evaluate v) (absorb_or terms e @ es))"
    by (rule tri_or_set) (auto simp: absorb_or_def e)
  finally show ?thesis by simp
next
  case False
  then have "absorb_or terms e = append_new terms e"
    by (auto simp: absorb_or_def split: bexpr.splits)
  then show ?thesis by (auto intro!: tri_or_set)
qed

lemma and_loop_value:
  "tri_and (map (evaluate v) (terms @ es)) =
   (case and_loop terms es of None \<Rightarrow> ''n'' | Some ts \<Rightarrow> tri_and (map (evaluate v) ts))"
proof (induction es arbitrary: terms)
  case (Cons e es)
  consider "e = N" | "e = Y" | "e \<noteq> N" "e \<noteq> Y" by blast
  then show ?case
  proof cases
    case 1
    then show ?thesis by (simp add: tri_and_def)
  next
    case 2
    then show ?thesis using Cons[of terms] by (simp add: tri_and_drop_y)
  next
    case 3
    then show ?thesis using Cons[of "absorb_and terms e"] absorb_and_value[of v terms e es] by simp
  qed
qed simp

lemma or_loop_value:
  "tri_or (map (evaluate v) (terms @ es)) =
   (case or_loop terms es of None \<Rightarrow> ''y'' | Some ts \<Rightarrow> tri_or (map (evaluate v) ts))"
proof (induction es arbitrary: terms)
  case (Cons e es)
  consider "e = Y" | "e = N" | "e \<noteq> N" "e \<noteq> Y" by blast
  then show ?case
  proof cases
    case 1
    then show ?thesis by (simp add: tri_or_def)
  next
    case 2
    then show ?thesis using Cons[of terms] by (simp add: tri_or_drop_n)
  next
    case 3
    then show ?thesis using Cons[of "absorb_or terms e"] absorb_or_value[of v terms e es] by simp
  qed
qed simp

lemma absorb_wf:
  "list_all wf_bexpr terms \<Longrightarrow> wf_bexpr e \<Longrightarrow> list_all wf_bexpr (absorb_and terms e)"
  "list_all wf_bexpr terms \<Longrightarrow> wf_bexpr e \<Longrightarrow> list_all wf_bexpr (absorb_or terms e)"
  by (cases e; auto simp: absorb_and_def absorb_or_def list_all_iff)+

lemma and_loop_wf: "list_all wf_bexpr terms \<Longrightarrow> list_all wf_bexpr es \<Longrightarrow>
    and_loop terms es = Some ts \<Longrightarrow> list_all wf_bexpr ts"
proof (induction es arbitrary: terms)
  case (Cons e es)
  then show ?case using Cons.IH[of "absorb_and terms e"] by (simp add: absorb_wf split: if_splits)
qed simp

lemma or_loop_wf: "list_all wf_bexpr terms \<Longrightarrow> list_all wf_bexpr es \<Longrightarrow>
    or_loop terms es = Some ts \<Longrightarrow> list_all wf_bexpr ts"
proof (induction es arbitrary: terms)
  case (Cons e es)
  then show ?case using Cons.IH[of "absorb_or terms e"] by (simp add: absorb_wf split: if_splits)
qed simp

lemma kb_and_wf [simp]: "list_all wf_bexpr es \<Longrightarrow> wf_bexpr (kb_and es)"
  using and_loop_wf[of "[]" es] by (auto simp: kb_and_def split: option.splits list.splits)

lemma kb_or_wf [simp]: "list_all wf_bexpr es \<Longrightarrow> wf_bexpr (kb_or es)"
  using or_loop_wf[of "[]" es] by (auto simp: kb_or_def split: option.splits list.splits)

lemma kb_not_wf [simp]: "wf_bexpr e \<Longrightarrow> wf_bexpr (kb_not e)"
  by (simp add: kb_not_def)

lemma evaluate_kb_and:
  assumes "list_all wf_bexpr es"
  shows "evaluate v (kb_and es) = tri_and (map (evaluate v) es)"
proof (cases "and_loop [] es")
  case None
  then show ?thesis using and_loop_value[of v "[]" es] by (simp add: kb_and_def)
next
  case (Some ts)
  then have "list_all wf_bexpr ts" using assms and_loop_wf[of "[]" es] by simp
  with Some show ?thesis using and_loop_value[of v "[]" es]
    by (auto simp: kb_and_def tri_single tri_and_def[of "[]"] split: list.splits)
qed

lemma evaluate_kb_or:
  assumes "list_all wf_bexpr es"
  shows "evaluate v (kb_or es) = tri_or (map (evaluate v) es)"
proof (cases "or_loop [] es")
  case None
  then show ?thesis using or_loop_value[of v "[]" es] by (simp add: kb_or_def)
next
  case (Some ts)
  then have "list_all wf_bexpr ts" using assms or_loop_wf[of "[]" es] by simp
  with Some show ?thesis using or_loop_value[of v "[]" es]
    by (auto simp: kb_or_def tri_single tri_or_def[of "[]"] split: list.splits)
qed

lemma evaluate_kb_not: "evaluate v (kb_not e) = tri_not (evaluate v e)"
  by (auto simp: kb_not_def tri_not_def)

subsection \<open>Unknown values: a definite answer survives learning more\<close>

text \<open>
  \<open>refines u w\<close>: \<open>w\<close> is a possible value once more symbols are known, where \<open>u\<close> was computed
  without them.  A value \<open>m\<close> may still grow to \<open>y\<close>: \<open>or\<close> answers \<open>m\<close> as soon as one operand
  is \<open>m\<close>, before it looks for unknown operands.
\<close>

definition refines :: "string \<Rightarrow> string \<Rightarrow> bool" where
  "refines u w \<longleftrightarrow> u = ''?'' \<or> u = w \<or> (u = ''m'' \<and> w = ''y'')"

lemma refines_refl [simp]: "refines u u" "refines ''?'' w"
  by (simp_all add: refines_def)

lemma refines_not: "refines u w \<Longrightarrow> refines (tri_not u) (tri_not w)"
  by (auto simp: refines_def tri_not_def)

lemma refines_cases:
  assumes "tri_value u" "refines u w"
  obtains "u = ''n''" "w = ''n''" | "u = ''?''" | "u = ''m''" "w = ''m''" | "u = ''m''" "w = ''y''"
    | "u = ''y''" "w = ''y''"
  using assms by (auto simp: refines_def tri_value_def)

text \<open>Both operations as left folds of their binary forms, on which refinement is a case analysis.\<close>

lemma tri_and_Cons: "tri_and (a # xs) = tri_and [a, tri_and xs]"
  using tri_and_flatten[of "[a]" xs "[]"] by simp

lemma tri_or_Cons: "tri_or (a # xs) = tri_or [a, tri_or xs]"
  using tri_or_flatten[of "[a]" xs "[]"] by simp

lemma refines_binary:
  assumes "tri_value u" "refines u w" "tri_value u'" "refines u' w'"
  shows "refines (tri_and [u, u']) (tri_and [w, w'])" "refines (tri_or [u, u']) (tri_or [w, w'])"
  by (rule refines_cases[OF assms(1,2)]; rule refines_cases[OF assms(3,4)];
      simp add: tri_and_def tri_or_def refines_def)+

lemma refines_map:
  assumes "\<forall>e \<in> set es. tri_value (f e) \<and> refines (f e) (g e)"
  shows "refines (tri_and (map f es)) (tri_and (map g es))"
    and "refines (tri_or (map f es)) (tri_or (map g es))"
  using assms
proof (induction es)
  case (Cons e es)
  {
    case 1
    then show ?case using Cons.IH refines_binary(1)[of "f e" "g e" "tri_and (map f es)"]
      by (subst (1 2) list.map(2), subst (1 2) tri_and_Cons) simp
  next
    case 2
    then show ?case using Cons.IH refines_binary(2)[of "f e" "g e" "tri_or (map f es)"]
      by (subst (1 2) list.map(2), subst (1 2) tri_or_Cons) simp
  }
qed (simp_all add: tri_and_def tri_or_def)

lemma map_le_known: "v \<subseteq>\<^sub>m w \<Longrightarrow> v x = Some s \<Longrightarrow> w x = Some s"
  by (metis domI map_le_def)

lemma raw_extend: "v \<subseteq>\<^sub>m w \<Longrightarrow> raw v x = Some s \<Longrightarrow> raw w x = Some s"
  unfolding raw_def by (cases "v x") (simp_all add: map_le_known)

lemma side_value_extend: "v \<subseteq>\<^sub>m w \<Longrightarrow> side_value v ps = Some s \<Longrightarrow> side_value w ps = Some s"
proof (induction ps arbitrary: s)
  case (Cons p ps)
  then show ?case by (cases p) (auto split: option.splits dest: raw_extend)
qed simp

lemma evaluate_refines: "v \<subseteq>\<^sub>m w \<Longrightarrow> wf_bexpr e \<Longrightarrow> refines (evaluate v e) (evaluate w e)"
proof (induction e)
  case (BSym x)
  then show ?case by (cases "v x") (simp_all add: map_le_known)
next
  case (BDef x)
  then show ?case by (cases "raw v x") (simp_all add: raw_extend)
next
  case (BEq a b)
  then show ?case
    by (cases "side_value v a"; cases "side_value v b") (simp_all add: side_value_extend)
next
  case (BNot e)
  then show ?case by (simp add: refines_not)
next
  case (BAnd es)
  then show ?case by (simp add: list_all_iff refines_map)
next
  case (BOr es)
  then show ?case by (simp add: list_all_iff refines_map)
qed simp

subsection \<open>Conditional frames (\<open>_CondStack\<close>)\<close>

fun has_unknown :: "bexpr \<Rightarrow> bool" where
  "has_unknown (BConst s) = (s = ''?'')"
| "has_unknown (BNot e) = has_unknown e"
| "has_unknown (BAnd es) = list_ex has_unknown es"
| "has_unknown (BOr es) = list_ex has_unknown es"
| "has_unknown _ = False"

record cond_stack =
  frames :: "bexpr list list"
  transparent_unknown :: bool

definition frame_current :: "bexpr list \<Rightarrow> bexpr" where
  "frame_current branches = kb_and (map kb_not (butlast branches) @ [last branches])"

definition current :: "cond_stack \<Rightarrow> bexpr" where
  "current st = kb_and (map frame_current
     (filter (\<lambda>branches. \<not> (transparent_unknown st \<and> list_ex has_unknown branches)) (frames st)))"

definition push :: "cond_stack \<Rightarrow> bexpr \<Rightarrow> cond_stack" where
  "push st cond = st\<lparr>frames := frames st @ [[cond]]\<rparr>"

definition else_branch :: "cond_stack \<Rightarrow> bexpr \<Rightarrow> cond_stack" where
  "else_branch st cond = (if frames st \<noteq> []
     then st\<lparr>frames := butlast (frames st) @ [last (frames st) @ [cond]]\<rparr> else st)"

definition pop :: "cond_stack \<Rightarrow> cond_stack" where
  "pop st = (if frames st \<noteq> [] then st\<lparr>frames := butlast (frames st)\<rparr> else st)"

definition wf_stack :: "cond_stack \<Rightarrow> bool" where
  "wf_stack st \<longleftrightarrow> (\<forall>bs \<in> set (frames st). bs \<noteq> [] \<and> list_all wf_bexpr bs)"

lemma wf_stack_ops [intro]:
  "wf_stack st \<Longrightarrow> wf_bexpr c \<Longrightarrow> wf_stack (push st c)"
  "wf_stack st \<Longrightarrow> wf_bexpr c \<Longrightarrow> wf_stack (else_branch st c)"
  "wf_stack st \<Longrightarrow> wf_stack (pop st)"
  by (auto simp: wf_stack_def push_def else_branch_def pop_def in_set_butlastD
      dest!: in_set_butlastD)

lemma pop_push [simp]: "pop (push st c) = st"
  by (simp add: push_def pop_def)

lemma frame_current_wf: "bs \<noteq> [] \<Longrightarrow> list_all wf_bexpr bs \<Longrightarrow> wf_bexpr (frame_current bs)"
  unfolding frame_current_def list_all_iff
  by (rule kb_and_wf) (auto simp: list_all_iff intro!: kb_not_wf dest!: in_set_butlastD)

lemma current_wf: "wf_stack st \<Longrightarrow> wf_bexpr (current st)"
  by (auto simp: current_def wf_stack_def list_all_iff frame_current_wf intro!: kb_and_wf)

definition frame_value :: "valuation \<Rightarrow> bexpr list \<Rightarrow> string" where
  "frame_value v bs = tri_and (map (\<lambda>b. tri_not (evaluate v b)) (butlast bs) @ [evaluate v (last bs)])"

lemma evaluate_frame_current:
  "bs \<noteq> [] \<Longrightarrow> list_all wf_bexpr bs \<Longrightarrow> evaluate v (frame_current bs) = frame_value v bs"
  unfolding frame_current_def frame_value_def
  by (subst evaluate_kb_and)
    (auto simp: list_all_iff o_def evaluate_kb_not dest: in_set_butlastD intro: kb_not_wf)

lemma evaluate_current:
  assumes "wf_stack st"
  shows "evaluate v (current st) = tri_and (map (frame_value v)
     (filter (\<lambda>bs. \<not> (transparent_unknown st \<and> list_ex has_unknown bs)) (frames st)))"
proof -
  let ?fs = "filter (\<lambda>bs. \<not> (transparent_unknown st \<and> list_ex has_unknown bs)) (frames st)"
  have "list_all wf_bexpr (map frame_current ?fs)"
    using assms by (auto simp: wf_stack_def list_all_iff frame_current_wf)
  moreover have "map (evaluate v) (map frame_current ?fs) = map (frame_value v) ?fs"
    using assms by (simp add: wf_stack_def evaluate_frame_current)
  ultimately show ?thesis unfolding current_def by (simp only: evaluate_kb_and)
qed

lemma tri_and_built: "tri_and vs \<in> {''y'', ''m''} \<Longrightarrow> u \<in> set vs \<Longrightarrow> u \<noteq> ''n'' \<and> u \<noteq> ''?''"
  by (auto simp: tri_and_def split: if_splits)

lemma tri_not_values:
  "tri_not u = ''n'' \<longleftrightarrow> u = ''y'' \<or> u = ''m''" "tri_not u = ''y'' \<longleftrightarrow> u \<noteq> ''?'' \<and> u \<noteq> ''y'' \<and> u \<noteq> ''m''"
  by (auto simp: tri_not_def)

text \<open>Two branches of one frame are never compiled together.\<close>

lemma frame_value_exclusive:
  assumes "bs \<noteq> []" "cs \<noteq> []" "list_all wf_bexpr bs" "frame_value v bs \<in> {''y'', ''m''}"
  shows "frame_value v (bs @ cs) = ''n''"
proof -
  have "evaluate v (last bs) \<in> set (map (\<lambda>b. tri_not (evaluate v b)) (butlast bs) @ [evaluate v (last bs)])"
    by simp
  with assms(4) have "evaluate v (last bs) \<noteq> ''n'' \<and> evaluate v (last bs) \<noteq> ''?''"
    unfolding frame_value_def by (rule tri_and_built)
  moreover have "tri_value (evaluate v (last bs))"
    using assms(1,3) by (simp add: list_all_iff)
  ultimately have "tri_not (evaluate v (last bs)) = ''n''"
    by (auto simp: tri_value_def tri_not_def)
  moreover have "last bs \<in> set (butlast (bs @ cs))"
    using assms(1,2) by (simp add: butlast_append)
  ultimately show ?thesis
    unfolding frame_value_def tri_and_def by (metis UnCI image_eqI list.set_map set_append)
qed

text \<open>With definite conditions and a final \<open>else\<close>, some branch is.\<close>

lemma frame_value_exhaustive:
  assumes "list_all wf_bexpr bs" "\<forall>b \<in> set bs. evaluate v b \<noteq> ''?''"
  shows "\<exists>i < Suc (length bs). frame_value v (take (Suc i) (bs @ [Y])) \<in> {''y'', ''m''}"
  using assms
proof (induction bs rule: rev_induct)
  case Nil
  then show ?case by (simp add: frame_value_def tri_and_def)
next
  case (snoc b bs)
  then have "\<exists>i < Suc (length bs). frame_value v (take (Suc i) (bs @ [Y])) \<in> {''y'', ''m''}"
    by (simp add: list_all_iff)
  then obtain i where i: "i < Suc (length bs)"
    and fv: "frame_value v (take (Suc i) (bs @ [Y])) \<in> {''y'', ''m''}" by blast
  show ?case
  proof (cases "i < length bs")
    case True
    then have "take (Suc i) ((bs @ [b]) @ [Y]) = take (Suc i) (bs @ [Y])" by simp
    with fv True show ?thesis by (intro exI[of _ i]) auto
  next
    case False
    with i have i: "i = length bs" by simp
    have all: "tri_not (evaluate v c) = ''y''" if "c \<in> set bs" for c
    proof -
      have "tri_not (evaluate v c) \<noteq> ''n''" "tri_not (evaluate v c) \<noteq> ''?''"
        using fv that tri_and_built[of "map (\<lambda>b. tri_not (evaluate v b)) bs @ [''y'']" "tri_not (evaluate v c)"]
        by (auto simp: i frame_value_def)
      then show ?thesis by (auto simp: tri_not_def split: if_splits)
    qed
    have val: "tri_value (evaluate v b)" "evaluate v b \<noteq> ''?''"
      using snoc.prems by (auto simp: list_all_iff)
    show ?thesis
    proof (cases "evaluate v b = ''n''")
      case True
      then have "frame_value v (bs @ [b] @ [Y]) = ''y''"
        using all by (auto simp: frame_value_def tri_and_def butlast_append tri_not_def)
      then show ?thesis by (intro exI[of _ "Suc (length bs)"]) simp
    next
      case False
      then have "frame_value v (bs @ [b]) \<in> {''y'', ''m''}"
        using all val by (auto simp: frame_value_def tri_and_def tri_value_def)
      then show ?thesis by (intro exI[of _ "length bs"]) simp
    qed
  qed
qed

subsection \<open>Words, logical lines and make references\<close>

text \<open>
  \<open>_split_words\<close>: \<open>depth\<close> counts parentheses once a \<open>$(\<close> is open, and white space inside them
  does not end the word.
\<close>

fun split_words_from :: "string \<Rightarrow> nat \<Rightarrow> string \<Rightarrow> string list" where
  "split_words_from cur depth [] = (if cur = [] then [] else [cur])"
| "split_words_from cur depth (ch # rest) =
     (let depth' = (if (ch = CHR ''('' \<and> endswith cur ''$'') \<or> (ch = CHR ''('' \<and> depth \<noteq> 0) then depth + 1
                    else if ch = CHR '')'' \<and> depth \<noteq> 0 then depth - 1 else depth)
      in if py_space ch \<and> depth' = 0
         then (if cur = [] then split_words_from [] depth' rest else cur # split_words_from [] depth' rest)
         else split_words_from (cur @ [ch]) depth' rest)"

definition split_words :: "string \<Rightarrow> string list" where
  "split_words = split_words_from [] 0"

text \<open>\<open>_join_lines\<close>: \<open>buf\<close> holds the pieces of a continued line, \<open>start\<close> its first line number.\<close>

fun join_lines_from :: "string list \<Rightarrow> nat \<Rightarrow> nat \<Rightarrow> string list \<Rightarrow> (nat \<times> string) list" where
  "join_lines_from buf start idx [] =
     (if buf = [] then [] else [(start, py_strip (join_with '' '' buf))])"
| "join_lines_from buf start idx (line # rest) =
     (let start' = (if buf = [] then idx else start); text = rstrip_by py_space line
      in if endswith text [CHR 0x5C] then join_lines_from (buf @ [butlast text]) start' (idx + 1) rest
         else let joined = join_with '' '' (buf @ [text]);
                  cut = (case find_char (CHR ''#'') joined of None \<Rightarrow> joined | Some h \<Rightarrow> take h joined);
                  line' = py_strip cut
              in (if line' = [] then [] else [(start', line')]) @ join_lines_from [] start' (idx + 1) rest)"

definition join_lines :: "string \<Rightarrow> (nat \<times> string) list" where
  "join_lines content = join_lines_from [] 1 1 (splitlines False content)"

text \<open>A match of \<open>\$\(([A-Za-z0-9_]+)\)\<close> at the start of a text: the name and what follows.\<close>

definition ref_char :: "char \<Rightarrow> bool" where
  "ref_char c \<longleftrightarrow> ascii_alnum c \<or> c = CHR ''_''"

definition ref_at :: "string \<Rightarrow> (string \<times> string) option" where
  "ref_at s = (if startswith s ''$('' then
       (let name = takeWhile ref_char (drop 2 s); rest = dropWhile ref_char (drop 2 s)
        in if name \<noteq> [] \<and> startswith rest '')'' then Some (name, tl rest) else None)
     else None)"

lemma ref_at_decreases: "ref_at s = Some (n, r) \<Longrightarrow> length r < length s"
proof -
  assume a: "ref_at s = Some (n, r)"
  then have s: "s \<noteq> []" and r: "r = tl (dropWhile ref_char (drop 2 s))"
    by (auto simp: ref_at_def Let_def startswith_def split: if_splits)
  have "length (dropWhile ref_char (drop 2 s)) \<le> length (drop 2 s)"
    by (rule length_dropWhile_le)
  with s r show ?thesis by (cases s) auto
qed

text \<open>\<open>finditer\<close> of that pattern: (literal before, name) per match, then the tail.\<close>

function refs_from :: "string \<Rightarrow> string \<Rightarrow> (string \<times> string) list \<times> string" where
  "refs_from lit s = (case ref_at s of
       Some (name, rest) \<Rightarrow> (let (ms, tail) = refs_from [] rest in ((lit, name) # ms, tail))
     | None \<Rightarrow> (case s of [] \<Rightarrow> ([], lit) | c # cs \<Rightarrow> refs_from (lit @ [c]) cs))"
  by pat_completeness auto
termination
  by (relation "measure (\<lambda>(lit, s). length s)") (auto dest: ref_at_decreases)

declare refs_from.simps [simp del]

definition var_refs :: "string \<Rightarrow> (string \<times> string) list \<times> string" where
  "var_refs = refs_from []"

type_synonym alternatives = "(string \<times> bexpr) list"
type_synonym variables = "string \<Rightarrow> alternatives option option"

text \<open>
  Variables assigned in the file (\<open>local\<close>: \<open>Some None\<close> is one too complex to follow) shadow those of the
  environment.
\<close>

definition alternatives_of :: "(string \<Rightarrow> alternatives option) \<Rightarrow> variables \<Rightarrow> string \<Rightarrow> alternatives option" where
  "alternatives_of env local name = (case local name of Some a \<Rightarrow> a | None \<Rightarrow> env name)"

definition MAX_ALTERNATIVES :: nat where "MAX_ALTERNATIVES = 4"

definition expand_step :: "alternatives \<Rightarrow> string \<Rightarrow> alternatives \<Rightarrow> alternatives" where
  "expand_step results literal alts =
     filter (\<lambda>(s, c). c \<noteq> N)
       (concat (map (\<lambda>(s, c). map (\<lambda>(v, vc). (s @ literal @ v, kb_and [c, vc])) alts) results))"

fun expand_refs :: "(string \<Rightarrow> alternatives option) \<Rightarrow> (string \<times> string) list \<Rightarrow> alternatives \<Rightarrow> alternatives option" where
  "expand_refs alts_of [] results = Some results"
| "expand_refs alts_of ((literal, name) # ms) results =
     (case alts_of name of
        None \<Rightarrow> None
      | Some [] \<Rightarrow> None
      | Some alts \<Rightarrow> (let results' = expand_step results literal alts
          in if length results' > MAX_ALTERNATIVES then None else expand_refs alts_of ms results'))"

definition expand :: "(string \<Rightarrow> alternatives option) \<Rightarrow> string \<Rightarrow> variables \<Rightarrow> alternatives option" where
  "expand env text local =
     (let (ms, tail) = var_refs text
      in case expand_refs (alternatives_of env local) ms [([], Y)] of
           None \<Rightarrow> None
         | Some results \<Rightarrow> (let out = map (\<lambda>(s, c). (s @ tail, c)) results
             in if list_ex (\<lambda>(s, c). CHR ''$'' \<in> set s) out then None else Some out))"

fun make_parts :: "(string \<Rightarrow> alternatives option) \<Rightarrow> (string \<times> string) list \<Rightarrow> bpart list option" where
  "make_parts alts_of [] = Some []"
| "make_parts alts_of ((literal, name) # ms) =
     (let p = (if startswith name ''CONFIG_'' then Some (Val (drop 7 name))
               else case alts_of name of
                   Some [(v, c)] \<Rightarrow> if c = Y then Some (Lit v) else None
                 | _ \<Rightarrow> None)
      in case p of None \<Rightarrow> None
         | Some q \<Rightarrow> map_option (\<lambda>r. Lit literal # q # r) (make_parts alts_of ms))"

definition make_string :: "(string \<Rightarrow> alternatives option) \<Rightarrow> string \<Rightarrow> variables \<Rightarrow> bpart list option" where
  "make_string env text local =
     (let (ms, tail) = var_refs text
      in case make_parts (alternatives_of env local) ms of
           None \<Rightarrow> None
         | Some parts \<Rightarrow> if CHR ''$'' \<in> set tail then None
             else Some (filter (\<lambda>p. p \<noteq> Lit []) (parts @ [Lit tail])))"

subsection \<open>Conditions, list gates and variables\<close>

text \<open>Index of the \<open>)\<close> that closes depth \<open>d\<close>, and of the first comma at depth 0.\<close>

fun close_index :: "int \<Rightarrow> string \<Rightarrow> nat option" where
  "close_index d [] = None"
| "close_index d (ch # rest) =
     (if ch = CHR ''('' then map_option Suc (close_index (d + 1) rest)
      else if ch = CHR '')'' then (if d - 1 = 0 then Some 0 else map_option Suc (close_index (d - 1) rest))
      else map_option Suc (close_index d rest))"

fun comma_index :: "int \<Rightarrow> string \<Rightarrow> nat option" where
  "comma_index d [] = None"
| "comma_index d (ch # rest) =
     (if ch = CHR ''('' then map_option Suc (comma_index (d + 1) rest)
      else if ch = CHR '')'' then map_option Suc (comma_index (d - 1) rest)
      else if ch = CHR '','' \<and> d = 0 then Some 0
      else map_option Suc (comma_index d rest))"

text \<open>The quoted form \<open>"a" "b"\<close> of the comparison (single or double quotes).\<close>

definition quote_char :: "char \<Rightarrow> bool" where
  "quote_char c \<longleftrightarrow> c = CHR 0x22 \<or> c = CHR 0x27"

definition quoted_second :: "string \<Rightarrow> string option" where
  "quoted_second cs = (let r = dropWhile py_space cs
     in if takeWhile py_space cs \<noteq> [] \<and> r \<noteq> [] \<and> quote_char (hd r) \<and> tl r \<noteq> [] \<and> last (tl r) = hd r
           \<and> CHR 0x0A \<notin> set (butlast (tl r))
        then Some (butlast (tl r)) else None)"

fun quoted_first :: "char \<Rightarrow> string \<Rightarrow> string \<Rightarrow> (string \<times> string) option" where
  "quoted_first q acc [] = None"
| "quoted_first q acc (c # cs) =
     (case (if c = q then quoted_second cs else None) of
        Some b \<Rightarrow> Some (acc, b)
      | None \<Rightarrow> if c = CHR 0x0A then None else quoted_first q (acc @ [c]) cs)"

definition split_ifeq_args :: "string \<Rightarrow> (string \<times> string) option" where
  "split_ifeq_args args0 =
     (let args = py_strip args0
      in if startswith args ''('' then
           (let inner = (case close_index 1 (tl args) of None \<Rightarrow> [] | Some i \<Rightarrow> take i (tl args))
            in case comma_index 0 inner of
                 None \<Rightarrow> None
               | Some i \<Rightarrow> Some (py_strip (take i inner), py_strip (drop (i + 1) inner)))
         else (case args of
             [] \<Rightarrow> None
           | q # rest \<Rightarrow> if quote_char q then quoted_first q [] rest else None))"

datatype cond_kind = Ifeq | Ifneq | Ifdef | Ifndef

definition is_config_word :: "string \<Rightarrow> bool" where
  "is_config_word name \<longleftrightarrow> startswith name ''CONFIG_'' \<and> drop 7 name \<noteq> [] \<and> list_all re_word (drop 7 name)"

fun is_val :: "bpart \<Rightarrow> bool" where
  "is_val (Val _) = True"
| "is_val (Lit _) = False"

fun lit_text :: "bpart \<Rightarrow> string" where
  "lit_text (Lit s) = s"
| "lit_text (Val _) = []"

definition condition :: "(string \<Rightarrow> alternatives option) \<Rightarrow> cond_kind \<Rightarrow> string \<Rightarrow> variables \<Rightarrow> bexpr" where
  "condition env kind args local =
     (if kind = Ifdef \<or> kind = Ifndef then
        (let name = py_strip args;
             negate = (\<lambda>c. if kind = Ifndef then kb_not c else c)
         in if is_config_word name then negate (BDef (drop 7 name))
            else case alternatives_of env local name of
                None \<Rightarrow> UNKNOWN
              | Some [] \<Rightarrow> UNKNOWN
              | Some alts \<Rightarrow> negate (kb_or (map snd (filter (\<lambda>(v, c). py_strip v \<noteq> []) alts))))
      else case split_ifeq_args args of
          None \<Rightarrow> UNKNOWN
        | Some (l, r) \<Rightarrow>
            (case (make_string env l local, make_string env r local) of
               (Some a, Some b) \<Rightarrow>
                 (let cond = (if \<not> list_ex is_val (a @ b)
                              then (if py_strip (concat (map lit_text a)) = py_strip (concat (map lit_text b)) then Y else N)
                              else BEq a b)
                  in if kind = Ifneq then kb_not cond else cond)
             | _ \<Rightarrow> UNKNOWN))"

text \<open>\<open>$(CONFIG_X\<close> followed by exactly \<open>closing\<close>.\<close>

definition config_ref :: "string \<Rightarrow> string \<Rightarrow> string option" where
  "config_ref closing s = (if startswith s ''$(CONFIG_'' then
       (let name = takeWhile ref_char (drop 9 s)
        in if name \<noteq> [] \<and> dropWhile ref_char (drop 9 s) = closing then Some name else None)
     else None)"

text \<open>\<open>$(subst m,y,$(CONFIG_X))\<close>, with white space allowed around the arguments.\<close>

definition skip_ws :: "string \<Rightarrow> string" where
  "skip_ws = dropWhile py_space"

definition subst_ref :: "string \<Rightarrow> string option" where
  "subst_ref s = (if startswith s ''$(subst'' then
       (let s1 = drop 7 s; s2 = skip_ws s1
        in if s2 = s1 \<or> \<not> startswith s2 ''m'' then None else
           let s3 = skip_ws (drop 1 s2) in if \<not> startswith s3 '','' then None else
           let s4 = skip_ws (drop 1 s3) in if \<not> startswith s4 ''y'' then None else
           let s5 = skip_ws (drop 1 s4) in if \<not> startswith s5 '','' then None else
           config_ref ''))'' (skip_ws (drop 1 s5)))
     else None)"

definition list_gate :: "string \<Rightarrow> bexpr option" where
  "list_gate suffix =
     (if suffix = ''y'' \<or> suffix = ''objs'' then Some Y
      else if suffix = ''m'' then Some M
      else case config_ref '')'' suffix of
          Some x \<Rightarrow> Some (BSym x)
        | None \<Rightarrow> (case subst_ref suffix of
              Some x \<Rightarrow> Some (BDef x)
            | None \<Rightarrow> map_option BDef (config_ref '':m=y)'' suffix)))"

definition list_selects :: "string \<Rightarrow> bexpr \<Rightarrow> string \<Rightarrow> bexpr" where
  "list_selects kind gate wanted =
     (if wanted = ''objs'' \<or> kind = ''objs'' then (if wanted = kind then Y else N)
      else if kind = ''y'' \<or> kind = ''m'' then (if kind = wanted then Y else N)
      else case gate of
          BSym x \<Rightarrow> BEq [Val x] [Lit wanted]
        | BDef x \<Rightarrow> if wanted = ''y'' then gate else N
        | _ \<Rightarrow> UNKNOWN)"

definition assign_variable :: "variables \<Rightarrow> string \<Rightarrow> string \<Rightarrow> string \<Rightarrow> bexpr \<Rightarrow> variables" where
  "assign_variable local name op rhs cond =
     (if op = ''+='' \<or> contains_sub ''$('' rhs \<or> local name = Some None then local(name \<mapsto> None)
      else let alts = (case local name of Some (Some a) \<Rightarrow> a | _ \<Rightarrow> []);
               kept = (if cond = Y \<and> op \<noteq> ''?='' then [] else alts);
               new = kept @ [(rhs, cond)]
           in if length new > MAX_ALTERNATIVES then local(name \<mapsto> None) else local(name \<mapsto> Some new))"

subsection \<open>Correctness of the expansion\<close>

text \<open>The text with every reference replaced by the value \<open>pick\<close> chooses for it.\<close>

fun subst_refs :: "(string \<Rightarrow> string) \<Rightarrow> (string \<times> string) list \<Rightarrow> string" where
  "subst_refs pick [] = []"
| "subst_refs pick ((literal, name) # ms) = literal @ pick name @ subst_refs pick ms"

lemma ref_at_text:
  assumes "ref_at s = Some (n, r)"
  shows "s = ''$('' @ n @ '')'' @ r"
proof -
  let ?t = "drop 2 s"
  have n: "n = takeWhile ref_char ?t" and r: "r = tl (dropWhile ref_char ?t)"
    and s: "startswith s ''$(''" and rest: "startswith (dropWhile ref_char ?t) '')''"
    using assms by (auto simp: ref_at_def Let_def split: if_splits)
  have "dropWhile ref_char ?t = '')'' @ r"
    using startswith_drop[OF rest] r by (simp add: drop_Suc)
  moreover have "s = ''$('' @ ?t" using startswith_drop[OF s] by (simp add: numeral_2_eq_2)
  moreover have "?t = n @ dropWhile ref_char ?t" using n by simp
  ultimately show ?thesis by (metis append_assoc)
qed

lemma refs_from_text: "refs_from lit s = (ms, tail) \<Longrightarrow>
    concat (map (\<lambda>(l, n). l @ ''$('' @ n @ '')'') ms) @ tail = lit @ s"
proof (induction lit s arbitrary: ms tail rule: refs_from.induct)
  case (1 lit s)
  show ?case
  proof (cases "ref_at s")
    case None
    note none = None
    show ?thesis
    proof (cases s)
      case Nil
      with none 1(3) show ?thesis by (simp add: refs_from.simps[of lit "[]"])
    next
      case (Cons c cs)
      with none 1(3) have "refs_from (lit @ [c]) cs = (ms, tail)"
        by (simp add: refs_from.simps[of lit "c # cs"])
      with 1(1)[OF none Cons] Cons show ?thesis by simp
    qed
  next
    case (Some nr)
    obtain n r where nr: "nr = (n, r)" by (cases nr)
    obtain ms' where ms: "refs_from [] r = (ms', tail)" "ms = (lit, n) # ms'"
      using "1.prems" Some nr by (auto simp: refs_from.simps[of lit s] split: prod.splits)
    have "s = ''$('' @ n @ '')'' @ r"
      using ref_at_text Some nr by blast
    with ms 1(2)[OF Some] nr show ?thesis by simp
  qed
qed

lemma expand_refs_complete:
  assumes "expand_refs alts_of ms results = Some out"
    and "\<forall>(l, n) \<in> set ms. \<exists>alts c. alts_of n = Some alts \<and> (pick n, c) \<in> set alts \<and> wf_bexpr c \<and> evaluate v c = ''y''"
    and "(s, c) \<in> set results" "wf_bexpr c" "evaluate v c = ''y''"
  shows "\<exists>c'. (s @ subst_refs pick ms, c') \<in> set out \<and> wf_bexpr c' \<and> evaluate v c' = ''y''"
  using assms
proof (induction ms arbitrary: results s c)
  case (Cons m ms)
  obtain l n where m: "m = (l, n)" by (cases m)
  with Cons.prems(2) obtain alts c0 where alts: "alts_of n = Some alts" "(pick n, c0) \<in> set alts"
    "wf_bexpr c0" "evaluate v c0 = ''y''" by force
  let ?c = "kb_and [c, c0]"
  have c: "wf_bexpr ?c" "evaluate v ?c = ''y''"
    using Cons.prems(4,5) alts by (simp_all add: evaluate_kb_and tri_and_def)
  then have "?c \<noteq> N" by auto
  then have mem: "(s @ l @ pick n, ?c) \<in> set (expand_step results l alts)"
    using Cons.prems(3) alts(2) by (force simp: expand_step_def)
  have "expand_refs alts_of ms (expand_step results l alts) = Some out"
    using Cons.prems(1) alts(1,2) m by (cases alts) (auto simp: Let_def split: if_splits)
  from Cons.IH[OF this _ mem c] Cons.prems(2) m show ?case by auto
qed auto

lemma expand_refs_bounded:
  "expand_refs alts_of ms results = Some out \<Longrightarrow> ms \<noteq> [] \<Longrightarrow> length out \<le> MAX_ALTERNATIVES"
proof (induction ms arbitrary: results)
  case (Cons m ms)
  obtain l n where m: "m = (l, n)" by (cases m)
  with Cons.prems obtain alts where "alts_of n = Some alts"
    "length (expand_step results l alts) \<le> MAX_ALTERNATIVES"
    "expand_refs alts_of ms (expand_step results l alts) = Some out"
    by (auto simp: Let_def split: option.splits list.splits if_splits)
  with Cons.IH[of "expand_step results l alts"] show ?case by (cases ms) auto
qed simp

subsection \<open>Lines of a Kbuild file: the regular expressions\<close>

text \<open>\<open>\b\<close> after a word: the text ends there or goes on with a non-word character.\<close>

definition ends_word :: "string \<Rightarrow> bool" where
  "ends_word s \<longleftrightarrow> s = [] \<or> \<not> re_word (hd s)"

definition keyword :: "string \<Rightarrow> string \<Rightarrow> bool" where
  "keyword w s \<longleftrightarrow> startswith s w \<and> ends_word (drop (length w) s)"

text \<open>\<open>_COND_RE\<close>\<close>

definition cond_line :: "string \<Rightarrow> (cond_kind \<times> string) option" where
  "cond_line text =
     (if keyword ''ifeq'' text then Some (Ifeq, skip_ws (drop 4 text))
      else if keyword ''ifneq'' text then Some (Ifneq, skip_ws (drop 5 text))
      else if keyword ''ifdef'' text then Some (Ifdef, skip_ws (drop 5 text))
      else if keyword ''ifndef'' text then Some (Ifndef, skip_ws (drop 6 text))
      else None)"

text \<open>\<open>^(?:override\s+|export\s+)?define\b\<close>\<close>

definition define_line :: "string \<Rightarrow> bool" where
  "define_line text \<longleftrightarrow> keyword ''define'' text
     \<or> list_ex (\<lambda>w. startswith text w \<and> skip_ws (drop (length w) text) \<noteq> drop (length w) text
          \<and> keyword ''define'' (skip_ws (drop (length w) text))) [''override'', ''export'']"

text \<open>\<open>^-?include\b|^sinclude\b\<close>\<close>

definition include_line :: "string \<Rightarrow> bool" where
  "include_line text \<longleftrightarrow> keyword ''include'' text \<or> keyword ''-include'' text \<or> keyword ''sinclude'' text"

text \<open>
  \<open>_ASSIGN_RE\<close>: group 1 is a lazy run of units, a unit being a character outside \<open>:=#\<close> and white
  space or a whole \<open>$(...)\<close>; after each unit the operator is tried first, then the run goes on with
  one more character, then with one more reference.
\<close>

definition assign_op :: "string \<Rightarrow> (string \<times> string) option" where
  "assign_op s = (let r = skip_ws s in
     case find (startswith r) ['':='', ''::='', ''+='', ''?='', ''=''] of
       None \<Rightarrow> None
     | Some op \<Rightarrow> Some (op, skip_ws (drop (length op) r)))"

definition close_paren :: "string \<Rightarrow> (string \<times> string) option" where
  "close_paren s = (let r = dropWhile (\<lambda>c. c \<noteq> CHR '')'') s
     in if startswith s ''$('' \<and> r \<noteq> [] then Some (takeWhile (\<lambda>c. c \<noteq> CHR '')'') s @ '')'', tl r) else None)"

lemma close_paren_shorter: "close_paren s = Some (u, r) \<Longrightarrow> length r < length s"
proof -
  assume "close_paren s = Some (u, r)"
  then have "r = tl (dropWhile (\<lambda>c. c \<noteq> CHR '')'') s)" "dropWhile (\<lambda>c. c \<noteq> CHR '')'') s \<noteq> []"
    by (auto simp: close_paren_def Let_def split: if_splits)
  moreover have "length (dropWhile (\<lambda>c. c \<noteq> CHR '')'') s) \<le> length s" by (rule length_dropWhile_le)
  ultimately show ?thesis by (cases "dropWhile (\<lambda>c. c \<noteq> CHR '')'') s") auto
qed

function assign_from :: "string \<Rightarrow> string \<Rightarrow> (string \<times> string \<times> string) option" where
  "assign_from acc s =
     (case (if acc = [] then None else assign_op s) of
        Some (op, rhs) \<Rightarrow> Some (acc, op, rhs)
      | None \<Rightarrow>
          (case (case s of [] \<Rightarrow> None
                 | c # cs \<Rightarrow> if c \<in> set '':=#'' \<or> py_space c then None else assign_from (acc @ [c]) cs) of
             Some r \<Rightarrow> Some r
           | None \<Rightarrow> (case close_paren s of None \<Rightarrow> None | Some (u, r) \<Rightarrow> assign_from (acc @ u) r)))"
  by pat_completeness auto
termination by (relation "measure (\<lambda>(acc, s). length s)") (auto dest: close_paren_shorter)

declare assign_from.simps [simp del]

definition assign_line :: "string \<Rightarrow> (string \<times> string \<times> string) option" where
  "assign_line text = (case assign_from [] text of
       None \<Rightarrow> None
     | Some (lhs, op, rhs) \<Rightarrow> Some (py_strip lhs, op, py_strip rhs))"

text \<open>
  \<open>_LIST_LHS_RE\<close> (\<open>closing = ''''\<close>) and the body of \<open>_LIST_REF_RE\<close> (\<open>closing = '')''\<close>): the shortest
  dash-separated name followed by an accepted suffix.
\<close>

definition plain_suffix :: "string \<Rightarrow> bool" where
  "plain_suffix s \<longleftrightarrow> s = ''y'' \<or> s = ''m'' \<or> s = ''objs''"

definition config_suffix :: "string \<Rightarrow> bool" where
  "config_suffix s \<longleftrightarrow> startswith s ''$('' \<and> endswith s '')'' \<and> length s \<ge> 4"

function list_name :: "(string \<Rightarrow> bool) \<Rightarrow> string \<Rightarrow> string \<Rightarrow> (string \<times> string) option" where
  "list_name ok acc s =
     (let w = takeWhile ref_char s; rest = dropWhile ref_char s
      in if w = [] \<or> rest = [] \<or> hd rest \<noteq> CHR ''-'' then None
         else if ok (tl rest) then Some (acc @ w, tl rest)
         else list_name ok (acc @ w @ ''-'') (tl rest))"
  by pat_completeness auto
termination
proof (relation "measure (\<lambda>(ok, acc, s). length s)", goal_cases)
  case (2 ok acc s w rest)
  have "length rest \<le> length s" unfolding 2(2) by (rule length_dropWhile_le)
  moreover have "length (tl rest) < length rest" using 2(3) by simp
  ultimately show ?case by simp
qed simp

declare list_name.simps [simp del]

definition list_lhs :: "string \<Rightarrow> (string \<times> string) option" where
  "list_lhs lhs = list_name (\<lambda>s. plain_suffix s \<or> config_suffix s) [] lhs"

definition list_ref :: "string \<Rightarrow> (string \<times> string) option" where
  "list_ref word = (if startswith word ''$('' \<and> endswith word '')''
     then list_name plain_suffix [] (butlast (drop 2 word)) else None)"

text \<open>\<open>_ADDPREFIX_RE\<close>: a prefix that is all white space keeps its last character in the group.\<close>

definition addprefix :: "string \<Rightarrow> (string \<times> string) option" where
  "addprefix word = (if startswith word ''$(addprefix'' then
       (let r0 = drop 11 word; ws = takeWhile py_space r0; r1 = dropWhile py_space r0;
            g = takeWhile (\<lambda>c. c \<noteq> CHR '','') r1; pre = (if g = [] \<and> length ws \<ge> 2 then [last ws] else g);
            r2 = dropWhile (\<lambda>c. c \<noteq> CHR '','') r1
        in if ws = [] \<or> pre = [] \<or> r2 = [] \<or> \<not> endswith (tl r2) '')'' then None
           else Some (pre, butlast (tl r2)))
     else None)"

definition follow_addprefix :: "string \<Rightarrow> (string \<times> string) option" where
  "follow_addprefix word = (case addprefix word of
       Some (pre, inner) \<Rightarrow> if CHR ''$'' \<notin> set pre then Some (py_strip pre, inner) else None
     | None \<Rightarrow> None)"

text \<open>\<open>_DIR_ARCHIVE_RE\<close>: the item without \<open>/built-in.o\<close>, \<open>/built-in.a\<close> or \<open>/lib.a\<close>.\<close>

definition dir_archive :: "string \<Rightarrow> string option" where
  "dir_archive item = (case find (endswith item) [''/built-in.o'', ''/built-in.a'', ''/lib.a''] of
       None \<Rightarrow> None
     | Some suffix \<Rightarrow> Some (take (length item - length suffix) item))"

subsection \<open>Kbuild files\<close>

record rule =
  makefile :: string
  line :: nat
  rule_text :: string
  cond :: bexpr

type_synonym list_member = "string \<times> bexpr \<times> string \<times> bexpr"

record kbuild_file =
  path :: string
  file_text :: string
  objects :: "(string, rule list) dict"
  subdirs :: "(string, rule list) dict"
  composites :: "(string, (string \<times> rule) list) dict"
  members :: "(string, list_member list) dict"
  vars :: variables
  unresolved_objects :: bool
  unresolved_dirs :: bool
  includes_other :: bool

definition new_file :: "string \<Rightarrow> string \<Rightarrow> kbuild_file" where
  "new_file p content = \<lparr>path = p, file_text = content, objects = [], subdirs = [], composites = [],
     members = [], vars = Map.empty, unresolved_objects = False, unresolved_dirs = False, includes_other = False\<rparr>"

definition TOP_GOALS :: "string list" where
  "TOP_GOALS = [''core'', ''drivers'', ''net'', ''init'', ''libs'', ''head'']"

definition DIR_GOALS :: "string list" where
  "DIR_GOALS = [''obj'', ''lib'', ''extra'']"

definition SOURCE_SUFFIXES :: "string list" where
  "SOURCE_SUFFIXES = [''.c'', ''.S'', ''.rs'']"

definition HOST_LISTS :: "string list" where
  "HOST_LISTS = [''hostprogs'', ''hostprogs-always'', ''userprogs'', ''userprogs-always'', ''always'',
     ''targets'', ''subdir'']"

definition rel :: "string \<Rightarrow> string \<Rightarrow> string" where
  "rel base item = replace_char (CHR 0x5C) (CHR ''/'')
     (normpath (if base \<noteq> [] then base @ ''/'' @ item else item))"

text \<open>
  \<open>_items\<close>: (word, condition, already a path from the source root); a \<open>None\<close> word could not be
  expanded.
\<close>

type_synonym item = "string option \<times> bexpr \<times> bool"

lemma length_split_words_from: "w \<in> set (split_words_from cur depth s) \<Longrightarrow> length w \<le> length cur + length s"
proof (induction cur depth s rule: split_words_from.induct)
  case (2 cur depth ch rest)
  let ?d = "if (ch = CHR ''('' \<and> endswith cur ''$'') \<or> (ch = CHR ''('' \<and> depth \<noteq> 0) then depth + 1
                    else if ch = CHR '')'' \<and> depth \<noteq> 0 then depth - 1 else depth"
  consider "w = cur" | "py_space ch \<and> ?d = 0" "w \<in> set (split_words_from [] ?d rest)"
    | "\<not> (py_space ch \<and> ?d = 0)" "w \<in> set (split_words_from (cur @ [ch]) ?d rest)"
    using 2(4) by (simp add: Let_def split: if_splits) blast+
  then show ?case
  proof cases
    case 2
    then have "length w \<le> length ([]::string) + length rest"
      using "2.IH"(1,2)[OF refl] by (cases "cur = []") blast+
    then show ?thesis by simp
  next
    case 3
    then show ?thesis using "2.IH"(3)[OF refl] by fastforce
  qed simp
qed (auto split: if_splits)

lemma addprefix_shorter: "addprefix w = Some (pre, inner) \<Longrightarrow> length inner < length w"
proof -
  assume a: "addprefix w = Some (pre, inner)"
  let ?r2 = "dropWhile (\<lambda>c. c \<noteq> CHR '','') (dropWhile py_space (drop 11 w))"
  have i: "inner = butlast (tl ?r2)" and e: "endswith (tl ?r2) '')''"
    using a by (auto simp: addprefix_def Let_def split: if_splits)
  have "length ?r2 \<le> length (drop 11 w)"
    by (rule order_trans[OF length_dropWhile_le length_dropWhile_le])
  moreover have "tl ?r2 \<noteq> []" using e by (auto simp: endswith_def)
  ultimately show ?thesis using i by (cases ?r2) auto
qed

lemma follow_addprefix_shorter: "follow_addprefix w = Some (pre, inner) \<Longrightarrow> length inner < length w"
  by (auto simp: follow_addprefix_def dest: addprefix_shorter split: option.splits if_splits)

definition member_items :: "list_member list \<Rightarrow> string \<Rightarrow> item list" where
  "member_items ms wanted =
     map (\<lambda>(p, line_cond, kind, gate). (Some p, kb_and [line_cond, list_selects kind gate wanted], True)) ms"

definition plain_items :: "(string \<Rightarrow> alternatives option) \<Rightarrow> kbuild_file \<Rightarrow> string \<Rightarrow> item list" where
  "plain_items env kfile word =
     (case (case list_ref word of None \<Rightarrow> None
            | Some (name, wanted) \<Rightarrow> map_option (\<lambda>ms. member_items ms wanted) (dict_get (members kfile) name)) of
        Some out \<Rightarrow> out
      | None \<Rightarrow> (case expand env word (vars kfile) of
            None \<Rightarrow> [(None, UNKNOWN, False)]
          | Some alts \<Rightarrow> map (\<lambda>(v, c). (Some v, c, False)) alts))"

function items :: "(string \<Rightarrow> alternatives option) \<Rightarrow> kbuild_file \<Rightarrow> string \<Rightarrow> item list" where
  "items env kfile rhs = concat (map (\<lambda>word.
       if CHR ''$'' \<notin> set word then [(Some word, Y, False)]
       else case follow_addprefix word of
           Some (pre, inner) \<Rightarrow>
             map (\<lambda>(w, c, a). (map_option (\<lambda>w. if a then w else pre @ w) w, c, a)) (items env kfile inner)
         | None \<Rightarrow> plain_items env kfile word)
     (split_words rhs))"
  by pat_completeness auto
termination
proof (relation "measure (\<lambda>(env, kfile, rhs). length rhs)", goal_cases)
  case (2 env kfile rhs word a pre inner)
  then have "length inner < length word" by (auto dest: follow_addprefix_shorter)
  also have "length word \<le> length rhs"
    using 2 length_split_words_from[of word "[]" 0 rhs] by (simp add: split_words_def)
  finally show ?case by simp
qed simp

declare items.simps [simp del]

subsection \<open>List assignments\<close>

text \<open>Members of a composite object \<open>name.o\<close>, or of a list referenced as \<open>$(name-y)\<close>.\<close>

definition add_member :: "string \<Rightarrow> string \<Rightarrow> string \<Rightarrow> bexpr \<Rightarrow> bexpr \<Rightarrow> nat \<Rightarrow> string \<Rightarrow> kbuild_file \<Rightarrow> item \<Rightarrow> kbuild_file" where
  "add_member base name kind gate cnd line_no text kfile it =
     (case it of (None, _, _) \<Rightarrow> kfile
      | (Some i, item_cond, absolute) \<Rightarrow>
          if endswith i ''.o'' then
            (let p = (if absolute then i else rel base i)
             in kfile\<lparr>composites := dict_push (rel base (name @ ''.o''))
                        (p, \<lparr>makefile = path kfile, line = line_no, rule_text = text,
                             cond = kb_and [cnd, gate, item_cond]\<rparr>) (composites kfile),
                      members := dict_push name (p, kb_and [cnd, item_cond], kind, gate) (members kfile)\<rparr>)
          else kfile)"

definition add_item :: "string \<Rightarrow> string \<Rightarrow> bexpr \<Rightarrow> bexpr \<Rightarrow> nat \<Rightarrow> string \<Rightarrow> kbuild_file \<Rightarrow> item \<Rightarrow> kbuild_file" where
  "add_item base name gate cnd line_no text kfile it =
     (case it of
        (None, _, _) \<Rightarrow> kfile\<lparr>unresolved_objects := True, unresolved_dirs := True\<rparr>
      | (Some i, item_cond, absolute) \<Rightarrow>
          (let r = \<lparr>makefile = path kfile, line = line_no, rule_text = text, cond = kb_and [cnd, gate, item_cond]\<rparr>
           in if absolute then kfile\<lparr>objects := dict_push i r (objects kfile)\<rparr>
              else if endswith i ''/''
              then kfile\<lparr>subdirs := dict_push (rel base (rstrip_by (\<lambda>c. c = CHR ''/'') i)) r (subdirs kfile)\<rparr>
              else case dir_archive i of
                  Some d \<Rightarrow> kfile\<lparr>subdirs := dict_push (rel base d) r (subdirs kfile)\<rparr>
                | None \<Rightarrow> if endswith i ''.o'' \<or> name = ''extra''
                          then kfile\<lparr>objects := dict_push (rel base i) r (objects kfile)\<rparr> else kfile))"

definition or_unknown :: "bexpr option \<Rightarrow> bexpr" where
  "or_unknown g = (case g of None \<Rightarrow> UNKNOWN | Some e \<Rightarrow> e)"

definition goal_gate :: "(string \<Rightarrow> alternatives option) \<Rightarrow> kbuild_file \<Rightarrow> string \<Rightarrow> bexpr" where
  "goal_gate env kfile suffix = (case list_gate suffix of
       Some g \<Rightarrow> g
     | None \<Rightarrow> (case expand env suffix (vars kfile) of
           None \<Rightarrow> UNKNOWN
         | Some [] \<Rightarrow> UNKNOWN
         | Some alts \<Rightarrow> kb_or (map (\<lambda>(v, c). kb_and [c, if v = ''y'' then Y else if v = ''m'' then M else N]) alts)))"

definition list_assignment :: "(string \<Rightarrow> alternatives option) \<Rightarrow> bool \<Rightarrow> string \<Rightarrow> string \<Rightarrow> string \<Rightarrow> string \<Rightarrow> bexpr \<Rightarrow>
    nat \<Rightarrow> string \<Rightarrow> kbuild_file \<Rightarrow> kbuild_file" where
  "list_assignment env top_level base name suffix rhs cnd line_no text kfile =
     (if name \<notin> set (TOP_GOALS @ DIR_GOALS) then
        (let gate = or_unknown (list_gate suffix);
             kind = (if suffix \<in> set [''y'', ''m'', ''objs''] then suffix else ''cfg'')
         in foldl (add_member base name kind gate cnd line_no text) kfile (items env kfile rhs))
      else if name \<in> set TOP_GOALS \<and> \<not> top_level then kfile
      else foldl (add_item base name (goal_gate env kfile suffix) cnd line_no text) kfile (items env kfile rhs))"

subsection \<open>Parsing a file\<close>

record parse_state =
  kfile :: kbuild_file
  conds :: cond_stack
  in_define :: bool

definition is_identifier :: "string \<Rightarrow> bool" where
  "is_identifier s \<longleftrightarrow> s \<noteq> [] \<and> list_all ref_char s \<and> \<not> py_digit (hd s)"

text \<open>\<open>lhs.split("-$(")[0]\<close>\<close>

fun before_sub :: "string \<Rightarrow> string \<Rightarrow> string" where
  "before_sub p [] = []"
| "before_sub p (c # cs) = (if startswith (c # cs) p then [] else c # before_sub p cs)"

definition add_subdirs :: "string \<Rightarrow> bexpr \<Rightarrow> nat \<Rightarrow> string \<Rightarrow> kbuild_file \<Rightarrow> string \<Rightarrow> kbuild_file" where
  "add_subdirs base cnd line_no text kf word =
     (if CHR ''$'' \<in> set word then kf
      else kf\<lparr>subdirs := dict_push (rel base (rstrip_by (\<lambda>c. c = CHR ''/'') word))
         \<lparr>makefile = path kf, line = line_no, rule_text = text, cond = cnd\<rparr> (subdirs kf)\<rparr>)"

definition assignment :: "(string \<Rightarrow> alternatives option) \<Rightarrow> bool \<Rightarrow> string \<Rightarrow> bexpr \<Rightarrow> nat \<Rightarrow> string \<Rightarrow>
    string \<times> string \<times> string \<Rightarrow> kbuild_file \<Rightarrow> kbuild_file" where
  "assignment env top_level base gate_cond line_no text lor kf =
     (case lor of (lhs, op, rhs) \<Rightarrow>
       (let kf = (if lhs \<in> set HOST_LISTS \<or> before_sub ''-$('' lhs \<in> set HOST_LISTS
                  then kf\<lparr>unresolved_objects := True\<rparr> else kf)
        in case list_lhs lhs of
             Some (name, suffix) \<Rightarrow>
               if name \<in> set HOST_LISTS then
                 (let kf = kf\<lparr>unresolved_objects := True\<rparr>
                  in if name = ''subdir''
                     then foldl (add_subdirs base (kb_and [gate_cond, or_unknown (list_gate suffix)]) line_no (take 200 text))
                       kf (split_words rhs)
                     else kf)
               else list_assignment env top_level base name suffix rhs gate_cond line_no (take 200 text) kf
           | None \<Rightarrow> if is_identifier lhs then kf\<lparr>vars := assign_variable (vars kf) lhs op rhs gate_cond\<rparr> else kf))"

definition mark_computed :: "string \<Rightarrow> kbuild_file \<Rightarrow> kbuild_file" where
  "mark_computed text kf = (if contains_sub ''$(wildcard'' text \<or> contains_sub ''$(shell'' text
     then kf\<lparr>unresolved_objects := True\<rparr> else kf)"

definition parse_line :: "(string \<Rightarrow> alternatives option) \<Rightarrow> bool \<Rightarrow> string \<Rightarrow> parse_state \<Rightarrow> nat \<times> string \<Rightarrow> parse_state" where
  "parse_line env top_level base st lt = (case lt of (line_no, text) \<Rightarrow>
     if in_define st then st\<lparr>in_define := \<not> keyword ''endef'' text\<rparr>
     else if define_line text then st\<lparr>in_define := True\<rparr>
     else case cond_line text of
       Some (kind, args) \<Rightarrow> st\<lparr>conds := push (conds st) (condition env kind args (vars (kfile st)))\<rparr>
     | None \<Rightarrow>
         if text = ''else'' \<or> startswith text ''else '' \<or> startswith text (''else'' @ [CHR 0x09]) then
           st\<lparr>conds := else_branch (conds st) (case cond_line (py_strip (drop 4 text)) of
               None \<Rightarrow> Y | Some (kind, args) \<Rightarrow> condition env kind args (vars (kfile st)))\<rparr>
         else if text = ''endif'' \<or> startswith text ''endif '' then st\<lparr>conds := pop (conds st)\<rparr>
         else
           (let st = st\<lparr>kfile := mark_computed text (kfile st)\<rparr>
            in if include_line text then
                 (if \<not> contains_sub ''scripts/'' text \<and> \<not> contains_sub ''Kbuild.include'' text
                  then st\<lparr>kfile := (kfile st)\<lparr>includes_other := True\<rparr>\<rparr> else st)
               else case assign_line text of
                   None \<Rightarrow> st
                 | Some lor \<Rightarrow> st\<lparr>kfile := assignment env top_level base (current (conds st)) line_no text lor (kfile st)\<rparr>))"

definition parse :: "(string \<Rightarrow> alternatives option) \<Rightarrow> bool \<Rightarrow> string \<Rightarrow> string \<Rightarrow> kbuild_file" where
  "parse env top_level content p =
     kfile (foldl (parse_line env top_level (if top_level then [] else dirname p))
       \<lparr>kfile = new_file p content, conds = \<lparr>frames = [], transparent_unknown = top_level\<rparr>, in_define = False\<rparr>
       (join_lines content))"

subsection \<open>The tree (\<open>KbuildConditionResolver\<close>)\<close>

text \<open>
  \<open>read\<close> and \<open>exists\<close> are the two callbacks of the constructor.  The caches of the class hold values
  that are functions of these two (immutable) callbacks, so the operations below recompute them; the
  cycle guard of \<open>dir_condition\<close> never fires, since every recursive call is on the parent directory.
\<close>

definition path_arch :: "string \<Rightarrow> string option" where
  "path_arch p = (case split_on (CHR ''/'') p of
       a # b # _ # _ \<Rightarrow>
         (if a = ''arch'' then Some b
          else if a = ''include'' \<and> startswith b ''asm-'' \<and> b \<noteq> ''asm-generic'' then Some (drop 4 b)
          else None)
     | _ \<Rightarrow> None)"

definition own_arch_dirs :: "string \<Rightarrow> string list" where
  "own_arch_dirs srcarch = srcarch # (if srcarch = ''um'' then [''x86'', ''x86_64''] else [])"

definition is_other_arch_path :: "string \<Rightarrow> string \<Rightarrow> string list option \<Rightarrow> bool" where
  "is_other_arch_path p srcarch trees = (case path_arch p of
       None \<Rightarrow> False
     | Some a \<Rightarrow> a \<notin> set (case trees of None \<Rightarrow> own_arch_dirs srcarch | Some ts \<Rightarrow> ts))"

record resolver =
  read :: "string \<Rightarrow> string option"
  exists :: "string \<Rightarrow> bool"
  arch :: string
  srcarch :: string
  included_sources :: "string list"
  arch_trees :: "string list option"

definition read_text :: "resolver \<Rightarrow> string \<Rightarrow> string" where
  "read_text res p = (case read res p of None \<Rightarrow> [] | Some t \<Rightarrow> t)"

definition arch_makefile :: "resolver \<Rightarrow> string" where
  "arch_makefile res = ''arch/'' @ srcarch res @ ''/Makefile''"

definition exported :: "string \<Rightarrow> string list" where
  "exported text = (if startswith text ''export'' \<and> skip_ws (drop 6 text) \<noteq> drop 6 text
     then filter (\<lambda>w. w \<noteq> [] \<and> (py_lower_letter (hd w) \<or> py_upper_letter (hd w) \<or> hd w = CHR ''_'')
                     \<and> list_all re_word (tl w)) (py_words (drop 6 text))
     else [])"

definition base_env :: "resolver \<Rightarrow> string \<Rightarrow> alternatives option" where
  "base_env res = [''ARCH'' \<mapsto> [(arch res, Y)], ''SRCARCH'' \<mapsto> [(srcarch res, Y)]]"

definition arch_env :: "resolver \<Rightarrow> string \<Rightarrow> alternatives option" where
  "arch_env res =
     (let arch_mk = read_text res (arch_makefile res);
          names = concat (map (\<lambda>(_, text). exported text) (join_lines arch_mk));
          parsed = parse (base_env res) True arch_mk (arch_makefile res)
      in (\<lambda>name. if name \<in> set names
             then (case vars parsed name of
                     Some (Some (a # as)) \<Rightarrow> Some (a # as)
                   | _ \<Rightarrow> base_env res name)
             else base_env res name))"

text \<open>\<open>_top_file\<close> and the text it keeps for \<open>_mentioned_at_top\<close>.\<close>

definition merge_top :: "kbuild_file \<Rightarrow> kbuild_file \<Rightarrow> kbuild_file" where
  "merge_top tf src = tf\<lparr>
     objects := foldl (\<lambda>d (k, rules). dict_extend k rules d) (objects tf) (objects src),
     subdirs := foldl (\<lambda>d (k, rules). dict_extend k rules d) (subdirs tf) (subdirs src)\<rparr>"

definition root_kbuild :: "resolver \<Rightarrow> string" where
  "root_kbuild res = (if exists res ''Kbuild'' then read_text res ''Kbuild'' else [])"

definition top_text :: "resolver \<Rightarrow> string" where
  "top_text res = read_text res ''Makefile'' @ [CHR 0x0A] @ read_text res (arch_makefile res)
     @ (if root_kbuild res \<noteq> [] then CHR 0x0A # root_kbuild res else [])"

definition top_file :: "resolver \<Rightarrow> kbuild_file" where
  "top_file res = foldl merge_top (parse (arch_env res) True (read_text res ''Makefile'') ''Makefile'')
     (parse (arch_env res) True (read_text res (arch_makefile res)) (arch_makefile res)
      # (if root_kbuild res \<noteq> [] then [parse (arch_env res) False (root_kbuild res) ''Kbuild''] else []))"

definition find_kbuild_file :: "resolver \<Rightarrow> string \<Rightarrow> kbuild_file option" where
  "find_kbuild_file res directory =
     (if directory = [] then None else
      let parse_at = (\<lambda>name. let p = directory @ ''/'' @ name in
            if exists res p then map_option (\<lambda>content. parse (arch_env res) False content p) (read res p) else None)
      in case parse_at ''Kbuild'' of Some f \<Rightarrow> Some f | None \<Rightarrow> parse_at ''Makefile'')"

definition is_other_arch :: "resolver \<Rightarrow> string \<Rightarrow> bool" where
  "is_other_arch res p = is_other_arch_path p (srcarch res)
     (Some (case arch_trees res of None \<Rightarrow> own_arch_dirs (srcarch res) | Some ts \<Rightarrow> ts))"

definition word_or_dash :: "char \<Rightarrow> bool" where
  "word_or_dash c \<longleftrightarrow> re_word c \<or> c = CHR ''-''"

definition mentioned_at_top :: "resolver \<Rightarrow> string \<Rightarrow> bool" where
  "mentioned_at_top res directory =
     mentioned (\<lambda>c. re_word c \<or> c = CHR ''/'') word_or_dash directory (top_text res)"

definition rules_cond :: "rule list \<Rightarrow> bexpr" where
  "rules_cond rs = kb_or (map cond rs)"

function dir_condition :: "resolver \<Rightarrow> string \<Rightarrow> bexpr \<times> rule list" where
  "dir_condition res directory0 =
     (let directory = strip_slashes directory0; tf = top_file res
      in if directory = [] then (Y, [])
         else if is_other_arch res (directory @ ''/'') then (N, [])
         else case dict_get (subdirs tf) directory of
           Some rules \<Rightarrow> (rules_cond rules, take 1 rules)
         | None \<Rightarrow>
           (let parent = dirname directory;
                pfile = (if parent \<noteq> [] then find_kbuild_file res parent else None);
                rules = (case pfile of None \<Rightarrow> [] | Some pf \<Rightarrow> dict_list (subdirs pf) directory)
            in if rules \<noteq> [] \<and> parent \<noteq> [] then
                 (let (pcond, prules) = dir_condition res parent
                  in (kb_and [rules_cond rules, pcond], take 1 rules @ prules))
               else case pfile of
                 None \<Rightarrow> (UNKNOWN, [])
               | Some pf \<Rightarrow>
                   if parent = [] \<or> unresolved_dirs pf \<or> includes_other pf then (UNKNOWN, [])
                   else if mentioned_at_top res directory
                        \<or> mentioned word_or_dash word_or_dash (basename directory) (file_text pf)
                        \<or> (\<not> exists res (directory @ ''/Makefile'') \<and> \<not> exists res (directory @ ''/Kbuild''))
                   then (UNKNOWN, [])
                   else (let (pcond, prules) = dir_condition res parent
                         in (if pcond \<noteq> UNKNOWN then N else UNKNOWN, prules))))"
  by pat_completeness auto
termination
  by (relation "measure (\<lambda>(res, d). length d)") (auto intro: dirname_shorter)

declare dir_condition.simps [simp del]

datatype build_status = Other_arch | Has_rule | No_rule | Unknown_status

record file_cond =
  status :: build_status
  expr :: bexpr
  rules :: "(string \<times> nat \<times> string) list"
  reason :: string

definition as_dict :: "rule \<Rightarrow> string \<times> nat \<times> string" where
  "as_dict r = (makefile r, line r, rule_text r)"

definition dedup :: "rule list \<Rightarrow> rule list" where
  "dedup rs = foldl (\<lambda>out r. if list_ex (\<lambda>q. makefile q = makefile r \<and> line q = line r) out then out else out @ [r]) [] rs"

text \<open>Stem and extension; \<open>.lds.S\<close> files build \<open>.lds\<close>.\<close>

definition object_of :: "string \<Rightarrow> string \<times> string \<times> string" where
  "object_of p = (let (stem, ext) = (if endswith p ''.lds.S'' then (take (length p - 6) p @ ''.lds'', ''.S'') else splitext p)
     in (stem, ext, if endswith stem ''.lds'' then stem else stem @ ''.o''))"

text \<open>The alternatives and rules one call of the local \<open>add\<close> contributes.\<close>

definition add_rules :: "resolver \<Rightarrow> rule list \<Rightarrow> bexpr \<Rightarrow> string \<Rightarrow> bexpr list \<times> rule list" where
  "add_rules res rs member_cond mk_dir = (let (dcond, drules) = dir_condition res mk_dir
     in (map (\<lambda>r. kb_and [cond r, member_cond, dcond]) rs, take 1 rs @ drules))"

definition join_found :: "(bexpr list \<times> rule list) list \<Rightarrow> bexpr list \<times> rule list" where
  "join_found fs = (concat (map fst fs), concat (map snd fs))"

definition member_rules :: "resolver \<Rightarrow> string \<Rightarrow> kbuild_file \<Rightarrow> string \<Rightarrow> string \<Rightarrow> string \<times> rule \<Rightarrow>
    (bexpr list \<times> rule list) list" where
  "member_rules res obj kf d composite mr = (case mr of (m, mrule) \<Rightarrow>
     if m = obj then (case dict_get (objects kf) composite of
         None \<Rightarrow> []
       | Some rs \<Rightarrow> [add_rules res rs (cond mrule) d, ([], [mrule])])
     else [])"

definition composite_rules :: "resolver \<Rightarrow> string \<Rightarrow> kbuild_file \<Rightarrow> string \<Rightarrow> (bexpr list \<times> rule list) list" where
  "composite_rules res obj kf d =
     concat (map (\<lambda>(composite, ms). concat (map (member_rules res obj kf d composite) ms)) (composites kf))"

definition rules_in :: "resolver \<Rightarrow> string \<Rightarrow> string \<Rightarrow> (bexpr list \<times> rule list) list" where
  "rules_in res obj d = (case find_kbuild_file res d of
       None \<Rightarrow> []
     | Some kf \<Rightarrow> (case dict_get (objects kf) obj of None \<Rightarrow> [] | Some rs \<Rightarrow> [add_rules res rs Y d])
                  @ composite_rules res obj kf d)"

text \<open>The object's own directory and at most two ancestors.\<close>

fun ancestors :: "nat \<Rightarrow> string \<Rightarrow> string list" where
  "ancestors 0 d = []"
| "ancestors (Suc n) d = d # (if d = [] then [] else ancestors n (dirname d))"

definition found_rules :: "resolver \<Rightarrow> string \<Rightarrow> string \<Rightarrow> bexpr list \<times> rule list" where
  "found_rules res obj directory = join_found
     ((case dict_get (objects (top_file res)) obj of None \<Rightarrow> [] | Some rs \<Rightarrow> [add_rules res rs Y []])
      @ concat (map (rules_in res obj) (ancestors 3 directory)))"

text \<open>\<open>stem\<close> followed by a dot, a letter and a word boundary.\<close>

fun mentions_target :: "char option \<Rightarrow> string \<Rightarrow> string \<Rightarrow> bool" where
  "mentions_target prev p s =
     (((case prev of None \<Rightarrow> True | Some c \<Rightarrow> \<not> word_or_dash c) \<and> startswith s (p @ ''.'') \<and>
       (case drop (length p + 1) s of
          [] \<Rightarrow> False
        | l # r \<Rightarrow> (py_lower_letter l \<or> py_upper_letter l) \<and> ends_word r))
      \<or> (case s of [] \<Rightarrow> False | c # cs \<Rightarrow> mentions_target (Some c) p cs))"

declare mentions_target.simps [simp del]

definition unfollowed :: "resolver \<Rightarrow> string \<Rightarrow> string \<Rightarrow> string \<Rightarrow> kbuild_file option \<Rightarrow> bool" where
  "unfollowed res p stem obj own = (case own of
       None \<Rightarrow> True
     | Some f \<Rightarrow> unresolved_objects f \<or> includes_other f \<or> basename p \<in> set (included_sources res)
         \<or> mentioned word_or_dash word_or_dash (basename obj) (file_text f)
         \<or> mentions_target None (basename stem) (top_text res))"

definition unknown_cond :: "string \<Rightarrow> file_cond" where
  "unknown_cond why = \<lparr>status = Unknown_status, expr = UNKNOWN, rules = [], reason = why\<rparr>"

definition file_condition :: "resolver \<Rightarrow> string \<Rightarrow> file_cond" where
  "file_condition res path0 =
     (let p = strip_slashes path0
      in if is_other_arch res p then
           \<lparr>status = Other_arch, expr = N, rules = [],
            reason = join_with ''/'' (take 2 (split_on (CHR ''/'') p)) @ ''/ is not built for ARCH='' @ arch res\<rparr>
         else case object_of p of (stem, ext, obj) \<Rightarrow>
           if ext \<notin> set SOURCE_SUFFIXES then unknown_cond ''not a Kbuild source''
           else
             let directory = dirname p;
                 own = (if directory \<noteq> [] then find_kbuild_file res directory else None)
             in case found_rules res obj directory of (alternatives, used) \<Rightarrow>
               if alternatives \<noteq> [] then
                 \<lparr>status = Has_rule, expr = kb_or alternatives, rules = map as_dict (dedup used), reason = []\<rparr>
               else if unfollowed res p stem obj own then unknown_cond ''no Kbuild rule could be followed''
               else case dir_condition res directory of (dcond, drules) \<Rightarrow>
                 if dcond = UNKNOWN then unknown_cond ''directory build rule unknown''
                 else \<lparr>status = No_rule, expr = N, rules = map as_dict drules,
                       reason = (case own of None \<Rightarrow> [] | Some f \<Rightarrow> path f) @ '' does not build '' @ basename obj\<rparr>)"

subsection \<open>Every condition the parser builds is well-formed\<close>

definition wf_alts :: "alternatives \<Rightarrow> bool" where
  "wf_alts alts \<longleftrightarrow> list_all (\<lambda>(_, c). wf_bexpr c) alts"

definition wf_env :: "(string \<Rightarrow> alternatives option) \<Rightarrow> bool" where
  "wf_env env \<longleftrightarrow> (\<forall>n alts. env n = Some alts \<longrightarrow> wf_alts alts)"

definition wf_vars :: "variables \<Rightarrow> bool" where
  "wf_vars local \<longleftrightarrow> (\<forall>n alts. local n = Some (Some alts) \<longrightarrow> wf_alts alts)"

definition wf_members :: "list_member list \<Rightarrow> bool" where
  "wf_members ms \<longleftrightarrow> list_all (\<lambda>(_, c, _, g). wf_bexpr c \<and> wf_bexpr g) ms"

definition wf_file :: "kbuild_file \<Rightarrow> bool" where
  "wf_file f \<longleftrightarrow> dict_all (\<lambda>r. wf_bexpr (cond r)) (objects f) \<and> dict_all (\<lambda>r. wf_bexpr (cond r)) (subdirs f)
     \<and> dict_all (\<lambda>(_, r). wf_bexpr (cond r)) (composites f)
     \<and> dict_all (\<lambda>(_, c, _, g). wf_bexpr c \<and> wf_bexpr g) (members f) \<and> wf_vars (vars f)"

definition wf_items :: "item list \<Rightarrow> bool" where
  "wf_items its \<longleftrightarrow> list_all (\<lambda>(_, c, _). wf_bexpr c) its"

lemma wf_alternatives_of: "wf_env env \<Longrightarrow> wf_vars local \<Longrightarrow> alternatives_of env local n = Some alts \<Longrightarrow> wf_alts alts"
  by (auto simp: alternatives_of_def wf_env_def wf_vars_def split: option.splits)

lemma wf_expand_step: "wf_alts results \<Longrightarrow> wf_alts alts \<Longrightarrow> wf_alts (expand_step results l alts)"
  by (auto simp: wf_alts_def expand_step_def list_all_iff intro!: kb_and_wf)

lemma wf_expand_refs:
  "(\<And>n alts. alts_of n = Some alts \<Longrightarrow> wf_alts alts) \<Longrightarrow> wf_alts results \<Longrightarrow>
   expand_refs alts_of ms results = Some out \<Longrightarrow> wf_alts out"
proof (induction ms arbitrary: results)
  case (Cons m ms)
  obtain l n where m: "m = (l, n)" by (cases m)
  with Cons.prems(3) obtain alts where a: "alts_of n = Some alts"
    "expand_refs alts_of ms (expand_step results l alts) = Some out"
    by (auto simp: Let_def split: option.splits list.splits if_splits)
  show ?case
    by (rule Cons.IH[OF Cons.prems(1) wf_expand_step a(2)]) (use Cons.prems(1,2) a(1) in auto)
qed simp

lemma wf_expand:
  assumes "wf_env env" "wf_vars local" "expand env text local = Some alts"
  shows "wf_alts alts"
proof -
  obtain ms tail where refs: "var_refs text = (ms, tail)" by (cases "var_refs text")
  with assms(3) obtain out where out: "expand_refs (alternatives_of env local) ms [([], Y)] = Some out"
    and alts: "alts = map (\<lambda>(s, c). (s @ tail, c)) out"
    by (auto simp: expand_def Let_def split: option.splits if_splits)
  have "wf_alts out"
    by (rule wf_expand_refs[OF wf_alternatives_of[OF assms(1,2)] _ out]) (auto simp: wf_alts_def)
  then show ?thesis by (auto simp: alts wf_alts_def list_all_iff)
qed

lemma wf_condition:
  assumes "wf_env env" "wf_vars local"
  shows "wf_bexpr (condition env kind args local)"
proof (cases "kind = Ifdef \<or> kind = Ifndef")
  case True
  have neg: "wf_bexpr (if kind = Ifndef then kb_not c else c)" if "wf_bexpr c" for c
    using that by (simp add: kb_not_wf)
  have "wf_bexpr (kb_or (map snd (filter (\<lambda>(v, c). py_strip v \<noteq> []) alts)))"
    if "alternatives_of env local n = Some alts" for n alts
    using wf_alternatives_of[OF assms that] by (auto simp: wf_alts_def list_all_iff intro!: kb_or_wf)
  note neg_or = neg[OF this]
  show ?thesis
  proof (cases "alternatives_of env local (py_strip args)")
    case None
    then show ?thesis unfolding condition_def Let_def if_P[OF True] by (simp add: kb_not_wf)
  next
    case (Some alts)
    with neg_or[OF Some] show ?thesis
      unfolding condition_def Let_def if_P[OF True]
      by (cases "kind = Ifndef"; cases alts) (simp_all add: kb_not_wf del: filter.simps list.map)
  qed
next
  case False
  then show ?thesis
    by (auto simp: condition_def Let_def split: option.splits intro!: kb_not_wf)
qed

lemma wf_list_gate: "list_gate s = Some g \<Longrightarrow> wf_bexpr g"
  by (auto simp: list_gate_def split: if_splits option.splits)

lemma wf_or_unknown: "wf_bexpr (or_unknown (list_gate s))"
  by (auto simp: or_unknown_def dest: wf_list_gate split: option.splits)

lemma wf_list_selects: "wf_bexpr g \<Longrightarrow> wf_bexpr (list_selects kind g wanted)"
  by (auto simp: list_selects_def split: bexpr.splits)

lemma wf_goal_gate: "wf_env env \<Longrightarrow> wf_file kf \<Longrightarrow> wf_bexpr (goal_gate env kf s)"
proof -
  assume wf: "wf_env env" "wf_file kf"
  have "wf_bexpr (kb_or (map (\<lambda>(v, c). kb_and [c, if v = ''y'' then Y else if v = ''m'' then M else N]) alts))"
    if "expand env s (vars kf) = Some alts" for alts
  proof (rule kb_or_wf)
    have "wf_alts alts" by (rule wf_expand[OF wf(1) _ that]) (use wf(2) in \<open>simp add: wf_file_def\<close>)
    then show "list_all wf_bexpr (map (\<lambda>(v, c). kb_and [c, if v = ''y'' then Y else if v = ''m'' then M else N]) alts)"
      by (auto simp: wf_alts_def list_all_iff intro!: kb_and_wf)
  qed
  then show ?thesis
    by (cases "list_gate s") (auto simp: goal_gate_def wf_list_gate split: option.splits list.splits)
qed

lemma wf_plain_items: "wf_env env \<Longrightarrow> wf_file kf \<Longrightarrow> wf_items (plain_items env kf word)"
proof -
  assume wf: "wf_env env" "wf_file kf"
  have mem: "wf_items (member_items ms wanted)" if "dict_get (members kf) name = Some ms" for ms name wanted
    using dict_all_get[OF _ that] wf(2)
    by (force simp: wf_items_def member_items_def wf_file_def list_all_iff intro!: kb_and_wf wf_list_selects)
  have alt: "wf_items (map (\<lambda>(v, c). (Some v, c, False)) alts)" if "expand env word (vars kf) = Some alts" for alts
    using wf_expand[OF wf(1) _ that] wf(2) by (auto simp: wf_items_def wf_file_def wf_alts_def list_all_iff)
  show ?thesis
    unfolding plain_items_def
    by (auto split: option.splits simp: mem alt) (simp_all add: wf_items_def)
qed

lemma wf_items: "wf_env env \<Longrightarrow> wf_file kf \<Longrightarrow> wf_items (items env kf rhs)"
proof (induction env kf rhs rule: items.induct)
  case (1 env kf rhs)
  have "wf_items (if CHR ''$'' \<notin> set word then [(Some word, Y, False)]
       else case follow_addprefix word of
           Some (pre, inner) \<Rightarrow>
             map (\<lambda>(w, c, a). (map_option (\<lambda>w. if a then w else pre @ w) w, c, a)) (items env kf inner)
         | None \<Rightarrow> plain_items env kf word)" if w: "word \<in> set (split_words rhs)" for word
  proof (cases "CHR ''$'' \<in> set word")
    case True
    show ?thesis
    proof (cases "follow_addprefix word")
      case None
      with True 1 show ?thesis by (simp add: wf_plain_items)
    next
      case (Some pi)
      obtain pre inner where "pi = (pre, inner)" by (cases pi)
      with True Some 1(1)[OF w _ Some] 1(2,3) show ?thesis by (auto simp: wf_items_def list_all_iff)
    qed
  qed (simp add: wf_items_def)
  then show ?case
    unfolding items.simps[of env kf rhs] wf_items_def list_all_iff by (simp only: set_concat set_map) blast
qed

lemma wf_add_member:
  "wf_file kf \<Longrightarrow> wf_bexpr gate \<Longrightarrow> wf_bexpr cnd \<Longrightarrow> (\<And>i c a. it = (i, c, a) \<Longrightarrow> wf_bexpr c) \<Longrightarrow>
   wf_file (add_member base name kind gate cnd ln text kf it)"
  by (cases it; cases "fst it") (auto simp: add_member_def wf_file_def Let_def intro!: kb_and_wf)

lemma wf_add_item:
  "wf_file kf \<Longrightarrow> wf_bexpr gate \<Longrightarrow> wf_bexpr cnd \<Longrightarrow> (\<And>i c a. it = (i, c, a) \<Longrightarrow> wf_bexpr c) \<Longrightarrow>
   wf_file (add_item base name gate cnd ln text kf it)"
  by (cases it; cases "fst it") (auto simp: add_item_def wf_file_def Let_def split: option.splits intro!: kb_and_wf)

lemma wf_list_assignment:
  assumes "wf_env env" "wf_file kf" "wf_bexpr cnd"
  shows "wf_file (list_assignment env top_level base name suffix rhs cnd ln text kf)"
proof -
  have its: "\<And>i c a. (i, c, a) \<in> set (items env kf rhs) \<Longrightarrow> wf_bexpr c"
    using wf_items[OF assms(1,2)] by (fastforce simp: wf_items_def list_all_iff)
  have "wf_file (foldl (add_member base name k (or_unknown (list_gate suffix)) cnd ln text) kf (items env kf rhs))" for k
    by (rule foldl_invariant[of wf_file, OF assms(2)]) (auto intro!: wf_add_member wf_or_unknown assms(3) dest: its)
  moreover have "wf_file (foldl (add_item base name (goal_gate env kf suffix) cnd ln text) kf (items env kf rhs))"
    by (rule foldl_invariant[of wf_file, OF assms(2)]) (auto intro!: wf_add_item wf_goal_gate assms dest: its)
  ultimately show ?thesis using assms(2) by (simp add: list_assignment_def Let_def)
qed

lemma wf_assign_variable:
  assumes "wf_vars local" "wf_bexpr c"
  shows "wf_vars (assign_variable local n op rhs c)"
proof -
  have "wf_alts (case local n of Some (Some a) \<Rightarrow> a | _ \<Rightarrow> [])"
    using assms(1) by (auto simp: wf_vars_def wf_alts_def split: option.splits)
  then show ?thesis
    using assms by (auto simp: assign_variable_def Let_def wf_vars_def wf_alts_def)
qed

lemma wf_assignment:
  assumes "wf_env env" "wf_file kf" "wf_bexpr c"
  shows "wf_file (assignment env top_level base c ln text lor kf)"
proof -
  obtain lhs op rhs where lor: "lor = (lhs, op, rhs)" by (cases lor)
  have flag: "wf_file (f\<lparr>unresolved_objects := b\<rparr>)" if "wf_file f" for f b
    using that by (simp add: wf_file_def)
  have subs: "wf_file (foldl (add_subdirs base (kb_and [c, or_unknown (list_gate s)]) ln t) f ws)" if "wf_file f" for f s t ws
    by (rule foldl_invariant[of wf_file, OF that])
      (auto simp: add_subdirs_def wf_file_def assms(3) wf_or_unknown intro!: kb_and_wf)
  have var: "wf_file (f\<lparr>vars := v\<rparr>)" if "wf_file f" "wf_vars v" for f v
    using that by (simp add: wf_file_def)
  have vars: "wf_vars (assign_variable (vars kf) lhs op rhs c)"
    using assms(2) wf_assign_variable[OF _ assms(3)] by (simp add: wf_file_def)
  show ?thesis
    using assms(2) unfolding assignment_def lor prod.case Let_def
    by (auto split: option.splits intro!: flag subs var vars wf_list_assignment assms(1,3))
qed

definition wf_parse :: "parse_state \<Rightarrow> bool" where
  "wf_parse st \<longleftrightarrow> wf_file (kfile st) \<and> wf_stack (conds st)"

lemma wf_parse_intros:
  "wf_parse a \<Longrightarrow> wf_parse b \<Longrightarrow> wf_parse (if c then a else b)"
  "wf_parse a \<Longrightarrow> (\<And>x. wf_parse (f x)) \<Longrightarrow> wf_parse (case opt of None \<Rightarrow> a | Some x \<Rightarrow> f x)"
  "(\<And>x y. wf_parse (g x y)) \<Longrightarrow> wf_parse (case p of (x, y) \<Rightarrow> g x y)"
  "wf_file kf \<Longrightarrow> wf_parse st \<Longrightarrow> wf_parse (st\<lparr>kfile := kf\<rparr>)"
  "wf_stack k \<Longrightarrow> wf_parse st \<Longrightarrow> wf_parse (st\<lparr>conds := k\<rparr>)"
  "wf_parse st \<Longrightarrow> wf_parse (st\<lparr>in_define := d\<rparr>)"
  by (auto simp: wf_parse_def split: option.split prod.split)

lemma wf_parse_line:
  assumes "wf_env env" "wf_parse st"
  shows "wf_parse (parse_line env top_level base st lt)"
proof -
  obtain ln tx where lt: "lt = (ln, tx)" by (cases lt)
  have st: "wf_file (kfile st)" "wf_stack (conds st)" using assms by (auto simp: wf_parse_def)
  have c: "wf_bexpr (condition env kind args (vars (kfile st)))" for kind args
    using st assms(1) by (simp add: wf_condition wf_file_def)
  have e: "wf_bexpr (case q of None \<Rightarrow> Y | Some (kind, args) \<Rightarrow> condition env kind args (vars (kfile st)))" for q
    by (cases q) (auto simp: c)
  have m: "wf_parse (st\<lparr>kfile := mark_computed tx (kfile st)\<rparr>)"
    using assms(2) by (simp add: mark_computed_def wf_parse_def wf_file_def)
  have i: "wf_file (f\<lparr>includes_other := True\<rparr>)" if "wf_file f" for f
    using that by (simp add: wf_file_def)
  have a: "wf_parse (s'\<lparr>kfile := assignment env top_level base (current (conds s')) ln tx lor (kfile s')\<rparr>)"
    if "wf_parse s'" for s' lor
    using that wf_assignment[OF assms(1) _ current_wf] by (simp add: wf_parse_def)
  have i': "wf_parse (s'\<lparr>kfile := (kfile s')\<lparr>includes_other := True\<rparr>\<rparr>)" if "wf_parse s'" for s'
    using that i by (simp add: wf_parse_def)
  show ?thesis
    unfolding parse_line_def lt prod.case Let_def
    by (intro wf_parse_intros(1-3) a i' m)
      (intro wf_parse_intros wf_stack_ops st assms(2) c e)+
qed

lemma wf_parse: "wf_env env \<Longrightarrow> wf_file (parse env top_level content p)"
proof -
  assume wf: "wf_env env"
  have "wf_parse (foldl (parse_line env top_level b)
     \<lparr>kfile = new_file p content, conds = \<lparr>frames = [], transparent_unknown = top_level\<rparr>, in_define = False\<rparr> ls)" for b ls
  proof (rule foldl_invariant)
    show "wf_parse \<lparr>kfile = new_file p content, conds = \<lparr>frames = [], transparent_unknown = top_level\<rparr>, in_define = False\<rparr>"
      by (simp add: wf_parse_def wf_file_def new_file_def wf_vars_def wf_stack_def)
  qed (rule wf_parse_line[OF wf])
  then show ?thesis by (simp add: parse_def wf_parse_def)
qed

lemma wf_base_env: "wf_env (base_env res)"
  by (simp add: wf_env_def base_env_def wf_alts_def)

lemma wf_arch_env: "wf_env (arch_env res)"
proof -
  have "wf_vars (vars (parse (base_env res) True c p))" for c p
    using wf_parse[OF wf_base_env] by (simp add: wf_file_def)
  then have "wf_alts (a # as)" if "vars (parse (base_env res) True c p) n = Some (Some (a # as))" for a as c p n
    using that by (simp add: wf_vars_def)
  then show ?thesis
    using wf_base_env[of res]
    by (auto simp: wf_env_def arch_env_def Let_def split: if_splits option.splits list.splits)
qed

lemma wf_top_file: "wf_file (top_file res)"
proof -
  have "wf_file (merge_top f g)" if "wf_file f" "wf_file g" for f g
    using that by (auto simp: wf_file_def merge_top_def dict_all_foldl_extend)
  then show ?thesis
    unfolding top_file_def
    by (intro foldl_invariant[of wf_file]) (auto intro: wf_parse[OF wf_arch_env])
qed

lemma wf_find_kbuild_file: "find_kbuild_file res d = Some f \<Longrightarrow> wf_file f"
  by (auto simp: find_kbuild_file_def Let_def intro: wf_parse[OF wf_arch_env]
      split: if_splits option.splits)

lemma wf_rules_cond: "list_all (\<lambda>r. wf_bexpr (cond r)) rs \<Longrightarrow> wf_bexpr (rules_cond rs)"
  by (auto simp: rules_cond_def list_all_iff intro!: kb_or_wf)

text \<open>The three ways a directory gets its condition: decided outright, listed by its parent, or neither.\<close>

definition listed_rules :: "resolver \<Rightarrow> string \<Rightarrow> rule list" where
  "listed_rules res d = (if dirname d = [] then [] else
     case find_kbuild_file res (dirname d) of None \<Rightarrow> [] | Some pf \<Rightarrow> dict_list (subdirs pf) d)"

definition settled_at_top :: "resolver \<Rightarrow> string \<Rightarrow> bool" where
  "settled_at_top res d \<longleftrightarrow> d = [] \<or> is_other_arch res (d @ ''/'') \<or> dict_get (subdirs (top_file res)) d \<noteq> None"

lemma dir_condition_cases:
  fixes res d0
  defines "d \<equiv> strip_slashes d0"
  obtains
    (root) "d = []" "dir_condition res d0 = (Y, [])"
  | (other) "d \<noteq> []" "is_other_arch res (d @ ''/'')" "dir_condition res d0 = (N, [])"
  | (top) rs where "d \<noteq> []" "\<not> is_other_arch res (d @ ''/'')" "dict_get (subdirs (top_file res)) d = Some rs"
      "dir_condition res d0 = (rules_cond rs, take 1 rs)"
  | (listed) "\<not> settled_at_top res d" "listed_rules res d \<noteq> []"
      "dir_condition res d0 = (kb_and [rules_cond (listed_rules res d), fst (dir_condition res (dirname d))],
         take 1 (listed_rules res d) @ snd (dir_condition res (dirname d)))"
  | (unlisted) "\<not> settled_at_top res d" "listed_rules res d = []" "fst (dir_condition res d0) \<in> {UNKNOWN, N}"
proof -
  note eq = dir_condition.simps[of res d0, folded d_def, unfolded Let_def]
  show ?thesis
  proof (cases "settled_at_top res d")
    case True
    then consider "d = []" | "d \<noteq> []" "is_other_arch res (d @ ''/'')"
      | rs where "d \<noteq> []" "\<not> is_other_arch res (d @ ''/'')" "dict_get (subdirs (top_file res)) d = Some rs"
      unfolding settled_at_top_def by blast
    then show ?thesis by cases (auto simp: eq intro: that)
  next
    case False
    then have t: "d \<noteq> []" "\<not> is_other_arch res (d @ ''/'')" "dict_get (subdirs (top_file res)) d = None"
      unfolding settled_at_top_def by auto
    show ?thesis
    proof (cases "listed_rules res d = []")
      case True
      have "fst (dir_condition res d0) \<in> {UNKNOWN, N}"
        using True unfolding eq listed_rules_def
        by (auto simp: t split: option.splits prod.splits)
      with False True show ?thesis by (rule that(5))
    next
      case ne: False
      then obtain pf where pf: "dirname d \<noteq> []" "find_kbuild_file res (dirname d) = Some pf"
        "listed_rules res d = dict_list (subdirs pf) d"
        by (auto simp: listed_rules_def split: if_splits option.splits)
      have "dir_condition res d0 = (kb_and [rules_cond (listed_rules res d), fst (dir_condition res (dirname d))],
         take 1 (listed_rules res d) @ snd (dir_condition res (dirname d)))"
        using ne pf t unfolding eq by (simp add: case_prod_beta)
      with False ne show ?thesis by (rule that(4))
    qed
  qed
qed

lemma wf_listed_rules: "list_all (\<lambda>r. wf_bexpr (cond r)) (listed_rules res d)"
  by (auto simp: listed_rules_def wf_file_def dict_all_list dest: wf_find_kbuild_file split: option.split)

lemma parent_shorter: "\<not> settled_at_top res (strip_slashes d0) \<Longrightarrow> length (dirname (strip_slashes d0)) < length d0"
  by (rule dirname_shorter) (simp add: settled_at_top_def)

lemma wf_dir_condition: "wf_bexpr (fst (dir_condition res d))"
proof (induction d rule: length_induct)
  case (1 d)
  show ?case
  proof (cases rule: dir_condition_cases[of d res])
    case (top rs)
    have "list_all (\<lambda>r. wf_bexpr (cond r)) rs"
      using wf_top_file[of res] top(3) by (auto simp: wf_file_def dict_all_get)
    then show ?thesis using top(4) by (simp add: wf_rules_cond)
  next
    case listed
    then show ?thesis
      using 1 parent_shorter[OF listed(1)] by (simp add: wf_rules_cond wf_listed_rules)
  qed auto
qed

lemma wf_add_rules: "list_all (\<lambda>r. wf_bexpr (cond r)) rs \<Longrightarrow> wf_bexpr c \<Longrightarrow> list_all wf_bexpr (fst (add_rules res rs c d))"
  using wf_dir_condition[of res d]
  by (auto simp: add_rules_def list_all_iff case_prod_beta Let_def intro!: kb_and_wf)

lemma wf_member_rules:
  assumes "wf_file kf" "wf_bexpr (cond r)" "f \<in> set (member_rules res obj kf d composite (m, r))"
  shows "list_all wf_bexpr (fst f)"
proof (cases "dict_get (objects kf) composite")
  case (Some rs)
  then have "list_all (\<lambda>r. wf_bexpr (cond r)) rs" using assms(1) by (auto simp: wf_file_def dict_all_get)
  then have "list_all wf_bexpr (fst (add_rules res rs (cond r) d))" by (rule wf_add_rules[OF _ assms(2)])
  moreover have "f = add_rules res rs (cond r) d \<or> f = ([], [r])"
    using assms(3) Some by (cases "m = obj") (simp_all add: member_rules_def)
  ultimately show ?thesis by (elim disjE) simp_all
next
  case None
  then show ?thesis using assms(3) by (cases "m = obj") (simp_all add: member_rules_def)
qed

lemma wf_composite_rules:
  assumes "wf_file kf" "f \<in> set (composite_rules res obj kf d)"
  shows "list_all wf_bexpr (fst f)"
proof -
  obtain cp ms m r where m: "(cp, ms) \<in> set (composites kf)" "(m, r) \<in> set ms"
    and f: "f \<in> set (member_rules res obj kf d cp (m, r))"
    using assms(2) unfolding composite_rules_def by auto
  have "dict_all (\<lambda>(_, r). wf_bexpr (cond r)) (composites kf)" using assms(1) by (simp add: wf_file_def)
  with m have "wf_bexpr (cond r)" unfolding dict_all_def list_all_iff by fastforce
  from wf_member_rules[OF assms(1) this f] show ?thesis .
qed

lemma wf_rules_in: "f \<in> set (rules_in res obj d) \<Longrightarrow> list_all wf_bexpr (fst f)"
proof (cases "find_kbuild_file res d")
  case (Some kf)
  then have wf: "wf_file kf" by (rule wf_find_kbuild_file)
  assume "f \<in> set (rules_in res obj d)"
  then consider rs where "dict_get (objects kf) obj = Some rs" "f = add_rules res rs Y d"
    | "f \<in> set (composite_rules res obj kf d)"
    using Some by (cases "dict_get (objects kf) obj") (auto simp: rules_in_def)
  then show ?thesis
  proof cases
    case (1 rs)
    then show ?thesis using wf by (auto simp: wf_file_def dict_all_get intro!: wf_add_rules)
  qed (rule wf_composite_rules[OF wf])
qed (simp add: rules_in_def)

lemma wf_found_rules: "list_all wf_bexpr (fst (found_rules res obj d))"
proof -
  have "list_all wf_bexpr (fst f)"
    if "f \<in> set (case dict_get (objects (top_file res)) obj of None \<Rightarrow> [] | Some rs \<Rightarrow> [add_rules res rs Y []])" for f
    using that wf_top_file[of res]
    by (auto simp: wf_file_def dict_all_get intro!: wf_add_rules split: option.splits)
  then show ?thesis
    unfolding found_rules_def join_found_def list_all_iff by (auto dest!: wf_rules_in simp: list_all_iff)
qed

lemma wf_file_condition: "wf_bexpr (expr (file_condition res p))"
proof -
  have "wf_bexpr (kb_or alts)" if "found_rules res obj d = (alts, used)" for obj d alts used
    using wf_found_rules[of res obj d] that by simp
  then show ?thesis
    by (auto simp: file_condition_def unknown_cond_def Let_def split: prod.splits)
qed

lemma expand_refs_known: "expand_refs alts_of ms results = Some out \<Longrightarrow> (l, n) \<in> set ms \<Longrightarrow> alts_of n \<noteq> None"
proof (induction ms arbitrary: results)
  case (Cons m ms)
  obtain l' n' where m: "m = (l', n')" by (cases m)
  with Cons.prems(1) obtain alts where "alts_of n' = Some alts"
    "expand_refs alts_of ms (expand_step results l' alts) = Some out"
    by (auto simp: Let_def split: option.splits list.splits if_splits)
  with Cons.IH[of "expand_step results l' alts"] Cons.prems(2) m show ?case by auto
qed simp

subsection \<open>What the conditions promise\<close>



text \<open>
  C16: A definite answer about a file survives learning more of the configuration.  If the build condition of a
  path evaluates to \<open>n\<close> (or \<open>y\<close>) while some symbols are still unknown, it keeps that value under every
  completion of the valuation; an answer \<open>m\<close> can only stay or become \<open>y\<close>.  So a file reported as not
  compiled is never reported compiled once unknown symbols get their values.
\<close>

theorem file_answer_stable:
  assumes "v \<subseteq>\<^sub>m w"
  shows "(evaluate v (expr (file_condition res p)) = ''n'' \<longrightarrow> evaluate w (expr (file_condition res p)) = ''n'')
    \<and> (evaluate v (expr (file_condition res p)) = ''y'' \<longrightarrow> evaluate w (expr (file_condition res p)) = ''y'')
    \<and> (evaluate v (expr (file_condition res p)) = ''m'' \<longrightarrow> evaluate w (expr (file_condition res p)) \<in> {''m'', ''y''})"
  using evaluate_refines[OF assms wf_file_condition[of res p]] by (auto simp: refines_def)

theorem file_answer_stable_witness:
  "evaluate (\<lambda>_. Some ''y'') (expr (file_condition
     \<lparr>read = \<lambda>_. None, exists = \<lambda>_. False, arch = ''x86_64'', srcarch = ''x86'', included_sources = [], arch_trees = None\<rparr>
     ''arch/arm/a.c'')) = ''n''"
proof (rule file_answer_stable[THEN conjunct1, rule_format])
  show "Map.empty \<subseteq>\<^sub>m (\<lambda>_. Some ''y'')" by simp
qed (simp add: file_condition_def Let_def is_other_arch_def is_other_arch_path_def path_arch_def own_arch_dirs_def py_simps)

text \<open>
  An \<open>if\<close>/\<open>else\<close> pair of a Kbuild file takes exactly one branch.  Inside conditions that hold
  (\<open>current\<close> is \<open>y\<close> or \<open>m\<close>), after \<open>push c\<close> the branch is taken iff \<open>c\<close> is, after a following
  \<open>else\<close> iff it is not, and never both, whatever the enclosing frames; a third branch is excluded once one
  was taken.
\<close>

theorem if_else_exclusive:
  assumes "wf_stack st" "\<not> transparent_unknown st" "wf_bexpr c" "wf_bexpr d"
    and "evaluate v (current st) \<in> {''y'', ''m''}" "evaluate v c \<noteq> ''?''"
  shows "(evaluate v (current (push st c)) \<in> {''y'', ''m''} \<longleftrightarrow> evaluate v c \<in> {''y'', ''m''})
    \<and> (evaluate v (current (else_branch (push st c) Y)) \<in> {''y'', ''m''} \<longleftrightarrow> evaluate v c = ''n'')
    \<and> (evaluate v c \<in> {''y'', ''m''} \<longrightarrow> evaluate v (current (else_branch (push st c) d)) = ''n'')"
proof (intro conjI impI)
  let ?outer = "map (frame_value v) (frames st)"
  have outer: "tri_and ?outer \<in> {''y'', ''m''}"
    using assms(2,5) evaluate_current[OF assms(1), of v] by simp
  have join: "tri_and (?outer @ [u]) \<in> {''y'', ''m''} \<longleftrightarrow> u \<in> {''y'', ''m''}" if "tri_value u" for u
    using outer that by (auto simp: tri_and_def tri_value_def split: if_splits)
  have absorb: "tri_and (?outer @ [''n'']) = ''n''" by (simp add: tri_and_def)
  have val: "tri_value (evaluate v c)" using assms(3) by simp
  have push: "evaluate v (current (push st c)) = tri_and (?outer @ [evaluate v c])"
    using assms(2) val evaluate_current[OF wf_stack_ops(1)[OF assms(1,3)], of v]
    by (simp add: push_def frame_value_def tri_single)
  have els: "evaluate v (current (else_branch (push st c) e)) =
      tri_and (?outer @ [tri_and [tri_not (evaluate v c), evaluate v e]])" if "wf_bexpr e" for e
    using assms(2) evaluate_current[OF wf_stack_ops(2)[OF wf_stack_ops(1)[OF assms(1,3)] that], of v]
    by (simp add: push_def else_branch_def frame_value_def)
  show "evaluate v (current (push st c)) \<in> {''y'', ''m''} \<longleftrightarrow> evaluate v c \<in> {''y'', ''m''}"
    unfolding push by (rule join[OF val])
  have "tri_and [tri_not (evaluate v c), ''y''] = tri_not (evaluate v c)"
    by (simp add: tri_and_def tri_not_def)
  then show "evaluate v (current (else_branch (push st c) Y)) \<in> {''y'', ''m''} \<longleftrightarrow> evaluate v c = ''n''"
    using join[of "tri_not (evaluate v c)"] val assms(6) els[of Y]
    by (auto simp: tri_value_def tri_not_def)
  show "evaluate v (current (else_branch (push st c) d)) = ''n''" if "evaluate v c \<in> {''y'', ''m''}"
  proof -
    have "tri_not (evaluate v c) = ''n''" using that by (auto simp: tri_not_def)
    then have "tri_and [tri_not (evaluate v c), evaluate v d] = ''n''" by (simp add: tri_and_def)
    then show ?thesis by (simp add: els[OF assms(4)] absorb)
  qed
qed

theorem if_else_exclusive_witness:
  "evaluate (\<lambda>_. Some ''y'') (current (else_branch (push \<lparr>frames = [[BSym ''NET'']], transparent_unknown = False\<rparr>
     (BSym ''SMP'')) (BSym ''PM''))) = ''n''"
  by (rule if_else_exclusive[THEN conjunct2, THEN conjunct2, rule_format]) (simp_all add: wf_stack_def current_def frame_current_def kb_and_def absorb_and_def append_new_def)

text \<open>
  \<open>expand\<close> follows a reference completely or not at all: when it answers, every choice of one
  alternative per reference whose conditions hold is among the results, under a condition that holds, and there are
  at most four results; an unknown reference makes it answer \<open>None\<close>.
\<close>

theorem expand_complete:
  assumes "expand env text local = Some out" "var_refs text = (ms, tail)"
  shows "((\<forall>(l, n) \<in> set ms. \<exists>alts c. alternatives_of env local n = Some alts \<and> (pick n, c) \<in> set alts
         \<and> wf_bexpr c \<and> evaluate v c = ''y'') \<longrightarrow>
      (\<exists>c. (subst_refs pick ms @ tail, c) \<in> set out \<and> evaluate v c = ''y''))
    \<and> (ms \<noteq> [] \<longrightarrow> length out \<le> 4)
    \<and> (\<forall>(l, n) \<in> set ms. alternatives_of env local n \<noteq> None)"
proof (intro conjI impI)
  obtain res where res: "expand_refs (alternatives_of env local) ms [([], Y)] = Some res"
    and out: "out = map (\<lambda>(s, c). (s @ tail, c)) res"
    using assms by (auto simp: expand_def Let_def split: option.splits if_splits)
  show "\<exists>c. (subst_refs pick ms @ tail, c) \<in> set out \<and> evaluate v c = ''y''"
    if picks: "\<forall>(l, n) \<in> set ms. \<exists>alts c. alternatives_of env local n = Some alts \<and> (pick n, c) \<in> set alts
         \<and> wf_bexpr c \<and> evaluate v c = ''y''"
  proof -
    have "\<exists>c'. ([] @ subst_refs pick ms, c') \<in> set res \<and> wf_bexpr c' \<and> evaluate v c' = ''y''"
      by (rule expand_refs_complete[OF res picks]) auto
    then show ?thesis by (force simp: out)
  qed
  show "length out \<le> 4" if "ms \<noteq> []"
    using expand_refs_bounded[OF res that] by (simp add: out MAX_ALTERNATIVES_def)
  show "\<forall>(l, n) \<in> set ms. alternatives_of env local n \<noteq> None"
    using expand_refs_known[OF res] by blast
qed

theorem expand_complete_witness:
  "\<exists>c. (''a64'', c) \<in> set [(''a32'', BSym ''W''), (''a64'', BNot (BSym ''W''))] \<and> evaluate (\<lambda>_. Some ''n'') c = ''y''"
proof -
  let ?env = "[''B'' \<mapsto> [(''32'', BSym ''W''), (''64'', BNot (BSym ''W''))]]"
  have refs: "var_refs ''a$(B)'' = ([(''a'', ''B'')], [])"
    by (simp add: var_refs_def refs_from.simps ref_at_def Let_def ref_char_def py_simps)
  have "expand ?env ''a$(B)'' Map.empty = Some [(''a32'', BSym ''W''), (''a64'', BNot (BSym ''W''))]"
    by (simp add: expand_def refs alternatives_of_def expand_step_def kb_and_def absorb_and_def append_new_def
        MAX_ALTERNATIVES_def)
  from expand_complete[OF this refs, of "\<lambda>_. ''64''" "\<lambda>_. Some ''n''"] show ?thesis
    by (simp add: alternatives_of_def tri_not_def)
qed

text \<open>
  Make does not descend below a directory it does not build: unless the top-level files settle a directory
  themselves, its condition is never \<open>y\<close> or \<open>m\<close> under a configuration where its parent's condition is \<open>n\<close>,
  and when its parent lists it the condition is exactly the minimum of the listing rules and the parent's condition.
\<close>

theorem directory_needs_parent:
  assumes "\<not> settled_at_top res (strip_slashes d)"
  shows "(evaluate v (fst (dir_condition res (dirname (strip_slashes d)))) = ''n'' \<longrightarrow>
      evaluate v (fst (dir_condition res d)) \<in> {''n'', ''?''})
    \<and> (listed_rules res (strip_slashes d) \<noteq> [] \<longrightarrow>
      evaluate v (fst (dir_condition res d)) =
        tri_and [tri_or (map (\<lambda>r. evaluate v (cond r)) (listed_rules res (strip_slashes d))),
                 evaluate v (fst (dir_condition res (dirname (strip_slashes d))))])"
proof (intro conjI impI)
  let ?d = "strip_slashes d"
  have eval: "evaluate v (kb_and [rules_cond (listed_rules res ?d), fst (dir_condition res (dirname ?d))]) =
        tri_and [tri_or (map (\<lambda>r. evaluate v (cond r)) (listed_rules res ?d)),
                 evaluate v (fst (dir_condition res (dirname ?d)))]"
  proof -
    have "evaluate v (rules_cond (listed_rules res ?d)) = tri_or (map (\<lambda>r. evaluate v (cond r)) (listed_rules res ?d))"
      unfolding rules_cond_def using wf_listed_rules[of res ?d]
      by (subst evaluate_kb_or) (auto simp: list_all_iff o_def)
    then show ?thesis
      by (subst evaluate_kb_and) (simp_all add: wf_rules_cond wf_listed_rules wf_dir_condition)
  qed
  show "evaluate v (fst (dir_condition res d)) =
        tri_and [tri_or (map (\<lambda>r. evaluate v (cond r)) (listed_rules res ?d)),
                 evaluate v (fst (dir_condition res (dirname ?d)))]" if "listed_rules res ?d \<noteq> []"
    by (cases rule: dir_condition_cases[of d res])
      (use assms that eval in \<open>auto simp: settled_at_top_def\<close>)
  show "evaluate v (fst (dir_condition res d)) \<in> {''n'', ''?''}"
    if "evaluate v (fst (dir_condition res (dirname ?d))) = ''n''"
    by (cases rule: dir_condition_cases[of d res])
      (use assms that eval in \<open>auto simp: settled_at_top_def tri_and_def\<close>)
qed

definition small_tree :: "string \<Rightarrow> string option" where
  "small_tree = [''Makefile'' \<mapsto> ''drivers-$(CONFIG_A) += net/'', ''net/Makefile'' \<mapsto> ''obj-y += w/'']"

definition small_resolver :: resolver where
  "small_resolver = \<lparr>read = small_tree, exists = (\<lambda>p. small_tree p \<noteq> None), arch = ''x86_64'', srcarch = ''x86'',
     included_sources = [], arch_trees = None\<rparr>"

theorem directory_needs_parent_witness:
  "evaluate (\<lambda>_. Some ''n'') (fst (dir_condition small_resolver ''net/w/'')) \<in> {''n'', ''?''}"
proof (rule directory_needs_parent[THEN conjunct1, rule_format])
  show "\<not> settled_at_top small_resolver (strip_slashes ''net/w/'')" by code_simp
  show "evaluate (\<lambda>_. Some ''n'') (fst (dir_condition small_resolver (dirname (strip_slashes ''net/w/'')))) = ''n''"
    by code_simp
qed

end
