(* ===== verification/Table_Schema.thy ===== *)
theory Table_Schema
  imports Prelude_KI
begin

section \<open>Table schemas, rows and join graphs (core/TableHandling.py, core/globalstuff.py)\<close>

text \<open>
  The vocabulary of the storage layers: cells (\<open>SafeDataType\<close>), rows, the \<open>Table\<close> schema object with its
  constructor, wildcard matching of rows, primary keys, and the join graphs walked by \<open>PointerGetter\<close>.
  \<open>bytearray\<close> and \<open>memoryview\<close> values are the same bytes once sanitized, so \<open>CBytes\<close> stands for all three.
\<close>

datatype cell = CNone | CInt int | CStr string | CBytes string

type_synonym row = "cell list"

text \<open>A dictionary key made of one cell or of a tuple of cells.\<close>

datatype key = KCell cell | KTuple "cell list"

text \<open>The \<open>te_cached\<close> argument: \<open>True\<close>, falsy, or a list of column positions and names.\<close>

datatype col_item = ColAt nat | ColNamed string

datatype cache_cfg = CacheAll | CacheNone | CacheCols "col_item list"

datatype hash_cfg = NoHashing | HashDefault | HashNamed string | HashId nat

record table =
  table_id :: nat
  table_name :: string
  init_columns :: "string list list"
  init_primary :: "string list"
  primary :: "nat list"
  init_foreign :: "(string \<times> string \<times> string) list"
  initial_insert :: "row list option"
  no_duplicate :: bool
  blob_scoped :: bool
  cached_columns :: "nat list"
  indexes :: "(string \<times> string list) list"
  unique_keys :: "string list list"
  idempotent_pk :: bool
  hashing_table :: hash_cfg
  has_auto_increment :: bool

definition table_length :: "table \<Rightarrow> nat" where
  "table_length t = length (init_columns t)"

text \<open>\<open>[col[0] for col in columns].index(name)\<close>, \<open>None\<close> when the name is absent.\<close>

definition col_name :: "string list \<Rightarrow> string" where
  "col_name c = (case c of [] \<Rightarrow> [] | n # _ \<Rightarrow> n)"

fun col_index :: "string \<Rightarrow> string list list \<Rightarrow> nat option" where
  "col_index name [] = None"
| "col_index name (c # cs) = (if col_name c = name then Some 0 else map_option Suc (col_index name cs))"

text \<open>The constructor's loops: key column names to positions, and cached columns to positions.\<close>

fun resolve_primary :: "string list list \<Rightarrow> string list \<Rightarrow> nat list" where
  "resolve_primary cols [] = []"
| "resolve_primary cols (p # ps) =
     (case col_index p cols of None \<Rightarrow> resolve_primary cols ps | Some i \<Rightarrow> i # resolve_primary cols ps)"

fun resolve_cached :: "string list list \<Rightarrow> col_item list \<Rightarrow> nat list option" where
  "resolve_cached cols [] = Some []"
| "resolve_cached cols (ColAt i # its) = map_option (\<lambda>r. i # r) (resolve_cached cols its)"
| "resolve_cached cols (ColNamed n # its) =
     (case col_index n cols of None \<Rightarrow> None | Some i \<Rightarrow> map_option (\<lambda>r. i # r) (resolve_cached cols its))"

definition cache_columns :: "string list list \<Rightarrow> cache_cfg \<Rightarrow> nat list option" where
  "cache_columns cols cfg = (case cfg of
       CacheAll \<Rightarrow> Some [0..<length cols]
     | CacheNone \<Rightarrow> Some []
     | CacheCols its \<Rightarrow> resolve_cached cols its)"

text \<open>\<open>Table.__init__\<close>; \<open>None\<close> is the \<open>ValueError\<close> of an unknown cached column.\<close>

definition mk_table :: "nat \<Rightarrow> string \<Rightarrow> string list list \<Rightarrow> string list \<Rightarrow> (string \<times> string \<times> string) list \<Rightarrow>
    row list option \<Rightarrow> bool \<Rightarrow> cache_cfg \<Rightarrow> bool \<Rightarrow> hash_cfg \<Rightarrow> (string \<times> string list) list \<Rightarrow> string list list \<Rightarrow>
    bool \<Rightarrow> bool \<Rightarrow> table option" where
  "mk_table tid name cols prim foreign init nodup cache version_scoped hashing idxs uks idem blob =
     map_option (\<lambda>cached.
       \<lparr>table_id = tid, table_name = name, init_columns = cols, init_primary = prim,
        primary = resolve_primary cols prim, init_foreign = foreign, initial_insert = init, no_duplicate = nodup,
        blob_scoped = (blob \<or> version_scoped), cached_columns = cached, indexes = idxs, unique_keys = uks,
        idempotent_pk = idem, hashing_table = hashing,
        has_auto_increment = list_ex (list_ex (contains_sub ''AUTO_INCREMENT'')) cols\<rparr>)
     (cache_columns cols cache)"

lemma col_index_bound: "col_index n cols = Some i \<Longrightarrow> i < length cols \<and> col_name (cols ! i) = n"
  by (induction cols arbitrary: i) (auto split: if_splits)

lemma resolve_primary_bound: "i \<in> set (resolve_primary cols ps) \<Longrightarrow> i < length cols"
  by (induction ps) (auto split: option.splits dest: col_index_bound)

subsection \<open>Wildcard matching\<close>

text \<open>A row has every non-\<open>None\<close> value of the filter at its position.\<close>

fun row_matches :: "row \<Rightarrow> row \<Rightarrow> bool" where
  "row_matches r [] = True"
| "row_matches [] (c # cs) = (c = CNone \<and> row_matches [] cs)"
| "row_matches (v # vs) (c # cs) = ((c = CNone \<or> v = c) \<and> row_matches vs cs)"

lemma row_matches_iff:
  "row_matches r cols \<longleftrightarrow> (\<forall>i < length cols. cols ! i \<noteq> CNone \<longrightarrow> i < length r \<and> r ! i = cols ! i)"
proof (induction r cols rule: row_matches.induct)
  case (2 c cs)
  then show ?case by (auto simp: less_Suc_eq_0_disj)
next
  case (3 v vs c cs)
  then show ?case by (auto simp: less_Suc_eq_0_disj all_conj_distrib imp_conjR)
qed simp

lemma row_matches_wild: "list_all (\<lambda>c. c = CNone) cols \<Longrightarrow> row_matches r cols"
  by (simp add: row_matches_iff list_all_length)

text \<open>A row with every cell set only matches itself, up to length.\<close>

lemma row_matches_full:
  "list_all (\<lambda>c. c \<noteq> CNone) cols \<Longrightarrow> row_matches r cols \<longleftrightarrow> take (length cols) r = cols"
  by (induction r cols rule: row_matches.induct) auto

subsection \<open>Primary keys\<close>

definition cell_at :: "row \<Rightarrow> nat \<Rightarrow> cell option" where
  "cell_at r i = (if i < length r then Some (r ! i) else None)"

fun cells_at :: "row \<Rightarrow> nat list \<Rightarrow> row option" where
  "cells_at r [] = Some []"
| "cells_at r (i # is) = (case cell_at r i of None \<Rightarrow> None | Some c \<Rightarrow> map_option (\<lambda>cs. c # cs) (cells_at r is))"

text \<open>\<open>row[i]\<close> for a one-column key, the tuple of the columns otherwise; \<open>None\<close> is an \<open>IndexError\<close>.\<close>

definition key_of :: "nat list \<Rightarrow> row \<Rightarrow> key option" where
  "key_of prims r = (case prims of [i] \<Rightarrow> map_option KCell (cell_at r i) | _ \<Rightarrow> map_option KTuple (cells_at r prims))"

lemma cells_at_Some: "cells_at r is = Some cs \<longleftrightarrow> (\<forall>i \<in> set is. i < length r) \<and> cs = map ((!) r) is"
  by (induction "is" arbitrary: cs) (auto simp: cell_at_def)

lemma key_of_Some: "key_of prims r = Some k \<longleftrightarrow> (\<forall>i \<in> set prims. i < length r) \<and>
    k = (case prims of [i] \<Rightarrow> KCell (r ! i) | _ \<Rightarrow> KTuple (map ((!) r) prims))"
  by (auto simp: key_of_def cells_at_Some cell_at_def split: list.splits)

text \<open>The integer a key contributes to the id counter: its first column.\<close>

definition key_int :: "key \<Rightarrow> int option" where
  "key_int k = (case k of KCell (CInt n) \<Rightarrow> Some n | KTuple (CInt n # _) \<Rightarrow> Some n | _ \<Rightarrow> None)"

subsection \<open>Join graphs\<close>

type_synonym pointer = "nat \<times> nat"

datatype join = JFirst pointer | JOn pointer pointer nat

datatype joins = JTable nat | JGraph "join list"

fun join_from :: "join \<Rightarrow> pointer" where
  "join_from (JFirst p) = p"
| "join_from (JOn p q n) = p"

text \<open>Iterating a \<open>PointerGetter\<close>: (repeat, pointer) pairs; \<open>None\<close> is an \<open>IndexError\<close>.\<close>

fun join_targets :: "join list \<Rightarrow> (nat \<times> pointer) list option" where
  "join_targets [] = Some []"
| "join_targets (JFirst p # js) = None"
| "join_targets (JOn p q n # js) = map_option (\<lambda>r. (n, q) # r) (join_targets js)"

definition pointers :: "joins \<Rightarrow> (nat \<times> pointer) list option" where
  "pointers js = (case js of
       JTable t \<Rightarrow> Some []
     | JGraph [] \<Rightarrow> None
     | JGraph [JFirst p] \<Rightarrow> Some [(1, p)]
     | JGraph (j # rest) \<Rightarrow> map_option (\<lambda>r. (1, join_from j) # r) (join_targets (j # rest)))"

definition first_table_id :: "joins \<Rightarrow> nat option" where
  "first_table_id js = (case js of JTable t \<Rightarrow> Some t | JGraph [] \<Rightarrow> None | JGraph (j # _) \<Rightarrow> Some (fst (join_from j)))"

text \<open>\<open>PointerGetter.add_join\<close>; \<open>None\<close> is the emergency shutdown.\<close>

definition add_join :: "join list \<Rightarrow> pointer \<times> pointer \<times> nat \<Rightarrow> join list option" where
  "add_join js j = (case j of (p, q, n) \<Rightarrow> (case js of
       JFirst p0 # rest \<Rightarrow> if p = p0 then Some (JOn p0 q n # rest) else None
     | [] \<Rightarrow> None
     | _ \<Rightarrow> (case last js of
           JOn a b m \<Rightarrow> if b = q then Some (butlast js @ [JOn a b (m + 1)]) else Some (js @ [JOn p q n])
         | JFirst a \<Rightarrow> None)))"

end
