(* ===== verification/Db_Store.thy ===== *)
theory Db_Store
  imports Table_Schema
begin

section \<open>The in-memory database driver (db\_engine/mock\_db.py)\<close>

text \<open>
  \<open>MockDB\<close>: per table name a dictionary from primary key to row, in insertion order, and an id counter.
  Errors of the driver are values; a failing call still returns the store it left behind, because the
  Python code mutates its dictionaries row by row before it raises.
\<close>

type_synonym rows = "(key, row) dict"

record store =
  tables_data :: "(string, rows) dict"
  tables_next_id :: "(string, int) dict"
  tables_schema :: "(nat, table) dict"

definition empty_store :: store where
  "empty_store = \<lparr>tables_data = [], tables_next_id = [], tables_schema = []\<rparr>"

text \<open>\<open>Duplicate k\<close> is the \<open>ValueError\<close> of \<open>insert\<close>; \<open>Index_error\<close> a row too short for its key.\<close>

datatype db_error = Duplicate key | Index_error

definition rows_of :: "store \<Rightarrow> table \<Rightarrow> rows" where
  "rows_of st t = (case dict_get (tables_data st) (table_name t) of None \<Rightarrow> [] | Some d \<Rightarrow> d)"

definition set_table :: "table \<Rightarrow> rows \<Rightarrow> int \<Rightarrow> store \<Rightarrow> store" where
  "set_table t d n st = st\<lparr>tables_data := dict_set (table_name t) d (tables_data st),
     tables_next_id := dict_set (table_name t) n (tables_next_id st)\<rparr>"

definition set_rows :: "table \<Rightarrow> rows \<Rightarrow> store \<Rightarrow> store" where
  "set_rows t d st = st\<lparr>tables_data := dict_set (table_name t) d (tables_data st)\<rparr>"

definition next_id_of :: "store \<Rightarrow> table \<Rightarrow> int" where
  "next_id_of st t = (case dict_get (tables_next_id st) (table_name t) of None \<Rightarrow> 1 | Some n \<Rightarrow> n)"

subsection \<open>Ids\<close>

definition max_pk_step :: "nat \<Rightarrow> int \<Rightarrow> row \<Rightarrow> int" where
  "max_pk_step i m r = (case cell_at r i of Some (CInt n) \<Rightarrow> if n > m then n else m | _ \<Rightarrow> m)"

definition pk_position :: "table \<Rightarrow> nat" where
  "pk_position t = (case primary t of [] \<Rightarrow> 0 | i # _ \<Rightarrow> i)"

definition get_next_id :: "table \<Rightarrow> store \<Rightarrow> int \<times> store" where
  "get_next_id t st = (case dict_get (tables_next_id st) (table_name t) of
       Some n \<Rightarrow> (n, st)
     | None \<Rightarrow>
         (let rows = dict_values (rows_of st t);
              n = (if rows = [] then 1 else foldl (max_pk_step (pk_position t)) 0 rows + 1)
          in (n, st\<lparr>tables_next_id := dict_set (table_name t) n (tables_next_id st)\<rparr>)))"

subsection \<open>Reading\<close>

definition is_full_key :: "nat list \<Rightarrow> row \<Rightarrow> bool" where
  "is_full_key prims data \<longleftrightarrow> prims \<noteq> [] \<and> list_all (\<lambda>i. i < length data \<and> data ! i \<noteq> CNone) prims"

definition select :: "store \<Rightarrow> table \<Rightarrow> row \<Rightarrow> row option" where
  "select st t data =
     (let d = rows_of st t
      in if d = [] then None
         else if is_full_key (primary t) data then
           (case key_of (primary t) data of
              None \<Rightarrow> None
            | Some k \<Rightarrow> (case dict_get d k of
                  None \<Rightarrow> None
                | Some r \<Rightarrow> if row_matches r data then Some r else None))
         else if list_all (\<lambda>c. c = CNone) data then Some (snd (hd d))
         else find (\<lambda>r. row_matches r data) (dict_values d))"

definition select_in :: "store \<Rightarrow> table \<Rightarrow> nat \<Rightarrow> cell list \<Rightarrow> row list" where
  "select_in st t i values =
     filter (\<lambda>r. i < length r \<and> r ! i \<in> set values) (dict_values (rows_of st t))"

subsection \<open>Writing\<close>

definition bump :: "int option \<Rightarrow> int \<Rightarrow> int" where
  "bump k n = (case k of Some i \<Rightarrow> if i \<ge> n then i + 1 else n | None \<Rightarrow> n)"

text \<open>
  The key of a stored row: its primary key, or its first cell for a table without one.  (An empty row of a
  table without a key would be stored under its object address; the model rejects it.)
\<close>

definition store_key :: "table \<Rightarrow> row \<Rightarrow> key option" where
  "store_key t r = (if primary t = [] then map_option KCell (cell_at r 0) else key_of (primary t) r)"

fun insert_rows :: "table \<Rightarrow> rows \<Rightarrow> int \<Rightarrow> row list \<Rightarrow> rows \<times> int \<times> db_error option" where
  "insert_rows t d n [] = (d, n, None)"
| "insert_rows t d n (r # rs) =
     (case store_key t r of
        None \<Rightarrow> (d, n, Some Index_error)
      | Some k \<Rightarrow>
          if dict_get d k \<noteq> None then
            (if idempotent_pk t \<and> primary t \<noteq> [] then insert_rows t d n rs else (d, n, Some (Duplicate k)))
          else insert_rows t (dict_set k r d) (bump (key_int k) n) rs)"

text \<open>The counter is only written back when every row went in.\<close>

definition insert_into :: "table \<Rightarrow> row list \<Rightarrow> store \<Rightarrow> store \<times> db_error option" where
  "insert_into t rs st =
     (if rs = [] then (st, None) else
      case insert_rows t (rows_of st t) (next_id_of st t) rs of
        (d, n, None) \<Rightarrow> (set_table t d n st, None)
      | (d, n, Some e) \<Rightarrow> (set_rows t d st, Some e))"

fun update_rows :: "table \<Rightarrow> rows \<Rightarrow> int \<Rightarrow> row list \<Rightarrow> rows \<times> int \<times> db_error option" where
  "update_rows t d n [] = (d, n, None)"
| "update_rows t d n (r # rs) =
     (case store_key t r of
        None \<Rightarrow> (d, n, Some Index_error)
      | Some k \<Rightarrow> update_rows t (dict_set k r d) (bump (key_int k) n) rs)"

definition update_into :: "table \<Rightarrow> row list \<Rightarrow> store \<Rightarrow> store \<times> db_error option" where
  "update_into t rs st =
     (if rs = [] then (st, None) else
      case update_rows t (rows_of st t) (next_id_of st t) rs of
        (d, n, None) \<Rightarrow> (set_table t d n st, None)
      | (d, n, Some e) \<Rightarrow> (set_rows t d st, Some e))"

text \<open>One table of a commit: its inserts, then its updates.\<close>

type_synonym table_batch = "table \<times> row list \<times> row list"

definition write_table :: "table_batch \<Rightarrow> store \<Rightarrow> store \<times> db_error option" where
  "write_table b st = (case b of (t, ins, upd) \<Rightarrow>
     (case insert_into t ins st of
        (st1, Some e) \<Rightarrow> (st1, Some e)
      | (st1, None) \<Rightarrow> update_into t upd st1))"

record commit_stat =
  stat_table :: string
  inserted :: nat
  updated :: nat

text \<open>\<open>Inr\<close> the statistics, or \<open>Inl\<close> the error with the ids of the failing table and those after it.\<close>

fun commit_items :: "table_batch list \<Rightarrow> store \<Rightarrow> store \<times> (db_error \<times> nat list + commit_stat list)" where
  "commit_items [] st = (st, Inr [])"
| "commit_items (b # bs) st =
     (case write_table b st of
        (st1, Some e) \<Rightarrow> (st1, Inl (e, map (\<lambda>(t, _, _). table_id t) (b # bs)))
      | (st1, None) \<Rightarrow>
          (case commit_items bs st1 of
             (st2, Inl f) \<Rightarrow> (st2, Inl f)
           | (st2, Inr ss) \<Rightarrow> (st2, Inr ((case b of (t, ins, upd) \<Rightarrow>
               \<lparr>stat_table = table_name t, inserted = length ins, updated = length upd\<rparr>) # ss))))"

definition commit_tables :: "table_batch list \<Rightarrow> store \<Rightarrow> store \<times> (db_error \<times> nat list + commit_stat list)" where
  "commit_tables bs st = commit_items (filter (\<lambda>(t, ins, upd). ins \<noteq> [] \<or> upd \<noteq> []) bs) st"

subsection \<open>Schema operations\<close>

definition create_table :: "table \<Rightarrow> store \<Rightarrow> store \<times> db_error option" where
  "create_table t st =
     (let st = st\<lparr>tables_schema := dict_set (table_id t) t (tables_schema st)\<rparr>;
          st = (if dict_get (tables_data st) (table_name t) = None
                then st\<lparr>tables_data := dict_set (table_name t) [] (tables_data st)\<rparr> else st);
          st = (if dict_get (tables_next_id st) (table_name t) = None
                then st\<lparr>tables_next_id := dict_set (table_name t) 1 (tables_next_id st)\<rparr> else st)
      in case initial_insert t of None \<Rightarrow> (st, None) | Some rs \<Rightarrow> insert_into t rs st)"

definition drop_table :: "table \<Rightarrow> store \<Rightarrow> store" where
  "drop_table t st = st\<lparr>tables_data := AList.delete (table_name t) (tables_data st),
     tables_next_id := AList.delete (table_name t) (tables_next_id st),
     tables_schema := AList.delete (table_id t) (tables_schema st)\<rparr>"

definition missing_tables :: "store \<Rightarrow> table list \<Rightarrow> string list option" where
  "missing_tables st ts = (let missing = map table_name (filter (\<lambda>t. dict_get (tables_data st) (table_name t) = None) ts)
     in if missing = [] then None else Some missing)"

text \<open>Orphans per foreign key: a non-\<open>None\<close> value that is not a key of the parent's dictionary.\<close>

definition orphans :: "store \<Rightarrow> table \<Rightarrow> string \<times> string \<times> string \<Rightarrow> nat option" where
  "orphans st t fk = (case fk of (local_col, parent, _) \<Rightarrow>
     (case col_index local_col (init_columns t) of
        None \<Rightarrow> None
      | Some i \<Rightarrow>
         (let parent_rows = (case dict_get (tables_data st) parent of None \<Rightarrow> [] | Some d \<Rightarrow> d)
          in if list_all (\<lambda>r. i < length r) (dict_values (rows_of st t)) then
               Some (length (filter (\<lambda>r. r ! i \<noteq> CNone \<and> dict_get parent_rows (KCell (r ! i)) = None)
                       (dict_values (rows_of st t))))
             else None)))"

definition fk_label :: "table \<Rightarrow> string \<times> string \<times> string \<Rightarrow> string" where
  "fk_label t fk = (case fk of (l, p, c) \<Rightarrow> table_name t @ ''.'' @ l @ '' -> '' @ p @ ''.'' @ c)"

fun check_keys :: "store \<Rightarrow> (table \<times> (string \<times> string \<times> string)) list \<Rightarrow> (string, nat) dict \<Rightarrow> (string, nat) dict option" where
  "check_keys st [] v = Some v"
| "check_keys st ((t, fk) # rest) v =
     (case orphans st t fk of
        None \<Rightarrow> None
      | Some n \<Rightarrow> check_keys st rest (if n > 0 then dict_set (fk_label t fk) n v else v))"

definition verify_relational_integrity :: "store \<Rightarrow> table list \<Rightarrow> (string, nat) dict option" where
  "verify_relational_integrity st ts =
     check_keys st (concat (map (\<lambda>t. map (\<lambda>fk. (t, fk)) (init_foreign t)) ts)) []"

subsection \<open>Joins (\<open>view_select_multiple\<close>)\<close>

text \<open>
  Composite rows are built join by join; \<open>off\<close> is the column where the next table starts and
  \<open>offs\<close> where each table joined so far starts.  \<open>None\<close> is a \<open>KeyError\<close> or an \<open>IndexError\<close>.
\<close>

definition slice :: "nat \<Rightarrow> nat \<Rightarrow> 'a list \<Rightarrow> 'a list" where
  "slice a n xs = take n (drop a xs)"

record join_state =
  composites :: "row list"
  offs :: "(nat, nat) dict"
  off :: nat

text \<open>\<open>defaultdict(list)\<close> filled with \<open>append\<close>: the rows that pass the filter, by their join column.\<close>

definition hash_index :: "nat \<Rightarrow> row list \<Rightarrow> (cell, row list) dict" where
  "hash_index i rs = foldl (\<lambda>idx r. dict_push (r ! i) r idx) [] rs"

definition probe_pk :: "rows \<Rightarrow> row \<Rightarrow> nat \<Rightarrow> row \<Rightarrow> row list" where
  "probe_pk d filt i c = (case dict_get d (KCell (c ! i)) of
       None \<Rightarrow> [] | Some r \<Rightarrow> if row_matches r filt then [c @ r] else [])"

definition probe_index :: "(cell, row list) dict \<Rightarrow> nat \<Rightarrow> row \<Rightarrow> row list" where
  "probe_index idx i c = map (\<lambda>r. c @ r) (dict_list idx (c ! i))"

definition join_rows :: "table \<Rightarrow> rows \<Rightarrow> row \<Rightarrow> nat \<Rightarrow> nat \<Rightarrow> row list \<Rightarrow> row list option" where
  "join_rows t d filt from_idx to_idx comps =
     (if \<not> list_all (\<lambda>c. from_idx < length c) comps then None
      else if primary t = [to_idx] then Some (concat (map (probe_pk d filt from_idx) comps))
      else
        (let rs = filter (\<lambda>r. row_matches r filt) (dict_values d)
         in if \<not> list_all (\<lambda>r. to_idx < length r) rs then None
            else Some (concat (map (probe_index (hash_index to_idx rs) from_idx) comps))))"

fun view_joins :: "store \<Rightarrow> (nat \<Rightarrow> table option) \<Rightarrow> row \<Rightarrow> join list \<Rightarrow> join_state \<Rightarrow> row list option" where
  "view_joins st tabs columns [] s = Some (composites s)"
| "view_joins st tabs columns (JFirst p # js) s = view_joins st tabs columns js s"
| "view_joins st tabs columns (JOn p q n # js) s =
     (case tabs (fst q) of
        None \<Rightarrow> None
      | Some t \<Rightarrow>
         (let from_idx = (case dict_get (offs s) (fst p) of None \<Rightarrow> 0 | Some o1 \<Rightarrow> o1) + snd p;
              d = rows_of st t
          in if d = [] then Some []
             else case join_rows t d (slice (off s) (table_length t) columns) from_idx (snd q) (composites s) of
                 None \<Rightarrow> None
               | Some [] \<Rightarrow> Some []
               | Some comps \<Rightarrow> view_joins st tabs columns js
                   \<lparr>composites = comps, offs = dict_set (fst q) (off s) (offs s), off = off s + table_length t\<rparr>))"

definition view_select_multiple :: "store \<Rightarrow> (nat \<Rightarrow> table option) \<Rightarrow> join list \<Rightarrow> row \<Rightarrow> row list option" where
  "view_select_multiple st tabs js columns =
     (case js of
        [] \<Rightarrow> None
      | j # _ \<Rightarrow>
         (let tid = fst (join_from j)
          in case tabs tid of
            None \<Rightarrow> None
          | Some t \<Rightarrow>
             (let comps = filter (\<lambda>r. row_matches r (take (table_length t) columns)) (dict_values (rows_of st t))
              in if comps = [] then Some []
                 else view_joins st tabs columns js \<lparr>composites = comps, offs = [(tid, 0)], off = table_length t\<rparr>)))"

definition view_select :: "store \<Rightarrow> (nat \<Rightarrow> table option) \<Rightarrow> join list \<Rightarrow> row \<Rightarrow> row option option" where
  "view_select st tabs js columns =
     map_option (\<lambda>rs. case rs of [] \<Rightarrow> None | r # _ \<Rightarrow> Some r) (view_select_multiple st tabs js columns)"

subsection \<open>Preloading\<close>

text \<open>The column a version window filters on, by the names of the table's columns.\<close>

definition window_column :: "table \<Rightarrow> (nat \<times> bool) option" where
  "window_column t =
     (case (col_index ''vid_s'' (init_columns t), col_index ''vid_e'' (init_columns t),
            col_index ''vid'' (init_columns t), col_index ''commit_id'' (init_columns t)) of
        (Some s, Some e, _, _) \<Rightarrow> Some (e, True)
      | (_, _, Some v, _) \<Rightarrow> Some (v, False)
      | (Some s, None, None, _) \<Rightarrow> Some (s, False)
      | (_, _, _, Some c) \<Rightarrow> Some (c, False)
      | _ \<Rightarrow> None)"

text \<open>A row before the window; 0 in \<open>vid_e\<close> means still open (\<open>True\<close> in the pair above).\<close>

definition before_window :: "int \<Rightarrow> nat \<times> bool \<Rightarrow> row \<Rightarrow> bool" where
  "before_window min_vid w r = (case w of (i, open_end) \<Rightarrow>
     (case cell_at r i of Some (CInt v) \<Rightarrow> v < min_vid \<and> \<not> (open_end \<and> v = 0) | _ \<Rightarrow> False))"

definition select_preload :: "store \<Rightarrow> table \<Rightarrow> nat list option \<Rightarrow> int option \<Rightarrow> row list" where
  "select_preload st t cached min_vid =
     (let keep = (\<lambda>r. case (min_vid, window_column t) of
            (Some m, Some w) \<Rightarrow> \<not> (m > 0 \<and> before_window m w r)
          | _ \<Rightarrow> True);
          proj = (\<lambda>r. case cached of
            Some cs \<Rightarrow> if length cs < table_length t then map ((!) r) cs else r
          | None \<Rightarrow> r)
      in map proj (filter keep (dict_values (rows_of st t))))"

definition cell_bytes :: "cell \<Rightarrow> nat" where
  "cell_bytes c = (case c of CNone \<Rightarrow> 0 | CInt _ \<Rightarrow> 8 | CStr s \<Rightarrow> length s | CBytes b \<Rightarrow> length b)"

definition table_size :: "store \<Rightarrow> table \<Rightarrow> nat list option \<Rightarrow> int option \<Rightarrow> nat" where
  "table_size st t cached min_vid =
     (let partial = (case cached of Some (c # cs) \<Rightarrow> length (c # cs) < table_length t | _ \<Rightarrow> False)
      in sum_list (map (\<lambda>r. sum_list (map cell_bytes r))
           (select_preload st t (if partial then cached else None) min_vid)))"

subsection \<open>Invariants of the store\<close>

definition keys_ok :: "table \<Rightarrow> rows \<Rightarrow> bool" where
  "keys_ok t d \<longleftrightarrow> distinct (map fst d) \<and> (\<forall>(k, r) \<in> set d. store_key t r = Some k)"

definition ids_below :: "rows \<Rightarrow> int \<Rightarrow> bool" where
  "ids_below d n \<longleftrightarrow> (\<forall>(k, r) \<in> set d. case key_int k of None \<Rightarrow> True | Some i \<Rightarrow> i < n)"

lemma ids_below_iff: "ids_below d n \<longleftrightarrow> (\<forall>(k, r) \<in> set d. \<forall>i. key_int k = Some i \<longrightarrow> i < n)"
  by (fastforce simp: ids_below_def split: option.splits)

definition store_ok :: "table \<Rightarrow> store \<Rightarrow> bool" where
  "store_ok t st \<longleftrightarrow> keys_ok t (rows_of st t) \<and>
     (case dict_get (tables_next_id st) (table_name t) of
        None \<Rightarrow> rows_of st t = [] | Some n \<Rightarrow> ids_below (rows_of st t) n)"

lemma rows_of_set [simp]:
  "rows_of (set_table t d n st) t = d" "rows_of (set_rows t d st) t = d"
  by (simp_all add: rows_of_def set_table_def set_rows_def)

lemma rows_of_other [simp]:
  "table_name t' \<noteq> table_name t \<Longrightarrow> rows_of (set_table t d n st) t' = rows_of st t'"
  "table_name t' \<noteq> table_name t \<Longrightarrow> rows_of (set_rows t d st) t' = rows_of st t'"
  by (simp_all add: rows_of_def set_table_def set_rows_def)

lemma bump_ge [simp]: "n \<le> bump k n"
  by (auto simp: bump_def split: option.split)

lemma bump_above [simp]: "i < bump (Some i) n"
  by (auto simp: bump_def)

lemma ids_below_mono: "ids_below d n \<Longrightarrow> n \<le> m \<Longrightarrow> ids_below d m"
  by (fastforce simp: ids_below_iff)

lemma set_dict_set: "set (dict_set k v d) \<subseteq> insert (k, v) (set d)"
  by (rule set_update)

lemma keys_ok_set: "keys_ok t d \<Longrightarrow> store_key t r = Some k \<Longrightarrow> keys_ok t (dict_set k r d)"
  using set_dict_set[of k r d] by (auto simp: keys_ok_def distinct_update)

lemma ids_below_set: "ids_below d n \<Longrightarrow> ids_below (dict_set k r d) (bump (key_int k) n)"
proof -
  assume a: "ids_below d n"
  have "i < bump (key_int k) n" if "(k', r') \<in> set (dict_set k r d)" "key_int k' = Some i" for k' r' i
  proof (cases "k' = k")
    case True
    with that(2) show ?thesis by simp
  next
    case False
    with that(1) set_dict_set[of k r d] have "(k', r') \<in> set d" by auto
    with a that(2) have "i < n" by (auto simp: ids_below_iff)
    then show ?thesis using bump_ge[of n "key_int k"] by linarith
  qed
  then show ?thesis by (auto simp: ids_below_iff)
qed

lemma insert_rows_ok:
  "insert_rows t d n rs = (d', n', e) \<Longrightarrow> keys_ok t d \<Longrightarrow> ids_below d n \<Longrightarrow> keys_ok t d' \<and> ids_below d' n' \<and> n \<le> n'"
proof (induction t d n rs rule: insert_rows.induct)
  case (2 t d n r rs)
  show ?case
  proof (cases "store_key t r")
    case (Some k)
    show ?thesis
    proof (cases "dict_get d k")
      case None
      with Some 2 show ?thesis
        by (auto simp: keys_ok_set ids_below_set dest: order_trans[OF bump_ge])
    next
      case (Some r')
      with \<open>store_key t r = Some k\<close> 2 show ?thesis by (auto split: if_splits)
    qed
  qed (use 2 in auto)
qed auto

lemma update_rows_ok:
  "update_rows t d n rs = (d', n', e) \<Longrightarrow> keys_ok t d \<Longrightarrow> ids_below d n \<Longrightarrow> keys_ok t d' \<and> ids_below d' n' \<and> n \<le> n'"
proof (induction t d n rs rule: update_rows.induct)
  case (2 t d n r rs)
  then show ?case
    by (cases "store_key t r") (auto simp: keys_ok_set ids_below_set dest: order_trans[OF bump_ge])
qed auto

lemma next_id_set [simp]: "dict_get (tables_next_id (set_table t d n st)) nm =
    (if nm = table_name t then Some n else dict_get (tables_next_id st) nm)"
  by (simp add: set_table_def)

lemma store_ok_ids: "store_ok t st \<Longrightarrow> keys_ok t (rows_of st t) \<and> ids_below (rows_of st t) (next_id_of st t)"
  by (auto simp: store_ok_def next_id_of_def ids_below_iff split: option.splits)

lemma store_ok_set: "keys_ok t d \<Longrightarrow> ids_below d n \<Longrightarrow> store_ok t (set_table t d n st)"
  by (simp add: store_ok_def)

lemma insert_into_ok: "insert_into t rs st = (st', None) \<Longrightarrow> store_ok t st \<Longrightarrow> store_ok t st'"
  using insert_rows_ok[of t "rows_of st t" "next_id_of st t" rs] store_ok_ids[of t st]
  by (auto simp: insert_into_def intro!: store_ok_set split: if_splits prod.splits option.splits)

lemma update_into_ok: "update_into t rs st = (st', None) \<Longrightarrow> store_ok t st \<Longrightarrow> store_ok t st'"
  using update_rows_ok[of t "rows_of st t" "next_id_of st t" rs] store_ok_ids[of t st]
  by (auto simp: update_into_def intro!: store_ok_set split: if_splits prod.splits option.splits)

text \<open>Neither touches another table.\<close>

definition same_table :: "table \<Rightarrow> store \<Rightarrow> store \<Rightarrow> bool" where
  "same_table t st st' \<longleftrightarrow> dict_get (tables_data st') (table_name t) = dict_get (tables_data st) (table_name t) \<and>
     dict_get (tables_next_id st') (table_name t) = dict_get (tables_next_id st) (table_name t)"

lemma same_table_trans: "same_table t a b \<Longrightarrow> same_table t b c \<Longrightarrow> same_table t a c"
  by (simp add: same_table_def)

lemma same_table_refl [simp]: "same_table t st st"
  by (simp add: same_table_def)

lemma same_table_rows: "same_table t st st' \<Longrightarrow> rows_of st' t = rows_of st t"
  by (simp add: same_table_def rows_of_def)

lemma same_table_ok: "same_table t st st' \<Longrightarrow> store_ok t st' = store_ok t st"
  unfolding store_ok_def same_table_rows by (simp add: same_table_def rows_of_def)

lemma same_table_set [simp]:
  "table_name t' \<noteq> table_name t \<Longrightarrow> same_table t' st (set_table t d n st)"
  "table_name t' \<noteq> table_name t \<Longrightarrow> same_table t' st (set_rows t d st)"
  by (simp_all add: same_table_def set_table_def set_rows_def)

lemma insert_into_other: "insert_into t rs st = (st', e) \<Longrightarrow> table_name t' \<noteq> table_name t \<Longrightarrow> same_table t' st st'"
  by (auto simp: insert_into_def split: if_splits prod.splits option.splits)

lemma update_into_other: "update_into t rs st = (st', e) \<Longrightarrow> table_name t' \<noteq> table_name t \<Longrightarrow> same_table t' st st'"
  by (auto simp: update_into_def split: if_splits prod.splits option.splits)

lemma write_table_other: "write_table (t, ins, upd) st = (st', e) \<Longrightarrow> table_name t' \<noteq> table_name t \<Longrightarrow> same_table t' st st'"
  by (auto simp: write_table_def split: prod.splits option.splits
      intro: same_table_trans dest: insert_into_other update_into_other)

lemma write_table_ok: "write_table (t, ins, upd) st = (st', None) \<Longrightarrow> store_ok t st \<Longrightarrow> store_ok t st'"
  by (auto simp: write_table_def split: prod.splits option.splits dest: insert_into_ok update_into_ok)

subsection \<open>What the operations do to the contents\<close>

definition with_key :: "table \<Rightarrow> key \<Rightarrow> row \<Rightarrow> bool" where
  "with_key t k r \<longleftrightarrow> store_key t r = Some k"

lemma insert_rows_content:
  assumes "insert_rows t d n rs = (d', n', None)"
  shows "dict_get d' k = (case dict_get d k of Some r \<Rightarrow> Some r | None \<Rightarrow> find (with_key t k) rs)"
  using assms
proof (induction t d n rs rule: insert_rows.induct)
  case (2 t d n r rs)
  show ?case
  proof (cases "store_key t r")
    case key: (Some k')
    then have w: "with_key t k r \<longleftrightarrow> k' = k" by (simp add: with_key_def)
    show ?thesis
    proof (cases "dict_get d k'")
      case None
      with key 2 have "dict_get d' k = (case dict_get (dict_set k' r d) k of Some r \<Rightarrow> Some r | None \<Rightarrow> find (with_key t k) rs)"
        by auto
      with None w show ?thesis by (auto split: option.splits)
    next
      case (Some r')
      with key 2 have "dict_get d' k = (case dict_get d k of Some r \<Rightarrow> Some r | None \<Rightarrow> find (with_key t k) rs)"
        by (auto split: if_splits)
      with Some w show ?thesis by (auto split: option.splits)
    qed
  qed (use 2 in auto)
qed (auto split: option.splits)

lemma find_append: "find P (xs @ ys) = (case find P xs of Some x \<Rightarrow> Some x | None \<Rightarrow> find P ys)"
  by (induction xs) auto

lemma update_rows_content:
  assumes "update_rows t d n rs = (d', n', None)"
  shows "dict_get d' k = (case find (with_key t k) (rev rs) of Some r \<Rightarrow> Some r | None \<Rightarrow> dict_get d k)"
  using assms
proof (induction t d n rs rule: update_rows.induct)
  case (2 t d n r rs)
  then obtain k' where key: "store_key t r = Some k'" by (cases "store_key t r") auto
  with 2 have "dict_get d' k = (case find (with_key t k) (rev rs) of Some r \<Rightarrow> Some r | None \<Rightarrow> dict_get (dict_set k' r d) k)"
    by auto
  moreover have "with_key t k r \<longleftrightarrow> k' = k" using key by (simp add: with_key_def)
  ultimately show ?case by (auto simp: find_append split: option.splits)
qed auto

lemma insert_into_content: "insert_into t rs st = (st', None) \<Longrightarrow>
   dict_get (rows_of st' t) k = (case dict_get (rows_of st t) k of Some r \<Rightarrow> Some r | None \<Rightarrow> find (with_key t k) rs)"
  by (auto simp: insert_into_def split: if_splits prod.splits option.splits dest!: insert_rows_content[of _ _ _ _ _ _ k])

lemma update_into_content: "update_into t rs st = (st', None) \<Longrightarrow>
   dict_get (rows_of st' t) k = (case find (with_key t k) (rev rs) of Some r \<Rightarrow> Some r | None \<Rightarrow> dict_get (rows_of st t) k)"
  by (auto simp: update_into_def split: if_splits prod.splits option.splits dest!: update_rows_content[of _ _ _ _ _ _ k])

text \<open>The contents of a table after one commit wrote it.\<close>

definition written :: "table \<Rightarrow> row list \<Rightarrow> row list \<Rightarrow> (key \<Rightarrow> row option) \<Rightarrow> key \<Rightarrow> row option" where
  "written t ins upd old k = (case find (with_key t k) (rev upd) of
       Some r \<Rightarrow> Some r
     | None \<Rightarrow> (case old k of Some r \<Rightarrow> Some r | None \<Rightarrow> find (with_key t k) ins))"

lemma write_table_content: "write_table (t, ins, upd) st = (st', None) \<Longrightarrow>
   dict_get (rows_of st' t) k = written t ins upd (dict_get (rows_of st t)) k"
  by (auto simp: write_table_def written_def split: prod.splits option.splits
      dest!: insert_into_content[of _ _ _ _ k] update_into_content[of _ _ _ _ k])

subsection \<open>Reading back: the fast path is a scan\<close>

lemma keys_ok_key: "keys_ok t d \<Longrightarrow> dict_get d k = Some r \<Longrightarrow> store_key t r = Some k"
  by (auto simp: keys_ok_def dest!: map_of_SomeD)

lemma keys_ok_row: "keys_ok t d \<Longrightarrow> r \<in> set (dict_values d) \<Longrightarrow> \<exists>k. store_key t r = Some k \<and> dict_get d k = Some r"
  by (force simp: keys_ok_def)

lemma key_of_cong: "(\<And>i. i \<in> set prims \<Longrightarrow> i < length a \<and> i < length b \<and> a ! i = b ! i) \<Longrightarrow> key_of prims a = key_of prims b"
proof -
  assume eq: "\<And>i. i \<in> set prims \<Longrightarrow> i < length a \<and> i < length b \<and> a ! i = b ! i"
  then have "cells_at a prims = cells_at b prims"
    by (induction prims) (simp_all add: cell_at_def)
  moreover have "cell_at a i = cell_at b i" if "prims = [i]" for i
    using eq[of i] that by (simp add: cell_at_def)
  ultimately show ?thesis unfolding key_of_def by (cases prims rule: remdups_adj.cases) simp_all
qed

lemma full_key_of_match:
  assumes "is_full_key prims data" "row_matches r data" "key_of prims r = Some k"
  shows "key_of prims data = Some k"
proof -
  have "key_of prims data = key_of prims r"
    using assms(1,2) by (intro key_of_cong) (auto simp: is_full_key_def list_all_iff row_matches_iff)
  with assms(3) show ?thesis by simp
qed

lemma find_unique:
  assumes "\<And>x. x \<in> set xs \<Longrightarrow> P x \<Longrightarrow> x = y" "y \<in> set xs" "P y"
  shows "find P xs = Some y"
proof (cases "find P xs")
  case None
  with assms show ?thesis by (auto simp: find_None_iff)
next
  case (Some x)
  then have "x \<in> set xs" "P x" by (auto simp: find_Some_iff)
  with Some assms(1) show ?thesis by simp
qed

lemma select_is_find:
  assumes "keys_ok t (rows_of st t)"
  shows "select st t data = find (\<lambda>r. row_matches r data) (dict_values (rows_of st t))"
proof (cases "rows_of st t = [] \<or> \<not> is_full_key (primary t) data")
  case True
  show ?thesis
  proof (cases "rows_of st t")
    case Nil
    then show ?thesis by (simp add: select_def)
  next
    case (Cons kr rest)
    with True have "\<not> is_full_key (primary t) data" by simp
    with Cons show ?thesis by (auto simp: select_def Let_def row_matches_wild)
  qed
next
  case False
  let ?d = "rows_of st t"
  have full: "is_full_key (primary t) data" and ne: "?d \<noteq> []" using False by auto
  have prims: "primary t \<noteq> []" using full by (simp add: is_full_key_def)
  have "\<forall>i \<in> set (primary t). i < length data" using full by (simp add: is_full_key_def list_all_iff)
  then obtain k where k: "key_of (primary t) data = Some k" by (simp only: key_of_Some)
  have same: "dict_get ?d k = Some r" if mem: "r \<in> set (dict_values ?d)" and mt: "row_matches r data" for r
  proof -
    obtain k' where k': "store_key t r = Some k'" "dict_get ?d k' = Some r"
      using keys_ok_row[OF assms mem] by blast
    then have "key_of (primary t) r = Some k'" using prims by (simp add: store_key_def)
    from full_key_of_match[OF full mt this] k k' show ?thesis by simp
  qed
  show ?thesis
  proof (cases "dict_get ?d k")
    case None
    then have "find (\<lambda>r. row_matches r data) (dict_values ?d) = None"
      unfolding find_None_iff by (metis option.distinct(1) same)
    with None full k ne show ?thesis by (simp add: select_def)
  next
    case (Some r)
    then have r: "r \<in> set (dict_values ?d)" by (force dest: map_of_SomeD)
    have unique: "x = r" if "x \<in> set (dict_values ?d)" "row_matches x data" for x
      using same[OF that] Some by simp
    show ?thesis
    proof (cases "row_matches r data")
      case True
      have "find (\<lambda>r. row_matches r data) (dict_values ?d) = Some r"
        by (rule find_unique[where P = "\<lambda>r. row_matches r data", OF unique r True])
      with Some True full k ne show ?thesis by (simp add: select_def)
    next
      case False
      then have "find (\<lambda>r. row_matches r data) (dict_values ?d) = None"
        using unique by (auto simp: find_None_iff)
      with Some False full k ne show ?thesis by (simp add: select_def)
    qed
  qed
qed

subsection \<open>Joins are nested loops\<close>

definition loop_join :: "rows \<Rightarrow> row \<Rightarrow> nat \<Rightarrow> nat \<Rightarrow> row list \<Rightarrow> row list" where
  "loop_join d filt from_idx to_idx comps = concat (map (\<lambda>c. map (\<lambda>r. c @ r)
     (filter (\<lambda>r. row_matches r filt \<and> r ! to_idx = c ! from_idx) (dict_values d))) comps)"

fun nested_joins :: "store \<Rightarrow> (nat \<Rightarrow> table option) \<Rightarrow> row \<Rightarrow> join list \<Rightarrow> join_state \<Rightarrow> row list" where
  "nested_joins st tabs columns [] s = composites s"
| "nested_joins st tabs columns (JFirst p # js) s = nested_joins st tabs columns js s"
| "nested_joins st tabs columns (JOn p q n # js) s =
     (let t = the (tabs (fst q));
          from_idx = (case dict_get (offs s) (fst p) of None \<Rightarrow> 0 | Some o1 \<Rightarrow> o1) + snd p
      in nested_joins st tabs columns js
           \<lparr>composites = loop_join (rows_of st t) (slice (off s) (table_length t) columns) from_idx (snd q) (composites s),
            offs = dict_set (fst q) (off s) (offs s), off = off s + table_length t\<rparr>)"

lemma hash_index_get: "dict_list (foldl (\<lambda>idx r. dict_push (r ! i) r idx) idx rs) c = dict_list idx c @ filter (\<lambda>r. r ! i = c) rs"
  by (induction rs arbitrary: idx) auto

lemma probe_index_loop:
  "probe_index (hash_index i (filter P rs)) f c = map (\<lambda>r. c @ r) (filter (\<lambda>r. P r \<and> r ! i = c ! f) rs)"
  by (simp add: probe_index_def hash_index_def hash_index_get dict_list_def[of "[]"] conj_commute)

lemma filter_by_key:
  "distinct (map fst d) \<Longrightarrow> \<forall>(k, r) \<in> set d. k = KCell (r ! i) \<Longrightarrow>
   filter (\<lambda>r. r ! i = x) (dict_values d) = (case dict_get d (KCell x) of None \<Rightarrow> [] | Some r \<Rightarrow> [r])"
proof (induction d)
  case (Cons kr d)
  obtain k r where kr: "kr = (k, r)" by (cases kr)
  show ?case
  proof (cases "r ! i = x")
    case True
    with Cons.prems kr have "KCell x \<notin> fst ` set d" by auto
    then have "dict_get d (KCell x) = None" by (simp add: map_of_eq_None_iff)
    with True Cons kr show ?thesis by simp
  next
    case False
    with Cons kr show ?thesis by auto
  qed
qed simp

lemma probe_pk_loop:
  assumes "keys_ok t d" "primary t = [i]"
  shows "probe_pk d filt f c = map (\<lambda>r. c @ r) (filter (\<lambda>r. row_matches r filt \<and> r ! i = c ! f) (dict_values d))"
proof -
  have "\<forall>(k, r) \<in> set d. k = KCell (r ! i)"
    using assms by (auto simp: keys_ok_def store_key_def key_of_Some)
  with assms(1) have "filter (\<lambda>r. r ! i = c ! f) (dict_values d) =
      (case dict_get d (KCell (c ! f)) of None \<Rightarrow> [] | Some r \<Rightarrow> [r])"
    by (intro filter_by_key) (auto simp: keys_ok_def)
  then have "filter (\<lambda>r. row_matches r filt \<and> r ! i = c ! f) (dict_values d) =
      filter (\<lambda>r. row_matches r filt) (case dict_get d (KCell (c ! f)) of None \<Rightarrow> [] | Some r \<Rightarrow> [r])"
    using filter_filter[of "\<lambda>r. row_matches r filt" "\<lambda>r. r ! i = c ! f" "dict_values d"] by (simp add: conj_commute)
  then show ?thesis by (simp add: probe_pk_def split: option.split)
qed

lemma join_rows_loop:
  "keys_ok t d \<Longrightarrow> join_rows t d filt f i comps = Some out \<Longrightarrow> out = loop_join d filt f i comps"
  by (auto simp: join_rows_def loop_join_def Let_def probe_pk_loop probe_index_loop split: if_splits
      intro!: arg_cong[where f = concat] map_cong)

lemma nested_joins_empty: "composites s = [] \<Longrightarrow> nested_joins st tabs columns js s = []"
  by (induction st tabs columns js s rule: nested_joins.induct) (simp_all add: Let_def loop_join_def)

lemma loop_join_no_rows: "loop_join [] filt f i comps = []"
  by (simp add: loop_join_def)

lemma view_joins_loop:
  assumes "\<And>i t. tabs i = Some t \<Longrightarrow> keys_ok t (rows_of st t)"
  shows "view_joins st tabs columns js s = Some out \<Longrightarrow> out = nested_joins st tabs columns js s"
  using assms
proof (induction st tabs columns js s arbitrary: out rule: view_joins.induct)
  case (3 st tabs columns p q n js s)
  obtain t where t: "tabs (fst q) = Some t"
    using "3.prems"(1) by (cases "tabs (fst q)") auto
  let ?f = "(case dict_get (offs s) (fst p) of None \<Rightarrow> 0 | Some o1 \<Rightarrow> o1) + snd p"
  let ?filt = "slice (off s) (table_length t) columns"
  show ?case
  proof (cases "rows_of st t = []")
    case True
    with "3.prems"(1) t show ?thesis
      by (simp add: Let_def loop_join_no_rows nested_joins_empty)
  next
    case False
    then obtain comps where j: "join_rows t (rows_of st t) ?filt ?f (snd q) (composites s) = Some comps"
      using "3.prems"(1) t by (cases "join_rows t (rows_of st t) ?filt ?f (snd q) (composites s)") (auto simp: Let_def)
    then have l: "loop_join (rows_of st t) ?filt ?f (snd q) (composites s) = comps"
      using join_rows_loop[OF "3.prems"(2)[OF t]] by blast
    show ?thesis
    proof (cases comps)
      case Nil
      with "3.prems"(1) t j l False show ?thesis by (simp add: Let_def nested_joins_empty)
    next
      case (Cons c cs)
      with "3.prems"(1) t j False
      have "view_joins st tabs columns js \<lparr>composites = comps, offs = dict_set (fst q) (off s) (offs s),
              off = off s + table_length t\<rparr> = Some out" by (simp add: Let_def)
      with "3.IH"[OF t refl refl False j] Cons "3.prems"(2) t l show ?thesis by (simp add: Let_def)
    qed
  qed
qed auto

subsection \<open>Commits\<close>

definition content :: "store \<Rightarrow> table \<Rightarrow> key \<Rightarrow> row option" where
  "content st t = dict_get (rows_of st t)"

definition batch_names :: "table_batch list \<Rightarrow> string list" where
  "batch_names bs = map (\<lambda>(t, _, _). table_name t) bs"

definition batch_ids :: "table_batch list \<Rightarrow> nat list" where
  "batch_ids bs = map (\<lambda>(t, _, _). table_id t) bs"

lemma batch_names_simps [simp]:
  "batch_names [] = []" "batch_names ((t, i, u) # bs) = table_name t # batch_names bs"
  "batch_names (bs @ cs) = batch_names bs @ batch_names cs"
  by (simp_all add: batch_names_def)

lemma mem_batch_names: "(t, i, u) \<in> set bs \<Longrightarrow> table_name t \<in> set (batch_names bs)"
  by (force simp: batch_names_def)

lemma batch_names_memE:
  assumes "nm \<in> set (batch_names bs)"
  obtains t i u where "(t, i, u) \<in> set bs" "table_name t = nm"
  using assms unfolding batch_names_def by auto

lemma commit_items_other:
  "commit_items bs st = (st', r) \<Longrightarrow> table_name t \<notin> set (batch_names bs) \<Longrightarrow> same_table t st st'"
proof (induction bs arbitrary: st r)
  case (Cons b bs)
  obtain tb ins upd where b: "b = (tb, ins, upd)" by (cases b)
  obtain st1 e where w: "write_table b st = (st1, e)" by (cases "write_table b st")
  have ne: "table_name t \<noteq> table_name tb" using Cons.prems(2) b by simp
  have s1: "same_table t st st1" using write_table_other[OF w[unfolded b] ne] .
  show ?case
  proof (cases e)
    case None
    obtain st2 r2 where c: "commit_items bs st1 = (st2, r2)" by (cases "commit_items bs st1")
    have "st' = st2" using Cons.prems(1) w None c by (cases r2) auto
    then have "same_table t st1 st'" using Cons.IH[of st1 r2] c Cons.prems(2) b by simp
    then show ?thesis using s1 by (rule same_table_trans[rotated])
  next
    case (Some x)
    then show ?thesis using Cons.prems(1) w s1 by simp
  qed
qed simp

lemma commit_items_written:
  "commit_items bs st = (st', Inr ss) \<Longrightarrow> distinct (batch_names bs) \<Longrightarrow> (t, ins, upd) \<in> set bs \<Longrightarrow>
   content st' t k = written t ins upd (content st t) k \<and> (store_ok t st \<longrightarrow> store_ok t st')"
proof (induction bs arbitrary: st ss)
  case (Cons b bs)
  obtain tb i u where b: "b = (tb, i, u)" by (cases b)
  obtain st1 where w: "write_table b st = (st1, None)" and c: "\<exists>ss'. commit_items bs st1 = (st', Inr ss')"
    using Cons.prems(1) by (auto split: prod.splits option.splits sum.splits)
  then obtain ss' where c: "commit_items bs st1 = (st', Inr ss')" by blast
  show ?case
  proof (cases "(t, ins, upd) = b")
    case True
    then have "table_name t \<notin> set (batch_names bs)" using Cons.prems(2) by auto
    from commit_items_other[OF c this] have same: "same_table t st1 st'" .
    show ?thesis
      using write_table_content[OF w[folded True], of k] write_table_ok[OF w[folded True]]
      by (simp add: content_def same_table_rows[OF same] same_table_ok[OF same])
  next
    case False
    then have mem: "(t, ins, upd) \<in> set bs" using Cons.prems(3) by simp
    then have "table_name t \<in> set (batch_names bs)" by (rule mem_batch_names)
    then have "table_name t \<noteq> table_name tb" using Cons.prems(2) b by auto
    from write_table_other[OF w[unfolded b] this] have same: "same_table t st st1" .
    show ?thesis
      using Cons.IH[OF c _ mem] Cons.prems(2)
      by (cases b) (simp add: content_def same_table_rows[OF same] same_table_ok[OF same])
  qed
qed simp

lemma commit_items_failed:
  "commit_items bs st = (st', Inl (e, ids)) \<Longrightarrow>
   \<exists>pre b post mid ss. bs = pre @ b # post \<and> ids = batch_ids (b # post) \<and>
     commit_items pre st = (mid, Inr ss) \<and> write_table b mid = (st', Some e)"
proof (induction bs arbitrary: st)
  case (Cons b bs)
  show ?case
  proof (cases "write_table b st")
    case (Pair st1 r)
    show ?thesis
    proof (cases r)
      case None
      then obtain st2 where "commit_items bs st1 = (st2, Inl (e, ids))" "st2 = st'"
        using Cons.prems Pair by (auto split: prod.splits sum.splits)
      with Cons.IH obtain pre b' post mid ss where
        "bs = pre @ b' # post" "ids = batch_ids (b' # post)" "commit_items pre st1 = (mid, Inr ss)"
        "write_table b' mid = (st', Some e)" by blast
      with Pair None show ?thesis
        by (intro exI[of _ "b # pre"] exI[of _ b'] exI[of _ post] exI[of _ mid]) auto
    next
      case (Some x)
      with Cons.prems Pair show ?thesis
        by (intro exI[of _ "[]"] exI[of _ b] exI[of _ bs] exI[of _ st]) (auto simp: batch_ids_def)
    qed
  qed
qed simp

subsection \<open>What the driver promises\<close>

text \<open>
  C36: Wildcard lookups answer exactly like a scan.  On a store whose dictionaries are keyed by the primary key of
  their rows, \<open>select\<close> returns the first row, in insertion order, that matches every non-\<open>None\<close> column of the
  filter, and \<open>None\<close> only when no row does; the primary-key fast path and the empty-filter shortcut never change
  the answer.
\<close>

theorem select_is_scan:
  assumes "store_ok t st"
  shows "select st t data = find (\<lambda>r. row_matches r data) (dict_values (rows_of st t))"
  using assms by (intro select_is_find) (simp add: store_ok_def)

definition t_names :: table where
  "t_names = \<lparr>table_id = 1, table_name = ''m_file_name'', init_columns = [[''fnid''], [''name'']], init_primary = [''fnid''],
     primary = [0], init_foreign = [], initial_insert = None, no_duplicate = True, blob_scoped = False, cached_columns = [],
     indexes = [], unique_keys = [], idempotent_pk = False, hashing_table = NoHashing, has_auto_increment = True\<rparr>"

definition t_plain :: table where
  "t_plain = t_names\<lparr>table_id := 2, table_name := ''m_tag'', no_duplicate := False\<rparr>"

theorem select_is_scan_witness:
  "select (fst (insert_into t_plain [[CInt 4, CStr ''a''], [CInt 7, CStr ''b'']] empty_store)) t_plain [CNone, CStr ''b'']
     = Some [CInt 7, CStr ''b'']"
proof -
  have "store_ok t_plain (fst (insert_into t_plain [[CInt 4, CStr ''a''], [CInt 7, CStr ''b'']] empty_store))"
    by code_simp
  from select_is_scan[OF this, of "[CNone, CStr ''b'']"] show ?thesis by code_simp
qed

text \<open>
  C29: A successful commit writes every table of the batch and nothing else.  Afterwards the row under a key is the
  last update with that key, else the row stored before, else the first insert with that key; the id counters stay
  above every stored id; and tables outside the batch are untouched.
\<close>

theorem commit_writes_batch:
  assumes "commit_tables bs st = (st', Inr stats)" "distinct (batch_names bs)"
  shows "(\<forall>(t, ins, upd) \<in> set bs. \<forall>k. ins \<noteq> [] \<or> upd \<noteq> [] \<longrightarrow> content st' t k = written t ins upd (content st t) k)
    \<and> (\<forall>(t, ins, upd) \<in> set bs. store_ok t st \<longrightarrow> store_ok t st')
    \<and> (\<forall>t. table_name t \<notin> set (batch_names bs) \<longrightarrow> content st' t = content st t)"
proof -
  let ?bs = "filter (\<lambda>(t, ins, upd). ins \<noteq> [] \<or> upd \<noteq> []) bs"
  have c: "commit_items ?bs st = (st', Inr stats)" using assms(1) by (simp add: commit_tables_def)
  have d: "distinct (batch_names ?bs)" using assms(2) by (simp add: batch_names_def distinct_map_filter)
  have sub: "set (batch_names ?bs) \<subseteq> set (batch_names bs)" unfolding batch_names_def set_map by (rule image_mono) simp
  have "store_ok t st'" if "(t, ins, upd) \<in> set bs" "store_ok t st" for t ins upd
  proof (cases "table_name t \<in> set (batch_names ?bs)")
    case True
    have inj: "inj_on (\<lambda>(t, _, _). table_name t) (set bs)" using assms(2) by (simp add: batch_names_def distinct_map)
    obtain t' i' u' where t': "(t', i', u') \<in> set ?bs" "table_name t' = table_name t"
      using True by (rule batch_names_memE)
    then have "(t', i', u') = (t, ins, upd)"
      using inj_onD[OF inj, of "(t', i', u')" "(t, ins, upd)"] that(1) by auto
    with t'(1) have "(t, ins, upd) \<in> set ?bs" by simp
    from commit_items_written[OF c d this] that(2) show ?thesis by simp
  next
    case False
    from commit_items_other[OF c False] that(2) show ?thesis by (simp add: same_table_ok)
  qed
  moreover have "content st' t = content st t" if "table_name t \<notin> set (batch_names bs)" for t
  proof -
    have "table_name t \<notin> set (batch_names ?bs)" using that sub by blast
    from same_table_rows[OF commit_items_other[OF c this]] show ?thesis by (simp add: content_def)
  qed
  moreover have "content st' t k = written t ins upd (content st t) k"
    if "(t, ins, upd) \<in> set bs" "ins \<noteq> [] \<or> upd \<noteq> []" for t ins upd k
    using commit_items_written[OF c d] that by simp
  ultimately show ?thesis by blast
qed

theorem commit_writes_batch_witness:
  "content (fst (commit_tables [(t_plain, [[CInt 4, CStr ''a'']], [[CInt 4, CStr ''c'']])] empty_store)) t_plain (KCell (CInt 4))
     = Some [CInt 4, CStr ''c'']"
proof -
  let ?bs = "[(t_plain, [[CInt 4, CStr ''a'']], [[CInt 4, CStr ''c'']])]"
  have "commit_tables ?bs empty_store = (fst (commit_tables ?bs empty_store), Inr
      [\<lparr>stat_table = ''m_tag'', inserted = 1, updated = 1\<rparr>])" by code_simp
  from commit_writes_batch[OF this] show ?thesis
    by (simp add: batch_names_def written_def with_key_def store_key_def key_of_def cell_at_def t_plain_def t_names_def)
qed

text \<open>
  C30: A failing commit names exactly what it did not write.  The ids on the error are those of the failing table and
  of every table after it; each table before it is written in full, each table after it keeps its contents, and
  the failing table is the only one that may hold part of its rows.
\<close>

theorem commit_failure_reported:
  assumes "commit_tables bs st = (st', Inl (e, ids))" "distinct (batch_names bs)"
  shows "\<exists>pre t ins upd post. filter (\<lambda>(t, ins, upd). ins \<noteq> [] \<or> upd \<noteq> []) bs = pre @ (t, ins, upd) # post
    \<and> ids = table_id t # batch_ids post
    \<and> (\<forall>(t', ins', upd') \<in> set pre. \<forall>k. content st' t' k = written t' ins' upd' (content st t') k)
    \<and> (\<forall>(t', ins', upd') \<in> set post. content st' t' = content st t')"
proof -
  let ?bs = "filter (\<lambda>(t, ins, upd). ins \<noteq> [] \<or> upd \<noteq> []) bs"
  have "commit_items ?bs st = (st', Inl (e, ids))" using assms(1) by (simp add: commit_tables_def)
  then obtain pre b post mid ss where s: "?bs = pre @ b # post" "ids = batch_ids (b # post)"
    and c: "commit_items pre st = (mid, Inr ss)" and w: "write_table b mid = (st', Some e)"
    using commit_items_failed by blast
  obtain t ins upd where b: "b = (t, ins, upd)" by (cases b)
  have "distinct (batch_names ?bs)" using assms(2) by (simp add: batch_names_def distinct_map_filter)
  then have d: "distinct (batch_names pre)" "table_name t \<notin> set (batch_names pre)" "table_name t \<notin> set (batch_names post)"
    "set (batch_names pre) \<inter> set (batch_names post) = {}"
    unfolding s b by auto
  have "content st' t' k = written t' ins' upd' (content st t') k" if "(t', ins', upd') \<in> set pre" for t' ins' upd' k
  proof -
    have "table_name t' \<in> set (batch_names pre)" using that by (rule mem_batch_names)
    then have "table_name t' \<noteq> table_name t" using d(2) by auto
    from same_table_rows[OF write_table_other[OF w[unfolded b] this]] commit_items_written[OF c d(1) that]
    show ?thesis by (simp add: content_def)
  qed
  moreover have "content st' t' = content st t'" if "(t', ins', upd') \<in> set post" for t' ins' upd'
  proof -
    have m: "table_name t' \<in> set (batch_names post)" using that by (rule mem_batch_names)
    then have "table_name t' \<noteq> table_name t" "table_name t' \<notin> set (batch_names pre)" using d by auto
    from same_table_rows[OF write_table_other[OF w[unfolded b] this(1)]] same_table_rows[OF commit_items_other[OF c this(2)]]
    show ?thesis by (simp add: content_def)
  qed
  moreover have "ids = table_id t # batch_ids post" using s(2) by (simp add: b batch_ids_def)
  ultimately show ?thesis using s(1) unfolding b by blast
qed

theorem commit_failure_reported_witness:
  "\<exists>pre t ins upd post. filter (\<lambda>(t, ins, upd). ins \<noteq> [] \<or> upd \<noteq> [])
      [(t_plain, [[CInt 1, CStr ''a''], [CInt 1, CStr ''b'']], []), (t_names, [[CInt 1, CStr ''x'']], [])] = pre @ (t, ins, upd) # post
    \<and> [2, 1] = table_id t # batch_ids post"
proof -
  let ?bs = "[(t_plain, [[CInt 1, CStr ''a''], [CInt 1, CStr ''b'']], []), (t_names, [[CInt 1, CStr ''x'']], [])]"
  have c: "commit_tables ?bs empty_store = (fst (commit_tables ?bs empty_store), Inl (Duplicate (KCell (CInt 1)), [2, 1]))"
    by code_simp
  have d: "distinct (batch_names ?bs)" by code_simp
  from commit_failure_reported[OF c d] show ?thesis by blast
qed

lemma max_pk_fold: "m \<le> foldl (max_pk_step i) m rs \<and>
   (\<forall>r \<in> set rs. \<forall>n. cell_at r i = Some (CInt n) \<longrightarrow> n \<le> foldl (max_pk_step i) m rs)"
proof (induction rs arbitrary: m)
  case (Cons r rs)
  have step: "m \<le> max_pk_step i m r" "\<And>n. cell_at r i = Some (CInt n) \<Longrightarrow> n \<le> max_pk_step i m r"
    by (auto simp: max_pk_step_def split: option.split cell.split)
  from Cons[of "max_pk_step i m r"] step show ?case by (auto intro: order_trans)
qed simp

lemma key_int_cell: "keys_ok t d \<Longrightarrow> (k, r) \<in> set d \<Longrightarrow> key_int k = Some n \<Longrightarrow> cell_at r (pk_position t) = Some (CInt n)"
proof -
  assume a: "keys_ok t d" "(k, r) \<in> set d" "key_int k = Some n"
  then have k: "store_key t r = Some k" by (auto simp: keys_ok_def)
  show ?thesis
  proof (cases "primary t")
    case Nil
    then show ?thesis using k a(3)
      by (auto simp: store_key_def key_int_def pk_position_def cell_at_def split: if_splits cell.splits)
  next
    case (Cons i ps)
    then show ?thesis using k a(3)
      by (cases ps) (auto simp: store_key_def key_of_Some key_int_def pk_position_def cell_at_def split: cell.splits)
  qed
qed

text \<open>Without a counter, as after a failed insert into a table that was never created, the scan of the rows gives the id.\<close>

lemma scanned_id_fresh:
  assumes "keys_ok t (rows_of st t)" "dict_get (tables_next_id st) (table_name t) = None" "get_next_id t st = (n, st')"
    and "(k, r) \<in> set (rows_of st t)" "key_int k = Some i"
  shows "i < n"
proof -
  have "cell_at r (pk_position t) = Some (CInt i)" by (rule key_int_cell[OF assms(1,4,5)])
  moreover have "r \<in> set (dict_values (rows_of st t))" using assms(4) by force
  ultimately have "i \<le> foldl (max_pk_step (pk_position t)) 0 (dict_values (rows_of st t))" using max_pk_fold by blast
  then show ?thesis using assms(2-4) by (cases "rows_of st t") (auto simp: get_next_id_def Let_def)
qed

lemma next_id_above:
  assumes "store_ok t st" "get_next_id t st = (n, st')"
  shows "ids_below (rows_of st t) n" "store_ok t st'" "rows_of st' t = rows_of st t" "dict_get (tables_next_id st') (table_name t) = Some n"
    "table_name u \<noteq> table_name t \<Longrightarrow> same_table u st st'"
  using assms
  by (auto simp: get_next_id_def store_ok_def rows_of_def ids_below_def same_table_def Let_def split: option.splits if_splits)

subsection \<open>Sequences of calls\<close>

text \<open>The calls of a driver that change it; \<open>None\<close> where the call raises.\<close>

datatype db_call =
    Call_create table
  | Call_drop table
  | Call_insert table "row list"
  | Call_update table "row list"
  | Call_commit "table_batch list"
  | Call_next_id table

definition done_only :: "store \<times> db_error option \<Rightarrow> store option" where
  "done_only r = (case r of (st, None) \<Rightarrow> Some st | (_, Some _) \<Rightarrow> None)"

fun run_call :: "store \<Rightarrow> db_call \<Rightarrow> store option" where
  "run_call st (Call_create t) = done_only (create_table t st)"
| "run_call st (Call_drop t) = Some (drop_table t st)"
| "run_call st (Call_insert t rs) = done_only (insert_into t rs st)"
| "run_call st (Call_update t rs) = done_only (update_into t rs st)"
| "run_call st (Call_commit bs) = (case commit_tables bs st of (st', Inr _) \<Rightarrow> Some st' | (_, Inl _) \<Rightarrow> None)"
| "run_call st (Call_next_id t) = Some (snd (get_next_id t st))"

fun db_calls :: "store \<Rightarrow> db_call list \<Rightarrow> store option" where
  "db_calls st [] = Some st"
| "db_calls st (c # cs) = (case run_call st c of None \<Rightarrow> None | Some st' \<Rightarrow> db_calls st' cs)"

fun call_tables :: "db_call \<Rightarrow> table list" where
  "call_tables (Call_create t) = [t]"
| "call_tables (Call_drop t) = [t]"
| "call_tables (Call_insert t rs) = [t]"
| "call_tables (Call_update t rs) = [t]"
| "call_tables (Call_commit bs) = map fst bs"
| "call_tables (Call_next_id t) = [t]"

lemma done_only_Some [simp]: "done_only r = Some st \<longleftrightarrow> r = (st, None)"
  by (auto simp: done_only_def split: prod.splits option.splits)

lemma create_table_ok:
  assumes "create_table t st = (st', None)"
  shows "store_ok t st \<Longrightarrow> store_ok t st'" "table_name u \<noteq> table_name t \<Longrightarrow> same_table u st st'"
proof -
  define s1 where "s1 = st\<lparr>tables_schema := dict_set (table_id t) t (tables_schema st)\<rparr>"
  define s2 where "s2 = (if dict_get (tables_data s1) (table_name t) = None
    then s1\<lparr>tables_data := dict_set (table_name t) [] (tables_data s1)\<rparr> else s1)"
  define s3 where "s3 = (if dict_get (tables_next_id s2) (table_name t) = None
    then s2\<lparr>tables_next_id := dict_set (table_name t) 1 (tables_next_id s2)\<rparr> else s2)"
  have ins: "(case initial_insert t of None \<Rightarrow> (s3, None) | Some rs \<Rightarrow> insert_into t rs s3) = (st', None)"
    using assms unfolding create_table_def s3_def s2_def s1_def Let_def .
  have "store_ok t s3" if "store_ok t st"
    using that by (auto 0 4 simp: store_ok_def rows_of_def s1_def s2_def s3_def ids_below_iff keys_ok_def split: option.splits)
  then show "store_ok t st \<Longrightarrow> store_ok t st'" using ins insert_into_ok by (auto split: option.splits)
  have "same_table u st s3" if "table_name u \<noteq> table_name t"
    using that by (auto simp: same_table_def s1_def s2_def s3_def)
  then show "table_name u \<noteq> table_name t \<Longrightarrow> same_table u st st'"
    using ins insert_into_other same_table_trans by (fastforce split: option.splits)
qed

lemma drop_table_ok: "store_ok t (drop_table t st)" "table_name u \<noteq> table_name t \<Longrightarrow> same_table u st (drop_table t st)"
  by (simp_all add: store_ok_def rows_of_def drop_table_def same_table_def keys_ok_def delete_conv')

lemma commit_items_ok:
  "commit_items bs st = (st', Inr ss) \<Longrightarrow> store_ok t st \<Longrightarrow>
     \<forall>u \<in> set (map fst bs). table_name u = table_name t \<longrightarrow> u = t \<Longrightarrow> store_ok t st'"
proof (induction bs arbitrary: st ss)
  case (Cons b bs)
  obtain u ins upd where b: "b = (u, ins, upd)" by (metis prod_cases3)
  obtain st1 where w: "write_table b st = (st1, None)" and c: "\<exists>ss'. commit_items bs st1 = (st', Inr ss')"
    using Cons.prems(1) by (auto split: prod.splits option.splits sum.splits)
  have "store_ok t st1"
  proof (cases "table_name u = table_name t")
    case True
    then show ?thesis using Cons.prems(2,3) w b write_table_ok by auto
  next
    case False
    then show ?thesis using Cons.prems(2) w b same_table_ok[OF write_table_other[of u ins upd st st1 None t]] by simp
  qed
  then show ?case using Cons.IH c Cons.prems(3) by auto
qed simp

lemma run_call_ok:
  assumes "run_call st c = Some st'" "store_ok t st" "\<forall>u \<in> set (call_tables c). table_name u = table_name t \<longrightarrow> u = t"
  shows "store_ok t st'"
proof -
  have other: "store_ok t st'" if "same_table t st st'" using that assms(2) by (simp add: same_table_ok)
  show ?thesis
  proof (cases c)
    case (Call_create u)
    then show ?thesis using assms create_table_ok(1)[of u st st'] create_table_ok(2)[of u st st' t] other by (cases "table_name u = table_name t") auto
  next
    case (Call_drop u)
    then show ?thesis using assms drop_table_ok(1)[of u st] drop_table_ok(2)[of t u st] other by (cases "table_name u = table_name t") auto
  next
    case (Call_insert u rs)
    then show ?thesis using assms insert_into_ok[of u rs st st'] insert_into_other[of u rs st st' None t] other
      by (cases "table_name u = table_name t") auto
  next
    case (Call_update u rs)
    then show ?thesis using assms update_into_ok[of u rs st st'] update_into_other[of u rs st st' None t] other
      by (cases "table_name u = table_name t") auto
  next
    case (Call_commit bs)
    then obtain ss where "commit_items (filter (\<lambda>(t, ins, upd). ins \<noteq> [] \<or> upd \<noteq> []) bs) st = (st', Inr ss)"
      using assms(1) by (auto simp: commit_tables_def split: prod.splits sum.splits)
    then show ?thesis by (rule commit_items_ok) (use assms Call_commit in auto)
  next
    case (Call_next_id u)
    obtain n where n: "get_next_id u st = (n, st')" using assms(1) Call_next_id by (cases "get_next_id u st") auto
    then show ?thesis using assms Call_next_id next_id_above(2)[of t st n st'] other
      by (cases "table_name u = table_name t") (auto simp: get_next_id_def same_table_def Let_def split: option.splits if_splits)
  qed
qed

lemma db_calls_ok:
  "db_calls st cs = Some st' \<Longrightarrow> store_ok t st \<Longrightarrow> \<forall>c \<in> set cs. \<forall>u \<in> set (call_tables c). table_name u = table_name t \<longrightarrow> u = t \<Longrightarrow>
     store_ok t st'"
proof (induction cs arbitrary: st)
  case (Cons c cs)
  then obtain st1 where "run_call st c = Some st1" "db_calls st1 cs = Some st'" by (auto split: option.splits)
  then show ?case using Cons.IH[of st1] Cons.prems run_call_ok[of st c st1 t] by simp
qed simp

lemma insert_fresh:
  assumes "store_ok t st" "get_next_id t st = (n, st')" "store_key t r = Some (KCell (CInt n))"
  shows "\<exists>st2. insert_into t [r] st' = (st2, None) \<and> content st2 t = (content st t)(KCell (CInt n) \<mapsto> r)
    \<and> fst (get_next_id t st2) = n + 1"
proof -
  note n = next_id_above[OF assms(1,2)]
  have "dict_get (rows_of st t) (KCell (CInt n)) = None"
    using n(1) by (cases "dict_get (rows_of st t) (KCell (CInt n))") (auto simp: ids_below_iff key_int_def dest!: map_of_SomeD)
  then have "insert_into t [r] st' = (set_table t (dict_set (KCell (CInt n)) r (rows_of st t)) (n + 1) st', None)"
    using assms(3) n(3,4) by (simp add: insert_into_def next_id_of_def bump_def key_int_def)
  then show ?thesis by (auto simp: content_def get_next_id_def update_conv')
qed

text \<open>
  C28: An id the in-memory driver hands out is free.  Start with an empty driver and make any calls that succeed, creating
  and dropping tables, inserting, updating, committing batches and asking for ids, with no two tables of one name.
  The id that \<open>get_next_id\<close> then returns is above every integer key stored in the table, the insert of a row under it
  succeeds and adds just this row, and the next id handed out is the one after it.
\<close>

theorem next_id_fresh:
  assumes "db_calls empty_store cs = Some st" "\<forall>c \<in> set cs. \<forall>u \<in> set (call_tables c). table_name u = table_name t \<longrightarrow> u = t"
    and "get_next_id t st = (n, st')"
  shows "(\<forall>k i. content st t k \<noteq> None \<and> key_int k = Some i \<longrightarrow> i < n)
    \<and> (store_key t r = Some (KCell (CInt n)) \<longrightarrow>
        (\<exists>st2. insert_into t [r] st' = (st2, None) \<and> content st2 t = (content st t)(KCell (CInt n) \<mapsto> r) \<and> fst (get_next_id t st2) = n + 1))"
proof -
  have "store_ok t empty_store" by (simp add: store_ok_def rows_of_def empty_store_def keys_ok_def)
  then have ok: "store_ok t st" by (rule db_calls_ok[OF assms(1) _ assms(2)])
  have "i < n" if "content st t k \<noteq> None" "key_int k = Some i" for k i
    using next_id_above(1)[OF ok assms(3)] that by (auto simp: content_def ids_below_iff dest!: map_of_SomeD)
  then show ?thesis using insert_fresh[OF ok assms(3)] by blast
qed

definition plain_calls :: "db_call list" where
  "plain_calls = [Call_create t_plain, Call_insert t_plain [[CInt 7, CStr ''b'']],
     Call_commit [(t_plain, [[CInt 8, CStr ''c'']], [[CInt 9, CStr ''d'']])]]"

theorem next_id_fresh_witness:
  "\<exists>st st2. db_calls empty_store plain_calls = Some st \<and> get_next_id t_plain st = (10, st)
     \<and> insert_into t_plain [[CInt 10, CStr ''e'']] st = (st2, None) \<and> content st2 t_plain = (content st t_plain)(KCell (CInt 10) \<mapsto> [CInt 10, CStr ''e''])"
proof -
  let ?st = "the (db_calls empty_store plain_calls)"
  have st: "db_calls empty_store plain_calls = Some ?st" "get_next_id t_plain ?st = (10, ?st)" by code_simp+
  have one: "\<forall>c \<in> set plain_calls. \<forall>u \<in> set (call_tables c). table_name u = table_name t_plain \<longrightarrow> u = t_plain"
    by (simp add: plain_calls_def)
  have "store_key t_plain [CInt 10, CStr ''e''] = Some (KCell (CInt 10))" by code_simp
  then show ?thesis using next_id_fresh[OF st(1) one st(2), of "[CInt 10, CStr ''e'']"] st by blast
qed

text \<open>
  A failing insert is not undone: the rows before the duplicate stay in the table, and the id counter is not
  written back, so the table may now hold ids the counter will hand out again.
\<close>

definition after_failed_insert :: store where
  "after_failed_insert = fst (insert_into t_plain [[CInt 1, CStr ''a''], [CInt 1, CStr ''b'']]
     (fst (create_table t_plain empty_store)))"

lemma failed_insert_keeps_rows:
  "snd (insert_into t_plain [[CInt 1, CStr ''a''], [CInt 1, CStr ''b'']] (fst (create_table t_plain empty_store)))
     = Some (Duplicate (KCell (CInt 1)))
   \<and> content after_failed_insert t_plain (KCell (CInt 1)) = Some [CInt 1, CStr ''a'']
   \<and> fst (get_next_id t_plain after_failed_insert) = 1"
  by code_simp

text \<open>
  C27: A joined lookup is the nested-loop join.  Whenever \<open>view_select_multiple\<close> answers, on tables keyed by their
  primary keys, its rows are those obtained by extending every row of the first table that matches the filter with
  every matching row of each joined table whose join column is equal, in the same order; the key lookup, the hash
  index and the early exits are only optimisations.
\<close>

theorem view_select_is_nested_loop:
  assumes "view_select_multiple st tabs (j # js) columns = Some out" "tabs (fst (join_from j)) = Some t"
    "\<forall>i t'. tabs i = Some t' \<longrightarrow> keys_ok t' (rows_of st t')"
  shows "out = nested_joins st tabs columns (j # js)
    \<lparr>composites = filter (\<lambda>r. row_matches r (take (table_length t) columns)) (dict_values (rows_of st t)),
     offs = [(fst (join_from j), 0)], off = table_length t\<rparr>"
proof -
  let ?comps = "filter (\<lambda>r. row_matches r (take (table_length t) columns)) (dict_values (rows_of st t))"
  let ?s = "\<lparr>composites = ?comps, offs = [(fst (join_from j), 0)], off = table_length t\<rparr>"
  show ?thesis
  proof (cases "?comps = []")
    case True
    then have "out = []" using assms(1,2) by (simp add: view_select_multiple_def Let_def)
    moreover have "nested_joins st tabs columns (j # js) ?s = []" by (rule nested_joins_empty) (simp only: join_state.simps True)
    ultimately show ?thesis by simp
  next
    case False
    then have "view_joins st tabs columns (j # js) ?s = Some out"
      using assms(1,2) by (simp add: view_select_multiple_def Let_def)
    then show ?thesis using assms(3) by (intro view_joins_loop) auto
  qed
qed

definition two_tables :: "nat \<Rightarrow> table option" where
  "two_tables i = (if i = 1 then Some t_names else if i = 2 then Some t_plain else None)"

definition two_table_store :: store where
  "two_table_store = fst (commit_tables [(t_names, [[CInt 1, CStr ''f'']], []),
     (t_plain, [[CInt 5, CInt 1], [CInt 6, CInt 1], [CInt 7, CInt 2]], [])] empty_store)"

theorem view_select_is_nested_loop_witness:
  "[[CInt 1, CStr ''f'', CInt 5, CInt 1], [CInt 1, CStr ''f'', CInt 6, CInt 1]] =
   nested_joins two_table_store two_tables [CNone, CStr ''f''] [JOn (1, 0) (2, 1) 1]
    \<lparr>composites = [[CInt 1, CStr ''f'']], offs = [(1, 0)], off = 2\<rparr>"
proof -
  have v: "view_select_multiple two_table_store two_tables [JOn (1, 0) (2, 1) 1] [CNone, CStr ''f''] =
     Some [[CInt 1, CStr ''f'', CInt 5, CInt 1], [CInt 1, CStr ''f'', CInt 6, CInt 1]]" by code_simp
  have k: "keys_ok t_names (rows_of two_table_store t_names)" "keys_ok t_plain (rows_of two_table_store t_plain)"
    by code_simp+
  have t: "two_tables (fst (join_from (JOn (1, 0) (2, 1) 1))) = Some t_names" by code_simp
  have f: "filter (\<lambda>r. row_matches r (take (table_length t_names) [CNone, CStr ''f''])) (dict_values (rows_of two_table_store t_names))
      = [[CInt 1, CStr ''f'']]" by code_simp
  have l: "table_length t_names = 2" by code_simp
  have all: "\<forall>i t'. two_tables i = Some t' \<longrightarrow> keys_ok t' (rows_of two_table_store t')"
    using k by (simp add: two_tables_def)
  from view_select_is_nested_loop[OF v t all, unfolded f, unfolded l] show ?thesis
    by (simp only: join_from.simps fst_conv)
qed

end
