(* ===== verification/Table_Engine.thy ===== *)
theory Table_Engine
  imports Db_Store
begin

section \<open>The table engine (table\_engine/te\_direct\_db.py)\<close>

text \<open>
  \<open>TEDirectDB\<close> stages rows in memory, hands out ids, deduplicates, and flushes batches to a database
  driver, on the calling thread or on a background writer.  The driver is a parameter: a record of the
  functions of \<open>BaseDBEngine\<close> the engine calls, over an abstract database state \<open>'db\<close>.  The dictionaries the
  engine keeps per table are functions of the table id here.  Timings are left out.
\<close>

subsection \<open>Drivers\<close>

record 'db driver =
  drv_select :: "'db \<Rightarrow> table \<Rightarrow> row \<Rightarrow> row option"
  drv_view_select :: "'db \<Rightarrow> (nat \<Rightarrow> table option) \<Rightarrow> joins \<Rightarrow> row \<Rightarrow> row option"
  drv_view_select_multiple :: "'db \<Rightarrow> (nat \<Rightarrow> table option) \<Rightarrow> joins \<Rightarrow> row \<Rightarrow> row list"
  drv_select_in :: "'db \<Rightarrow> table \<Rightarrow> nat \<Rightarrow> cell list \<Rightarrow> row list"
  drv_commit :: "table_batch list \<Rightarrow> 'db \<Rightarrow> 'db \<times> (nat list option + (string \<times> nat \<times> nat) list)"
  drv_write :: "table_batch \<Rightarrow> 'db \<Rightarrow> 'db \<times> bool"
  drv_next_id :: "table \<Rightarrow> 'db \<Rightarrow> int option \<times> 'db"
  drv_background :: bool

text \<open>
  A staged value: the id of a deduplicated row (its key is the rest of the row), or a whole row (its key is
  its primary key).
\<close>

datatype staged = StagedId cell | StagedRow row

type_synonym staging = "(key, staged) dict"

definition staged_row :: "key \<Rightarrow> staged \<Rightarrow> row" where
  "staged_row k v = (case v of
       StagedRow r \<Rightarrow> r
     | StagedId i \<Rightarrow> (case k of KTuple cs \<Rightarrow> i # cs | KCell c \<Rightarrow> [i, c]))"

definition staged_rows :: "staging \<Rightarrow> row list" where
  "staged_rows q = map (\<lambda>(k, v). staged_row k v) q"

text \<open>\<open>CommitBatch\<close>, with the outcome of the write once the writer ran.\<close>

record batch =
  tables_payload :: "table_batch list"
  staged_part :: "(nat, staging \<times> row list) dict"
  added_nodup :: "nat \<Rightarrow> key list"
  added_pks :: "nat \<Rightarrow> key list"
  added_unique :: "nat \<Rightarrow> nat list \<Rightarrow> row list"
  batch_rows :: nat
  batch_stats :: "(string \<times> nat \<times> nat) list"
  is_background :: bool

text \<open>The background commit: not yet written by its thread, or written with its outcome.\<close>

datatype write_result = Written "(string \<times> nat \<times> nat) list" | Write_failed "nat list option"

datatype pending = Unwritten batch | Done batch write_result

fun pending_batch :: "pending \<Rightarrow> batch" where
  "pending_batch (Unwritten b) = b"
| "pending_batch (Done b _) = b"

record counters =
  commits :: nat
  background_commits :: nat
  rows_written :: nat
  db_reads :: nat

record 'db te =
  te_tables :: "(nat, table) dict"
  queued_set :: "nat \<Rightarrow> staging"
  queued_update :: "nat \<Rightarrow> row list"
  queued_view :: "(joins, (row, cell) dict) dict"
  next_id :: "nat \<Rightarrow> int"
  committed_pks :: "nat \<Rightarrow> key list"
  committed_nodup :: "nat \<Rightarrow> (key, cell) dict"
  committed_unique :: "nat \<Rightarrow> nat list \<Rightarrow> row list"
  unique_positions :: "nat \<Rightarrow> nat list list"
  sec_positions :: "nat \<Rightarrow> nat list list"
  single_positions :: "nat \<Rightarrow> nat list"
  queued_sec :: "nat \<Rightarrow> nat list \<Rightarrow> (row, row list) dict"
  queued_single :: "nat \<Rightarrow> nat \<Rightarrow> (cell, row list) dict"
  database :: "'db option"
  async_commits :: bool
  pending_commit :: "pending option"
  stats :: counters

datatype te_error = Unknown_table nat | Duplicate_pk key | Bad_row | Commit_failed "nat list option"

definition new_te :: "'db te" where
  "new_te = \<lparr>te_tables = [], queued_set = (\<lambda>_. []), queued_update = (\<lambda>_. []), queued_view = [], next_id = (\<lambda>_. 0),
     committed_pks = (\<lambda>_. []), committed_nodup = (\<lambda>_. []), committed_unique = (\<lambda>_ _. []), unique_positions = (\<lambda>_. []),
     sec_positions = (\<lambda>_. []), single_positions = (\<lambda>_. []), queued_sec = (\<lambda>_ _. []), queued_single = (\<lambda>_ _. []),
     database = None, async_commits = False, pending_commit = None,
     stats = \<lparr>commits = 0, background_commits = 0, rows_written = 0, db_reads = 0\<rparr>\<rparr>"

subsection \<open>Registering tables\<close>

text \<open>\<open>{col[0]: idx for idx, col in enumerate(columns)}\<close>\<close>

definition column_map :: "table \<Rightarrow> string \<Rightarrow> nat option" where
  "column_map t = map_of (rev (zip (map col_name (init_columns t)) [0..<table_length t]))"

definition positions_of :: "table \<Rightarrow> string list \<Rightarrow> nat list option" where
  "positions_of t names = (let ps = List.map_filter (column_map t) names
     in if names \<noteq> [] \<and> length ps = length names then Some ps else None)"

definition add_sec :: "nat list list \<Rightarrow> nat list \<Rightarrow> nat list list" where
  "add_sec secs ps = (if length ps > 1 then append_new secs ps else secs)"

definition compile_indexes :: "table \<Rightarrow> nat list list \<times> nat list list \<times> nat list" where
  "compile_indexes t =
     (let idx = List.map_filter (positions_of t) (map snd (indexes t));
          uks = List.map_filter (positions_of t) (unique_keys t)
      in (foldl append_new [] uks, foldl add_sec [] (idx @ uks), sort (remdups (concat (idx @ uks)))))"

definition register_table :: "table \<Rightarrow> 'db te \<Rightarrow> 'db te" where
  "register_table t te = (let tid = table_id t; (uniq, secs, singles) = compile_indexes t
     in te\<lparr>te_tables := dict_set tid t (te_tables te),
           next_id := (if dict_get (te_tables te) tid = None then (next_id te)(tid := 1) else next_id te),
           unique_positions := (unique_positions te)(tid := uniq), sec_positions := (sec_positions te)(tid := secs),
           single_positions := (single_positions te)(tid := singles),
           queued_sec := (queued_sec te)(tid := (\<lambda>_. [])), queued_single := (queued_single te)(tid := (\<lambda>_. []))\<rparr>)"

subsection \<open>Staged rows and their indexes\<close>

definition all_set :: "row \<Rightarrow> nat list \<Rightarrow> bool" where
  "all_set r ps \<longleftrightarrow> list_all (\<lambda>c. c < length r \<and> r ! c \<noteq> CNone) ps"

definition cells :: "row \<Rightarrow> nat list \<Rightarrow> row" where
  "cells r ps = map ((!) r) ps"

definition index_staged :: "nat \<Rightarrow> row \<Rightarrow> 'db te \<Rightarrow> 'db te" where
  "index_staged tid r te = te\<lparr>
     queued_sec := (queued_sec te)(tid := (\<lambda>ps. if ps \<in> set (sec_positions te tid) \<and> all_set r ps
        then dict_push (cells r ps) r (queued_sec te tid ps) else queued_sec te tid ps)),
     queued_single := (queued_single te)(tid := (\<lambda>c. if c \<in> set (single_positions te tid) \<and> all_set r [c]
        then dict_push (r ! c) r (queued_single te tid c) else queued_single te tid c))\<rparr>"

text \<open>
  \<open>_find_staged\<close>: through the first secondary index all of whose columns are given, else through the
  smallest single-column bucket (a missing bucket answers \<open>None\<close> at once), else by a scan.
\<close>

fun best_bucket :: "'db te \<Rightarrow> nat \<Rightarrow> row \<Rightarrow> row list option \<Rightarrow> nat list \<Rightarrow> row list option" where
  "best_bucket te tid columns best [] = best"
| "best_bucket te tid columns best (c # cs) =
     (case dict_get (queued_single te tid c) (columns ! c) of
        None \<Rightarrow> None
      | Some b \<Rightarrow> best_bucket te tid columns
          (case best of None \<Rightarrow> Some b | Some b0 \<Rightarrow> if length b < length b0 then Some b else Some b0) cs)"

definition find_staged :: "'db te \<Rightarrow> nat \<Rightarrow> row \<Rightarrow> row list \<Rightarrow> row option" where
  "find_staged te tid columns rs =
     (case find (all_set columns) (sec_positions te tid) of
        Some ps \<Rightarrow> find (\<lambda>r. row_matches r columns) (dict_list (queued_sec te tid ps) (cells columns ps))
      | None \<Rightarrow>
          (case filter (\<lambda>c. all_set columns [c]) (single_positions te tid) of
             [] \<Rightarrow> find (\<lambda>r. row_matches r columns) rs
           | cs \<Rightarrow> (case best_bucket te tid columns None cs of
                 None \<Rightarrow> None
               | Some b \<Rightarrow> find (\<lambda>r. row_matches r columns) b)))"

definition is_hash_keyed :: "table \<Rightarrow> bool" where
  "is_hash_keyed t \<longleftrightarrow> idempotent_pk t \<or> init_primary t = [''hash''] \<or> table_name t = ''m_ast_hash''"

subsection \<open>Waiting for the background writer\<close>

definition account :: "batch \<Rightarrow> counters \<Rightarrow> counters" where
  "account b c = c\<lparr>commits := commits c + 1, rows_written := rows_written c + batch_rows b,
     background_commits := background_commits c + (if is_background b then 1 else 0)\<rparr>"

text \<open>
  \<open>_restore_batch\<close>: the staged rows of the tables the database did not commit go back to staging (a key
  staged again meanwhile keeps its new value), their keys leave the committed sets.
\<close>

definition restore_rows :: "nat \<Rightarrow> staging \<Rightarrow> 'db te \<Rightarrow> 'db te" where
  "restore_rows tid q te = foldl (\<lambda>te (k, v).
     if dict_get (queued_set te tid) k \<noteq> None then te
     else index_staged tid (staged_row k v) (te\<lparr>queued_set := (queued_set te)(tid := dict_set k v (queued_set te tid))\<rparr>)) te q"

definition restore_table :: "batch \<Rightarrow> 'db te \<Rightarrow> nat \<Rightarrow> 'db te" where
  "restore_table b te tid = (case dict_get (staged_part b) tid of
       None \<Rightarrow> te
     | Some (q, upd) \<Rightarrow>
         (let te1 = te\<lparr>
            committed_nodup := (committed_nodup te)(tid := filter (\<lambda>(k, _). k \<notin> set (added_nodup b tid)) (committed_nodup te tid)),
            committed_pks := (committed_pks te)(tid := filter (\<lambda>k. k \<notin> set (added_pks b tid)) (committed_pks te tid)),
            committed_unique := (committed_unique te)(tid := (\<lambda>ps. filter (\<lambda>k. k \<notin> set (added_unique b tid ps)) (committed_unique te tid ps)))\<rparr>;
            te2 = restore_rows tid q te1
          in te2\<lparr>queued_update := (queued_update te2)(tid := upd @ queued_update te2 tid)\<rparr>))"

definition restore_batch :: "batch \<Rightarrow> nat list option \<Rightarrow> 'db te \<Rightarrow> 'db te" where
  "restore_batch b failed te = foldl (restore_table b) te
     (case failed of
        None \<Rightarrow> map fst (staged_part b)
      | Some ids \<Rightarrow> filter (\<lambda>i. i \<in> set ids) (map fst (staged_part b)))"

text \<open>The writer thread's turn: it may run at any time between the hand-over and the join.\<close>

definition run_writer :: "'db driver \<Rightarrow> 'db te \<Rightarrow> 'db te" where
  "run_writer D te = (case (pending_commit te, database te) of
       (Some (Unwritten b), Some db) \<Rightarrow>
         (case (if tables_payload b = [] then (db, Inr []) else drv_commit D (tables_payload b) db) of
            (db', Inr st) \<Rightarrow> te\<lparr>database := Some db', pending_commit := Some (Done b (Written st))\<rparr>
          | (db', Inl ids) \<Rightarrow> te\<lparr>database := Some db', pending_commit := Some (Done b (Write_failed ids))\<rparr>)
     | _ \<Rightarrow> te)"

definition wait_for_commit :: "'db driver \<Rightarrow> 'db te \<Rightarrow> 'db te \<times> te_error option" where
  "wait_for_commit D te = (case pending_commit (run_writer D te) of
       Some (Done b res) \<Rightarrow>
         (let te1 = (run_writer D te)\<lparr>pending_commit := None, stats := account b (stats te)\<rparr>
          in case res of
               Written _ \<Rightarrow> (te1, None)
             | Write_failed ids \<Rightarrow> (restore_batch b ids te1, Some (Commit_failed ids)))
     | _ \<Rightarrow> (te\<lparr>pending_commit := None\<rparr>, None))"

definition batch_table_ids :: "batch \<Rightarrow> nat list" where
  "batch_table_ids b = map (\<lambda>(t, _, _). table_id t) (tables_payload b)"

definition await_writes :: "'db driver \<Rightarrow> nat list \<Rightarrow> 'db te \<Rightarrow> 'db te \<times> te_error option" where
  "await_writes D ids te = (case pending_commit te of
       None \<Rightarrow> (te, None)
     | Some p \<Rightarrow> if list_ex (\<lambda>i. i \<in> set (batch_table_ids (pending_batch p))) ids then wait_for_commit D te else (te, None))"

text \<open>\<open>_db_read\<close>: the barrier, then the read on the database as it is.\<close>

definition db_read :: "'db driver \<Rightarrow> nat list \<Rightarrow> ('db \<Rightarrow> 'a) \<Rightarrow> 'a \<Rightarrow> 'db te \<Rightarrow> 'db te \<times> (te_error + 'a)" where
  "db_read D ids f dflt te = (case await_writes D ids te of
       (te1, Some e) \<Rightarrow> (te1, Inl e)
     | (te1, None) \<Rightarrow>
         (te1\<lparr>stats := (stats te1)\<lparr>db_reads := db_reads (stats te1) + 1\<rparr>\<rparr>,
          Inr (case database te1 of None \<Rightarrow> dflt | Some db \<Rightarrow> f db)))"

subsection \<open>Lookup and staging\<close>

text \<open>The staging check of \<open>get\<close>: \<open>Inl\<close> is an \<open>IndexError\<close>, \<open>Inr None\<close> goes on to the database.\<close>

definition known_row :: "row \<Rightarrow> cell option \<Rightarrow> row option" where
  "known_row columns known = (case known of
       Some i \<Rightarrow> if i \<noteq> CNone \<and> (hd columns = CNone \<or> i = hd columns) then Some (i # tl columns) else None
     | None \<Rightarrow> None)"

definition staged_id :: "staged \<Rightarrow> cell option" where
  "staged_id v = (case v of StagedId i \<Rightarrow> Some i | StagedRow _ \<Rightarrow> None)"

text \<open>A falsy entry of the committed keys counts as absent.\<close>

definition known_id :: "(key, cell) dict \<Rightarrow> key \<Rightarrow> cell option" where
  "known_id d k = (case dict_get d k of Some i \<Rightarrow> if i = CNone then None else Some i | None \<Rightarrow> None)"

text \<open>\<open>all(columns[i] is not None for i in primary)\<close>; \<open>None\<close> is an \<open>IndexError\<close>.\<close>

fun all_given :: "row \<Rightarrow> nat list \<Rightarrow> bool option" where
  "all_given columns [] = Some True"
| "all_given columns (i # is) =
     (if i \<ge> length columns then None else if columns ! i = CNone then Some False else all_given columns is)"

text \<open>\<open>_pk_of\<close>: a table without a primary key has none.\<close>

definition pk_of :: "table \<Rightarrow> row \<Rightarrow> key option" where
  "pk_of t r = (if primary t = [] then None else key_of (primary t) r)"

definition staged_hit :: "'db te \<Rightarrow> table \<Rightarrow> nat \<Rightarrow> row \<Rightarrow> te_error + row option" where
  "staged_hit te t tid columns =
     (if no_duplicate t \<and> length columns > 1 \<and> list_all (\<lambda>c. c \<noteq> CNone) (tl columns) then
        (let k = KTuple (tl columns)
         in Inr (case known_row columns (Option.bind (dict_get (queued_set te tid) k) staged_id) of
                Some r \<Rightarrow> Some r
              | None \<Rightarrow> known_row columns (known_id (committed_nodup te tid) k)))
      else if no_duplicate t then Inr (find_staged te tid columns (staged_rows (queued_set te tid)))
      else case all_given columns (primary t) of
          None \<Rightarrow> Inl Bad_row
        | Some True \<Rightarrow>
            (case pk_of t columns of
               None \<Rightarrow> Inl Bad_row
             | Some k \<Rightarrow> Inr (case dict_get (queued_set te tid) k of
                   Some v \<Rightarrow> if row_matches (staged_row k v) columns then Some (staged_row k v) else None
                 | None \<Rightarrow> None))
        | Some False \<Rightarrow> Inr (find_staged te tid columns (staged_rows (queued_set te tid))))"

definition get :: "'db driver \<Rightarrow> 'db te \<Rightarrow> nat \<Rightarrow> row \<Rightarrow> 'db te \<times> (te_error + row option)" where
  "get D te tid columns = (case dict_get (te_tables te) tid of
       None \<Rightarrow> (te, Inl (Unknown_table tid))
     | Some t \<Rightarrow>
         (case staged_hit te t tid columns of
            Inl e \<Rightarrow> (te, Inl e)
          | Inr (Some r) \<Rightarrow> (te, Inr (Some r))
          | Inr None \<Rightarrow>
              if has_auto_increment t \<and> initial_insert t = None \<and> next_id te tid \<le> 1 \<and> queued_set te tid = []
                 \<or> database te = None
              then (te, Inr None)
              else db_read D [tid] (\<lambda>db. drv_select D db t columns) None te))"

text \<open>The first staged row with the same unique key, or the stored row when the key was committed.\<close>

definition staged_unique :: "'db te \<Rightarrow> nat \<Rightarrow> row \<Rightarrow> nat list \<Rightarrow> row option" where
  "staged_unique te tid columns ps =
     (case (if length ps > 1 then dict_list (queued_sec te tid ps) (cells columns ps)
            else dict_list (queued_single te tid (hd ps)) (columns ! hd ps)) of
        [] \<Rightarrow> None | r # _ \<Rightarrow> Some r)"

definition only_at :: "nat list \<Rightarrow> row \<Rightarrow> row" where
  "only_at ps columns = map (\<lambda>c. if c \<in> set ps then columns ! c else CNone) [0..<length columns]"

fun find_unique :: "'db driver \<Rightarrow> table \<Rightarrow> nat \<Rightarrow> row \<Rightarrow> nat list list \<Rightarrow> 'db te \<Rightarrow> 'db te \<times> (te_error + row option)" where
  "find_unique D t tid columns [] te = (te, Inr None)"
| "find_unique D t tid columns (ps # pss) te =
     (if \<not> all_set columns ps then find_unique D t tid columns pss te
      else case staged_unique te tid columns ps of
          Some r \<Rightarrow> (te, Inr (Some r))
        | None \<Rightarrow>
            if cells columns ps \<in> set (committed_unique te tid ps) \<and> database te \<noteq> None then
              (case db_read D [tid] (\<lambda>db. drv_select D db t (only_at ps columns)) None te of
                 (te1, Inl e) \<Rightarrow> (te1, Inl e)
               | (te1, Inr (Some (c # cs))) \<Rightarrow> (te1, Inr (Some (c # cs)))
               | (te1, Inr _) \<Rightarrow> find_unique D t tid columns pss te1)
            else find_unique D t tid columns pss te)"

definition stage :: "nat \<Rightarrow> key \<Rightarrow> staged \<Rightarrow> 'db te \<Rightarrow> 'db te" where
  "stage tid k v te = index_staged tid (staged_row k v)
     (te\<lparr>queued_set := (queued_set te)(tid := dict_set k v (queued_set te tid))\<rparr>)"

definition bump_id :: "nat \<Rightarrow> int \<Rightarrow> 'db te \<Rightarrow> 'db te" where
  "bump_id tid n te = te\<lparr>next_id := (next_id te)(tid := n)\<rparr>"

definition set_nodup :: "nat \<Rightarrow> row \<Rightarrow> 'db te \<Rightarrow> 'db te \<times> (te_error + row)" where
  "set_nodup tid columns te =
     (let k = KTuple (tl columns)
      in case Option.bind (dict_get (queued_set te tid) k) staged_id of
           Some i \<Rightarrow> (te, Inr (i # tl columns))
         | None \<Rightarrow>
            (case known_id (committed_nodup te tid) k of
               Some i \<Rightarrow> (te, Inr (i # tl columns))
             | None \<Rightarrow>
                (case columns of
                   [] \<Rightarrow> (te, Inl Bad_row)
                 | CNone # rest \<Rightarrow>
                     (let i = CInt (next_id te tid)
                      in (stage tid k (StagedId i) (bump_id tid (next_id te tid + 1) te), Inr (i # rest)))
                 | c # rest \<Rightarrow>
                     (let te1 = (case c of CInt n \<Rightarrow> if n \<ge> next_id te tid then bump_id tid (n + 1) te else te | _ \<Rightarrow> te)
                      in (stage tid k (StagedId c) te1, Inr (c # rest))))))"

text \<open>An id is generated: the unique keys of the table are tried first.\<close>

definition set_fresh :: "'db driver \<Rightarrow> table \<Rightarrow> nat \<Rightarrow> row \<Rightarrow> 'db te \<Rightarrow> 'db te \<times> (te_error + row)" where
  "set_fresh D t tid columns te = (case find_unique D t tid columns (unique_positions te tid) te of
       (te1, Inl e) \<Rightarrow> (te1, Inl e)
     | (te1, Inr (Some r)) \<Rightarrow> (te1, Inr r)
     | (te1, Inr None) \<Rightarrow>
         (let i = next_id te1 tid; r = CInt i # tl columns
          in (stage tid (KCell (CInt i)) (StagedRow r) (bump_id tid (i + 1) te1), Inr r)))"

definition set_keyed :: "table \<Rightarrow> nat \<Rightarrow> row \<Rightarrow> 'db te \<Rightarrow> 'db te \<times> (te_error + row)" where
  "set_keyed t tid columns te = (case pk_of t columns of
       None \<Rightarrow> (te, Inl Bad_row)
     | Some k \<Rightarrow>
         if is_hash_keyed t then
           (case dict_get (queued_set te tid) k of
              Some v \<Rightarrow> (te, Inr (staged_row k v))
            | None \<Rightarrow> if k \<in> set (committed_pks te tid) then (te, Inr columns)
                      else (stage tid k (StagedRow columns) te, Inr columns))
         else if dict_get (queued_set te tid) k \<noteq> None then (te, Inl (Duplicate_pk k))
         else (stage tid k (StagedRow columns) te, Inr columns))"

definition te_set :: "'db driver \<Rightarrow> 'db te \<Rightarrow> nat \<Rightarrow> row \<Rightarrow> 'db te \<times> (te_error + row)" where
  "te_set D te tid columns = (case dict_get (te_tables te) tid of
       None \<Rightarrow> (te, Inl (Unknown_table tid))
     | Some t \<Rightarrow>
         if no_duplicate t then set_nodup tid columns te
         else if columns = [] then (te, Inl Bad_row)
         else if hd columns = CNone then set_fresh D t tid columns te
         else set_keyed t tid columns te)"

definition te_update :: "'db te \<Rightarrow> nat \<Rightarrow> row \<Rightarrow> 'db te \<times> (te_error + row)" where
  "te_update te tid columns = (case dict_get (te_tables te) tid of
       None \<Rightarrow> (te, Inl (Unknown_table tid))
     | Some _ \<Rightarrow> (te\<lparr>queued_update := (queued_update te)(tid := queued_update te tid @ [columns])\<rparr>, Inr columns))"

definition get_in :: "'db driver \<Rightarrow> 'db te \<Rightarrow> nat \<Rightarrow> nat \<Rightarrow> cell list \<Rightarrow> 'db te \<times> (te_error + row list)" where
  "get_in D te tid col values =
     (if database te = None \<or> values = [] then (te, Inr [])
      else case dict_get (te_tables te) tid of
          None \<Rightarrow> (te, Inl (Unknown_table tid))
        | Some t \<Rightarrow> db_read D [tid] (\<lambda>db. drv_select_in D db t col values) [] te)"

subsection \<open>Views\<close>

text \<open>\<open>get_hashing_table\<close>; the digest of a join graph and its filtered columns is a parameter.\<close>

type_synonym digest = "joins \<Rightarrow> row \<Rightarrow> string"

definition table_named :: "'db te \<Rightarrow> string \<Rightarrow> table option" where
  "table_named te n = find (\<lambda>t. table_name t = n) (dict_values (te_tables te))"

definition get_hashing_table :: "'db te \<Rightarrow> table \<Rightarrow> table option" where
  "get_hashing_table te t = (case hashing_table t of
       NoHashing \<Rightarrow> None
     | HashNamed n \<Rightarrow> table_named te n
     | HashId i \<Rightarrow> dict_get (te_tables te) i
     | HashDefault \<Rightarrow> table_named te (table_name t @ ''_hash''))"

definition filtered :: "row \<Rightarrow> row" where
  "filtered = filter (\<lambda>c. c \<noteq> CNone)"

definition fill :: "cell \<Rightarrow> row \<Rightarrow> row" where
  "fill i columns = map (\<lambda>c. if c \<noteq> CNone then c else i) columns"

text \<open>The id a staged or stored hash row carries: its second column.\<close>

definition staged_hash :: "'db te \<Rightarrow> table \<Rightarrow> string \<Rightarrow> row option" where
  "staged_hash te ht h = map_option (staged_row (KCell (CBytes h)))
     (dict_get (queued_set te (table_id ht)) (KCell (CBytes h)))"

definition hash_id :: "'db driver \<Rightarrow> 'db te \<Rightarrow> table \<Rightarrow> string \<Rightarrow> 'db te \<times> (te_error + cell option)" where
  "hash_id D te ht h = (case staged_hash te ht h of
       Some r \<Rightarrow> (te, case cell_at r 1 of Some i \<Rightarrow> Inr (Some i) | None \<Rightarrow> Inl Bad_row)
     | None \<Rightarrow> (case get D te (table_id ht) [CBytes h, CNone] of
           (te1, Inl e) \<Rightarrow> (te1, Inl e)
         | (te1, Inr None) \<Rightarrow> (te1, Inr None)
         | (te1, Inr (Some r)) \<Rightarrow> (te1, case cell_at r 1 of Some i \<Rightarrow> Inr (Some i) | None \<Rightarrow> Inl Bad_row)))"

definition join_table_ids :: "joins \<Rightarrow> nat list option" where
  "join_table_ids js = (case js of
       JTable t \<Rightarrow> Some [t]
     | JGraph _ \<Rightarrow> map_option (map (\<lambda>(_, p). fst p)) (pointers js))"

definition view_get :: "'db driver \<Rightarrow> digest \<Rightarrow> 'db te \<Rightarrow> joins \<Rightarrow> row \<Rightarrow> 'db te \<times> (te_error + row option)" where
  "view_get D dg te js columns = (case first_table_id js of
       None \<Rightarrow> (te, Inl Bad_row)
     | Some tid \<Rightarrow> (case dict_get (te_tables te) tid of
           None \<Rightarrow> (te, Inr None)
         | Some t \<Rightarrow>
             if has_auto_increment t \<and> initial_insert t = None \<and> next_id te tid \<le> 1 \<and> queued_set te tid = []
             then (te, Inr None)
             else case get_hashing_table te t of
                 Some ht \<Rightarrow>
                   (case hash_id D te ht (dg js (filtered columns)) of
                      (te1, Inl e) \<Rightarrow> (te1, Inl e)
                    | (te1, Inr None) \<Rightarrow> (te1, Inr None)
                    | (te1, Inr (Some i)) \<Rightarrow> (te1, Inr (Some (fill i columns))))
               | None \<Rightarrow>
                   if database te = None then (te, Inr None)
                   else case join_table_ids js of
                       None \<Rightarrow> (te, Inl Bad_row)
                     | Some ids \<Rightarrow> db_read D ids (\<lambda>db. drv_view_select D db (dict_get (te_tables te)) js columns) None te))"

definition view_get_multiple :: "'db driver \<Rightarrow> 'db te \<Rightarrow> joins \<Rightarrow> row \<Rightarrow> 'db te \<times> (te_error + row list)" where
  "view_get_multiple D te js columns =
     (if database te = None then (te, Inr [])
      else case join_table_ids js of
          None \<Rightarrow> (te, Inl Bad_row)
        | Some ids \<Rightarrow> db_read D ids (\<lambda>db. drv_view_select_multiple D db (dict_get (te_tables te)) js columns) [] te)"

text \<open>The join plan: table, its length, how often it is repeated.\<close>

fun join_plan :: "'db te \<Rightarrow> (nat \<times> pointer) list \<Rightarrow> (nat \<times> nat) list option" where
  "join_plan te [] = Some []"
| "join_plan te ((n, p) # ps) = (case dict_get (te_tables te) (fst p) of
       None \<Rightarrow> None
     | Some t \<Rightarrow> map_option (\<lambda>r. replicate n (fst p, table_length t) @ r) (join_plan te ps))"

text \<open>\<open>result[offset : offset + length]\<close> per planned row, staged with \<open>set\<close>.\<close>

fun plan_rows :: "(nat \<times> nat) list \<Rightarrow> row \<Rightarrow> (nat \<times> row) list" where
  "plan_rows [] r = []"
| "plan_rows ((tid, n) # ps) r = (tid, take n r) # plan_rows ps (drop n r)"

fun set_all :: "'db driver \<Rightarrow> (nat \<times> row) list \<Rightarrow> 'db te \<Rightarrow> 'db te \<times> te_error option" where
  "set_all D [] te = (te, None)"
| "set_all D ((tid, r) # rs) te = (case te_set D te tid r of
       (te1, Inl e) \<Rightarrow> (te1, Some e)
     | (te1, Inr _) \<Rightarrow> set_all D rs te1)"

definition decompose :: "'db driver \<Rightarrow> joins \<Rightarrow> row \<Rightarrow> 'db te \<Rightarrow> 'db te \<times> te_error option" where
  "decompose D js result te = (case pointers js of
       None \<Rightarrow> (te, Some Bad_row)
     | Some ps \<Rightarrow> (case join_plan te ps of
           None \<Rightarrow> (te, Some Bad_row)
         | Some plan \<Rightarrow> set_all D (plan_rows plan result) te))"

definition view_cache :: "'db te \<Rightarrow> joins \<Rightarrow> (row, cell) dict" where
  "view_cache te js = (case dict_get (queued_view te) js of None \<Rightarrow> [] | Some d \<Rightarrow> d)"

definition remember_view :: "joins \<Rightarrow> row \<Rightarrow> cell \<Rightarrow> 'db te \<Rightarrow> 'db te" where
  "remember_view js f i te = te\<lparr>queued_view := dict_set js (dict_set f i (view_cache te js)) (queued_view te)\<rparr>"

text \<open>Allocate an id, decompose the view under it, and stage its hash row if the table has one.\<close>

definition new_view :: "'db driver \<Rightarrow> joins \<Rightarrow> nat \<Rightarrow> (table \<times> string) option \<Rightarrow> row \<Rightarrow> 'db te \<Rightarrow> 'db te \<times> (te_error + row)" where
  "new_view D js tid ht columns te =
     (let i = CInt (next_id te tid); result = fill i columns;
          te1 = bump_id tid (next_id te tid + 1) (remember_view js (filtered columns) i te)
      in case decompose D js result te1 of
           (te2, Some e) \<Rightarrow> (te2, Inl e)
         | (te2, None) \<Rightarrow>
            (case ht of
               None \<Rightarrow> (te2, Inr result)
             | Some (h, dgst) \<Rightarrow> (case te_set D te2 (table_id h) [CBytes dgst, i] of
                   (te3, Inl e) \<Rightarrow> (te3, Inl e)
                 | (te3, Inr _) \<Rightarrow> (te3, Inr result))))"

definition view_set :: "'db driver \<Rightarrow> digest \<Rightarrow> 'db te \<Rightarrow> joins \<Rightarrow> row \<Rightarrow> 'db te \<times> (te_error + row)" where
  "view_set D dg te js columns =
     (let f = filtered columns
      in case dict_get (view_cache te js) f of
           Some i \<Rightarrow> (te, Inr (fill i columns))
         | None \<Rightarrow>
            (let te0 = te\<lparr>queued_view := dict_set js (view_cache te js) (queued_view te)\<rparr>
             in case first_table_id js of
                  None \<Rightarrow> (te0, Inl Bad_row)
                | Some tid \<Rightarrow>
                   (case Option.bind (dict_get (te_tables te0) tid) (get_hashing_table te0) of
                      None \<Rightarrow>
                        if dict_get (te_tables te0) tid = None then (te0, Inl (Unknown_table tid))
                        else new_view D js tid None columns te0
                    | Some ht \<Rightarrow>
                       (case hash_id D te0 ht (dg js f) of
                          (te1, Inl e) \<Rightarrow> (te1, Inl e)
                        | (te1, Inr (Some i)) \<Rightarrow> (remember_view js f i te1, Inr (fill i columns))
                        | (te1, Inr None) \<Rightarrow> new_view D js tid (Some (ht, dg js f)) columns te1))))"

subsection \<open>Commits\<close>

text \<open>The insert rows of one table: keys already committed are skipped.\<close>

definition fresh_nodup :: "'db te \<Rightarrow> nat \<Rightarrow> staging \<Rightarrow> staging" where
  "fresh_nodup te tid q = filter (\<lambda>(k, v). known_id (committed_nodup te tid) k = None) q"

definition fresh_pks :: "'db te \<Rightarrow> nat \<Rightarrow> staging \<Rightarrow> staging" where
  "fresh_pks te tid q = filter (\<lambda>(k, v). k \<notin> set (committed_pks te tid)) q"

text \<open>
  \<open>rows.sort(key=pk_fn)\<close>: the stable sort by Python's order on keys.  Comparing cells of different types
  is a \<open>TypeError\<close> in Python; the key columns of one table have one type, so the model leaves such rows in place.
\<close>

fun cell_le :: "cell \<Rightarrow> cell \<Rightarrow> bool" where
  "cell_le (CInt a) (CInt b) = (a \<le> b)"
| "cell_le (CStr a) (CStr b) = lexordp_eq (map of_char a) (map of_char b :: nat list)"
| "cell_le (CBytes a) (CBytes b) = lexordp_eq (map of_char a) (map of_char b :: nat list)"
| "cell_le _ _ = True"

fun cells_le :: "row \<Rightarrow> row \<Rightarrow> bool" where
  "cells_le [] _ = True"
| "cells_le (a # as) [] = False"
| "cells_le (a # as) (b # bs) = (if a = b then cells_le as bs else cell_le a b)"

fun insert_sorted :: "nat list \<Rightarrow> row \<Rightarrow> row list \<Rightarrow> row list" where
  "insert_sorted ps r [] = [r]"
| "insert_sorted ps r (x # xs) = (if cells_le (cells r ps) (cells x ps) then r # x # xs else x # insert_sorted ps r xs)"

definition sort_rows :: "nat list \<Rightarrow> row list \<Rightarrow> row list" where
  "sort_rows ps rs = foldr (insert_sorted ps) rs []"

text \<open>The unique keys the rows of a commit add to the committed ones, in order, without repetition.\<close>

definition new_unique :: "row list \<Rightarrow> nat list \<Rightarrow> row list \<Rightarrow> row list" where
  "new_unique known ps rs = foldl (\<lambda>new r. if all_set r ps \<and> cells r ps \<notin> set known then append_new new (cells r ps) else new) [] rs"

definition empty_batch :: batch where
  "empty_batch = \<lparr>tables_payload = [], staged_part = [], added_nodup = (\<lambda>_. []), added_pks = (\<lambda>_. []),
     added_unique = (\<lambda>_ _. []), batch_rows = 0, batch_stats = [], is_background = False\<rparr>"

definition take_rows :: "table \<Rightarrow> nat \<Rightarrow> staging \<Rightarrow> 'db te \<Rightarrow> batch \<Rightarrow> 'db te \<times> batch \<times> row list" where
  "take_rows t tid q te b =
     (if no_duplicate t then
        (let f = fresh_nodup te tid q
         in (te\<lparr>committed_nodup := (committed_nodup te)(tid :=
                foldl (\<lambda>m (k, v). dict_set k (hd (staged_row k v)) m) (committed_nodup te tid) f)\<rparr>,
             b\<lparr>added_nodup := (added_nodup b)(tid := map fst f)\<rparr>, staged_rows f))
      else if is_hash_keyed t then
        (let f = fresh_pks te tid q
         in (te\<lparr>committed_pks := (committed_pks te)(tid := committed_pks te tid @ map fst f)\<rparr>,
             b\<lparr>added_pks := (added_pks b)(tid := map fst f)\<rparr>, staged_rows f))
      else (te, b, staged_rows q))"

definition take_unique :: "nat \<Rightarrow> row list \<Rightarrow> 'db te \<Rightarrow> batch \<Rightarrow> 'db te \<times> batch" where
  "take_unique tid rs te b =
     (let added = (\<lambda>ps. if ps \<in> set (unique_positions te tid) then new_unique (committed_unique te tid ps) ps rs else [])
      in (te\<lparr>committed_unique := (committed_unique te)(tid := (\<lambda>ps. committed_unique te tid ps @ added ps))\<rparr>,
          b\<lparr>added_unique := (added_unique b)(tid := added)\<rparr>))"

definition clear_staged :: "nat \<Rightarrow> 'db te \<Rightarrow> 'db te" where
  "clear_staged tid te = te\<lparr>queued_set := (queued_set te)(tid := []),
     queued_sec := (queued_sec te)(tid := (\<lambda>_. [])), queued_single := (queued_single te)(tid := (\<lambda>_. []))\<rparr>"

definition take_table :: "'db te \<times> batch \<Rightarrow> table \<Rightarrow> 'db te \<times> batch" where
  "take_table s t = (case s of (te, b) \<Rightarrow>
     (let tid = table_id t; q = queued_set te tid; upd = queued_update te tid
      in if q = [] \<and> upd = [] then (te, b)
         else
           (let (te1, b1, rs0) = (if q = [] then (te, b, []) else take_rows t tid q te b);
                rs = (if primary t \<noteq> [] \<and> length rs0 > 1 then sort_rows (primary t) rs0 else rs0);
                (te2, b2) = (if rs = [] then (te1, b1) else take_unique tid rs te1 b1);
                te3 = (if q = [] then te2 else clear_staged tid te2);
                te4 = te3\<lparr>queued_update := (queued_update te3)(tid := [])\<rparr>;
                b3 = b2\<lparr>staged_part := dict_set tid (q, upd) (staged_part b2)\<rparr>
            in (te4, if rs = [] \<and> upd = [] then b3
                     else b3\<lparr>tables_payload := tables_payload b3 @ [(t, rs, upd)],
                             batch_rows := batch_rows b3 + length rs + length upd\<rparr>))))"

definition take_staged :: "table list \<Rightarrow> 'db te \<Rightarrow> 'db te \<times> batch option" where
  "take_staged ts te = (case foldl take_table (te, empty_batch) ts of
     (te', b) \<Rightarrow> (te', if staged_part b = [] then None else Some b))"

text \<open>
  \<open>_write_tables\<close> on the calling thread, one table after the other (\<open>commit\<close>), each in its own transaction.
\<close>

fun write_serial :: "'db driver \<Rightarrow> table_batch list \<Rightarrow> 'db \<Rightarrow> 'db \<times> nat list option" where
  "write_serial D [] db = (db, None)"
| "write_serial D (p # ps) db = (case drv_write D p db of
       (db', True) \<Rightarrow> write_serial D ps db'
     | (db', False) \<Rightarrow> (db', Some (map (\<lambda>(t, _, _). table_id t) (p # ps))))"

definition write_batch :: "'db driver \<Rightarrow> bool \<Rightarrow> batch \<Rightarrow> 'db te \<Rightarrow> 'db te \<times> te_error option" where
  "write_batch D parallel b te =
     (if tables_payload b = [] then (te\<lparr>stats := account b (stats te)\<rparr>, None)
      else case database te of
        None \<Rightarrow> (restore_batch b (Some (batch_table_ids b)) (te\<lparr>stats := account b (stats te)\<rparr>),
                 Some (Commit_failed (Some (batch_table_ids b))))
      | Some db \<Rightarrow>
         (let (db', failed) = (if parallel then (case drv_commit D (tables_payload b) db of
                  (db', Inr _) \<Rightarrow> (db', None) | (db', Inl ids) \<Rightarrow> (db', Some ids))
                else (case write_serial D (tables_payload b) db of (db', f) \<Rightarrow> (db', map_option Some f)));
              te1 = te\<lparr>database := Some db', stats := account b (stats te)\<rparr>
          in case failed of
               None \<Rightarrow> (te1, None)
             | Some ids \<Rightarrow> (restore_batch b ids te1, Some (Commit_failed ids))))"

definition commit_one :: "'db driver \<Rightarrow> 'db te \<Rightarrow> nat \<Rightarrow> 'db te \<times> te_error option" where
  "commit_one D te tid = (case wait_for_commit D te of
       (te1, Some e) \<Rightarrow> (te1, Some e)
     | (te1, None) \<Rightarrow> (case dict_get (te_tables te1) tid of
           None \<Rightarrow> (te1, None)
         | Some t \<Rightarrow> (case take_staged [t] te1 of
               (te2, None) \<Rightarrow> (te2, None)
             | (te2, Some b) \<Rightarrow> write_batch D False b te2)))"

definition background_allowed :: "'db driver \<Rightarrow> bool \<Rightarrow> 'db te \<Rightarrow> bool" where
  "background_allowed D update_indexes te \<longleftrightarrow> async_commits te \<and> update_indexes \<and> database te \<noteq> None \<and> drv_background D"

definition commit_all :: "'db driver \<Rightarrow> bool \<Rightarrow> 'db te \<Rightarrow> 'db te \<times> te_error option" where
  "commit_all D update_indexes te = (case wait_for_commit D te of
       (te1, Some e) \<Rightarrow> (te1, Some e)
     | (te1, None) \<Rightarrow> (case take_staged (dict_values (te_tables te1)) te1 of
           (te2, None) \<Rightarrow> (te2, None)
         | (te2, Some b) \<Rightarrow>
             if background_allowed D update_indexes te2
             then (te2\<lparr>pending_commit := Some (Unwritten (b\<lparr>is_background := True\<rparr>))\<rparr>, None)
             else write_batch D True b te2))"

definition pending_commit_rows :: "'db te \<Rightarrow> nat" where
  "pending_commit_rows te = (case pending_commit te of None \<Rightarrow> 0 | Some p \<Rightarrow> batch_rows (pending_batch p))"

definition staged_count :: "'db te \<Rightarrow> nat" where
  "staged_count te = sum_list (map (\<lambda>(i, _). length (queued_set te i) + length (queued_update te i)) (te_tables te))"

subsection \<open>Starting\<close>

definition close :: "'db driver \<Rightarrow> 'db te \<Rightarrow> 'db te \<times> te_error option" where
  "close D te = (case wait_for_commit D te of
       (te1, Some e) \<Rightarrow> (te1, Some e)
     | (te1, None) \<Rightarrow> (te1\<lparr>database := None\<rparr>, None))"

definition seed_nodup :: "table \<Rightarrow> (key, cell) dict" where
  "seed_nodup t = foldl (\<lambda>m r. if no_duplicate t \<and> length r > 1 then dict_set (KTuple (tl r)) (hd r) m else m) []
     (case initial_insert t of None \<Rightarrow> [] | Some rs \<Rightarrow> rs)"

definition seed_pks :: "table \<Rightarrow> key list" where
  "seed_pks t = List.map_filter (pk_of t) (case initial_insert t of None \<Rightarrow> [] | Some rs \<Rightarrow> rs)"

definition start_table :: "'db driver \<Rightarrow> 'db te \<Rightarrow> nat \<times> table \<Rightarrow> 'db te" where
  "start_table D te it = (case it of (tid, t) \<Rightarrow>
     (let te1 = (clear_staged tid te)\<lparr>queued_update := (queued_update te)(tid := []),
            committed_pks := (committed_pks te)(tid := seed_pks t),
            committed_nodup := (committed_nodup te)(tid := seed_nodup t)\<rparr>
      in case database te1 of
           None \<Rightarrow> te1
         | Some db \<Rightarrow> (case drv_next_id D t db of
               (Some n, db') \<Rightarrow> bump_id tid n (te1\<lparr>database := Some db'\<rparr>)
             | (None, db') \<Rightarrow> te1\<lparr>database := Some db'\<rparr>)))"

definition start_new_db :: "'db driver \<Rightarrow> 'db \<Rightarrow> bool \<Rightarrow> 'db te \<Rightarrow> 'db te \<times> te_error option" where
  "start_new_db D db is_worker te =
     (let te0 = (if is_worker then te\<lparr>pending_commit := None, async_commits := False\<rparr> else te)
      in case close D te0 of
           (te1, Some e) \<Rightarrow> (te1, Some e)
         | (te1, None) \<Rightarrow>
             (foldl (start_table D) (te1\<lparr>database := Some db, queued_view := []\<rparr>) (te_tables te1), None))"

definition start :: "'db driver \<Rightarrow> table list \<Rightarrow> 'db \<Rightarrow> 'db te \<Rightarrow> 'db te \<times> te_error option" where
  "start D ts db te = start_new_db D db False (foldl (\<lambda>te t. register_table t te) te ts)"

subsection \<open>Deduplicated tables: one id per value\<close>

text \<open>
  The ids of a deduplicated table: staged and committed keys together map to integer ids below the counter, no
  two keys to the same id.
\<close>

definition id_of :: "'db te \<Rightarrow> nat \<Rightarrow> key \<Rightarrow> cell option" where
  "id_of te tid k = (case Option.bind (dict_get (queued_set te tid) k) staged_id of
       Some i \<Rightarrow> Some i | None \<Rightarrow> known_id (committed_nodup te tid) k)"

definition ids_ok :: "'db te \<Rightarrow> nat \<Rightarrow> bool" where
  "ids_ok te tid \<longleftrightarrow> (\<forall>k i. id_of te tid k = Some i \<longrightarrow> (\<exists>n. i = CInt n \<and> n < next_id te tid))
     \<and> (\<forall>k k' i. id_of te tid k = Some i \<longrightarrow> id_of te tid k' = Some i \<longrightarrow> k = k')"

lemma index_staged_fields [simp]:
  "te_tables (index_staged tid r te) = te_tables te" "queued_set (index_staged tid r te) = queued_set te"
  "queued_update (index_staged tid r te) = queued_update te" "next_id (index_staged tid r te) = next_id te"
  "committed_nodup (index_staged tid r te) = committed_nodup te" "committed_pks (index_staged tid r te) = committed_pks te"
  "committed_unique (index_staged tid r te) = committed_unique te" "database (index_staged tid r te) = database te"
  "pending_commit (index_staged tid r te) = pending_commit te" "unique_positions (index_staged tid r te) = unique_positions te"
  "queued_view (index_staged tid r te) = queued_view te" "sec_positions (index_staged tid r te) = sec_positions te"
  "single_positions (index_staged tid r te) = single_positions te" "stats (index_staged tid r te) = stats te"
  "async_commits (index_staged tid r te) = async_commits te"
  by (simp_all add: index_staged_def)

lemma stage_fields [simp]:
  "te_tables (stage tid k v te) = te_tables te"
  "queued_set (stage tid k v te) = (queued_set te)(tid := dict_set k v (queued_set te tid))"
  "queued_update (stage tid k v te) = queued_update te" "next_id (stage tid k v te) = next_id te"
  "committed_nodup (stage tid k v te) = committed_nodup te" "committed_pks (stage tid k v te) = committed_pks te"
  "committed_unique (stage tid k v te) = committed_unique te" "database (stage tid k v te) = database te"
  "pending_commit (stage tid k v te) = pending_commit te" "unique_positions (stage tid k v te) = unique_positions te"
  "queued_view (stage tid k v te) = queued_view te" "sec_positions (stage tid k v te) = sec_positions te"
  "single_positions (stage tid k v te) = single_positions te" "stats (stage tid k v te) = stats te"
  "async_commits (stage tid k v te) = async_commits te"
  by (simp_all add: stage_def)

lemma bump_id_fields [simp]:
  "te_tables (bump_id tid n te) = te_tables te" "queued_set (bump_id tid n te) = queued_set te"
  "next_id (bump_id tid n te) = (next_id te)(tid := n)" "committed_nodup (bump_id tid n te) = committed_nodup te"
  "committed_pks (bump_id tid n te) = committed_pks te" "database (bump_id tid n te) = database te"
  "unique_positions (bump_id tid n te) = unique_positions te" "queued_update (bump_id tid n te) = queued_update te"
  "committed_unique (bump_id tid n te) = committed_unique te" "pending_commit (bump_id tid n te) = pending_commit te"
  "sec_positions (bump_id tid n te) = sec_positions te" "single_positions (bump_id tid n te) = single_positions te"
  "queued_sec (bump_id tid n te) = queued_sec te" "queued_single (bump_id tid n te) = queued_single te"
  "stats (bump_id tid n te) = stats te" "queued_view (bump_id tid n te) = queued_view te"
  "async_commits (bump_id tid n te) = async_commits te"
  by (simp_all add: bump_id_def)

lemma id_of_stage: "id_of (stage tid k (StagedId i) te) tid k' = (if k' = k then Some i else id_of te tid k')"
  by (simp add: id_of_def staged_id_def split: option.split)

lemma id_of_bump [simp]: "id_of (bump_id tid n te) = id_of te"
  by (rule ext)+ (simp add: id_of_def split: option.split)

lemma set_nodup_none:
  "set_nodup tid (CNone # rest) te = (case id_of te tid (KTuple rest) of
      Some i \<Rightarrow> (te, Inr (i # rest))
    | None \<Rightarrow> (stage tid (KTuple rest) (StagedId (CInt (next_id te tid))) (bump_id tid (next_id te tid + 1) te),
               Inr (CInt (next_id te tid) # rest)))"
  by (simp add: set_nodup_def id_of_def Let_def split: option.split)

lemma ids_ok_new:
  assumes "ids_ok te tid" "id_of te tid k = None"
  shows "ids_ok (stage tid k (StagedId (CInt (next_id te tid))) (bump_id tid (next_id te tid + 1) te)) tid"
proof -
  have below: "\<exists>n. i = CInt n \<and> n < next_id te tid" if "id_of te tid k' = Some i" for k' i
    using assms(1) that by (auto simp: ids_ok_def)
  have inj: "k1 = k2" if "id_of te tid k1 = Some i" "id_of te tid k2 = Some i" for k1 k2 i
    using assms(1) that by (auto simp: ids_ok_def)
  show ?thesis
    unfolding ids_ok_def id_of_stage id_of_bump
  proof (intro conjI allI impI)
    fix k' i
    assume "(if k' = k then Some (CInt (next_id te tid)) else id_of te tid k') = Some i"
    then show "\<exists>n. i = CInt n \<and> n < next_id (stage tid k (StagedId (CInt (next_id te tid)))
        (bump_id tid (next_id te tid + 1) te)) tid"
      using below[of k' i] by (auto split: if_splits)
  next
    fix k1 k2 i
    assume "(if k1 = k then Some (CInt (next_id te tid)) else id_of te tid k1) = Some i"
      "(if k2 = k then Some (CInt (next_id te tid)) else id_of te tid k2) = Some i"
    then show "k1 = k2"
      using below[of k1 i] below[of k2 i] inj[of k1 i k2] by (auto split: if_splits)
  qed
qed

text \<open>Setting a list of values, each with a generated id.\<close>

fun set_values :: "'db driver \<Rightarrow> nat \<Rightarrow> row list \<Rightarrow> 'db te \<Rightarrow> 'db te \<times> (te_error + cell) list" where
  "set_values D tid [] te = (te, [])"
| "set_values D tid (rest # rs) te = (case te_set D te tid (CNone # rest) of
     (te1, res) \<Rightarrow> (case set_values D tid rs te1 of
        (te2, out) \<Rightarrow> (te2, (case res of Inr (i # _) \<Rightarrow> Inr i | Inr [] \<Rightarrow> Inl Bad_row | Inl e \<Rightarrow> Inl e) # out)))"

lemma set_values_ids:
  assumes "dict_get (te_tables te) tid = Some t" "no_duplicate t" "ids_ok te tid"
    and "set_values D tid rs te = (te', out)"
  shows "ids_ok te' tid \<and> dict_get (te_tables te') tid = Some t
    \<and> out = map (\<lambda>r. Inr (the (id_of te' tid (KTuple r)))) rs
    \<and> (\<forall>r \<in> set rs. id_of te' tid (KTuple r) \<noteq> None)
    \<and> (\<forall>k i. id_of te tid k = Some i \<longrightarrow> id_of te' tid k = Some i)"
  using assms
proof (induction rs arbitrary: te out)
  case Nil
  then show ?case by simp
next
  case (Cons r rs)
  obtain te1 i where s: "te_set D te tid (CNone # r) = (te1, Inr (i # r))" "ids_ok te1 tid"
    "dict_get (te_tables te1) tid = Some t" "id_of te1 tid (KTuple r) = Some i"
    "\<forall>k i. id_of te tid k = Some i \<longrightarrow> id_of te1 tid k = Some i"
  proof (cases "id_of te tid (KTuple r)")
    case None
    with Cons.prems ids_ok_new[OF Cons.prems(3) None] show ?thesis
      by (intro that[of "stage tid (KTuple r) (StagedId (CInt (next_id te tid))) (bump_id tid (next_id te tid + 1) te)"
            "CInt (next_id te tid)"]) (auto simp: te_set_def set_nodup_none id_of_stage)
  next
    case (Some i)
    with Cons.prems show ?thesis by (intro that[of te i]) (auto simp: te_set_def set_nodup_none)
  qed
  obtain out' where o: "set_values D tid rs te1 = (te', out')" "out = Inr i # out'"
    using Cons.prems(4) s(1) by (auto split: prod.splits)
  from Cons.IH[OF s(3) Cons.prems(2) s(2) o(1)] s(4,5) o(2) show ?case by auto
qed

text \<open>A driver without a database, for an engine that only stages.\<close>

definition mock_less_driver :: "unit driver" where
  "mock_less_driver = \<lparr>drv_select = (\<lambda>_ _ _. None), drv_view_select = (\<lambda>_ _ _ _. None), drv_view_select_multiple = (\<lambda>_ _ _ _. []),
     drv_select_in = (\<lambda>_ _ _ _. []), drv_commit = (\<lambda>_ db. (db, Inr [])), drv_write = (\<lambda>_ db. (db, True)),
     drv_next_id = (\<lambda>_ db. (None, db)), drv_background = False\<rparr>"

text \<open>
  C11: A deduplicated table gives every distinct value its own id and every repeated value the same id.  Starting from
  a state whose known ids are below the counter and distinct, and setting any list of values with generated ids, no
  call fails, and two calls return the same id exactly when their values are equal; a value that was already staged or
  committed keeps its id.
\<close>

theorem dedup_ids:
  assumes "dict_get (te_tables te) tid = Some t" "no_duplicate t" "ids_ok te tid"
    and "set_values D tid rs te = (te', out)" "i < length rs" "j < length rs"
  shows "(out ! i = out ! j \<longleftrightarrow> rs ! i = rs ! j) \<and> ids_ok te' tid
    \<and> (\<forall>c. id_of te tid (KTuple (rs ! i)) = Some c \<longrightarrow> out ! i = Inr c)"
proof -
  note r = set_values_ids[OF assms(1-4)]
  have known: "\<exists>c. id_of te' tid (KTuple (rs ! n)) = Some c" if "n < length rs" for n
    using r nth_mem[OF that] by blast
  obtain a b where ab: "id_of te' tid (KTuple (rs ! i)) = Some a" "id_of te' tid (KTuple (rs ! j)) = Some b"
    using known assms(5,6) by blast
  have "out ! i = Inr a" "out ! j = Inr b" using r ab assms(5,6) by simp_all
  moreover have "a = b \<longleftrightarrow> rs ! i = rs ! j"
  proof
    assume "a = b"
    with ab r have "KTuple (rs ! i) = KTuple (rs ! j)" unfolding ids_ok_def by metis
    then show "rs ! i = rs ! j" by simp
  qed (use ab in auto)
  ultimately show ?thesis using r ab by auto
qed

theorem dedup_ids_witness:
  "snd (set_values mock_less_driver 1 [[CStr ''a''], [CStr ''b''], [CStr ''a'']] (register_table t_names new_te)) ! 0
   = snd (set_values mock_less_driver 1 [[CStr ''a''], [CStr ''b''], [CStr ''a'']] (register_table t_names new_te)) ! 2"
proof -
  let ?te = "register_table t_names new_te :: unit te" and ?rs = "[[CStr ''a''], [CStr ''b''], [CStr ''a'']]"
  have t: "dict_get (te_tables ?te) 1 = Some t_names" by code_simp
  have n: "no_duplicate t_names" by code_simp
  have "queued_set ?te 1 = []" "committed_nodup ?te 1 = []" by code_simp+
  then have "ids_ok ?te 1" by (simp add: ids_ok_def id_of_def known_id_def)
  from dedup_ids[OF t n this surjective_pairing[of "set_values mock_less_driver 1 ?rs ?te"], of 0 2] show ?thesis by simp
qed

subsection \<open>The staged indexes answer like a scan\<close>

definition index_ok :: "'db te \<Rightarrow> nat \<Rightarrow> bool" where
  "index_ok te tid \<longleftrightarrow>
     (\<forall>ps \<in> set (sec_positions te tid). \<forall>key. dict_list (queued_sec te tid ps) key =
        filter (\<lambda>r. all_set r ps \<and> cells r ps = key) (staged_rows (queued_set te tid)))
   \<and> (\<forall>c \<in> set (single_positions te tid). \<forall>x. dict_list (queued_single te tid c) x =
        filter (\<lambda>r. all_set r [c] \<and> r ! c = x) (staged_rows (queued_set te tid)))"

text \<open>
  What staging keeps true of a table: deduplicated tables stage ids under value tuples, other tables stage rows
  under their primary key, integer keys lie below the id counter, and the indexes hold exactly the staged rows.
\<close>

definition entry_ok :: "table \<Rightarrow> int \<Rightarrow> key \<times> staged \<Rightarrow> bool" where
  "entry_ok t n e = (case e of
       (KTuple cs, StagedId i) \<Rightarrow> no_duplicate t
     | (k, StagedRow r) \<Rightarrow> \<not> no_duplicate t \<and> pk_of t r = Some k \<and> (\<forall>m. key_int k = Some m \<longrightarrow> m < n)
     | _ \<Rightarrow> False)"

definition stage_ok :: "table \<Rightarrow> 'db te \<Rightarrow> bool" where
  "stage_ok t te \<longleftrightarrow> distinct (map fst (queued_set te (table_id t)))
     \<and> (\<forall>e \<in> set (queued_set te (table_id t)). entry_ok t (next_id te (table_id t)) e) \<and> index_ok te (table_id t)"

lemma find_filter: "(\<And>x. x \<in> set xs \<Longrightarrow> P x \<Longrightarrow> Q x) \<Longrightarrow> find P (filter Q xs) = find P xs"
  by (induction xs) auto

lemma matches_cells: "row_matches r columns \<Longrightarrow> all_set columns ps \<Longrightarrow> all_set r ps \<and> cells r ps = cells columns ps"
  by (auto simp: row_matches_iff all_set_def list_all_iff cells_def)

lemma best_bucket_scan:
  assumes "\<And>c. c \<in> set cs \<Longrightarrow> all_set columns [c] \<and>
      dict_list (queued_single te tid c) (columns ! c) = filter (\<lambda>r. all_set r [c] \<and> r ! c = columns ! c) R"
    and "\<And>b. best = Some b \<Longrightarrow> find (\<lambda>r. row_matches r columns) b = find (\<lambda>r. row_matches r columns) R"
    and "best = None \<Longrightarrow> cs \<noteq> []"
  shows "(case best_bucket te tid columns best cs of None \<Rightarrow> None | Some b \<Rightarrow> find (\<lambda>r. row_matches r columns) b)
    = find (\<lambda>r. row_matches r columns) R"
  using assms
proof (induction cs arbitrary: best)
  case Nil
  then show ?case by (cases best) auto
next
  case (Cons c cs)
  let ?bucket = "filter (\<lambda>r. all_set r [c] \<and> r ! c = columns ! c) R"
  have c: "all_set columns [c]" "dict_list (queued_single te tid c) (columns ! c) = ?bucket"
    using Cons.prems(1)[of c] by auto
  have bucket: "find (\<lambda>r. row_matches r columns) ?bucket = find (\<lambda>r. row_matches r columns) R"
    by (rule find_filter) (use matches_cells[OF _ c(1)] in \<open>simp add: cells_def\<close>)
  show ?case
  proof (cases "dict_get (queued_single te tid c) (columns ! c)")
    case None
    then have "?bucket = []" using c(2) by (simp add: dict_list_def)
    with bucket None show ?thesis by simp
  next
    case (Some b)
    then have b: "b = ?bucket" using c(2) by (simp add: dict_list_def)
    have fb: "find (\<lambda>r. row_matches r columns) b = find (\<lambda>r. row_matches r columns) R" using bucket b by simp
    obtain b' where b': "(case best of None \<Rightarrow> Some b | Some b0 \<Rightarrow> if length b < length b0 then Some b else Some b0) = Some b'"
      "find (\<lambda>r. row_matches r columns) b' = find (\<lambda>r. row_matches r columns) R"
    proof (cases best)
      case None
      then show ?thesis using that[of b] fb by simp
    next
      case (Some b0)
      then show ?thesis using that[of "if length b < length b0 then b else b0"] fb Cons.prems(2)[OF Some] by simp
    qed
    have "best_bucket te tid columns best (c # cs) = best_bucket te tid columns (Some b') cs"
      using Some b'(1) by simp
    with Cons.IH[of "Some b'"] Cons.prems(1) b'(2) show ?thesis by simp
  qed
qed

lemma find_staged_scan:
  assumes "index_ok te tid"
  shows "find_staged te tid columns (staged_rows (queued_set te tid))
    = find (\<lambda>r. row_matches r columns) (staged_rows (queued_set te tid))"
proof (cases "find (all_set columns) (sec_positions te tid)")
  case (Some ps)
  let ?R = "staged_rows (queued_set te tid)"
  have ps: "ps \<in> set (sec_positions te tid)" "all_set columns ps"
    using Some by (auto simp: find_Some_iff)
  then have "dict_list (queued_sec te tid ps) (cells columns ps) = filter (\<lambda>r. all_set r ps \<and> cells r ps = cells columns ps) ?R"
    using assms by (simp add: index_ok_def)
  moreover have "find (\<lambda>r. row_matches r columns) (filter (\<lambda>r. all_set r ps \<and> cells r ps = cells columns ps) ?R)
      = find (\<lambda>r. row_matches r columns) ?R"
    by (rule find_filter) (use matches_cells[OF _ ps(2)] in simp)
  ultimately show ?thesis using Some by (simp add: find_staged_def)
next
  case None
  let ?cs = "filter (\<lambda>c. all_set columns [c]) (single_positions te tid)"
  show ?thesis
  proof (cases ?cs)
    case Nil
    with None show ?thesis by (simp add: find_staged_def)
  next
    case (Cons c cs)
    have "(case best_bucket te tid columns None ?cs of None \<Rightarrow> None | Some b \<Rightarrow> find (\<lambda>r. row_matches r columns) b)
      = find (\<lambda>r. row_matches r columns) (staged_rows (queued_set te tid))"
    proof (rule best_bucket_scan)
      show "all_set columns [c] \<and> dict_list (queued_single te tid c) (columns ! c) =
          filter (\<lambda>r. all_set r [c] \<and> r ! c = columns ! c) (staged_rows (queued_set te tid))" if "c \<in> set ?cs" for c
        using assms that by (simp add: index_ok_def)
      show "?cs \<noteq> []" using Cons by simp
    qed simp
    with None Cons show ?thesis by (simp add: find_staged_def)
  qed
qed

lemma staged_rows_append [simp]: "staged_rows (q @ q') = staged_rows q @ staged_rows q'"
  by (simp add: staged_rows_def)

lemma index_ok_stage:
  assumes "index_ok te tid" "dict_get (queued_set te tid) k = None"
  shows "index_ok (stage tid k v te) tid"
proof -
  have q: "staged_rows (dict_set k v (queued_set te tid)) = staged_rows (queued_set te tid) @ [staged_row k v]"
    using assms(2) by (simp add: dict_values_set_new) (simp add: staged_rows_def)
  show ?thesis
    using assms(1) unfolding index_ok_def stage_fields fun_upd_same q
    by (auto simp: stage_def index_staged_def all_set_def)
qed

lemma stage_ok_stage:
  assumes "stage_ok t te" "dict_get (queued_set te (table_id t)) k = None" "entry_ok t (next_id te (table_id t)) (k, v)"
  shows "stage_ok t (stage (table_id t) k v te)"
  using assms index_ok_stage[OF _ assms(2)]
  by (auto simp: stage_ok_def dict_values_set_new distinct_update)

lemma entry_ok_mono: "entry_ok t n e \<Longrightarrow> n \<le> m \<Longrightarrow> entry_ok t m e"
  by (cases e) (auto simp: entry_ok_def split: key.splits staged.splits)

lemma stage_ok_bump: "stage_ok t te \<Longrightarrow> next_id te (table_id t) \<le> n \<Longrightarrow> stage_ok t (bump_id (table_id t) n te)"
  by (auto simp: stage_ok_def index_ok_def intro: entry_ok_mono)

text \<open>The staging check of \<open>get\<close> on an ordinary table is a scan of the staged rows.\<close>

lemma staged_key_scan:
  assumes "stage_ok t te" "\<not> no_duplicate t" "pk_of t columns = Some k" "all_given columns (primary t) = Some True"
  shows "(case dict_get (queued_set te (table_id t)) k of
       Some v \<Rightarrow> if row_matches (staged_row k v) columns then Some (staged_row k v) else None | None \<Rightarrow> None)
    = find (\<lambda>r. row_matches r columns) (staged_rows (queued_set te (table_id t)))"
proof -
  let ?q = "queued_set te (table_id t)"
  have full: "is_full_key (primary t) columns"
  proof -
    have "list_all (\<lambda>i. i < length columns \<and> columns ! i \<noteq> CNone) is" if "all_given columns is = Some True" for "is"
      using that by (induction "is") (auto split: if_splits)
    then show ?thesis using assms(3,4) by (auto simp: is_full_key_def pk_of_def split: if_splits)
  qed
  have same: "k' = k" if "(k', v) \<in> set ?q" "row_matches (staged_row k' v) columns" for k' v
  proof -
    have "entry_ok t (next_id te (table_id t)) (k', v)" using assms(1) that(1) by (auto simp: stage_ok_def)
    then obtain r where v: "v = StagedRow r" and pk: "pk_of t r = Some k'"
      using assms(2) by (auto simp: entry_ok_def split: key.splits staged.splits)
    then have "key_of (primary t) r = Some k'" by (auto simp: pk_of_def split: if_splits)
    from full_key_of_match[OF full _ this] that(2) v have "key_of (primary t) columns = Some k'"
      by (simp add: staged_row_def)
    with assms(3) show ?thesis by (auto simp: pk_of_def split: if_splits)
  qed
  have dist: "distinct (map fst ?q)" using assms(1) by (simp add: stage_ok_def)
  show ?thesis
  proof (cases "dict_get ?q k")
    case None
    have "find (\<lambda>r. row_matches r columns) (staged_rows ?q) = None"
      unfolding find_None_iff staged_rows_def
    proof clarsimp
      fix k' v assume kv: "(k', v) \<in> set ?q" "row_matches (staged_row k' v) columns"
      then have "dict_get ?q k' = Some v" using dist by simp
      with same[OF kv] None show False by simp
    qed
    with None show ?thesis by simp
  next
    case (Some v)
    then have mem: "(k, v) \<in> set ?q" by (rule map_of_SomeD)
    have other: "r = staged_row k v" if mem: "r \<in> set (staged_rows ?q)" and mt: "row_matches r columns" for r
    proof -
      obtain k' v' where r: "(k', v') \<in> set ?q" "r = staged_row k' v'" using mem by (auto simp: staged_rows_def)
      with mt same have "k' = k" by blast
      moreover have "dict_get ?q k' = Some v'" using r(1) dist by simp
      ultimately show ?thesis using Some r(2) by simp
    qed
    have inr: "staged_row k v \<in> set (staged_rows ?q)" using mem by (force simp: staged_rows_def)
    show ?thesis
    proof (cases "row_matches (staged_row k v) columns")
      case True
      have "find (\<lambda>r. row_matches r columns) (staged_rows ?q) = Some (staged_row k v)"
        by (rule Db_Store.find_unique[where P = "\<lambda>r. row_matches r columns", OF other inr True])
      with True Some show ?thesis by simp
    next
      case False
      then have "find (\<lambda>r. row_matches r columns) (staged_rows ?q) = None"
        using other by (auto simp: find_None_iff)
      with False Some show ?thesis by simp
    qed
  qed
qed

lemma row_matches_refl [simp]: "row_matches r r"
  by (simp add: row_matches_iff)

lemma staged_hit_scan:
  assumes "stage_ok t te" "\<not> no_duplicate t" "primary t \<noteq> []" "all_given columns (primary t) = Some g"
  shows "staged_hit te t (table_id t) columns
    = Inr (find (\<lambda>r. row_matches r columns) (staged_rows (queued_set te (table_id t))))"
proof (cases g)
  case True
  have "\<forall>i \<in> set is. i < length columns" if "all_given columns is = Some True" for "is"
    using that by (induction "is") (auto split: if_splits)
  then have "key_of (primary t) columns \<noteq> None" using assms(4) True by (auto simp: key_of_Some)
  then obtain k where k: "pk_of t columns = Some k" using assms(3) by (auto simp: pk_of_def)
  from staged_key_scan[OF assms(1,2) k] assms(2,4) True k show ?thesis by (simp add: staged_hit_def)
next
  case False
  then show ?thesis
    using assms find_staged_scan[of te "table_id t" columns] by (simp add: staged_hit_def stage_ok_def)
qed

text \<open>
  C26: Lookups see staged rows first, and see all of them.  On an ordinary table, \<open>get\<close> answers with the first staged
  row that matches the filter whenever one exists, without touching the database, although it consults the primary key,
  the secondary indexes or the smallest single-column bucket instead of scanning; and it asks the database only
  when no staged row matches.
\<close>

theorem get_reads_own_writes:
  assumes "dict_get (te_tables te) (table_id t) = Some t" "stage_ok t te" "\<not> no_duplicate t" "primary t \<noteq> []"
    and "all_given columns (primary t) = Some g"
  shows "get D te (table_id t) columns =
    (case find (\<lambda>r. row_matches r columns) (staged_rows (queued_set te (table_id t))) of
       Some r \<Rightarrow> (te, Inr (Some r))
     | None \<Rightarrow> if has_auto_increment t \<and> initial_insert t = None \<and> next_id te (table_id t) \<le> 1
                  \<and> queued_set te (table_id t) = [] \<or> database te = None
               then (te, Inr None)
               else db_read D [table_id t] (\<lambda>db. drv_select D db t columns) None te)"
  using assms(1) staged_hit_scan[OF assms(2-5)] by (simp add: get_def split: option.split)

definition t_pair :: table where
  "t_pair = t_plain\<lparr>table_id := 3, table_name := ''m_pair'', init_columns := [[''id''], [''a''], [''b'']],
     indexes := [(''ab'', [''a'', ''b''])]\<rparr>"

definition mock_select_only :: "store driver" where
  "mock_select_only = \<lparr>drv_select = select, drv_view_select = (\<lambda>db tabs js c. None), drv_view_select_multiple = (\<lambda>db tabs js c. []),
     drv_select_in = select_in, drv_commit = (\<lambda>bs db. (db, Inl None)), drv_write = (\<lambda>b db. (db, False)),
     drv_next_id = (\<lambda>t db. (None, db)), drv_background = False\<rparr>"

definition pair_engine :: "store te" where
  "pair_engine = fst (te_set mock_select_only (fst (te_set mock_select_only (register_table t_pair new_te) 3 [CNone, CInt 7, CInt 8]))
     3 [CNone, CInt 7, CInt 9])"

text \<open>The invariant without its quantification over keys, for concrete states.\<close>

definition buckets_ok :: "(cell list \<Rightarrow> bool) \<Rightarrow> row list \<Rightarrow> (row \<Rightarrow> 'k) \<Rightarrow> ('k, row list) dict \<Rightarrow> bool" where
  "buckets_ok given rs key idx \<longleftrightarrow>
     list_all (\<lambda>(k, b). b = filter (\<lambda>r. given r \<and> key r = k) rs) idx
   \<and> distinct (map fst idx) \<and> list_all (\<lambda>r. given r \<longrightarrow> dict_get idx (key r) \<noteq> None) rs"

lemma buckets_ok_list: "buckets_ok given rs key idx \<Longrightarrow> dict_list idx k = filter (\<lambda>r. given r \<and> key r = k) rs"
proof (cases "dict_get idx k")
  case None
  moreover assume b: "buckets_ok given rs key idx"
  have "\<not> (given r \<and> key r = k)" if "r \<in> set rs" for r
    using b that None unfolding buckets_ok_def list_all_iff by blast
  then have "filter (\<lambda>r. given r \<and> key r = k) rs = []" by (simp add: filter_empty_conv)
  ultimately show ?thesis by (simp add: dict_list_def)
next
  case (Some b)
  moreover assume "buckets_ok given rs key idx"
  ultimately show ?thesis
    unfolding buckets_ok_def list_all_iff by (auto simp: dict_list_def dest!: map_of_SomeD)
qed

lemma index_ok_concrete:
  "list_all (\<lambda>ps. buckets_ok (\<lambda>r. all_set r ps) (staged_rows (queued_set te tid)) (\<lambda>r. cells r ps) (queued_sec te tid ps)) (sec_positions te tid) \<Longrightarrow>
   list_all (\<lambda>c. buckets_ok (\<lambda>r. all_set r [c]) (staged_rows (queued_set te tid)) (\<lambda>r. r ! c) (queued_single te tid c)) (single_positions te tid) \<Longrightarrow>
   index_ok te tid"
  unfolding index_ok_def list_all_iff by (auto dest: buckets_ok_list)

theorem get_reads_own_writes_witness:
  "get mock_select_only pair_engine 3 [CNone, CInt 7, CInt 9] = (pair_engine, Inr (Some [CInt 2, CInt 7, CInt 9]))"
proof -
  have reg: "dict_get (te_tables pair_engine) (table_id t_pair) = Some t_pair" by code_simp
  have "index_ok pair_engine (table_id t_pair)" by (rule index_ok_concrete) code_simp+
  moreover have "distinct (map fst (queued_set pair_engine (table_id t_pair)))" by code_simp
  moreover have "queued_set pair_engine (table_id t_pair) = [(KCell (CInt 1), StagedRow [CInt 1, CInt 7, CInt 8]),
      (KCell (CInt 2), StagedRow [CInt 2, CInt 7, CInt 9])]" "next_id pair_engine (table_id t_pair) = 3" by code_simp+
  moreover have "pk_of t_pair [CInt 1, CInt 7, CInt 8] = Some (KCell (CInt 1))"
    "pk_of t_pair [CInt 2, CInt 7, CInt 9] = Some (KCell (CInt 2))" "\<not> no_duplicate t_pair" by code_simp+
  ultimately have ok: "stage_ok t_pair pair_engine" by (simp add: stage_ok_def entry_ok_def key_int_def)
  have given: "all_given [CNone, CInt 7, CInt 9] (primary t_pair) = Some False" "primary t_pair \<noteq> []" by code_simp+
  have "find (\<lambda>r. row_matches r [CNone, CInt 7, CInt 9]) (staged_rows (queued_set pair_engine (table_id t_pair)))
      = Some [CInt 2, CInt 7, CInt 9]" by code_simp
  moreover have "\<not> no_duplicate t_pair" and tid: "table_id t_pair = 3" by code_simp+
  ultimately show ?thesis
    using get_reads_own_writes[OF reg ok _ given(2,1), of mock_select_only] unfolding tid by simp
qed

text \<open>
  Staging keeps the engine's bookkeeping, and a row that was set is found again.  On an ordinary table whose unique
  keys are not in play, \<open>set\<close> with a generated id (primary key in column 0) or with an explicit, unstaged key
  below the id counter returns the given columns with the key filled in, keeps every staged row and the indexes
  exact, and an immediate \<open>get\<close> of the returned row answers that row.
\<close>

theorem set_then_get:
  assumes "dict_get (te_tables te) (table_id t) = Some t" "stage_ok t te" "\<not> no_duplicate t" "\<not> is_hash_keyed t"
    and "unique_positions te (table_id t) = []" "columns \<noteq> []"
    and "if hd columns = CNone then primary t = [0]
         else all_given columns (primary t) = Some True \<and> (\<forall>k n. pk_of t columns = Some k \<and> key_int k = Some n \<longrightarrow> n < next_id te (table_id t))"
    and "te_set D te (table_id t) columns = (te', Inr r)"
  shows "stage_ok t te' \<and> get D te' (table_id t) r = (te', Inr (Some r))
    \<and> tl r = tl columns \<and> (hd columns \<noteq> CNone \<longrightarrow> r = columns)
    \<and> queued_set te' (table_id t) = queued_set te (table_id t) @ [(the (pk_of t r), StagedRow r)]"
proof -
  let ?tid = "table_id t"
  obtain te1 k where te1: "te' = stage ?tid k (StagedRow r) te1" and k: "pk_of t r = Some k"
    and given: "all_given r (primary t) = Some True" and rs: "tl r = tl columns" "hd columns \<noteq> CNone \<longrightarrow> r = columns"
    and new: "dict_get (queued_set te1 ?tid) k = None" and ok1: "stage_ok t te1"
    and low: "\<forall>n. key_int k = Some n \<longrightarrow> n < next_id te1 ?tid" and same: "queued_set te1 ?tid = queued_set te ?tid"
    and tabs: "te_tables te1 = te_tables te"
  proof (cases "hd columns = CNone")
    case True
    let ?i = "next_id te ?tid"
    let ?te1 = "bump_id ?tid (?i + 1) te"
    have r: "r = CInt ?i # tl columns" "te' = stage ?tid (KCell (CInt ?i)) (StagedRow r) ?te1"
      using assms(1,3,5,6,8) True by (auto simp: te_set_def set_fresh_def Let_def)
    have pk: "pk_of t r = Some (KCell (CInt ?i))"
      using assms(7) True r(1) by (simp add: pk_of_def key_of_Some)
    have "dict_get (queued_set te ?tid) (KCell (CInt ?i)) = None"
    proof (rule ccontr)
      assume "dict_get (queued_set te ?tid) (KCell (CInt ?i)) \<noteq> None"
      then obtain v where "(KCell (CInt ?i), v) \<in> set (queued_set te ?tid)" by (auto dest: map_of_SomeD)
      then have "entry_ok t ?i (KCell (CInt ?i), v)" using assms(2) by (auto simp: stage_ok_def)
      then show False by (auto simp: entry_ok_def key_int_def split: staged.splits)
    qed
    with r pk assms(2,7) True show ?thesis
      by (intro that[of "KCell (CInt ?i)" ?te1]) (auto simp: stage_ok_bump key_int_def)
  next
    case False
    then obtain k where k: "pk_of t columns = Some k" and new: "dict_get (queued_set te ?tid) k = None"
      and r: "r = columns" "te' = stage ?tid k (StagedRow columns) te"
      using assms(1,3,4,6,8) by (auto simp: te_set_def set_keyed_def split: option.splits if_splits)
    with assms(2,7) False show ?thesis by (intro that[of k te]) auto
  qed
  have entry: "entry_ok t (next_id te1 ?tid) (k, StagedRow r)"
    using assms(3) k low by (auto simp: entry_ok_def split: key.split)
  have ok: "stage_ok t te'" unfolding te1 by (rule stage_ok_stage[OF ok1 new entry])
  have q: "queued_set te' ?tid = queued_set te ?tid @ [(k, StagedRow r)]"
    using new same by (simp add: te1 dict_values_set_new)
  have "staged_hit te' t ?tid r = Inr (Some r)"
    using assms(3) given k new by (simp add: staged_hit_def te1 staged_row_def)
  then have "get D te' ?tid r = (te', Inr (Some r))"
    using assms(1) by (simp add: get_def te1 tabs)
  with ok q k rs show ?thesis by simp
qed

theorem set_then_get_witness:
  "get mock_select_only (fst (te_set mock_select_only (register_table t_plain new_te) 2 [CNone, CStr ''x''])) 2 [CInt 1, CStr ''x'']
    = (fst (te_set mock_select_only (register_table t_plain new_te) 2 [CNone, CStr ''x'']), Inr (Some [CInt 1, CStr ''x'']))"
proof -
  let ?te = "register_table t_plain new_te :: store te"
  have reg: "dict_get (te_tables ?te) (table_id t_plain) = Some t_plain" by code_simp
  have q: "queued_set ?te (table_id t_plain) = []" "sec_positions ?te (table_id t_plain) = []"
    "single_positions ?te (table_id t_plain) = []" "unique_positions ?te (table_id t_plain) = []" by code_simp+
  have ok: "stage_ok t_plain ?te" by (simp add: stage_ok_def index_ok_def q)
  have f: "\<not> no_duplicate t_plain" "\<not> is_hash_keyed t_plain" "primary t_plain = [0]" "table_id t_plain = 2" by code_simp+
  have s: "te_set mock_select_only ?te (table_id t_plain) [CNone, CStr ''x'']
      = (fst (te_set mock_select_only ?te 2 [CNone, CStr ''x'']), Inr [CInt 1, CStr ''x''])"
  proof -
    have "snd (te_set mock_select_only ?te 2 [CNone, CStr ''x'']) = Inr [CInt 1, CStr ''x'']" by code_simp
    then show ?thesis unfolding f by (simp add: prod_eq_iff)
  qed
  from set_then_get[OF reg ok f(1,2) q(4) _ _ s] f show ?thesis by simp
qed

subsection \<open>Taking a batch and putting it back\<close>

text \<open>What a batch records of one table, and what a state keeps of it for deduplication and staging.\<close>

definition put_back :: "'db te \<Rightarrow> 'db te \<Rightarrow> batch \<Rightarrow> nat \<Rightarrow> bool" where
  "put_back te te' b tid \<longleftrightarrow>
     (case dict_get (staged_part b) tid of
        None \<Rightarrow> queued_set te' tid = queued_set te tid \<and> queued_update te' tid = queued_update te tid
          \<and> committed_nodup te' tid = committed_nodup te tid \<and> committed_pks te' tid = committed_pks te tid
          \<and> committed_unique te' tid = committed_unique te tid
      | Some (q, upd) \<Rightarrow> q = queued_set te tid \<and> upd = queued_update te tid \<and> queued_set te' tid = [] \<and> queued_update te' tid = []
          \<and> (\<forall>k. known_id (filter (\<lambda>(k, _). k \<notin> set (added_nodup b tid)) (committed_nodup te' tid)) k
                 = known_id (committed_nodup te tid) k)
          \<and> filter (\<lambda>k. k \<notin> set (added_pks b tid)) (committed_pks te' tid) = committed_pks te tid
          \<and> (\<forall>ps. filter (\<lambda>k. k \<notin> set (added_unique b tid ps)) (committed_unique te' tid ps) = committed_unique te tid ps))"

definition no_record :: "batch \<Rightarrow> nat \<Rightarrow> bool" where
  "no_record b tid \<longleftrightarrow> dict_get (staged_part b) tid = None \<and> added_nodup b tid = [] \<and> added_pks b tid = []
     \<and> (\<forall>ps. added_unique b tid ps = [])"

lemma known_id_set: "known_id (dict_set k v m) k' = (if k' = k then (if v = CNone then None else Some v) else known_id m k')"
  by (simp add: known_id_def)

lemma known_id_filter:
  "known_id (filter (\<lambda>(k, _). k \<notin> A) m) k = (if k \<in> A then None else known_id m k)"
proof -
  have "dict_get (filter (\<lambda>(k, _). k \<notin> A) m) k = (if k \<in> A then None else dict_get m k)"
    by (induction m) auto
  then show ?thesis by (simp add: known_id_def)
qed

lemma known_id_fold: "k \<notin> fst ` set f \<Longrightarrow>
    known_id (foldl (\<lambda>m (k, v). dict_set k (hd (staged_row k v)) m) m f) k = known_id m k"
  by (induction f arbitrary: m) (auto simp: known_id_set)

lemma fresh_nodup_known: "k \<in> fst ` set (fresh_nodup te tid q) \<Longrightarrow> known_id (committed_nodup te tid) k = None"
  by (auto simp: fresh_nodup_def)

lemma new_unique_fresh: "x \<in> set (new_unique known ps rs) \<Longrightarrow> x \<notin> set known"
proof -
  have "x \<in> set (foldl (\<lambda>new r. if all_set r ps \<and> cells r ps \<notin> set known then append_new new (cells r ps) else new) new rs)
    \<Longrightarrow> (\<forall>y \<in> set new. y \<notin> set known) \<Longrightarrow> x \<notin> set known" for new
    by (induction rs arbitrary: new) (auto split: if_splits)
  then show "x \<in> set (new_unique known ps rs) \<Longrightarrow> x \<notin> set known" by (simp add: new_unique_def)
qed

lemma filter_disjoint: "(\<And>x. x \<in> set b \<Longrightarrow> x \<notin> set a) \<Longrightarrow> filter (\<lambda>x. x \<notin> set b) (a @ b) = a"
proof -
  assume d: "\<And>x. x \<in> set b \<Longrightarrow> x \<notin> set a"
  have "filter (\<lambda>x. x \<notin> set b) a = a" using d by (auto simp: filter_id_conv)
  then show ?thesis by simp
qed

lemma take_rows_record:
  assumes "take_rows t tid q te b = (te', b', rs)" "no_record b tid"
  shows "(\<forall>k. known_id (filter (\<lambda>(k, _). k \<notin> set (added_nodup b' tid)) (committed_nodup te' tid)) k
             = known_id (committed_nodup te tid) k)
    \<and> filter (\<lambda>k. k \<notin> set (added_pks b' tid)) (committed_pks te' tid) = committed_pks te tid
    \<and> committed_unique te' = committed_unique te \<and> added_unique b' = added_unique b \<and> staged_part b' = staged_part b
    \<and> unique_positions te' = unique_positions te"
proof -
  let ?f = "fresh_nodup te tid q" and ?p = "fresh_pks te tid q"
  have pks: "filter (\<lambda>k. k \<notin> set (map fst ?p)) (committed_pks te tid @ map fst ?p) = committed_pks te tid"
    by (rule filter_disjoint) (auto simp: fresh_pks_def)
  have nodup: "known_id (filter (\<lambda>(k, _). k \<notin> set (map fst ?f))
      (foldl (\<lambda>m (k, v). dict_set k (hd (staged_row k v)) m) (committed_nodup te tid) ?f)) k = known_id (committed_nodup te tid) k" for k
  proof (cases "k \<in> set (map fst ?f)")
    case True
    then show ?thesis using fresh_nodup_known[of k te tid q] by (simp add: known_id_filter)
  next
    case False
    then show ?thesis using known_id_fold[of k ?f "committed_nodup te tid"] by (simp add: known_id_filter)
  qed
  have none: "known_id (filter (\<lambda>(k, _). k \<notin> set []) m) k = known_id m k" for m k
    by (simp add: known_id_filter)
  consider "no_duplicate t" | "\<not> no_duplicate t" "is_hash_keyed t" | "\<not> no_duplicate t" "\<not> is_hash_keyed t" by blast
  then show ?thesis
  proof cases
    case 1
    then have "te' = te\<lparr>committed_nodup := (committed_nodup te)(tid :=
        foldl (\<lambda>m (k, v). dict_set k (hd (staged_row k v)) m) (committed_nodup te tid) ?f)\<rparr>"
      "b' = b\<lparr>added_nodup := (added_nodup b)(tid := map fst ?f)\<rparr>"
      using assms(1) by (simp_all add: take_rows_def Let_def)
    then show ?thesis using nodup assms(2) by (simp add: no_record_def)
  next
    case 2
    then have "te' = te\<lparr>committed_pks := (committed_pks te)(tid := committed_pks te tid @ map fst ?p)\<rparr>"
      "b' = b\<lparr>added_pks := (added_pks b)(tid := map fst ?p)\<rparr>"
      using assms(1) by (simp_all add: take_rows_def Let_def)
    then show ?thesis using pks none assms(2) by (simp add: no_record_def)
  next
    case 3
    then show ?thesis using assms none by (simp add: take_rows_def no_record_def)
  qed
qed

lemma take_rows_other:
  assumes "take_rows t tid q te b = (te', b', rs)" "tid' \<noteq> tid"
  shows "committed_nodup te' tid' = committed_nodup te tid' \<and> committed_pks te' tid' = committed_pks te tid'
    \<and> added_nodup b' tid' = added_nodup b tid' \<and> added_pks b' tid' = added_pks b tid' \<and> queued_set te' = queued_set te
    \<and> queued_update te' = queued_update te"
  using assms by (auto simp: take_rows_def Let_def split: if_splits)

lemma take_rows_queues:
  "take_rows t tid q te b = (te', b', rs) \<Longrightarrow> queued_set te' = queued_set te \<and> queued_update te' = queued_update te"
  by (auto simp: take_rows_def Let_def split: if_splits)

lemma take_unique_record:
  assumes "take_unique tid rs te b = (te', b')"
  shows "filter (\<lambda>k. k \<notin> set (added_unique b' tid ps)) (committed_unique te' tid ps) = committed_unique te tid ps"
proof (cases "ps \<in> set (unique_positions te tid)")
  case True
  let ?new = "new_unique (committed_unique te tid ps) ps rs"
  have "filter (\<lambda>k. k \<notin> set ?new) (committed_unique te tid ps @ ?new) = committed_unique te tid ps"
    by (rule filter_disjoint) (rule new_unique_fresh)
  moreover have "added_unique b' tid ps = ?new" "committed_unique te' tid ps = committed_unique te tid ps @ ?new"
    using assms True by (auto simp: take_unique_def Let_def)
  ultimately show ?thesis by simp
next
  case False
  then show ?thesis using assms by (auto simp: take_unique_def Let_def)
qed

lemma take_table_same:
  assumes "take_table (te, b) t = (te', b')" "no_record b (table_id t)"
  shows "put_back te te' b' (table_id t)"
proof (cases "queued_set te (table_id t) = [] \<and> queued_update te (table_id t) = []")
  case True
  then show ?thesis using assms by (simp add: take_table_def put_back_def no_record_def Let_def)
next
  case False
  let ?tid = "table_id t"
  obtain te1 b1 rs0 where s1: "(if queued_set te ?tid = [] then (te, b, []) else take_rows t ?tid (queued_set te ?tid) te b) = (te1, b1, rs0)"
    by (metis prod_cases3)
  let ?rs = "if primary t \<noteq> [] \<and> length rs0 > 1 then sort_rows (primary t) rs0 else rs0"
  obtain te2 b2 where s2: "(if ?rs = [] then (te1, b1) else take_unique ?tid ?rs te1 b1) = (te2, b2)"
    by (metis prod.exhaust)
  have r1: "(\<forall>k. known_id (filter (\<lambda>(k, _). k \<notin> set (added_nodup b1 ?tid)) (committed_nodup te1 ?tid)) k
             = known_id (committed_nodup te ?tid) k)"
    "filter (\<lambda>k. k \<notin> set (added_pks b1 ?tid)) (committed_pks te1 ?tid) = committed_pks te ?tid"
    "committed_unique te1 = committed_unique te" "added_unique b1 = added_unique b"
    "queued_set te1 = queued_set te" "queued_update te1 = queued_update te"
    using s1 take_rows_record[of t ?tid "queued_set te ?tid" te b te1 b1 rs0] take_rows_queues[of t ?tid "queued_set te ?tid" te b te1 b1 rs0] assms(2)
    by (auto simp: no_record_def known_id_filter split: if_splits)
  have r2: "filter (\<lambda>k. k \<notin> set (added_unique b2 ?tid ps)) (committed_unique te2 ?tid ps) = committed_unique te ?tid ps" for ps
  proof (cases "?rs = []")
    case True
    then show ?thesis using s2 r1 assms(2) by (simp add: no_record_def)
  next
    case ne: False
    then have "take_unique ?tid ?rs te1 b1 = (te2, b2)" using s2 by simp
    from take_unique_record[OF this] show ?thesis by (simp add: r1(3))
  qed
  have r3: "committed_nodup te2 = committed_nodup te1" "committed_pks te2 = committed_pks te1"
    "added_nodup b2 = added_nodup b1" "added_pks b2 = added_pks b1" "queued_set te2 = queued_set te1" "queued_update te2 = queued_update te1"
    using s2 by (auto simp: take_unique_def Let_def split: if_splits)
  let ?te3 = "if queued_set te ?tid = [] then te2 else clear_staged ?tid te2"
  let ?b3 = "b2\<lparr>staged_part := dict_set ?tid (queued_set te ?tid, queued_update te ?tid) (staged_part b2)\<rparr>"
  have res: "te' = ?te3\<lparr>queued_update := (queued_update ?te3)(?tid := [])\<rparr>"
    "b' = (if ?rs = [] \<and> queued_update te ?tid = [] then ?b3
           else ?b3\<lparr>tables_payload := tables_payload ?b3 @ [(t, ?rs, queued_update te ?tid)],
                    batch_rows := batch_rows ?b3 + length ?rs + length (queued_update te ?tid)\<rparr>)"
    using assms(1) False s1 s2 unfolding take_table_def prod.case Let_def by simp_all
  show ?thesis
    unfolding put_back_def res using r1 r2 r3
    by (auto simp: clear_staged_def)
qed

definition same_at :: "'db te \<Rightarrow> 'db te \<Rightarrow> nat \<Rightarrow> bool" where
  "same_at te te' tid \<longleftrightarrow> queued_set te' tid = queued_set te tid \<and> queued_update te' tid = queued_update te tid
     \<and> committed_nodup te' tid = committed_nodup te tid \<and> committed_pks te' tid = committed_pks te tid
     \<and> committed_unique te' tid = committed_unique te tid"

definition same_record :: "batch \<Rightarrow> batch \<Rightarrow> nat \<Rightarrow> bool" where
  "same_record b b' tid \<longleftrightarrow> dict_get (staged_part b') tid = dict_get (staged_part b) tid \<and> added_nodup b' tid = added_nodup b tid
     \<and> added_pks b' tid = added_pks b tid \<and> added_unique b' tid = added_unique b tid"

lemma put_back_cong:
  "same_at te1 te2 tid \<Longrightarrow> same_at te1' te2' tid \<Longrightarrow> same_record b b' tid \<Longrightarrow> put_back te1 te1' b tid \<Longrightarrow> put_back te2 te2' b' tid"
  by (cases "dict_get (staged_part b) tid") (auto simp: put_back_def same_at_def same_record_def)

lemma take_table_other:
  assumes "take_table (te, b) t = (te', b')" "tid \<noteq> table_id t"
  shows "same_at te te' tid \<and> same_record b b' tid"
proof (cases "queued_set te (table_id t) = [] \<and> queued_update te (table_id t) = []")
  case True
  then show ?thesis using assms(1) by (simp add: take_table_def same_at_def same_record_def Let_def)
next
  case False
  let ?tid = "table_id t"
  obtain te1 b1 rs0 where s1: "(if queued_set te ?tid = [] then (te, b, []) else take_rows t ?tid (queued_set te ?tid) te b) = (te1, b1, rs0)"
    by (metis prod_cases3)
  let ?rs = "if primary t \<noteq> [] \<and> length rs0 > 1 then sort_rows (primary t) rs0 else rs0"
  obtain te2 b2 where s2: "(if ?rs = [] then (te1, b1) else take_unique ?tid ?rs te1 b1) = (te2, b2)"
    by (metis prod.exhaust)
  have r1: "same_at te te1 tid \<and> same_record b b1 tid"
    using s1 assms(2) by (auto simp: take_rows_def Let_def same_at_def same_record_def split: if_splits)
  have r2: "same_at te1 te2 tid \<and> same_record b1 b2 tid"
    using s2 assms(2) by (auto simp: take_unique_def Let_def same_at_def same_record_def split: if_splits)
  let ?te3 = "if queued_set te ?tid = [] then te2 else clear_staged ?tid te2"
  let ?b3 = "b2\<lparr>staged_part := dict_set ?tid (queued_set te ?tid, queued_update te ?tid) (staged_part b2)\<rparr>"
  have res: "te' = ?te3\<lparr>queued_update := (queued_update ?te3)(?tid := [])\<rparr>"
    "b' = (if ?rs = [] \<and> queued_update te ?tid = [] then ?b3
           else ?b3\<lparr>tables_payload := tables_payload ?b3 @ [(t, ?rs, queued_update te ?tid)],
                    batch_rows := batch_rows ?b3 + length ?rs + length (queued_update te ?tid)\<rparr>)"
    using assms(1) False s1 s2 unfolding take_table_def prod.case Let_def by simp_all
  show ?thesis
    unfolding res using r1 r2 assms(2) by (auto simp: same_at_def same_record_def clear_staged_def)
qed

lemma same_at_trans: "same_at a b tid \<Longrightarrow> same_at b c tid \<Longrightarrow> same_at a c tid"
  by (simp add: same_at_def)

lemma same_at_sym: "same_at a b tid \<Longrightarrow> same_at b a tid"
  by (simp add: same_at_def)

lemma same_record_trans: "same_record a b tid \<Longrightarrow> same_record b c tid \<Longrightarrow> same_record a c tid"
  by (simp add: same_record_def)

lemma same_refl [simp]: "same_at te te tid" "same_record b b tid"
  by (simp_all add: same_at_def same_record_def)

lemma foldl_take_table:
  assumes "foldl take_table (te, b) ts = (te', b')" "distinct (map table_id ts)" "\<forall>t \<in> set ts. no_record b (table_id t)"
  shows "(tid \<in> table_id ` set ts \<longrightarrow> put_back te te' b' tid)
    \<and> (tid \<notin> table_id ` set ts \<longrightarrow> same_at te te' tid \<and> same_record b b' tid)"
  using assms
proof (induction ts arbitrary: te b)
  case (Cons t ts)
  obtain te1 b1 where s: "take_table (te, b) t = (te1, b1)" by (metis prod.exhaust)
  have rest: "foldl take_table (te1, b1) ts = (te', b')" using Cons.prems(1) s by simp
  have rec1: "\<forall>t' \<in> set ts. no_record b1 (table_id t')"
  proof
    fix t' assume t': "t' \<in> set ts"
    then have "table_id t' \<in> table_id ` set ts" by (rule imageI)
    then have "table_id t' \<noteq> table_id t" using Cons.prems(2) by (auto simp del: imageE)
    from take_table_other[OF s this] Cons.prems(3) t' show "no_record b1 (table_id t')"
      by (simp add: no_record_def same_record_def)
  qed
  note IH = Cons.IH[OF rest _ rec1]
  show ?case
  proof (cases "tid = table_id t")
    case True
    then have "tid \<notin> table_id ` set ts" using Cons.prems(2) by auto
    then have same: "same_at te1 te' tid" "same_record b1 b' tid" using IH Cons.prems(2) by auto
    have "put_back te te1 b1 tid" unfolding True by (rule take_table_same[OF s]) (use Cons.prems(3) in simp)
    from put_back_cong[OF _ same this, of te] True show ?thesis by simp
  next
    case False
    have o: "same_at te te1 tid" "same_record b b1 tid" using take_table_other[OF s False] by auto
    show ?thesis
    proof (cases "tid \<in> table_id ` set ts")
      case True
      then have "put_back te1 te' b' tid" using IH Cons.prems(2) by simp
      from put_back_cong[OF same_at_sym[OF o(1)] same_refl(1) same_refl(2) this] True False show ?thesis by simp
    next
      case out: False
      then have "same_at te1 te' tid" "same_record b1 b' tid" using IH Cons.prems(2) by auto
      with o out False show ?thesis by (auto intro: same_at_trans same_record_trans)
    qed
  qed
qed auto

subsubsection \<open>Restoring\<close>

lemma restore_rows_fields:
  "queued_update (restore_rows tid q te) = queued_update te \<and> committed_nodup (restore_rows tid q te) = committed_nodup te
   \<and> committed_pks (restore_rows tid q te) = committed_pks te \<and> committed_unique (restore_rows tid q te) = committed_unique te
   \<and> (\<forall>tid'. tid' \<noteq> tid \<longrightarrow> queued_set (restore_rows tid q te) tid' = queued_set te tid')"
  unfolding restore_rows_def by (induction q arbitrary: te) auto

lemma restore_rows_queue:
  "distinct (map fst q) \<Longrightarrow> queued_set (restore_rows tid q te) tid =
     queued_set te tid @ filter (\<lambda>(k, v). dict_get (queued_set te tid) k = None) q"
proof (induction q arbitrary: te)
  case (Cons kv q)
  obtain k v where kv: "kv = (k, v)" by (cases kv)
  show ?case
  proof (cases "dict_get (queued_set te tid) k")
    case None
    let ?te1 = "index_staged tid (staged_row k v) (te\<lparr>queued_set := (queued_set te)(tid := dict_set k v (queued_set te tid))\<rparr>)"
    have r: "restore_rows tid (kv # q) te = restore_rows tid q ?te1"
      using None kv by (simp add: restore_rows_def)
    have same: "filter (\<lambda>(k', v'). dict_get (dict_set k v (queued_set te tid)) k' = None) q
        = filter (\<lambda>(k', v'). dict_get (queued_set te tid) k' = None) q"
      using Cons.prems kv by (intro filter_cong) (auto simp: image_iff)
    have q1: "queued_set ?te1 tid = dict_set k v (queued_set te tid)" by simp
    have "distinct (map fst q)" using Cons.prems by simp
    from Cons.IH[OF this, of ?te1] have "queued_set (restore_rows tid (kv # q) te) tid =
        dict_set k v (queued_set te tid) @ filter (\<lambda>(k', v). dict_get (queued_set te tid) k' = None) q"
      unfolding r q1 by (simp only: same)
    then show ?thesis using None kv by (simp add: dict_values_set_new)
  next
    case (Some w)
    then have "restore_rows tid (kv # q) te = restore_rows tid q te" using kv by (simp add: restore_rows_def)
    with Cons Some kv show ?thesis by simp
  qed
qed (simp add: restore_rows_def)

lemma restore_table_other:
  assumes "tid \<noteq> tid'"
  shows "same_at te (restore_table b te tid') tid"
proof (cases "dict_get (staged_part b) tid'")
  case (Some qu)
  obtain q upd where "qu = (q, upd)" by (cases qu)
  let ?te1 = "te\<lparr>committed_nodup := (committed_nodup te)(tid' := filter (\<lambda>(k, _). k \<notin> set (added_nodup b tid')) (committed_nodup te tid')),
            committed_pks := (committed_pks te)(tid' := filter (\<lambda>k. k \<notin> set (added_pks b tid')) (committed_pks te tid')),
            committed_unique := (committed_unique te)(tid' := (\<lambda>ps. filter (\<lambda>k. k \<notin> set (added_unique b tid' ps)) (committed_unique te tid' ps)))\<rparr>"
  have "same_at te (restore_rows tid' q ?te1) tid"
    using restore_rows_fields[of tid' q ?te1] assms unfolding same_at_def by simp
  with Some \<open>qu = (q, upd)\<close> assms show ?thesis
    unfolding restore_table_def Let_def by (simp add: same_at_def)
qed (simp add: restore_table_def)

lemma foldl_restore_other: "tid \<notin> set ids \<Longrightarrow> same_at te (foldl (restore_table b) te ids) tid"
  by (induction ids arbitrary: te) (auto intro: same_at_trans restore_table_other)

lemma restore_table_put_back:
  assumes "put_back te te1 b tid" "same_at te1 te2 tid" "dict_get (staged_part b) tid \<noteq> None" "distinct (map fst (queued_set te tid))"
  shows "queued_set (restore_table b te2 tid) tid = queued_set te tid
    \<and> queued_update (restore_table b te2 tid) tid = queued_update te tid
    \<and> (\<forall>k. known_id (committed_nodup (restore_table b te2 tid) tid) k = known_id (committed_nodup te tid) k)
    \<and> committed_pks (restore_table b te2 tid) tid = committed_pks te tid
    \<and> committed_unique (restore_table b te2 tid) tid = committed_unique te tid"
proof -
  obtain q upd where p: "dict_get (staged_part b) tid = Some (q, upd)" using assms(3) by auto
  let ?te1 = "te2\<lparr>committed_nodup := (committed_nodup te2)(tid := filter (\<lambda>(k, _). k \<notin> set (added_nodup b tid)) (committed_nodup te2 tid)),
            committed_pks := (committed_pks te2)(tid := filter (\<lambda>k. k \<notin> set (added_pks b tid)) (committed_pks te2 tid)),
            committed_unique := (committed_unique te2)(tid := (\<lambda>ps. filter (\<lambda>k. k \<notin> set (added_unique b tid ps)) (committed_unique te2 tid ps)))\<rparr>"
  have r: "restore_table b te2 tid = (restore_rows tid q ?te1)\<lparr>queued_update :=
      (queued_update (restore_rows tid q ?te1))(tid := upd @ queued_update (restore_rows tid q ?te1) tid)\<rparr>"
    by (simp add: restore_table_def p Let_def)
  have d: "distinct (map fst q)" using assms(1,4) p by (simp add: put_back_def)
  have "queued_set (restore_rows tid q ?te1) tid = queued_set te tid"
    using restore_rows_queue[OF d, of tid ?te1] assms(1,2) p by (simp add: put_back_def same_at_def)
  then show ?thesis
    unfolding r using restore_rows_fields[of tid q ?te1] assms(1,2) p
    by (auto simp: put_back_def same_at_def)
qed

text \<open>
  C1: Taking a batch and restoring it loses nothing.  \<open>_take_staged\<close> empties the staging queues and records the
  rows' keys as committed; when the database commits none of it, \<open>_restore_batch\<close> brings back exactly the staged
  rows, in their order, the staged updates, and the committed-key sets as they were, for every table, so that a retried
  commit writes the same rows again.
\<close>

theorem restore_undoes_take:
  assumes "take_staged ts te = (te', Some b)" "distinct (map table_id ts)"
    and "\<forall>t \<in> set ts. distinct (map fst (queued_set te (table_id t)))"
  shows "queued_set (restore_batch b None te') tid = queued_set te tid
    \<and> queued_update (restore_batch b None te') tid = queued_update te tid
    \<and> (\<forall>k. known_id (committed_nodup (restore_batch b None te') tid) k = known_id (committed_nodup te tid) k)
    \<and> committed_pks (restore_batch b None te') tid = committed_pks te tid
    \<and> committed_unique (restore_batch b None te') tid = committed_unique te tid"
proof -
  have f: "foldl take_table (te, empty_batch) ts = (te', b)"
    using assms(1) by (auto simp: take_staged_def split: prod.splits if_splits)
  have "\<forall>t \<in> set ts. no_record empty_batch (table_id t)" by (simp add: no_record_def empty_batch_def)
  note fold = foldl_take_table[OF f assms(2) this, of tid]
  let ?ids = "map fst (staged_part b)"
  have dist: "distinct ?ids"
  proof -
    have "distinct (map fst (staged_part (snd (foldl take_table (te0, b0) ts'))))" if "distinct (map fst (staged_part b0))" for te0 b0 ts'
      using that
    proof (induction ts' arbitrary: te0 b0)
      case (Cons t ts')
      obtain te1 b1 where s: "take_table (te0, b0) t = (te1, b1)" by (metis prod.exhaust)
      have "distinct (map fst (staged_part b1))"
        using s Cons.prems by (auto simp: take_table_def take_rows_def take_unique_def Let_def distinct_update split: if_splits)
      with Cons.IH s show ?case by simp
    qed simp
    from this[of empty_batch te ts] f show ?thesis by (simp add: empty_batch_def)
  qed
  show ?thesis
  proof (cases "tid \<in> set ?ids")
    case False
    then have s: "same_at te' (restore_batch b None te') tid"
      by (simp add: restore_batch_def foldl_restore_other)
    have "dict_get (staged_part b) tid = None" using False by (simp add: map_of_eq_None_iff)
    then have "same_at te te' tid"
      using fold by (auto simp: put_back_def same_at_def)
    with s show ?thesis by (auto simp: same_at_def)
  next
    case True
    then obtain xs ys where ids: "?ids = xs @ tid # ys" by (meson split_list)
    then have nin: "tid \<notin> set xs" "tid \<notin> set ys" using dist by auto
    let ?te2 = "foldl (restore_table b) te' xs"
    have before: "same_at te' ?te2 tid" using nin(1) by (rule foldl_restore_other)
    have after: "same_at (restore_table b ?te2 tid) (restore_batch b None te') tid"
      using foldl_restore_other[OF nin(2)] by (simp add: restore_batch_def ids)
    have part: "dict_get (staged_part b) tid \<noteq> None" using True by (simp add: map_of_eq_None_iff)
    have inn: "tid \<in> table_id ` set ts"
    proof (rule ccontr)
      assume "tid \<notin> table_id ` set ts"
      with fold part show False by (simp add: same_record_def empty_batch_def)
    qed
    then have "put_back te te' b tid" "distinct (map fst (queued_set te tid))" using fold assms(3) by auto
    from restore_table_put_back[OF this(1) before part this(2)] after show ?thesis
      by (simp add: same_at_def)
  qed
qed

theorem restore_undoes_take_witness:
  "queued_set (restore_batch (the (snd (take_staged [t_pair] pair_engine))) None (fst (take_staged [t_pair] pair_engine))) 3
    = queued_set pair_engine 3"
proof -
  have "snd (take_staged [t_pair] pair_engine) \<noteq> None" by code_simp
  then have t: "take_staged [t_pair] pair_engine = (fst (take_staged [t_pair] pair_engine), Some (the (snd (take_staged [t_pair] pair_engine))))"
    by (simp add: prod_eq_iff)
  have d: "\<forall>t \<in> set [t_pair]. distinct (map fst (queued_set pair_engine (table_id t)))" by code_simp
  show ?thesis using restore_undoes_take[OF t _ d] by simp
qed

end
