(* ===== verification/Engine_Commits.thy ===== *)
theory Engine_Commits
  imports Table_Engine
begin

section \<open>Commits of the table engine against a driver\<close>

text \<open>
  The contract a database driver owes the engine is the locale \<open>commit_driver\<close>; \<open>MockDB\<close> is an
  interpretation of it.  Under the contract a commit stores what was staged, and no lookup can tell
  whether the background writer has already run.
\<close>

subsection \<open>The payload of a commit\<close>

definition insert_payload :: "'db te \<Rightarrow> table \<Rightarrow> row list" where
  "insert_payload te t =
     (let tid = table_id t; q = queued_set te tid;
          rs = staged_rows (if no_duplicate t then fresh_nodup te tid q
                            else if is_hash_keyed t then fresh_pks te tid q else q)
      in if primary t \<noteq> [] \<and> length rs > 1 then sort_rows (primary t) rs else rs)"

definition payload_of :: "'db te \<Rightarrow> table \<Rightarrow> table_batch list" where
  "payload_of te t = (let rs = insert_payload te t; upd = queued_update te (table_id t)
     in if rs = [] \<and> upd = [] then [] else [(t, rs, upd)])"

lemma staged_rows_Nil [simp]: "staged_rows [] = []"
  by (simp add: staged_rows_def)

lemma take_rows_payload:
  "take_rows t tid q te b = (te', b', rs) \<Longrightarrow> tables_payload b' = tables_payload b \<and> batch_rows b' = batch_rows b \<and>
     rs = staged_rows (if no_duplicate t then fresh_nodup te tid q else if is_hash_keyed t then fresh_pks te tid q else q)"
  by (auto simp: take_rows_def Let_def split: if_splits)

lemma take_table_payload:
  assumes "take_table (te, b) t = (te', b')"
  shows "tables_payload b' = tables_payload b @ payload_of te t
    \<and> database te' = database te \<and> pending_commit te' = pending_commit te \<and> te_tables te' = te_tables te
    \<and> async_commits te' = async_commits te \<and> stats te' = stats te \<and> queued_set te' (table_id t) = []
    \<and> queued_update te' (table_id t) = []"
proof (cases "queued_set te (table_id t) = [] \<and> queued_update te (table_id t) = []")
  case True
  then have "insert_payload te t = []" by (simp add: insert_payload_def fresh_nodup_def fresh_pks_def Let_def)
  with True assms show ?thesis by (simp add: take_table_def payload_of_def Let_def)
next
  case False
  let ?tid = "table_id t" and ?q = "queued_set te (table_id t)"
  obtain te1 b1 rs0 where s1: "(if ?q = [] then (te, b, []) else take_rows t ?tid ?q te b) = (te1, b1, rs0)"
    by (metis prod_cases3)
  let ?rs = "if primary t \<noteq> [] \<and> length rs0 > 1 then sort_rows (primary t) rs0 else rs0"
  obtain te2 b2 where s2: "(if ?rs = [] then (te1, b1) else take_unique ?tid ?rs te1 b1) = (te2, b2)"
    by (metis prod.exhaust)
  let ?f = "if no_duplicate t then fresh_nodup te ?tid ?q else if is_hash_keyed t then fresh_pks te ?tid ?q else ?q"
  have rp: "rs0 = staged_rows ?f \<and> tables_payload b1 = tables_payload b"
  proof (cases "?q = []")
    case True
    then show ?thesis
      using s1 by (auto simp: fresh_nodup_def fresh_pks_def)
  next
    case False
    then have "take_rows t ?tid ?q te b = (te1, b1, rs0)" using s1 by simp
    from take_rows_payload[OF this] show ?thesis by simp
  qed
  have rs: "?rs = insert_payload te t" using rp by (simp add: insert_payload_def Let_def)
  have f1: "database te1 = database te \<and> pending_commit te1 = pending_commit te \<and> te_tables te1 = te_tables te
     \<and> async_commits te1 = async_commits te \<and> stats te1 = stats te"
    using s1 by (auto simp: take_rows_def Let_def split: if_splits)
  have f2: "database te2 = database te1 \<and> pending_commit te2 = pending_commit te1 \<and> te_tables te2 = te_tables te1
     \<and> async_commits te2 = async_commits te1 \<and> stats te2 = stats te1 \<and> tables_payload b2 = tables_payload b1 \<and> queued_set te2 = queued_set te1"
    using s2 by (auto simp: take_unique_def Let_def split: if_splits)
  have q1: "?q = [] \<Longrightarrow> queued_set te1 ?tid = []" using s1 by auto
  let ?te3 = "if ?q = [] then te2 else clear_staged ?tid te2"
  let ?b3 = "b2\<lparr>staged_part := dict_set ?tid (?q, queued_update te ?tid) (staged_part b2)\<rparr>"
  have res: "te' = ?te3\<lparr>queued_update := (queued_update ?te3)(?tid := [])\<rparr>"
    "b' = (if ?rs = [] \<and> queued_update te ?tid = [] then ?b3
           else ?b3\<lparr>tables_payload := tables_payload ?b3 @ [(t, ?rs, queued_update te ?tid)],
                    batch_rows := batch_rows ?b3 + length ?rs + length (queued_update te ?tid)\<rparr>)"
    using assms(1) False s1 s2 unfolding take_table_def prod.case Let_def by simp_all
  have "queued_set te' ?tid = []" unfolding res using q1 f2 by (simp add: clear_staged_def)
  moreover have "tables_payload b' = tables_payload b @ payload_of te t"
    unfolding res(2) rs using f2 rp by (simp add: payload_of_def Let_def)
  moreover have "database te' = database te \<and> pending_commit te' = pending_commit te \<and> te_tables te' = te_tables te
    \<and> async_commits te' = async_commits te \<and> stats te' = stats te \<and> queued_update te' ?tid = []"
    unfolding res(1) using f1 f2 by (simp add: clear_staged_def)
  ultimately show ?thesis by blast
qed

lemma payload_of_cong: "same_at te te' (table_id t) \<Longrightarrow> payload_of te' t = payload_of te t"
  by (simp add: same_at_def payload_of_def insert_payload_def fresh_nodup_def fresh_pks_def Let_def)

lemma foldl_take_payload:
  assumes "foldl take_table (te, b) ts = (te', b')" "distinct (map table_id ts)"
  shows "tables_payload b' = tables_payload b @ concat (map (payload_of te) ts)
    \<and> database te' = database te \<and> pending_commit te' = pending_commit te \<and> te_tables te' = te_tables te
    \<and> async_commits te' = async_commits te \<and> stats te' = stats te
    \<and> (\<forall>t \<in> set ts. queued_set te' (table_id t) = [] \<and> queued_update te' (table_id t) = [])
    \<and> (\<forall>tid. tid \<notin> table_id ` set ts \<longrightarrow> same_at te te' tid)"
  using assms
proof (induction ts arbitrary: te b)
  case (Cons t ts)
  obtain te1 b1 where s: "take_table (te, b) t = (te1, b1)" by (metis prod.exhaust)
  have rest: "foldl take_table (te1, b1) ts = (te', b')" using Cons.prems(1) s by simp
  have dist: "distinct (map table_id ts)" using Cons.prems(2) by simp
  note IH = Cons.IH[OF rest dist] and P = take_table_payload[OF s]
  have "concat (map (payload_of te1) ts) = concat (map (payload_of te) ts)"
  proof (rule arg_cong[where f = concat], rule map_cong[OF refl])
    fix t' assume "t' \<in> set ts"
    then have "table_id t' \<in> table_id ` set ts" by (rule imageI)
    then have "table_id t' \<noteq> table_id t" using Cons.prems(2) by (auto simp del: imageE)
    then have "same_at te te1 (table_id t')" using take_table_other[OF s] by simp
    then show "payload_of te1 t' = payload_of te t'" by (rule payload_of_cong)
  qed
  moreover have "queued_set te' (table_id t) = [] \<and> queued_update te' (table_id t) = []"
  proof -
    have "table_id t \<notin> table_id ` set ts" using Cons.prems(2) by simp
    then have "same_at te1 te' (table_id t)" using IH by blast
    then show ?thesis using P by (simp add: same_at_def)
  qed
  moreover have "same_at te te' tid" if "tid \<notin> table_id ` set (t # ts)" for tid
  proof -
    have "same_at te te1 tid" using take_table_other[OF s] that by auto
    moreover have "same_at te1 te' tid" using IH that by auto
    ultimately show ?thesis by (rule same_at_trans)
  qed
  ultimately show ?case using IH P by simp
qed simp

subsection \<open>The contract\<close>

locale commit_driver =
  fixes D :: "'db driver" and stored :: "'db \<Rightarrow> table \<Rightarrow> key \<Rightarrow> row option"
  assumes commit_stores: "drv_commit D bs db = (db', Inr st) \<Longrightarrow> distinct (batch_names bs) \<Longrightarrow> (t, ins, upd) \<in> set bs \<Longrightarrow>
      ins \<noteq> [] \<or> upd \<noteq> [] \<Longrightarrow> stored db' t k = written t ins upd (stored db t) k"
    and commit_frame: "drv_commit D bs db = (db', r) \<Longrightarrow> table_name t \<notin> set (batch_names bs) \<Longrightarrow>
      stored db' t = stored db t \<and> drv_select D db' t = drv_select D db t \<and> drv_select_in D db' t = drv_select_in D db t"
begin

text \<open>A commit of everything staged stores it, table by table.\<close>

lemma commit_payloads:
  assumes "drv_commit D (concat (map (payload_of te) ts)) db = (db', Inr st)" "distinct (map table_name ts)" "t \<in> set ts"
  shows "stored db' t k = written t (insert_payload te t) (queued_update te (table_id t)) (stored db t) k"
proof -
  let ?bs = "concat (map (payload_of te) ts)"
  have names: "batch_names (concat (map (payload_of te) xs)) =
      map table_name (filter (\<lambda>t. payload_of te t \<noteq> []) xs)" for xs
    by (induction xs) (auto simp: payload_of_def Let_def)
  have dist: "distinct (batch_names ?bs)" using assms(2) by (simp add: names distinct_map_filter)
  show ?thesis
  proof (cases "payload_of te t = []")
    case True
    have "table_name t \<notin> set (batch_names ?bs)"
    proof
      assume "table_name t \<in> set (batch_names ?bs)"
      then obtain t' where t': "t' \<in> set ts" "payload_of te t' \<noteq> []" "table_name t' = table_name t"
        by (auto simp: names)
      with assms(2,3) have "t' = t" by (auto simp: distinct_map dest: inj_onD)
      with t' True show False by simp
    qed
    from commit_frame[OF assms(1) this] have "stored db' t = stored db t" by simp
    moreover have "insert_payload te t = []" "queued_update te (table_id t) = []"
      using True by (auto simp: payload_of_def Let_def split: if_splits)
    ultimately show ?thesis by (simp add: written_def split: option.split)
  next
    case False
    then have "payload_of te t = [(t, insert_payload te t, queued_update te (table_id t))]"
      and ne: "insert_payload te t \<noteq> [] \<or> queued_update te (table_id t) \<noteq> []"
      by (auto simp: payload_of_def Let_def split: if_splits)
    then have "(t, insert_payload te t, queued_update te (table_id t)) \<in> set ?bs" using assms(3) by force
    from commit_stores[OF assms(1) dist this ne] show ?thesis .
  qed
qed

text \<open>Reads of tables outside the pending batch do not see the writer.\<close>

lemma writer_frame:
  assumes "pending_commit te = Some p" "table_name t \<notin> set (batch_names (tables_payload (pending_batch p)))"
    and "database te = Some db" "database (run_writer D te) = Some db'"
  shows "drv_select D db' t = drv_select D db t \<and> drv_select_in D db' t = drv_select_in D db t"
proof (cases p)
  case (Unwritten b)
  show ?thesis
  proof (cases "tables_payload b = []")
    case True
    then show ?thesis using assms Unwritten by (simp add: run_writer_def)
  next
    case False
    obtain db1 r where c: "drv_commit D (tables_payload b) db = (db1, r)" by (metis prod.exhaust)
    then have "db' = db1" using assms Unwritten False by (cases r) (simp_all add: run_writer_def)
    with commit_frame[OF c] assms(2) Unwritten show ?thesis by simp
  qed
next
  case (Done b w)
  then show ?thesis using assms by (simp add: run_writer_def)
qed

end

subsection \<open>\<open>MockDB\<close> keeps the contract\<close>

definition mock_commit :: "table_batch list \<Rightarrow> store \<Rightarrow> store \<times> (nat list option + (string \<times> nat \<times> nat) list)" where
  "mock_commit bs db = (case commit_tables bs db of
       (db', Inl (e, ids)) \<Rightarrow> (db', Inl (Some ids))
     | (db', Inr ss) \<Rightarrow> (db', Inr (map (\<lambda>s. (stat_table s, inserted s, updated s)) ss)))"

definition graph_of :: "joins \<Rightarrow> join list" where
  "graph_of js = (case js of JTable _ \<Rightarrow> [] | JGraph g \<Rightarrow> g)"

definition mock_driver :: "store driver" where
  "mock_driver = \<lparr>drv_select = select,
     drv_view_select = (\<lambda>db tabs js c. case view_select db tabs (graph_of js) c of Some r \<Rightarrow> r | None \<Rightarrow> None),
     drv_view_select_multiple = (\<lambda>db tabs js c. case view_select_multiple db tabs (graph_of js) c of Some r \<Rightarrow> r | None \<Rightarrow> []),
     drv_select_in = select_in, drv_commit = mock_commit,
     drv_write = (\<lambda>b db. case write_table b db of (db', e) \<Rightarrow> (db', e = None)),
     drv_next_id = (\<lambda>t db. case get_next_id t db of (n, db') \<Rightarrow> (Some n, db')), drv_background = False\<rparr>"

lemma mock_commit_cases:
  "mock_commit bs db = (db', r) \<Longrightarrow> \<exists>r'. commit_tables bs db = (db', r') \<and> (\<forall>st. r = Inr st \<longrightarrow> (\<exists>ss. r' = Inr ss))"
  by (auto simp: mock_commit_def split: prod.splits sum.splits)

lemma select_same_table: "same_table t st st' \<Longrightarrow> select st' t = select st t \<and> select_in st' t = select_in st t"
  by (simp add: fun_eq_iff select_def select_in_def same_table_rows)

interpretation mock: commit_driver mock_driver content
proof
  fix bs db db' st t ins upd k
  assume "drv_commit mock_driver bs db = (db', Inr st)" "distinct (batch_names bs)" "(t, ins, upd) \<in> set bs" "ins \<noteq> [] \<or> upd \<noteq> []"
  then obtain ss where "commit_tables bs db = (db', Inr ss)"
    by (auto simp: mock_driver_def dest!: mock_commit_cases)
  then have c: "commit_items (filter (\<lambda>(t, ins, upd). ins \<noteq> [] \<or> upd \<noteq> []) bs) db = (db', Inr ss)"
    by (simp add: commit_tables_def)
  have "distinct (batch_names (filter (\<lambda>(t, ins, upd). ins \<noteq> [] \<or> upd \<noteq> []) bs))"
    using \<open>distinct (batch_names bs)\<close> by (simp add: batch_names_def distinct_map_filter)
  from commit_items_written[OF c this] \<open>(t, ins, upd) \<in> set bs\<close> \<open>ins \<noteq> [] \<or> upd \<noteq> []\<close>
  show "content db' t k = written t ins upd (content db t) k" by simp
next
  fix bs db db' r and t :: table
  assume "drv_commit mock_driver bs db = (db', r)" and nin: "table_name t \<notin> set (batch_names bs)"
  then obtain r' where "commit_tables bs db = (db', r')"
    by (auto simp: mock_driver_def dest!: mock_commit_cases)
  then have c: "commit_items (filter (\<lambda>(t, ins, upd). ins \<noteq> [] \<or> upd \<noteq> []) bs) db = (db', r')"
    by (simp add: commit_tables_def)
  have "set (batch_names (filter (\<lambda>(t, ins, upd). ins \<noteq> [] \<or> upd \<noteq> []) bs)) \<subseteq> set (batch_names bs)"
    unfolding batch_names_def set_map by (rule image_mono) simp
  with nin have "table_name t \<notin> set (batch_names (filter (\<lambda>(t, ins, upd). ins \<noteq> [] \<or> upd \<noteq> []) bs))" by blast
  from commit_items_other[OF c this] have same: "same_table t db db'" .
  show "content db' t = content db t \<and> drv_select mock_driver db' t = drv_select mock_driver db t
      \<and> drv_select_in mock_driver db' t = drv_select_in mock_driver db t"
    using select_same_table[OF same] same_table_rows[OF same] by (simp add: mock_driver_def content_def)
qed

subsection \<open>What commits promise\<close>

definition tables_ok :: "(nat, table) dict \<Rightarrow> bool" where
  "tables_ok d \<longleftrightarrow> list_all (\<lambda>(i, t). table_id t = i) d \<and> distinct (map fst d) \<and> distinct (map (\<lambda>(i, t). table_name t) d)"

lemma tables_ok_ids: "tables_ok d \<Longrightarrow> map table_id (dict_values d) = map fst d"
  by (induction d) (auto simp: tables_ok_def)

lemma tables_ok_names: "map table_name (dict_values d) = map (\<lambda>(i, t). table_name t) d"
  by (induction d) auto

text \<open>
  C12: A commit stores everything staged.  When a synchronous \<open>commit_all\<close> succeeds, then for every registered table the
  database row under a key is the last staged update with that key, else the row stored before, else the first
  staged insert with that key, the inserts being all staged rows except those whose key an earlier commit
  recorded; and nothing stays staged.  It holds for every driver that keeps the contract, among them \<open>MockDB\<close>.
\<close>

theorem commit_all_stores_staged:
  assumes "commit_driver D stored" "tables_ok (te_tables te)" "pending_commit te = None" "database te = Some db"
    and "\<not> background_allowed D u te" "commit_all D u te = (te', None)" "t \<in> set (dict_values (te_tables te))"
  shows "(\<exists>db'. database te' = Some db' \<and>
      (\<forall>k. stored db' t k = written t (insert_payload te t) (queued_update te (table_id t)) (stored db t) k))
    \<and> queued_set te' (table_id t) = [] \<and> queued_update te' (table_id t) = []"
proof -
  let ?ts = "dict_values (te_tables te)"
  have ids: "distinct (map table_id ?ts)"
    unfolding tables_ok_ids[OF assms(2)] using assms(2) by (simp add: tables_ok_def)
  have names: "distinct (map table_name ?ts)"
    unfolding tables_ok_names using assms(2) by (simp add: tables_ok_def)
  have w: "wait_for_commit D te = (te, None)"
    using assms(3,4) by (simp add: wait_for_commit_def run_writer_def)
  obtain te1 b where f: "foldl take_table (te, empty_batch) ?ts = (te1, b)" by (metis prod.exhaust)
  note P = foldl_take_payload[OF f ids]
  have load: "tables_payload b = concat (map (payload_of te) ?ts)"
    using P by (simp add: empty_batch_def)
  have empty1: "queued_set te1 (table_id t) = []" "queued_update te1 (table_id t) = []" using P assms(7) by auto
  show ?thesis
  proof (cases "staged_part b = []")
    case True
    then have te': "te' = te1" using assms(6) w f by (simp add: commit_all_def take_staged_def)
    have rec: "\<forall>t \<in> set ?ts. no_record empty_batch (table_id t)" by (simp add: no_record_def empty_batch_def)
    have "put_back te te1 b (table_id t)" using foldl_take_table[OF f ids rec, of "table_id t"] assms(7) by simp
    then have "queued_set te (table_id t) = []" "queued_update te (table_id t) = []"
      using True empty1 by (auto simp: put_back_def)
    then have "insert_payload te t = []" "queued_update te (table_id t) = []"
      by (simp_all add: insert_payload_def fresh_nodup_def fresh_pks_def Let_def)
    then show ?thesis using te' P assms(4) empty1 by (simp add: written_def split: option.split)
  next
    case False
    have nb: "\<not> background_allowed D u te1" using assms(5) P by (simp add: background_allowed_def)
    have c: "write_batch D True b te1 = (te', None)"
      using assms(6) w f False nb by (simp add: commit_all_def take_staged_def)
    show ?thesis
    proof (cases "tables_payload b = []")
      case True
      then have te': "te' = te1\<lparr>stats := account b (stats te1)\<rparr>" using c by (simp add: write_batch_def)
      have "\<forall>p \<in> set (map (payload_of te) ?ts). p = []" using True unfolding load concat_eq_Nil_conv .
      then have "payload_of te t = []" using assms(7) unfolding set_map by blast
      then have "insert_payload te t = []" "queued_update te (table_id t) = []"
        by (auto simp: payload_of_def Let_def split: if_splits)
      then show ?thesis using te' P assms(4) empty1 by (simp add: written_def split: option.split)
    next
      case ne: False
      obtain db' r where dr: "drv_commit D (tables_payload b) db = (db', r)" by (metis prod.exhaust)
      have dbs: "database te1 = Some db" using P assms(4) by simp
      have "\<exists>st. r = Inr st \<and> te' = te1\<lparr>database := Some db', stats := account b (stats te1)\<rparr>"
        using c ne dbs dr by (cases r) (simp_all add: write_batch_def)
      then obtain st where dc: "drv_commit D (tables_payload b) db = (db', Inr st)"
        and te': "te' = te1\<lparr>database := Some db', stats := account b (stats te1)\<rparr>" using dr by blast
      from commit_driver.commit_payloads[OF assms(1) dc[unfolded load] names assms(7)] te' empty1 show ?thesis
        by simp
    qed
  qed
qed

definition small_engine :: "store te" where
  "small_engine = (let te0 = fst (start mock_driver [t_names, t_plain] empty_store new_te)
     in fst (te_update (fst (te_set mock_driver (fst (te_set mock_driver te0 1 [CNone, CStr ''a.c''])) 2 [CNone, CStr ''v1'']))
          2 [CInt 1, CStr ''v2'']))"

theorem commit_all_stores_staged_witness:
  "\<exists>db'. database (fst (commit_all mock_driver True small_engine)) = Some db'
     \<and> content db' t_plain (KCell (CInt 1)) = Some [CInt 1, CStr ''v2'']"
proof -
  have ok: "tables_ok (te_tables small_engine)" by code_simp
  have p: "pending_commit small_engine = None" by code_simp
  have d: "database small_engine \<noteq> None" by code_simp
  then obtain db where db: "database small_engine = Some db" by blast
  have nb: "\<not> background_allowed mock_driver True small_engine" by (simp add: background_allowed_def mock_driver_def)
  have "snd (commit_all mock_driver True small_engine) = None" by code_simp
  then have c: "commit_all mock_driver True small_engine = (fst (commit_all mock_driver True small_engine), None)"
    by (simp add: prod_eq_iff)
  have m: "t_plain \<in> set (dict_values (te_tables small_engine))" by code_simp
  have q: "queued_update small_engine (table_id t_plain) = [[CInt 1, CStr ''v2'']]" by code_simp
  have wk: "with_key t_plain (KCell (CInt 1)) [CInt 1, CStr ''v2'']" by code_simp
  from commit_all_stores_staged[OF mock.commit_driver_axioms ok p db nb c m] show ?thesis
    by (auto simp: q written_def wk)
qed

text \<open>Staging and unstaging do not look at the commit mode or the counters.\<close>

definition with_mode :: "bool \<Rightarrow> counters \<Rightarrow> 'db te \<Rightarrow> 'db te" where
  "with_mode a c te = te\<lparr>async_commits := a, stats := c\<rparr>"

lemma with_mode_fields [simp]:
  "te_tables (with_mode a c te) = te_tables te" "queued_set (with_mode a c te) = queued_set te"
  "queued_update (with_mode a c te) = queued_update te" "committed_pks (with_mode a c te) = committed_pks te"
  "committed_nodup (with_mode a c te) = committed_nodup te" "committed_unique (with_mode a c te) = committed_unique te"
  "unique_positions (with_mode a c te) = unique_positions te" "sec_positions (with_mode a c te) = sec_positions te"
  "single_positions (with_mode a c te) = single_positions te" "queued_sec (with_mode a c te) = queued_sec te"
  "queued_single (with_mode a c te) = queued_single te" "database (with_mode a c te) = database te"
  "pending_commit (with_mode a c te) = pending_commit te" "stats (with_mode a c te) = c" "async_commits (with_mode a c te) = a"
  by (simp_all add: with_mode_def)

lemma index_staged_mode: "index_staged tid r (with_mode a c te) = with_mode a c (index_staged tid r te)"
  by (simp add: index_staged_def Let_def cong: if_cong) (simp add: with_mode_def)

lemma restore_rows_mode: "restore_rows tid q (with_mode a c te) = with_mode a c (restore_rows tid q te)"
proof (induction q arbitrary: te)
  case Nil
  then show ?case by (simp add: restore_rows_def)
next
  case (Cons kv q)
  obtain k v where kv: "kv = (k, v)" by (cases kv)
  let ?te = "index_staged tid (staged_row k v) (te\<lparr>queued_set := (queued_set te)(tid := dict_set k v (queued_set te tid))\<rparr>)"
  have step: "restore_rows tid ((k, v) # q) x = restore_rows tid q
     (if dict_get (queued_set x tid) k \<noteq> None then x
      else index_staged tid (staged_row k v) (x\<lparr>queued_set := (queued_set x)(tid := dict_set k v (queued_set x tid))\<rparr>))" for x :: "'a te"
    by (simp add: restore_rows_def)
  have "(with_mode a c te)\<lparr>queued_set := (queued_set te)(tid := dict_set k v (queued_set te tid))\<rparr>
      = with_mode a c (te\<lparr>queued_set := (queued_set te)(tid := dict_set k v (queued_set te tid))\<rparr>)"
    by (simp add: with_mode_def)
  then show ?case unfolding kv step using Cons.IH by (simp add: index_staged_mode)
qed

lemma restore_table_mode: "restore_table b (with_mode a c te) tid = with_mode a c (restore_table b te tid)"
proof (cases "dict_get (staged_part b) tid")
  case None
  then show ?thesis by (simp add: restore_table_def)
next
  case (Some qu)
  have c: "(with_mode a c te)\<lparr>committed_nodup := f, committed_pks := g, committed_unique := h\<rparr>
      = with_mode a c (te\<lparr>committed_nodup := f, committed_pks := g, committed_unique := h\<rparr>)" for f g h
    by (simp add: with_mode_def)
  have u: "(with_mode a c x)\<lparr>queued_update := g\<rparr> = with_mode a c (x\<lparr>queued_update := g\<rparr>)" for x :: "'a te" and g
    by (simp add: with_mode_def)
  show ?thesis
    using Some by (cases qu) (simp only: restore_table_def option.case prod.case Let_def c restore_rows_mode u with_mode_fields)
qed

lemma restore_batch_mode: "restore_batch b f (with_mode a c te) = with_mode a c (restore_batch b f te)"
proof -
  have "foldl (restore_table b) (with_mode a c te) ids = with_mode a c (foldl (restore_table b) te ids)" for ids
    by (induction ids arbitrary: te) (simp_all add: restore_table_mode)
  then show ?thesis by (simp add: restore_batch_def)
qed

lemma restore_batch_background: "restore_batch (b\<lparr>is_background := f\<rparr>) ids te = restore_batch b ids te"
proof -
  have table: "restore_table (b\<lparr>is_background := f\<rparr>) = restore_table b"
    by (auto simp: fun_eq_iff restore_table_def Let_def split: option.split)
  have part: "staged_part (b\<lparr>is_background := f\<rparr>) = staged_part b" by simp
  show ?thesis unfolding restore_batch_def table part ..
qed

lemma run_writer_step:
  assumes "pending_commit te = Some (Unwritten b)" "database te = Some db"
    and "(if tables_payload b = [] then (db, Inr []) else drv_commit D (tables_payload b) db) = (db1, r)"
  shows "run_writer D te = te\<lparr>database := Some db1, pending_commit := Some (Done b
     (case r of Inr st \<Rightarrow> Written st | Inl ids \<Rightarrow> Write_failed ids))\<rparr>"
  unfolding run_writer_def assms option.case prod.case pending.case by (cases r) simp_all

lemma take_unique_mode:
  "take_unique tid rs te b = (te', b') \<Longrightarrow> take_unique tid rs (with_mode a c te) b = (with_mode a c te', b')"
  by (clarsimp simp: take_unique_def Let_def cong: if_cong) (simp add: with_mode_def)

lemma take_table_mode:
  assumes "take_table (te, b) t = (te', b')"
  shows "take_table (with_mode a c te, b) t = (with_mode a c te', b')"
proof (cases "queued_set te (table_id t) = [] \<and> queued_update te (table_id t) = []")
  case True
  with assms show ?thesis by (simp add: take_table_def Let_def)
next
  case False
  let ?tid = "table_id t" and ?q = "queued_set te (table_id t)"
  obtain te1 b1 rs0 where s1: "(if ?q = [] then (te, b, []) else take_rows t ?tid ?q te b) = (te1, b1, rs0)"
    by (metis prod_cases3)
  have s1': "(if ?q = [] then (with_mode a c te, b, []) else take_rows t ?tid ?q (with_mode a c te) b) = (with_mode a c te1, b1, rs0)"
    using s1 by (auto simp: take_rows_def fresh_nodup_def fresh_pks_def Let_def with_mode_def split: if_splits)
  let ?rs = "if primary t \<noteq> [] \<and> length rs0 > 1 then sort_rows (primary t) rs0 else rs0"
  obtain te2 b2 where s2: "(if ?rs = [] then (te1, b1) else take_unique ?tid ?rs te1 b1) = (te2, b2)"
    by (metis prod.exhaust)
  have s2': "(if ?rs = [] then (with_mode a c te1, b1) else take_unique ?tid ?rs (with_mode a c te1) b1) = (with_mode a c te2, b2)"
    using s2 take_unique_mode[of ?tid ?rs te1 b1 te2 b2] by (cases "?rs = []") simp_all
  have "clear_staged ?tid (with_mode a c te2) = with_mode a c (clear_staged ?tid te2)"
    by (simp add: clear_staged_def with_mode_def)
  moreover have "(with_mode a c x)\<lparr>queued_update := g\<rparr> = with_mode a c (x\<lparr>queued_update := g\<rparr>)" for x :: "'a te" and g
    by (simp add: with_mode_def)
  ultimately show ?thesis
    using assms False s1 s1' s2 s2' unfolding take_table_def prod.case Let_def by auto
qed

lemma take_staged_mode:
  assumes "take_staged ts te = (te', b)"
  shows "take_staged ts (with_mode a c te) = (with_mode a c te', b)"
proof -
  have fold: "foldl take_table (with_mode a c te, b0) ts = (with_mode a c te1, b1)"
    if "foldl take_table (te, b0) ts = (te1, b1)" for te te1 b0 b1
    using that
  proof (induction ts arbitrary: te b0)
    case (Cons t ts)
    obtain te2 b2 where "take_table (te, b0) t = (te2, b2)" by (metis prod.exhaust)
    from this take_table_mode[OF this] Cons show ?case by simp
  qed simp
  obtain te1 b1 where f: "foldl take_table (te, empty_batch) ts = (te1, b1)" by (metis prod.exhaust)
  show ?thesis using assms f fold[OF f] by (auto simp: take_staged_def)
qed

lemma take_staged_fields:
  assumes "take_staged ts te = (te', b)"
  shows "database te' = database te \<and> pending_commit te' = pending_commit te \<and> te_tables te' = te_tables te
    \<and> async_commits te' = async_commits te \<and> stats te' = stats te"
proof -
  have "database te' = database te \<and> pending_commit te' = pending_commit te \<and> te_tables te' = te_tables te
      \<and> async_commits te' = async_commits te \<and> stats te' = stats te"
    if "foldl take_table (te, b0) ts = (te', b')" for te b0 te' b'
    using that
  proof (induction ts arbitrary: te b0)
    case (Cons t ts)
    obtain te2 b2 where "take_table (te, b0) t = (te2, b2)" by (metis prod.exhaust)
    from this take_table_payload[OF this] Cons show ?case by simp
  qed simp
  then show ?thesis using assms by (auto simp: take_staged_def split: prod.splits)
qed

text \<open>
  C23: A background commit does what a synchronous one does.  With background commits switched on, \<open>commit_all\<close>
  only hands the batch over; whenever the writer thread then runs, once \<open>wait_for_commit\<close> joined it the outcome
  (error included), the database, the staging queues, the committed keys and the counters are those of the
  synchronous \<open>commit_all\<close>, except that the batch is counted as a background one.
\<close>

theorem background_commit_equivalent:
  assumes "pending_commit te = None" "background_allowed D u te"
    and "commit_all D u te = (te1, e1)"
    and "wait_for_commit D (if early then run_writer D te1 else te1) = (te2, e2)"
    and "commit_all D u (te\<lparr>async_commits := False\<rparr>) = (te3, e3)"
  shows "e1 = None \<and> e2 = e3 \<and> with_mode False c te2 = with_mode False c te3
    \<and> commits (stats te2) = commits (stats te3) \<and> rows_written (stats te2) = rows_written (stats te3)"
proof -
  let ?ts = "dict_values (te_tables te)" and ?off = "with_mode False (stats te) te"
  have off: "te\<lparr>async_commits := False\<rparr> = ?off" by (simp add: with_mode_def)
  have idle: "wait_for_commit D x = (x, None)" if "pending_commit x = None" for x
    using that by (simp add: wait_for_commit_def run_writer_def split: option.split)
  obtain db where db: "database te = Some db" using assms(2) by (auto simp: background_allowed_def)
  obtain tx ob where tk: "take_staged ?ts te = (tx, ob)" by (metis prod.exhaust)
  note tk' = take_staged_mode[OF tk, of False "stats te"]
  have px: "pending_commit tx = None" "database tx = Some db" "stats tx = stats te" "background_allowed D u tx"
    using take_staged_fields[OF tk] assms(1,2) db by (simp_all add: background_allowed_def)
  show ?thesis
  proof (cases ob)
    case None
    then have "te1 = tx" "e1 = None" "te3 = with_mode False (stats te) tx" "e3 = None"
      using assms(3,5) idle[OF assms(1)] tk tk' idle[of ?off] assms(1) by (simp_all add: commit_all_def off)
    moreover from this have "te2 = tx" "e2 = None" using assms(4) px idle[of tx] by (auto simp: run_writer_def split: if_splits)
    ultimately show ?thesis using px by (simp add: with_mode_def)
  next
    case (Some b)
    let ?b = "b\<lparr>is_background := True\<rparr>"
    let ?te1 = "tx\<lparr>pending_commit := Some (Unwritten ?b)\<rparr>"
    have te1: "te1 = ?te1" "e1 = None"
      using assms(3) idle[OF assms(1)] tk px(4) Some by (simp_all add: commit_all_def)
    have c3: "write_batch D True b (with_mode False (stats te) tx) = (te3, e3)"
      using assms(5) idle[of ?off] assms(1) tk' Some by (simp add: commit_all_def off background_allowed_def)
    have early: "wait_for_commit D (if early then run_writer D te1 else te1) = wait_for_commit D ?te1"
    proof -
      have "run_writer D (run_writer D ?te1) = run_writer D ?te1" "stats (run_writer D ?te1) = stats ?te1"
        "\<exists>b r. pending_commit (run_writer D ?te1) = Some (Done b r)"
        using px(2) by (simp_all add: run_writer_def split: sum.split prod.split)
      then show ?thesis unfolding te1 wait_for_commit_def
        by (cases early) auto
    qed
    obtain db1 r where w: "(if tables_payload b = [] then (db, Inr []) else drv_commit D (tables_payload b) db) = (db1, r)"
      by (metis prod.exhaust)
    have writer: "run_writer D ?te1 = tx\<lparr>database := Some db1, pending_commit := Some (Done ?b
        (case r of Inr st \<Rightarrow> Written st | Inl ids \<Rightarrow> Write_failed ids))\<rparr>"
    proof -
      have "(if tables_payload ?b = [] then (db, Inr []) else drv_commit D (tables_payload ?b) db) = (db1, r)"
        using w by (cases "tables_payload b = []") simp_all
      from run_writer_step[OF _ _ this, of ?te1] px(2) show ?thesis by simp
    qed
    let ?done = "\<lambda>x. x\<lparr>database := Some db1, pending_commit := None\<rparr>"
    show ?thesis
    proof (cases r)
      case (Inr st)
      have "te2 = (?done tx)\<lparr>stats := account ?b (stats te)\<rparr>" "e2 = None"
        using assms(4) Inr px unfolding early by (auto simp: wait_for_commit_def writer)
      moreover have "te3 = (?done (with_mode False (stats te) tx))\<lparr>stats := account b (stats te)\<rparr>" "e3 = None"
        using c3 w Inr px by (auto simp: write_batch_def with_mode_def split: if_splits)
      ultimately show ?thesis using te1 by (simp add: with_mode_def account_def)
    next
      case (Inl ids)
      then have ne: "tables_payload b \<noteq> []" using w by auto
      let ?x = "?done tx"
      have mode: "(with_mode False s x)\<lparr>database := d, stats := s'\<rparr> = with_mode False s' (x\<lparr>database := d\<rparr>)"
        for s s' d and x :: "'a te" by (simp add: with_mode_def)
      have unchanged: "?x = tx\<lparr>database := Some db1\<rparr>" using px(1) by (intro te.equality) simp_all
      have "te2 = restore_batch ?b ids (with_mode (async_commits tx) (account ?b (stats te)) ?x)" "e2 = Some (Commit_failed ids)"
        using assms(4) Inl px unfolding early by (auto simp: wait_for_commit_def writer with_mode_def)
      moreover have "te3 = restore_batch b ids (with_mode False (account b (stats te)) ?x)" "e3 = Some (Commit_failed ids)"
        using c3 w Inl px ne unfolding unchanged by (auto simp: write_batch_def mode)
      ultimately show ?thesis using te1
        by (simp add: restore_batch_background restore_batch_mode) (simp add: with_mode_def account_def)
    qed
  qed
qed

definition background_driver :: "store driver" where
  "background_driver = mock_driver\<lparr>drv_background := True\<rparr>"

theorem background_commit_equivalent_witness:
  "snd (commit_all background_driver True (small_engine\<lparr>async_commits := True\<rparr>)) = None
   \<and> with_mode False (stats small_engine) (fst (wait_for_commit background_driver (run_writer background_driver
       (fst (commit_all background_driver True (small_engine\<lparr>async_commits := True\<rparr>))))))
     = with_mode False (stats small_engine) (fst (commit_all background_driver True (small_engine\<lparr>async_commits := True, async_commits := False\<rparr>)))"
proof -
  have p: "pending_commit (small_engine\<lparr>async_commits := True\<rparr>) = None" by code_simp
  have d: "database (small_engine\<lparr>async_commits := True\<rparr>) \<noteq> None" by code_simp
  have a: "background_allowed background_driver True (small_engine\<lparr>async_commits := True\<rparr>)"
    using d by (simp add: background_allowed_def background_driver_def)
  show ?thesis
    using background_commit_equivalent[OF p a surjective_pairing surjective_pairing surjective_pairing, of True "stats small_engine"] by simp
qed

subsection \<open>The read barrier\<close>

interpretation background: commit_driver background_driver content
  using mock.commit_stores mock.commit_frame
  by unfold_locales (simp_all add: background_driver_def)

lemma run_writer_fields:
  assumes "pending_commit te = Some p" "database te = Some db"
  obtains db' p' where "run_writer D te = te\<lparr>database := Some db', pending_commit := Some p'\<rparr>" "pending_batch p' = pending_batch p"
    "run_writer D (run_writer D te) = run_writer D te"
proof (cases p)
  case (Done b r)
  then have w: "run_writer D te = te" using assms by (simp add: run_writer_def)
  show ?thesis
  proof (rule that)
    show "run_writer D te = te\<lparr>database := Some db, pending_commit := Some p\<rparr>"
      unfolding w using assms by (intro te.equality) simp_all
  qed (simp_all add: w)
next
  case (Unwritten b)
  obtain db1 r where "(if tables_payload b = [] then (db, Inr []) else drv_commit D (tables_payload b) db) = (db1, r)"
    by (metis prod.exhaust)
  from run_writer_step[OF assms(1)[unfolded Unwritten] assms(2) this] have
    w: "run_writer D te = te\<lparr>database := Some db1, pending_commit := Some (Done b
      (case r of Inr st \<Rightarrow> Written st | Inl ids \<Rightarrow> Write_failed ids))\<rparr>" .
  have "run_writer D (run_writer D te) = run_writer D te" unfolding w by (simp add: run_writer_def)
  with w that show ?thesis using Unwritten by simp
qed

lemma wait_after_writer:
  assumes "pending_commit te = Some p" "database te = Some db"
  shows "wait_for_commit D (run_writer D te) = wait_for_commit D te"
proof -
  obtain db' p' where "run_writer D te = te\<lparr>database := Some db', pending_commit := Some p'\<rparr>" "run_writer D (run_writer D te) = run_writer D te"
    using run_writer_fields[OF assms] by metis
  moreover have "\<exists>b r. pending_commit (run_writer D te) = Some (Done b r)"
    using assms by (cases p) (auto simp: run_writer_def split: sum.split prod.split)
  moreover from calculation have "stats (run_writer D te) = stats te" by simp
  ultimately show ?thesis unfolding wait_for_commit_def by auto
qed

lemma best_bucket_db: "best_bucket (te\<lparr>database := d, pending_commit := q\<rparr>) tid columns b ps = best_bucket te tid columns b ps"
  by (induction ps arbitrary: b) (simp_all add: Let_def split: option.split)

lemma staged_hit_db: "staged_hit (te\<lparr>database := d, pending_commit := q\<rparr>) t tid columns = staged_hit te t tid columns"
proof -
  have "find_staged (te\<lparr>database := d, pending_commit := q\<rparr>) tid columns rs = find_staged te tid columns rs" for rs
    by (simp add: find_staged_def best_bucket_db Let_def split: option.split list.split)
  then show ?thesis by (simp add: staged_hit_def Let_def split: option.split bool.split)
qed

lemma db_read_after_writer:
  assumes "pending_commit te = Some p" "database te = Some db"
    and "\<And>db'. tid \<notin> set (batch_table_ids (pending_batch p)) \<Longrightarrow> database (run_writer D te) = Some db' \<Longrightarrow> f db' = f db"
  shows "snd (db_read D [tid] f dflt (run_writer D te)) = snd (db_read D [tid] f dflt te)"
proof -
  obtain db' p' where w: "run_writer D te = te\<lparr>database := Some db', pending_commit := Some p'\<rparr>" "pending_batch p' = pending_batch p"
    using run_writer_fields[OF assms(1,2)] by metis
  show ?thesis
  proof (cases "tid \<in> set (batch_table_ids (pending_batch p))")
    case True
    then have "await_writes D [tid] (run_writer D te) = wait_for_commit D (run_writer D te)" "await_writes D [tid] te = wait_for_commit D te"
      using assms(1) w by (simp_all add: await_writes_def)
    then show ?thesis unfolding db_read_def by (simp add: wait_after_writer[OF assms(1,2)])
  next
    case False
    then have "await_writes D [tid] (run_writer D te) = (run_writer D te, None)" "await_writes D [tid] te = (te, None)"
      using assms(1) w by (simp_all add: await_writes_def)
    then show ?thesis unfolding db_read_def using assms(2) assms(3)[OF False, of db'] w(1) by simp
  qed
qed

lemma tables_ok_unique:
  assumes "tables_ok d" "dict_get d i = Some t" "dict_get d j = Some t'" "table_name t = table_name t'"
  shows "table_id t = j"
proof -
  have m: "(i, t) \<in> set d" "(j, t') \<in> set d" using assms(2,3) by (simp_all add: map_of_SomeD)
  have "inj_on (\<lambda>(i, t). table_name t) (set d)" using assms(1) by (simp add: tables_ok_def distinct_map)
  from inj_onD[OF this _ m] assms(4) have "(i, t) = (j, t')" by simp
  then show ?thesis using assms(1) m by (auto simp: tables_ok_def list_all_iff)
qed

text \<open>
  C24: Lookups cannot tell whether the background writer has run.  While a commit is in flight, \<open>get\<close> and
  \<open>get_in\<close> answer the same before and after the writer thread did its work: the barrier makes a lookup wait
  exactly when its table is in the batch, and under the driver's contract no other table changes.
\<close>

theorem read_barrier:
  assumes "commit_driver D stored" "tables_ok (te_tables te)" "pending_commit te = Some p" "database te = Some db"
    and "list_all (\<lambda>(t, _, _). dict_get (te_tables te) (table_id t) = Some t) (tables_payload (pending_batch p))"
  shows "snd (get D (run_writer D te) tid columns) = snd (get D te tid columns)
    \<and> snd (get_in D (run_writer D te) tid col values) = snd (get_in D te tid col values)"
proof -
  obtain db' p' where w: "run_writer D te = te\<lparr>database := Some db', pending_commit := Some p'\<rparr>"
    using run_writer_fields[OF assms(3,4)] by metis
  have frame: "drv_select D db2 t = drv_select D db t \<and> drv_select_in D db2 t = drv_select_in D db t"
    if t: "dict_get (te_tables te) tid = Some t" and nin: "tid \<notin> set (batch_table_ids (pending_batch p))"
      and db2: "database (run_writer D te) = Some db2" for t db2
  proof (rule commit_driver.writer_frame[OF assms(1,3) _ assms(4) db2])
    show "table_name t \<notin> set (batch_names (tables_payload (pending_batch p)))"
    proof
      assume "table_name t \<in> set (batch_names (tables_payload (pending_batch p)))"
      then obtain t' ins upd where t': "(t', ins, upd) \<in> set (tables_payload (pending_batch p))" "table_name t' = table_name t"
        by (auto simp: batch_names_def)
      then have g: "dict_get (te_tables te) (table_id t') = Some t'" using assms(5) by (auto simp: list_all_iff)
      from tables_ok_unique[OF assms(2) g t t'(2)] have "table_id t' = tid" .
      with t'(1) nin show False by (force simp: batch_table_ids_def)
    qed
  qed
  have sel: "snd (db_read D [tid] (\<lambda>db. drv_select D db t columns) None (run_writer D te)) = snd (db_read D [tid] (\<lambda>db. drv_select D db t columns) None te)"
    "snd (db_read D [tid] (\<lambda>db. drv_select_in D db t col values) [] (run_writer D te)) = snd (db_read D [tid] (\<lambda>db. drv_select_in D db t col values) [] te)"
    if t: "dict_get (te_tables te) tid = Some t" for t
    using frame[OF t] by (auto intro!: db_read_after_writer[OF assms(3,4)])
  have get: "snd (get D (run_writer D te) tid columns) = snd (get D te tid columns)"
  proof (cases "dict_get (te_tables te) tid")
    case None
    then show ?thesis unfolding w by (simp add: get_def)
  next
    case (Some t)
    have hit: "staged_hit (run_writer D te) t tid columns = staged_hit te t tid columns" unfolding w by (rule staged_hit_db)
    have same: "te_tables (run_writer D te) = te_tables te" "next_id (run_writer D te) = next_id te"
      "queued_set (run_writer D te) = queued_set te" "database (run_writer D te) \<noteq> None" unfolding w by simp_all
    show ?thesis using Some assms(4) sel(1)[OF Some]
      by (auto simp: get_def same hit split: sum.split option.split)
  qed
  have "te_tables (run_writer D te) = te_tables te" "database (run_writer D te) \<noteq> None" unfolding w by simp_all
  then have "snd (get_in D (run_writer D te) tid col values) = snd (get_in D te tid col values)"
    using assms(4) sel(2) by (auto simp: get_in_def split: option.split)
  with get show ?thesis by simp
qed


definition flying_engine :: "store te" where
  "flying_engine = fst (commit_all background_driver True (small_engine\<lparr>async_commits := True\<rparr>))"

theorem read_barrier_witness:
  "snd (get background_driver (run_writer background_driver flying_engine) 2 [CInt 1, CNone]) = Inr (Some [CInt 1, CStr ''v2''])
   \<and> snd (get background_driver flying_engine 2 [CInt 1, CNone]) = Inr (Some [CInt 1, CStr ''v2''])"
proof -
  have ok: "tables_ok (te_tables flying_engine)" by code_simp
  have "pending_commit flying_engine \<noteq> None" "database flying_engine \<noteq> None" by code_simp+
  then obtain p db where p: "pending_commit flying_engine = Some p" and db: "database flying_engine = Some db" by blast
  have "(case pending_commit flying_engine of None \<Rightarrow> True | Some p \<Rightarrow>
      list_all (\<lambda>(t, _, _). dict_get (te_tables flying_engine) (table_id t) = Some t) (tables_payload (pending_batch p)))"
    by code_simp
  then have reg: "list_all (\<lambda>(t, _, _). dict_get (te_tables flying_engine) (table_id t) = Some t) (tables_payload (pending_batch p))"
    by (simp add: p)
  have "snd (get background_driver flying_engine 2 [CInt 1, CNone]) = Inr (Some [CInt 1, CStr ''v2''])" by code_simp
  with read_barrier[OF background.commit_driver_axioms ok p db reg, of 2 "[CInt 1, CNone]"] show ?thesis by simp
qed

subsection \<open>A row lost to its own id\<close>

text \<open>
  \<open>set\<close> with an explicit integer key on a table that is not deduplicated leaves the id counter alone, so the
  next generated id can be the same key: the second row silently replaces the first in staging, and only it is
  committed.
\<close>

lemma explicit_id_overwritten:
  "let te0 = fst (start mock_driver [t_plain] empty_store new_te);
       te1 = fst (te_set mock_driver te0 2 [CInt 1, CStr ''first'']);
       (te2, r) = te_set mock_driver te1 2 [CNone, CStr ''second'']
   in r = Inr [CInt 1, CStr ''second''] \<and> staged_rows (queued_set te2 2) = [[CInt 1, CStr ''second'']]"
  by code_simp

end
