(* ===== verification/Kconfig_Lexer.thy ===== *)
theory Kconfig_Lexer
  imports Prelude_KI
begin

section \<open>The Kconfig lexer (parser/kconfig\_ast/kconfig\_lexer.py)\<close>

text \<open>
  \<open>KconfigLexer\<close> without a preprocessor, the way the ingestion and the diff and history services run it:
  logical lines, the token loop of one line, indentation-sensitive help blocks.  Tokens carry the positions
  of the source: 1-based lines and columns, the end column being the last character's.
\<close>

subsection \<open>Tokens\<close>

datatype token_type =
    T_MAINMENU | T_MENU | T_ENDMENU | T_CONFIG | T_MENUCONFIG | T_CHOICE | T_ENDCHOICE | T_COMMENT | T_IF | T_ENDIF
  | T_SOURCE | T_RSOURCE | T_OSOURCE | T_BOOL | T_TRISTATE | T_STRING | T_HEX | T_INT | T_DEF_BOOL | T_DEF_TRISTATE
  | T_DEF_STRING | T_DEF_INT | T_DEF_HEX | T_TRANSITIONAL | T_PROMPT | T_DEFAULT | T_DEPENDS | T_ON | T_SELECT
  | T_IMPLY | T_VISIBLE | T_RANGE | T_OPTION | T_OPTIONAL | T_MODULES | T_HELP | T_SYMBOL | T_CONST_STRING
  | T_NUMBER | T_MACRO | T_HELP_TEXT | T_LPAREN | T_RPAREN | T_EXCLAMATION | T_AMP_AMP | T_PIPE_PIPE | T_EQUAL
  | T_NOT_EQUAL | T_LESS | T_LESS_EQUAL | T_GREATER | T_GREATER_EQUAL | T_NEWLINE | T_EOF

record token =
  ttype :: token_type
  tvalue :: string
  tline :: nat
  tcol :: nat
  tend_line :: nat
  tend_col :: nat

definition KEYWORDS :: "(string, token_type) dict" where
  "KEYWORDS = [(''mainmenu'', T_MAINMENU), (''menu'', T_MENU), (''endmenu'', T_ENDMENU), (''config'', T_CONFIG),
     (''menuconfig'', T_MENUCONFIG), (''choice'', T_CHOICE), (''endchoice'', T_ENDCHOICE), (''comment'', T_COMMENT),
     (''if'', T_IF), (''endif'', T_ENDIF), (''source'', T_SOURCE), (''rsource'', T_RSOURCE), (''osource'', T_OSOURCE),
     (''bool'', T_BOOL), (''boolean'', T_BOOL), (''tristate'', T_TRISTATE), (''string'', T_STRING), (''hex'', T_HEX),
     (''int'', T_INT), (''def_bool'', T_DEF_BOOL), (''def_boolean'', T_DEF_BOOL), (''def_tristate'', T_DEF_TRISTATE),
     (''def_string'', T_DEF_STRING), (''def_int'', T_DEF_INT), (''def_hex'', T_DEF_HEX),
     (''transitional'', T_TRANSITIONAL), (''prompt'', T_PROMPT), (''default'', T_DEFAULT), (''depends'', T_DEPENDS),
     (''on'', T_ON), (''select'', T_SELECT), (''imply'', T_IMPLY), (''visible'', T_VISIBLE), (''range'', T_RANGE),
     (''option'', T_OPTION), (''optional'', T_OPTIONAL), (''modules'', T_MODULES), (''help'', T_HELP),
     (''---help---'', T_HELP)]"

definition word_type :: "string \<Rightarrow> token_type" where
  "word_type w = (case dict_get KEYWORDS w of Some ty \<Rightarrow> ty | None \<Rightarrow> T_SYMBOL)"

subsection \<open>One token\<close>

text \<open>The characters of a word: \<open>[A-Za-z0-9_\-\.\/]\<close>.\<close>

definition kword_char :: "char \<Rightarrow> bool" where
  "kword_char c \<longleftrightarrow> ascii_alnum c \<or> c \<in> set ''_-./''"

text \<open>
  A quoted string after its opening quote: the value, and how many characters it takes, the closing quote
  included.  A string that is not closed runs to the end of the line, its line end included.
\<close>

fun scan_quoted :: "char \<Rightarrow> string \<Rightarrow> string \<times> nat" where
  "scan_quoted q [] = ([], 0)"
| "scan_quoted q (c # cs) =
     (if c = q then ([], 1)
      else case (if c = CHR 0x5C then cs else []) of
          d # ds \<Rightarrow> (case scan_quoted q (tl cs) of (v, n) \<Rightarrow> (d # v, n + 2))
        | [] \<Rightarrow> (case scan_quoted q cs of (v, n) \<Rightarrow> (c # v, n + 1)))"

text \<open>The length of a macro reference \<open>$(...)\<close> from its opening parenthesis on.\<close>

fun macro_length :: "nat \<Rightarrow> string \<Rightarrow> nat" where
  "macro_length d [] = 0"
| "macro_length d (c # cs) =
     (if c = CHR ''('' then Suc (macro_length (d + 1) cs)
      else if c = CHR '')'' then (if d = 1 then 1 else Suc (macro_length (d - 1) cs))
      else if c = CHR 0x0A then 0
      else Suc (macro_length d cs))"

text \<open>The loop body of \<open>_tokenize_line\<close>: skip characters, emit a token of some length, or end the line.\<close>

datatype scan = Skip nat | Emit token_type string nat | End_line

definition scan_operator :: "string \<Rightarrow> scan option" where
  "scan_operator s =
     (if startswith s ''&&'' then Some (Emit T_AMP_AMP ''&&'' 2)
      else if startswith s ''||'' then Some (Emit T_PIPE_PIPE ''||'' 2)
      else if startswith s ''!='' then Some (Emit T_NOT_EQUAL ''!='' 2)
      else if startswith s ''<='' then Some (Emit T_LESS_EQUAL ''<='' 2)
      else if startswith s ''>='' then Some (Emit T_GREATER_EQUAL ''>='' 2)
      else if startswith s ''<'' then Some (Emit T_LESS ''<'' 1)
      else if startswith s ''>'' then Some (Emit T_GREATER ''>'' 1)
      else if startswith s ''='' then Some (Emit T_EQUAL ''='' 1)
      else None)"

definition scan_delimiter :: "char \<Rightarrow> scan option" where
  "scan_delimiter c =
     (if c = CHR ''!'' then Some (Emit T_EXCLAMATION ''!'' 1)
      else if c = CHR ''('' then Some (Emit T_LPAREN ''('' 1)
      else if c = CHR '')'' then Some (Emit T_RPAREN '')'' 1)
      else None)"

definition scan_word :: "string \<Rightarrow> scan" where
  "scan_word s =
     (if startswith s ''---help---'' then Emit T_HELP ''---help---'' 10
      else let w = takeWhile kword_char s
           in if w \<noteq> [] then Emit (word_type w) w (length w) else Skip 1)"

fun scan_token :: "string \<Rightarrow> scan" where
  "scan_token [] = Skip 1"
| "scan_token (c # cs) =
     (if c \<in> set [CHR '' '', CHR 0x09, CHR 0x0D] then Skip 1
      else if c = CHR 0x0A \<or> c = CHR ''#'' then End_line
      else if c = CHR 0x22 \<or> c = CHR 0x27 then
        (case scan_quoted c cs of (v, n) \<Rightarrow> Emit T_CONST_STRING v (n + 1))
      else case scan_operator (c # cs) of
          Some r \<Rightarrow> r
        | None \<Rightarrow>
            if startswith (c # cs) ''$('' then
              (let n = 1 + macro_length 0 cs in Emit T_MACRO (take n (c # cs)) n)
            else case scan_delimiter c of Some r \<Rightarrow> r | None \<Rightarrow> scan_word (c # cs))"

lemma scan_token_pos: "scan_token s = Skip n \<or> scan_token s = Emit ty v n \<Longrightarrow> 0 < n"
  by (cases s)
    (auto simp: scan_operator_def scan_delimiter_def scan_word_def Let_def split: if_splits option.splits prod.splits)

lemma scan_token_skip: "scan_token s = Skip n \<Longrightarrow> 0 < n"
  using scan_token_pos by blast

lemma scan_token_emit: "scan_token s = Emit ty v n \<Longrightarrow> 0 < n"
  using scan_token_pos by blast

subsection \<open>One logical line\<close>

text \<open>
  \<open>_tokenize_line\<close>: the tokens of the rest of a line that starts at column \<open>idx\<close> (0-based).
\<close>

function lex_from :: "nat \<Rightarrow> nat \<Rightarrow> nat \<Rightarrow> string \<Rightarrow> token list" where
  "lex_from ln eln idx s =
     (if s = [] then []
      else case scan_token s of
          Skip n \<Rightarrow> lex_from ln eln (idx + n) (drop n s)
        | End_line \<Rightarrow> [\<lparr>ttype = T_NEWLINE, tvalue = [CHR 0x0A], tline = ln, tcol = idx + 1, tend_line = eln, tend_col = idx + 1\<rparr>]
        | Emit ty v n \<Rightarrow>
            \<lparr>ttype = ty, tvalue = v, tline = ln, tcol = idx + 1, tend_line = eln, tend_col = idx + n\<rparr>
            # lex_from ln eln (idx + n) (drop n s))"
  by pat_completeness auto
termination
  by (relation "measure (\<lambda>(_, _, _, s). length s)") (auto dest: scan_token_skip scan_token_emit)

declare lex_from.simps [simp del]

definition tokenize_line :: "string \<Rightarrow> nat \<Rightarrow> nat \<Rightarrow> token list \<times> bool" where
  "tokenize_line s ln eln = (let ts = lex_from ln eln 0 s in (ts, list_ex (\<lambda>t. ttype t = T_HELP) ts))"

subsection \<open>Help blocks\<close>

definition blank_or_tab :: "char \<Rightarrow> bool" where
  "blank_or_tab c \<longleftrightarrow> c = CHR '' '' \<or> c = CHR 0x09"

definition eol_char :: "char \<Rightarrow> bool" where
  "eol_char c \<longleftrightarrow> c = CHR 0x0D \<or> c = CHR 0x0A"

text \<open>\<open>str.expandtabs(8)\<close>.\<close>

fun expandtabs_from :: "nat \<Rightarrow> string \<Rightarrow> string" where
  "expandtabs_from col [] = []"
| "expandtabs_from col (c # cs) =
     (if c = CHR 0x09 then replicate (8 - col mod 8) (CHR '' '') @ expandtabs_from (col + (8 - col mod 8)) cs
      else if eol_char c then c # expandtabs_from 0 cs
      else c # expandtabs_from (col + 1) cs)"

definition expandtabs :: "string \<Rightarrow> string" where
  "expandtabs s = expandtabs_from 0 s"

definition indent_of :: "string \<Rightarrow> nat" where
  "indent_of l = length (expandtabs (takeWhile blank_or_tab l))"

definition blank_line :: "string \<Rightarrow> bool" where
  "blank_line l \<longleftrightarrow> py_strip l = []"

definition help_line :: "nat \<Rightarrow> string \<Rightarrow> string" where
  "help_line mi l = (let e = expandtabs l
     in rstrip_by eol_char (if length e \<ge> mi then drop mi e else lstrip_by py_space e))"

text \<open>
  The body loop of \<open>_consume_help_block\<close> from line \<open>cur\<close> on: the collected lines, the number of the last text
  line, and the line after the block.
\<close>

fun help_lines :: "nat \<Rightarrow> nat \<Rightarrow> nat \<Rightarrow> string list \<Rightarrow> string list \<times> nat \<times> nat" where
  "help_lines mi cur block_end [] = ([], block_end, cur)"
| "help_lines mi cur block_end (l # ls) =
     (if blank_line l then (case help_lines mi (cur + 1) block_end ls of (hs, e, n) \<Rightarrow> ([] # hs, e, n))
      else if indent_of l < mi then ([], block_end, cur)
      else (case help_lines mi (cur + 1) (cur + 1) ls of (hs, e, n) \<Rightarrow> (help_line mi l # hs, e, n)))"

text \<open>The text, its first and last line (1-based), and the index of the next line to lex.\<close>

definition consume_help_block :: "string list \<Rightarrow> nat \<Rightarrow> string \<times> nat \<times> nat \<times> nat" where
  "consume_help_block lines start =
     (let cur = start + length (takeWhile blank_line (drop start lines))
      in if cur \<ge> length lines then ([], start + 1, length lines, cur)
         else if takeWhile blank_or_tab (lines ! cur) = [] then ([], start + 1, start + 1, cur)
         else case help_lines (indent_of (lines ! cur)) cur (cur + 1) (drop cur lines) of
             (hs, block_end, next) \<Rightarrow> (py_strip (join_with [CHR 0x0A] hs), cur + 1, block_end, next))"

subsection \<open>A file\<close>

text \<open>A backslash at the end of a line continues it: the joined line and the index of its last physical line.\<close>

function continue_line :: "string list \<Rightarrow> nat \<Rightarrow> string \<Rightarrow> string \<times> nat" where
  "continue_line lines i l =
     (if endswith (rstrip_by eol_char l) [CHR 0x5C] \<and> i + 1 < length lines
      then continue_line lines (i + 1) (butlast (rstrip_by eol_char l) @ '' '' @ lines ! (i + 1))
      else (l, i))"
  by pat_completeness auto
termination
  by (relation "measure (\<lambda>(lines, i, _). length lines - i)") auto

declare continue_line.simps [simp del]

definition help_tokens :: "string list \<Rightarrow> string \<times> nat \<times> nat \<times> nat \<Rightarrow> token list" where
  "help_tokens lines h = (case h of (txt, s, e, _) \<Rightarrow>
     (let ec = (if e \<le> length lines then length (lines ! (e - 1)) else 1)
      in [\<lparr>ttype = T_HELP_TEXT, tvalue = txt, tline = s, tcol = 1, tend_line = e, tend_col = ec\<rparr>,
          \<lparr>ttype = T_NEWLINE, tvalue = [CHR 0x0A], tline = e, tcol = ec, tend_line = e, tend_col = ec + 1\<rparr>]))"

lemma continue_line_index: "i \<le> snd (continue_line lines i l)"
proof (induction lines i l rule: continue_line.induct)
  case (1 lines i l)
  then show ?case by (subst continue_line.simps) auto
qed

lemma help_lines_next: "cur \<le> snd (snd (help_lines mi cur e ls))"
proof (induction ls arbitrary: cur e)
  case (Cons l ls)
  have "cur \<le> snd (snd (help_lines mi (cur + 1) e' ls))" for e'
    using Cons[of "cur + 1" e'] by simp
  then show ?case by (simp add: case_prod_beta)
qed simp

lemma consume_help_next: "start \<le> snd (snd (snd (consume_help_block lines start)))"
proof -
  let ?cur = "start + length (takeWhile blank_line (drop start lines))"
  have "?cur \<le> snd (snd (help_lines mi ?cur e ls))" for mi e ls by (rule help_lines_next)
  then show ?thesis
    by (simp add: consume_help_block_def Let_def case_prod_beta) (meson add_leD1)
qed

lemma continue_line_ge: "(l, j) = continue_line lines i x \<Longrightarrow> i \<le> j"
  by (metis continue_line_index snd_conv)

lemma help_measure:
  "i \<le> j \<Longrightarrow> i < length lines \<Longrightarrow> length lines - snd (snd (snd (consume_help_block lines (Suc j)))) < length lines - i"
  using consume_help_next[of "Suc j" lines] by linarith

text \<open>\<open>iter_tokens\<close> from line \<open>i\<close> (0-based) on.\<close>

function lex_lines :: "string list \<Rightarrow> nat \<Rightarrow> token list" where
  "lex_lines lines i =
     (if i \<ge> length lines then
        [\<lparr>ttype = T_EOF, tvalue = [], tline = length lines + 1, tcol = 1, tend_line = length lines + 1, tend_col = 1\<rparr>]
      else case continue_line lines i (lines ! i) of
        (l, j) \<Rightarrow> (case tokenize_line l (i + 1) (j + 1) of
            (ts, False) \<Rightarrow> ts @ lex_lines lines (j + 1)
          | (ts, True) \<Rightarrow>
              (let h = consume_help_block lines (j + 1)
               in ts @ help_tokens lines h @ lex_lines lines (snd (snd (snd h))))))"
  by pat_completeness auto
termination
  by (relation "measure (\<lambda>(lines, i). length lines - i)") (auto dest!: continue_line_ge intro: help_measure)

declare lex_lines.simps [simp del]

definition tokenize :: "string \<Rightarrow> token list" where
  "tokenize s = lex_lines (splitlines True s) 0"

end
