(* ===== verification/Kconfig_Syntax.thy ===== *)
theory Kconfig_Syntax
  imports Kconfig_Lexer "HOL-Library.Monad_Syntax"
begin

section \<open>The Kconfig syntax tree and its parser (parser/kconfig\_ast/kconfig\_parser.py)\<close>

text \<open>
  \<open>KconfigParser\<close> on a token list, without an \<open>on_source\<close> callback.  A parser function takes the parser state and
  returns its result with the state after it.  Every loop and call takes fuel, \<open>None\<close> standing for a run that
  is not over yet; \<open>parse_kconfig\<close> gives enough for every token list a lexer produces (see
  \<open>Kconfig_Progress\<close>).
\<close>

subsection \<open>Expressions\<close>

record span =
  line_s :: nat
  char_s :: nat
  line_e :: nat
  char_e :: nat

definition no_span :: span where
  "no_span = \<lparr>line_s = 0, char_s = 0, line_e = 0, char_e = 0\<rparr>"

datatype bin_op = O_AND | O_OR | O_EQUAL | O_UNEQUAL | O_LESS | O_LESS_EQUAL | O_GREATER | O_GREATER_EQUAL

text \<open>\<open>KconfigExpr\<close>; the parser never builds a node without its operands.\<close>

datatype kexpr =
    Symbol_ref span string
  | Constant span string
  | Not_expr span kexpr
  | Bin_expr span bin_op kexpr kexpr

fun span_of :: "kexpr \<Rightarrow> span" where
  "span_of (Symbol_ref s _) = s"
| "span_of (Constant s _) = s"
| "span_of (Not_expr s _) = s"
| "span_of (Bin_expr s _ _ _) = s"

text \<open>\<open>RELATIONAL_TEXT\<close>, and the text of the two connectives.\<close>

fun op_text :: "bin_op \<Rightarrow> string" where
  "op_text O_AND = ''&&''"
| "op_text O_OR = ''||''"
| "op_text O_EQUAL = ''=''"
| "op_text O_UNEQUAL = ''!=''"
| "op_text O_LESS = ''<''"
| "op_text O_LESS_EQUAL = ''<=''"
| "op_text O_GREATER = ''>''"
| "op_text O_GREATER_EQUAL = ''>=''"

definition is_relational :: "bin_op \<Rightarrow> bool" where
  "is_relational bop \<longleftrightarrow> bop \<noteq> O_AND \<and> bop \<noteq> O_OR"

text \<open>\<open>KconfigExpr.to_string\<close>\<close>

fun expr_text :: "kexpr \<Rightarrow> string" where
  "expr_text (Symbol_ref _ v) = v"
| "expr_text (Constant _ v) = CHR 0x22 # v @ [CHR 0x22]"
| "expr_text (Not_expr _ e) = ''!('' @ expr_text e @ '')''"
| "expr_text (Bin_expr _ bop l r) =
     (if is_relational bop then expr_text l @ '' '' @ op_text bop @ '' '' @ expr_text r
      else ''('' @ expr_text l @ '' '' @ op_text bop @ '' '' @ expr_text r @ '')'')"

fun collect_symbols :: "kexpr \<Rightarrow> string list" where
  "collect_symbols (Symbol_ref _ v) = (if v = [] then [] else [v])"
| "collect_symbols (Constant _ v) = []"
| "collect_symbols (Not_expr _ e) = collect_symbols e"
| "collect_symbols (Bin_expr _ _ l r) = collect_symbols l @ collect_symbols r"

text \<open>\<open>trans_compare_no\<close>: the expression that says whether the first one equals \<open>n\<close>.\<close>

fun trans_compare_no :: "kexpr \<Rightarrow> bool \<Rightarrow> kexpr" where
  "trans_compare_no (Not_expr s e) equal = trans_compare_no e (\<not> equal)"
| "trans_compare_no (Bin_expr s bop l r) equal =
     (if is_relational bop then (if equal then Not_expr s (Bin_expr s bop l r) else Bin_expr s bop l r)
      else let res = Bin_expr s (if bop = O_AND then O_OR else O_AND) (trans_compare_no l True) (trans_compare_no r True)
           in if equal then res else Not_expr s res)"
| "trans_compare_no (Symbol_ref s v) equal =
     Bin_expr s (if equal then O_EQUAL else O_UNEQUAL) (Symbol_ref s v) (Symbol_ref s ''n'')"
| "trans_compare_no (Constant s v) equal =
     Bin_expr s (if equal then O_EQUAL else O_UNEQUAL) (Constant s v) (Symbol_ref s ''n'')"

subsection \<open>Entries\<close>

datatype sym_type = TYPE_UNKNOWN | TYPE_BOOL | TYPE_TRISTATE | TYPE_STRING | TYPE_HEX | TYPE_INT

record extent =
  first_line :: nat
  first_col :: nat
  last_line :: nat
  last_col :: nat
  raw_code :: string

record header =
  header_line_e :: nat
  header_char_e :: nat
  header_code :: string

record kconfig =
  kname :: string
  is_menuconfig :: bool
  sym_type :: sym_type
  prompt :: string
  prompt_cond :: "kexpr option"
  defaults :: "(kexpr \<times> kexpr option) list"
  depends_on :: "kexpr list"
  selects :: "(string \<times> kexpr option) list"
  implies :: "(string \<times> kexpr option) list"
  ranges :: "(kexpr \<times> kexpr \<times> kexpr option) list"
  help_text :: string
  options :: "string list"
  env_var :: "string option"
  is_modules :: bool
  is_defconfig_list :: bool
  allnoconfig_y :: bool
  transitional :: bool

record kmenu =
  menu_title :: string
  menu_depends :: "kexpr list"
  visible_if :: "kexpr option"
  menu_help :: string

record kchoice =
  choice_name :: "string option"
  choice_type :: sym_type
  choice_prompt :: string
  choice_cond :: "kexpr option"
  is_optional :: bool
  choice_defaults :: "(string \<times> kexpr option) list"
  choice_depends :: "kexpr list"
  choice_help :: string

record ksource =
  source_path :: string
  is_rsource :: bool
  is_osource :: bool

datatype kitem =
    K_config kconfig extent
  | K_menu kmenu extent header "kitem list"
  | K_choice kchoice extent header "kitem list"
  | K_if kexpr extent header "kitem list"
  | K_comment string "kexpr list" extent
  | K_source ksource extent
  | K_mainmenu string extent

fun item_extent :: "kitem \<Rightarrow> extent" where
  "item_extent (K_config _ x) = x"
| "item_extent (K_menu _ x _ _) = x"
| "item_extent (K_choice _ x _ _) = x"
| "item_extent (K_if _ x _ _) = x"
| "item_extent (K_comment _ _ x) = x"
| "item_extent (K_source _ x) = x"
| "item_extent (K_mainmenu _ x) = x"

fun item_children :: "kitem \<Rightarrow> kitem list" where
  "item_children (K_menu _ _ _ cs) = cs"
| "item_children (K_choice _ _ _ cs) = cs"
| "item_children (K_if _ _ _ cs) = cs"
| "item_children _ = []"

subsection \<open>The token cursor\<close>

record kparser =
  toks :: "token list"
  pos :: nat
  raw_lines :: "string list"
  warnings :: "string list"

definition cur_tok :: "kparser \<Rightarrow> token" where
  "cur_tok p = (if pos p < length (toks p) then toks p ! pos p else last (toks p))"

abbreviation cur_type :: "kparser \<Rightarrow> token_type" where
  "cur_type p \<equiv> ttype (cur_tok p)"

definition advance :: "kparser \<Rightarrow> kparser" where
  "advance p = (if pos p < length (toks p) then p\<lparr>pos := pos p + 1\<rparr> else p)"

text \<open>The last token consumed that is not a line end.\<close>

definition last_significant :: "kparser \<Rightarrow> token \<Rightarrow> token" where
  "last_significant p fallback =
     (case filter (\<lambda>t. ttype t \<noteq> T_NEWLINE) (take (pos p) (toks p)) of [] \<Rightarrow> fallback | ts \<Rightarrow> last ts)"

definition warn_line :: "token \<Rightarrow> string \<Rightarrow> kparser \<Rightarrow> kparser" where
  "warn_line t what p = p\<lparr>warnings := warnings p @
     [show_nat (tline t) @ '': '' @ what @ '' '' @ [CHR 0x27] @ tvalue t @ [CHR 0x27] @ '' ignored'']\<rparr>"

fun skip_newlines :: "nat \<Rightarrow> kparser \<Rightarrow> kparser option" where
  "skip_newlines 0 p = None"
| "skip_newlines (Suc n) p = (if cur_type p = T_NEWLINE then skip_newlines n (advance p) else Some p)"

fun skip_to_eol :: "nat \<Rightarrow> kparser \<Rightarrow> kparser option" where
  "skip_to_eol 0 p = None"
| "skip_to_eol (Suc n) p =
     (if cur_type p \<notin> {T_NEWLINE, T_EOF} then skip_to_eol n (advance p) else Some p)"

definition skip_line :: "nat \<Rightarrow> kparser \<Rightarrow> kparser option" where
  "skip_line n p = do { p1 \<leftarrow> skip_to_eol n p; skip_newlines n p1 }"

definition extract_raw :: "kparser \<Rightarrow> nat \<Rightarrow> nat \<Rightarrow> string" where
  "extract_raw p ls le = (if raw_lines p = [] \<or> ls = 0 then []
     else concat (drop (ls - 1) (take le (raw_lines p))))"

subsection \<open>Parsing expressions\<close>

definition tok_span :: "token \<Rightarrow> span" where
  "tok_span t = \<lparr>line_s = tline t, char_s = tcol t, line_e = tend_line t, char_e = tend_col t\<rparr>"

definition join_span :: "span \<Rightarrow> span \<Rightarrow> span" where
  "join_span a b = a\<lparr>line_e := line_e b, char_e := char_e b\<rparr>"

definition join_expr :: "bin_op \<Rightarrow> kexpr option \<Rightarrow> kexpr option \<Rightarrow> kexpr option" where
  "join_expr bop l r = (case (l, r) of
       (Some a, Some b) \<Rightarrow> Some (Bin_expr (join_span (span_of a) (span_of b)) bop a b)
     | _ \<Rightarrow> l)"

definition relational_op :: "token_type \<Rightarrow> bin_op option" where
  "relational_op ty = (case ty of T_EQUAL \<Rightarrow> Some O_EQUAL | T_NOT_EQUAL \<Rightarrow> Some O_UNEQUAL | T_LESS \<Rightarrow> Some O_LESS
     | T_LESS_EQUAL \<Rightarrow> Some O_LESS_EQUAL | T_GREATER \<Rightarrow> Some O_GREATER | T_GREATER_EQUAL \<Rightarrow> Some O_GREATER_EQUAL
     | _ \<Rightarrow> None)"

fun parse_expr :: "nat \<Rightarrow> kparser \<Rightarrow> (kexpr option \<times> kparser) option"
  and or_expr_loop :: "nat \<Rightarrow> kexpr option \<Rightarrow> kparser \<Rightarrow> (kexpr option \<times> kparser) option"
  and parse_and :: "nat \<Rightarrow> kparser \<Rightarrow> (kexpr option \<times> kparser) option"
  and and_expr_loop :: "nat \<Rightarrow> kexpr option \<Rightarrow> kparser \<Rightarrow> (kexpr option \<times> kparser) option"
  and parse_not :: "nat \<Rightarrow> kparser \<Rightarrow> (kexpr option \<times> kparser) option"
  and parse_relational :: "nat \<Rightarrow> kparser \<Rightarrow> (kexpr option \<times> kparser) option"
  and parse_primary :: "nat \<Rightarrow> kparser \<Rightarrow> (kexpr option \<times> kparser) option" where
  "parse_expr 0 p = None"
| "parse_expr (Suc n) p = do { (l, p1) \<leftarrow> parse_and n p; or_expr_loop n l p1 }"
| "or_expr_loop 0 l p = None"
| "or_expr_loop (Suc n) l p =
     (if cur_type p = T_PIPE_PIPE
      then do { (r, p1) \<leftarrow> parse_and n (advance p); or_expr_loop n (join_expr O_OR l r) p1 }
      else Some (l, p))"
| "parse_and 0 p = None"
| "parse_and (Suc n) p = do { (l, p1) \<leftarrow> parse_not n p; and_expr_loop n l p1 }"
| "and_expr_loop 0 l p = None"
| "and_expr_loop (Suc n) l p =
     (if cur_type p = T_AMP_AMP
      then do { (r, p1) \<leftarrow> parse_not n (advance p); and_expr_loop n (join_expr O_AND l r) p1 }
      else Some (l, p))"
| "parse_not 0 p = None"
| "parse_not (Suc n) p =
     (if cur_type p = T_EXCLAMATION
      then do { (e, p1) \<leftarrow> parse_not n (advance p);
                case e of
                  Some x \<Rightarrow> Some (Some (Not_expr (join_span (tok_span (cur_tok p)) (span_of x)) x), p1)
                | None \<Rightarrow> parse_relational n p1 }
      else parse_relational n p)"
| "parse_relational 0 p = None"
| "parse_relational (Suc n) p = do { (l, p1) \<leftarrow> parse_primary n p;
      case relational_op (cur_type p1) of
        None \<Rightarrow> Some (l, p1)
      | Some bop \<Rightarrow> do { (r, p2) \<leftarrow> parse_primary n (advance p1); Some (join_expr bop l r, p2) } }"
| "parse_primary 0 p = None"
| "parse_primary (Suc n) p =
     (if cur_type p = T_LPAREN
      then do { (e, p1) \<leftarrow> parse_expr n (advance p);
                Some (e, if cur_type p1 = T_RPAREN then advance p1 else p1) }
      else if cur_type p \<in> {T_CONST_STRING, T_MACRO}
      then Some (Some (Constant (tok_span (cur_tok p)) (tvalue (cur_tok p))), advance p)
      else if cur_type p \<in> {T_SYMBOL, T_NUMBER, T_BOOL, T_TRISTATE}
      then Some (Some (Symbol_ref (tok_span (cur_tok p)) (tvalue (cur_tok p))), advance p)
      else Some (None, p))"

end
