(* ===== verification/Kconfig_Parser.thy ===== *)
theory Kconfig_Parser
  imports Kconfig_Syntax
begin

section \<open>Parsing Kconfig entries (parser/kconfig\_ast/kconfig\_parser.py)\<close>

text \<open>
  The statement level of \<open>KconfigParser\<close>: properties of a \<open>config\<close> entry, blocks (\<open>menu\<close>, \<open>choice\<close>, \<open>if\<close>) with
  their extents, and the error recovery, which drops a line it does not know and says so.
\<close>

subsection \<open>Pieces the statements share\<close>

text \<open>\<open>if COND\<close>, when the next token is an \<open>if\<close>.\<close>

definition parse_if_cond :: "nat \<Rightarrow> kparser \<Rightarrow> (kexpr option \<times> kparser) option" where
  "parse_if_cond n p = (if cur_type p = T_IF then parse_expr n (advance p) else Some (None, p))"

definition at_text :: "kparser \<Rightarrow> bool" where
  "at_text p \<longleftrightarrow> cur_type p \<in> {T_CONST_STRING, T_SYMBOL}"

definition append_some :: "'a list \<Rightarrow> 'a option \<Rightarrow> 'a list" where
  "append_some xs x = (case x of None \<Rightarrow> xs | Some a \<Rightarrow> xs @ [a])"

definition mk_extent :: "kparser \<Rightarrow> token \<Rightarrow> nat \<Rightarrow> nat \<Rightarrow> extent" where
  "mk_extent p start le ce = \<lparr>first_line = tline start, first_col = tcol start, last_line = le, last_col = ce,
     raw_code = extract_raw p (tline start) le\<rparr>"

definition mk_header :: "kparser \<Rightarrow> token \<Rightarrow> token \<Rightarrow> header" where
  "mk_header p start t = \<lparr>header_line_e = tend_line t, header_char_e = tend_col t,
     header_code = extract_raw p (tline start) (tend_line t)\<rparr>"

subsection \<open>Properties\<close>

definition type_of_token :: "token_type \<Rightarrow> sym_type" where
  "type_of_token ty = (case ty of T_BOOL \<Rightarrow> TYPE_BOOL | T_TRISTATE \<Rightarrow> TYPE_TRISTATE | T_STRING \<Rightarrow> TYPE_STRING
     | T_HEX \<Rightarrow> TYPE_HEX | T_INT \<Rightarrow> TYPE_INT | T_DEF_BOOL \<Rightarrow> TYPE_BOOL | T_DEF_TRISTATE \<Rightarrow> TYPE_TRISTATE
     | T_DEF_STRING \<Rightarrow> TYPE_STRING | T_DEF_INT \<Rightarrow> TYPE_INT | T_DEF_HEX \<Rightarrow> TYPE_HEX | _ \<Rightarrow> TYPE_UNKNOWN)"

text \<open>A prompt on the rest of the line: the text, and its condition when there is a text.\<close>

definition parse_prompt_text :: "nat \<Rightarrow> kconfig \<Rightarrow> kparser \<Rightarrow> (kconfig \<times> kparser) option" where
  "parse_prompt_text n c p =
     (if at_text p then
        (let c1 = c\<lparr>prompt := tvalue (cur_tok p)\<rparr>; p1 = advance p
         in if cur_type p1 = T_IF then do { (e, p2) \<leftarrow> parse_expr n (advance p1);
              p3 \<leftarrow> skip_newlines n p2; Some (c1\<lparr>prompt_cond := e\<rparr>, p3) }
            else do { p2 \<leftarrow> skip_newlines n p1; Some (c1, p2) })
      else do { p1 \<leftarrow> skip_newlines n p; Some (c, p1) })"

definition parse_type_definition :: "nat \<Rightarrow> kconfig \<Rightarrow> kparser \<Rightarrow> (kconfig \<times> kparser) option" where
  "parse_type_definition n c p = parse_prompt_text n (c\<lparr>sym_type := type_of_token (cur_type p)\<rparr>) (advance p)"

definition parse_prompt :: "nat \<Rightarrow> kconfig \<Rightarrow> kparser \<Rightarrow> (kconfig \<times> kparser) option" where
  "parse_prompt n c p = parse_prompt_text n c (advance p)"

definition parse_default :: "nat \<Rightarrow> kconfig \<Rightarrow> kparser \<Rightarrow> (kconfig \<times> kparser) option" where
  "parse_default n c p = do {
     (e, p1) \<leftarrow> parse_expr n (advance p);
     (cond, p2) \<leftarrow> parse_if_cond n p1;
     p3 \<leftarrow> skip_newlines n p2;
     Some (c\<lparr>defaults := append_some (defaults c) (map_option (\<lambda>x. (x, cond)) e)\<rparr>, p3) }"

definition parse_def_type_definition :: "nat \<Rightarrow> kconfig \<Rightarrow> kparser \<Rightarrow> (kconfig \<times> kparser) option" where
  "parse_def_type_definition n c p = parse_default n (c\<lparr>sym_type := type_of_token (cur_type p)\<rparr>) p"

text \<open>\<open>depends on X if Y\<close> is \<open>X || (Y = n)\<close>.\<close>

definition conditional_dep :: "kexpr option \<Rightarrow> kexpr option \<Rightarrow> kexpr option" where
  "conditional_dep e cond = (case (e, cond) of
       (Some x, Some c) \<Rightarrow> Some (Bin_expr (join_span (span_of x) (span_of c)) O_OR x (trans_compare_no c True))
     | _ \<Rightarrow> e)"

definition parse_depends_on :: "nat \<Rightarrow> kexpr list \<Rightarrow> kparser \<Rightarrow> (kexpr list \<times> kparser) option" where
  "parse_depends_on n deps p =
     (let p1 = advance p; p2 = (if cur_type p1 = T_ON then advance p1 else p1)
      in do { (e, p3) \<leftarrow> parse_expr n p2;
              (cond, p4) \<leftarrow> parse_if_cond n p3;
              p5 \<leftarrow> skip_newlines n p4;
              Some (append_some deps (conditional_dep e cond), p5) })"

definition parse_select :: "nat \<Rightarrow> (string \<times> kexpr option) list \<Rightarrow> kparser \<Rightarrow> ((string \<times> kexpr option) list \<times> kparser) option" where
  "parse_select n targets p =
     (let p1 = advance p
      in if at_text p1 then do {
           (cond, p2) \<leftarrow> parse_if_cond n (advance p1);
           p3 \<leftarrow> skip_newlines n p2;
           Some (targets @ [(tvalue (cur_tok p1), cond)], p3) }
         else do { p2 \<leftarrow> skip_newlines n p1; Some (targets, p2) })"

definition range_of :: "kexpr option \<Rightarrow> kexpr option \<Rightarrow> kexpr option \<Rightarrow> (kexpr \<times> kexpr \<times> kexpr option) option" where
  "range_of lo hi cond = (case (lo, hi) of (Some a, Some b) \<Rightarrow> Some (a, b, cond) | _ \<Rightarrow> None)"

definition parse_range :: "nat \<Rightarrow> kconfig \<Rightarrow> kparser \<Rightarrow> (kconfig \<times> kparser) option" where
  "parse_range n c p = do {
     (lo, p1) \<leftarrow> parse_primary n (advance p);
     (hi, p2) \<leftarrow> parse_primary n p1;
     (cond, p3) \<leftarrow> parse_if_cond n p2;
     p4 \<leftarrow> skip_line n p3;
     Some (c\<lparr>ranges := append_some (ranges c) (range_of lo hi cond)\<rparr>, p4) }"

fun option_loop :: "nat \<Rightarrow> string list \<Rightarrow> kconfig \<Rightarrow> kparser \<Rightarrow> (string list \<times> kconfig \<times> kparser) option" where
  "option_loop 0 ws c p = None"
| "option_loop (Suc n) ws c p =
     (if cur_type p \<in> {T_NEWLINE, T_EOF} then Some (ws, c, p)
      else let v = tvalue (cur_tok p); p1 = advance p; ws1 = ws @ [v]
       in if v = ''env'' \<and> cur_type p1 = T_EQUAL then
            (let p2 = advance p1; ws2 = ws1 @ [tvalue (cur_tok p1)]
             in if at_text p2
                then option_loop n (ws2 @ [tvalue (cur_tok p2)]) (c\<lparr>env_var := Some (tvalue (cur_tok p2))\<rparr>) (advance p2)
                else option_loop n ws2 c p2)
          else if v = ''defconfig_list'' then option_loop n ws1 (c\<lparr>is_defconfig_list := True\<rparr>) p1
          else if v = ''modules'' then option_loop n ws1 (c\<lparr>is_modules := True\<rparr>) p1
          else if v = ''allnoconfig_y'' then option_loop n ws1 (c\<lparr>allnoconfig_y := True\<rparr>) p1
          else option_loop n ws1 c p1)"

definition parse_option :: "nat \<Rightarrow> kconfig \<Rightarrow> kparser \<Rightarrow> (kconfig \<times> kparser) option" where
  "parse_option n c p = do {
     (ws, c1, p1) \<leftarrow> option_loop n [] c (advance p);
     p2 \<leftarrow> skip_newlines n p1;
     Some (c1\<lparr>options := options c1 @ [join_with '' '' ws]\<rparr>, p2) }"

text \<open>The help text, when there is one.\<close>

definition parse_help :: "nat \<Rightarrow> kparser \<Rightarrow> (string option \<times> kparser) option" where
  "parse_help n p = do {
     p1 \<leftarrow> skip_newlines n (advance p);
     let (h, p2) = (if cur_type p1 = T_HELP_TEXT then (Some (tvalue (cur_tok p1)), advance p1) else (None, p1));
     p3 \<leftarrow> skip_newlines n p2;
     Some (h, p3) }"

definition set_help :: "kconfig \<Rightarrow> string option \<Rightarrow> kconfig" where
  "set_help c h = (case h of None \<Rightarrow> c | Some t \<Rightarrow> c\<lparr>help_text := t\<rparr>)"

text \<open>One property of a \<open>config\<close> entry.\<close>

definition parse_property :: "nat \<Rightarrow> kconfig \<Rightarrow> kparser \<Rightarrow> (kconfig \<times> kparser) option" where
  "parse_property n c p =
     (let ty = cur_type p
      in if ty \<in> {T_BOOL, T_TRISTATE, T_STRING, T_HEX, T_INT} then parse_type_definition n c p
         else if ty \<in> {T_DEF_BOOL, T_DEF_TRISTATE, T_DEF_STRING, T_DEF_INT, T_DEF_HEX} then parse_def_type_definition n c p
         else if ty = T_TRANSITIONAL then do { p1 \<leftarrow> skip_line n (advance p); Some (c\<lparr>transitional := True\<rparr>, p1) }
         else if ty = T_PROMPT then parse_prompt n c p
         else if ty = T_DEFAULT then parse_default n c p
         else if ty = T_DEPENDS then do { (ds, p1) \<leftarrow> parse_depends_on n (depends_on c) p; Some (c\<lparr>depends_on := ds\<rparr>, p1) }
         else if ty = T_SELECT then do { (ts, p1) \<leftarrow> parse_select n (selects c) p; Some (c\<lparr>selects := ts\<rparr>, p1) }
         else if ty = T_IMPLY then do { (ts, p1) \<leftarrow> parse_select n (implies c) p; Some (c\<lparr>implies := ts\<rparr>, p1) }
         else if ty = T_RANGE then parse_range n c p
         else if ty = T_OPTION then parse_option n c p
         else if ty = T_MODULES then do { p1 \<leftarrow> skip_line n p; Some (c\<lparr>is_modules := True\<rparr>, p1) }
         else if ty = T_HELP then do { (h, p1) \<leftarrow> parse_help n p; Some (set_help c h, p1) }
         else do { p1 \<leftarrow> skip_line n (warn_line (cur_tok p) (''unknown property of '' @ kname c @ '':'') p); Some (c, p1) })"

definition entry_start :: "token_type set" where
  "entry_start = {T_CONFIG, T_MENUCONFIG, T_MENU, T_ENDMENU, T_CHOICE, T_ENDCHOICE, T_IF, T_ENDIF, T_COMMENT, T_SOURCE,
     T_RSOURCE, T_OSOURCE, T_MAINMENU, T_EOF}"

fun property_loop :: "nat \<Rightarrow> kconfig \<Rightarrow> kparser \<Rightarrow> (kconfig \<times> kparser) option" where
  "property_loop 0 c p = None"
| "property_loop (Suc n) c p =
     (if cur_type p \<in> entry_start then Some (c, p)
      else do { (c1, p1) \<leftarrow> parse_property n c p; p2 \<leftarrow> skip_newlines n p1; property_loop n c1 p2 })"

definition new_config :: "string \<Rightarrow> bool \<Rightarrow> kconfig" where
  "new_config name menuconfig = \<lparr>kname = name, is_menuconfig = menuconfig, sym_type = TYPE_UNKNOWN, prompt = [],
     prompt_cond = None, defaults = [], depends_on = [], selects = [], implies = [], ranges = [], help_text = [],
     options = [], env_var = None, is_modules = False, is_defconfig_list = False, allnoconfig_y = False,
     transitional = False\<rparr>"

definition parse_config :: "nat \<Rightarrow> bool \<Rightarrow> kparser \<Rightarrow> (kitem \<times> kparser) option" where
  "parse_config n menuconfig p =
     (let start = cur_tok p; p1 = advance p; name_tok = cur_tok p1
      in do { p2 \<leftarrow> skip_newlines n (advance p1);
              (c, p3) \<leftarrow> property_loop n (new_config (tvalue name_tok) menuconfig) p2;
              let l = last_significant p3 name_tok;
              Some (K_config c (mk_extent p3 start (max (tend_line l) (tend_line name_tok))
                      (if tend_line l \<ge> tend_line name_tok then tend_col l else tend_col name_tok)), p3) })"

subsection \<open>Single statements\<close>

definition parse_mainmenu :: "nat \<Rightarrow> kparser \<Rightarrow> (kitem \<times> kparser) option" where
  "parse_mainmenu n p =
     (let start = cur_tok p; p1 = advance p; t = cur_tok p1;
          (title, p2) = (if at_text p1 then (tvalue t, advance p1) else ([], p1))
      in do { p3 \<leftarrow> skip_newlines n p2; Some (K_mainmenu title (mk_extent p3 start (tend_line t) (tend_col t)), p3) })"

fun comment_loop :: "nat \<Rightarrow> kexpr list \<Rightarrow> kparser \<Rightarrow> (kexpr list \<times> kparser) option" where
  "comment_loop 0 ds p = None"
| "comment_loop (Suc n) ds p =
     (if cur_type p = T_DEPENDS
      then do { (ds1, p1) \<leftarrow> parse_depends_on n ds p; p2 \<leftarrow> skip_newlines n p1; comment_loop n ds1 p2 }
      else Some (ds, p))"

definition parse_comment :: "nat \<Rightarrow> kparser \<Rightarrow> (kitem \<times> kparser) option" where
  "parse_comment n p =
     (let start = cur_tok p; p1 = advance p;
          (title, p2) = (if at_text p1 then (tvalue (cur_tok p1), advance p1) else ([], p1))
      in do { p3 \<leftarrow> skip_newlines n p2;
              (ds, p4) \<leftarrow> comment_loop n [] p3;
              let l = last_significant p4 start;
              Some (K_comment title ds (mk_extent p4 start (tend_line l) (tend_col l)), p4) })"

definition parse_source :: "nat \<Rightarrow> bool \<Rightarrow> bool \<Rightarrow> kparser \<Rightarrow> (kitem \<times> kparser) option" where
  "parse_source n rsource osource p =
     (let start = cur_tok p; p1 = advance p;
          (path, t, p2) = (if at_text p1 then (tvalue (cur_tok p1), cur_tok p1, advance p1) else ([], start, p1))
      in do { p3 \<leftarrow> skip_newlines n p2;
              Some (K_source \<lparr>source_path = path, is_rsource = rsource, is_osource = osource\<rparr>
                      (mk_extent p3 start (tend_line t) (tend_col t)), p3) })"

text \<open>A stray help text, and the recovery from a statement that is not known.\<close>

definition skip_help :: "nat \<Rightarrow> kparser \<Rightarrow> kparser option" where
  "skip_help n p = do {
     p1 \<leftarrow> skip_newlines n (advance p);
     skip_newlines n (if cur_type p1 = T_HELP_TEXT then advance p1 else p1) }"

definition skip_unknown :: "nat \<Rightarrow> kparser \<Rightarrow> kparser option" where
  "skip_unknown n p = skip_line n (advance
     (if cur_type p \<in> {T_NEWLINE, T_EOF} then p else warn_line (cur_tok p) ''unknown statement'' p))"

subsection \<open>Blocks\<close>

definition and_visible :: "kexpr option \<Rightarrow> kexpr option \<Rightarrow> kexpr option" where
  "and_visible old new = (case (old, new) of
       (_, None) \<Rightarrow> old
     | (None, Some v) \<Rightarrow> Some v
     | (Some o1, Some v) \<Rightarrow> Some (Bin_expr (join_span (span_of o1) (span_of v)) O_AND o1 v))"

text \<open>One header property of a menu; \<open>None\<close> when the current token starts none.\<close>

definition menu_property :: "nat \<Rightarrow> kmenu \<Rightarrow> kparser \<Rightarrow> (kmenu \<times> kparser) option option" where
  "menu_property n m p =
     (if cur_type p = T_DEPENDS then Some (do {
        (ds, p1) \<leftarrow> parse_depends_on n (menu_depends m) p; Some (m\<lparr>menu_depends := ds\<rparr>, p1) })
      else if cur_type p = T_VISIBLE then Some (do {
        (e, p2) \<leftarrow> parse_if_cond n (advance p);
        p3 \<leftarrow> skip_newlines n p2;
        Some (m\<lparr>visible_if := and_visible (visible_if m) e\<rparr>, p3) })
      else if cur_type p = T_HELP then Some (do {
        (h, p1) \<leftarrow> parse_help n p;
        Some (case h of None \<Rightarrow> m | Some t \<Rightarrow> m\<lparr>menu_help := t\<rparr>, p1) })
      else None)"

definition choice_prompt_text :: "nat \<Rightarrow> kchoice \<Rightarrow> kparser \<Rightarrow> (kchoice \<times> kparser) option" where
  "choice_prompt_text n c p =
     (let (c1, p1) = (if at_text p then (c\<lparr>choice_prompt := tvalue (cur_tok p)\<rparr>, advance p) else (c, p))
      in do { (e, p2) \<leftarrow> parse_if_cond n p1;
              p3 \<leftarrow> skip_newlines n p2;
              Some (if cur_type p1 = T_IF then c1\<lparr>choice_cond := e\<rparr> else c1, p3) })"

definition choice_property :: "nat \<Rightarrow> kchoice \<Rightarrow> kparser \<Rightarrow> (kchoice \<times> kparser) option option" where
  "choice_property n c p =
     (if cur_type p \<in> {T_BOOL, T_TRISTATE}
      then Some (choice_prompt_text n (c\<lparr>choice_type := type_of_token (cur_type p)\<rparr>) (advance p))
      else if cur_type p = T_PROMPT then Some (choice_prompt_text n c (advance p))
      else if cur_type p = T_OPTIONAL then Some (do {
        p1 \<leftarrow> skip_newlines n (advance p); Some (c\<lparr>is_optional := True\<rparr>, p1) })
      else if cur_type p = T_DEFAULT then
        (let p1 = advance p; (d, p2) = (if at_text p1 then (tvalue (cur_tok p1), advance p1) else ([], p1))
         in Some (do {
              (cond, p3) \<leftarrow> parse_if_cond n p2;
              p4 \<leftarrow> skip_newlines n p3;
              Some (if d = [] then c else c\<lparr>choice_defaults := choice_defaults c @ [(d, cond)]\<rparr>, p4) }))
      else if cur_type p = T_DEPENDS then Some (do {
        (ds, p1) \<leftarrow> parse_depends_on n (choice_depends c) p; Some (c\<lparr>choice_depends := ds\<rparr>, p1) })
      else if cur_type p = T_HELP then Some (do {
        (h, p1) \<leftarrow> parse_help n p;
        Some (case h of None \<Rightarrow> c | Some t \<Rightarrow> c\<lparr>choice_help := t\<rparr>, p1) })
      else None)"

text \<open>The end token of a block (consumed when it is the right one), and the block's extent.\<close>

definition end_block :: "nat \<Rightarrow> token_type \<Rightarrow> token \<Rightarrow> kparser \<Rightarrow> (extent \<times> kparser) option" where
  "end_block n ty start p =
     (let t = cur_tok p
      in do { p1 \<leftarrow> skip_newlines n (if ttype t = ty then advance p else p);
              Some (mk_extent p1 start (tend_line t) (tend_col t), p1) })"

text \<open>
  The body loop of a block.  \<open>prop\<close> handles the header properties, \<open>ht\<close> is the last token of the header, or
  frozen once a child was met.
\<close>

definition next_header :: "bool \<Rightarrow> token \<Rightarrow> kparser \<Rightarrow> token" where
  "next_header in_header t p = (if in_header then last_significant p t else t)"

text \<open>The opening lines of the three blocks, up to their first property or child.\<close>

definition open_menu :: "nat \<Rightarrow> kparser \<Rightarrow> (kmenu \<times> token \<times> kparser) option" where
  "open_menu n p =
     (let p1 = advance p; (title, ht, p2) = (if at_text p1 then (tvalue (cur_tok p1), cur_tok p1, advance p1) else ([], cur_tok p, p1))
      in do { p3 \<leftarrow> skip_newlines n p2;
              Some (\<lparr>menu_title = title, menu_depends = [], visible_if = None, menu_help = []\<rparr>, ht, p3) })"

definition open_choice :: "nat \<Rightarrow> kparser \<Rightarrow> (kchoice \<times> token \<times> kparser) option" where
  "open_choice n p =
     (let p1 = advance p; (name, ht, p2) = (if cur_type p1 = T_SYMBOL then (Some (tvalue (cur_tok p1)), cur_tok p1, advance p1)
                                            else (None, cur_tok p, p1))
      in do { p3 \<leftarrow> skip_newlines n p2;
              Some (\<lparr>choice_name = name, choice_type = TYPE_UNKNOWN, choice_prompt = [], choice_cond = None, is_optional = False,
                     choice_defaults = [], choice_depends = [], choice_help = []\<rparr>, ht, p3) })"

definition open_if :: "nat \<Rightarrow> kparser \<Rightarrow> (kexpr \<times> token \<times> kparser) option" where
  "open_if n p = do {
     (e, p1) \<leftarrow> parse_expr n (advance p);
     p2 \<leftarrow> skip_newlines n p1;
     Some (case e of Some c \<Rightarrow> c | None \<Rightarrow> Symbol_ref no_span ''y'', last_significant p1 (cur_tok p), p2) }"

text \<open>A block from its parts, once its body loop is over.\<close>

definition close_block :: "nat \<Rightarrow> token_type \<Rightarrow> token \<Rightarrow> token \<Rightarrow> (extent \<Rightarrow> header \<Rightarrow> kitem) \<Rightarrow> kparser \<Rightarrow>
    (kitem option \<times> kparser) option" where
  "close_block n ty start ht mk p = do {
     (x, p1) \<leftarrow> end_block n ty start p;
     Some (Some (mk x (mk_header p1 start ht)), p1) }"

text \<open>The statements that are not blocks.\<close>

definition parse_simple :: "nat \<Rightarrow> kparser \<Rightarrow> (kitem option \<times> kparser) option" where
  "parse_simple n p =
     (let ty = cur_type p; entry = map_option (\<lambda>(i, q). (Some i, q)); nothing = map_option (\<lambda>q. (None, q))
      in if ty = T_MAINMENU then entry (parse_mainmenu n p)
         else if ty \<in> {T_CONFIG, T_MENUCONFIG} then entry (parse_config n (ty = T_MENUCONFIG) p)
         else if ty = T_COMMENT then entry (parse_comment n p)
         else if ty \<in> {T_SOURCE, T_RSOURCE, T_OSOURCE} then entry (parse_source n (ty = T_RSOURCE) (ty = T_OSOURCE) p)
         else if ty = T_HELP then nothing (skip_help n p)
         else if ty = T_HELP_TEXT then nothing (skip_newlines n (advance p))
         else nothing (skip_unknown n p))"

fun parse_item :: "nat \<Rightarrow> kparser \<Rightarrow> (kitem option \<times> kparser) option"
  and menu_loop :: "nat \<Rightarrow> kmenu \<Rightarrow> bool \<Rightarrow> token \<Rightarrow> kitem list \<Rightarrow> kparser \<Rightarrow> (kmenu \<times> token \<times> kitem list \<times> kparser) option"
  and choice_loop :: "nat \<Rightarrow> kchoice \<Rightarrow> bool \<Rightarrow> token \<Rightarrow> kitem list \<Rightarrow> kparser \<Rightarrow> (kchoice \<times> token \<times> kitem list \<times> kparser) option"
  and if_loop :: "nat \<Rightarrow> kitem list \<Rightarrow> kparser \<Rightarrow> (kitem list \<times> kparser) option" where
  "parse_item 0 p = None"
| "parse_item (Suc n) p =
     (if cur_type p = T_MENU then do {
        (m, ht, p1) \<leftarrow> open_menu n p;
        (m1, ht1, cs, p2) \<leftarrow> menu_loop n m True ht [] p1;
        close_block n T_ENDMENU (cur_tok p) ht1 (\<lambda>x h. K_menu m1 x h cs) p2 }
      else if cur_type p = T_CHOICE then do {
        (c, ht, p1) \<leftarrow> open_choice n p;
        (c1, ht1, cs, p2) \<leftarrow> choice_loop n c True ht [] p1;
        close_block n T_ENDCHOICE (cur_tok p) ht1 (\<lambda>x h. K_choice c1 x h cs) p2 }
      else if cur_type p = T_IF then do {
        (e, ht, p1) \<leftarrow> open_if n p;
        (cs, p2) \<leftarrow> if_loop n [] p1;
        close_block n T_ENDIF (cur_tok p) ht (\<lambda>x h. K_if e x h cs) p2 }
      else parse_simple n p)"
| "menu_loop 0 m ih ht cs p = None"
| "menu_loop (Suc n) m ih ht cs p =
     (if cur_type p \<in> {T_ENDMENU, T_EOF} then Some (m, ht, cs, p)
      else case menu_property n m p of
          Some r \<Rightarrow> do { (m1, p1) \<leftarrow> r; p2 \<leftarrow> skip_newlines n p1; menu_loop n m1 ih (next_header ih ht p1) cs p2 }
        | None \<Rightarrow> do { (i, p1) \<leftarrow> parse_item n p; p2 \<leftarrow> skip_newlines n p1; menu_loop n m False ht (append_some cs i) p2 })"
| "choice_loop 0 c ih ht cs p = None"
| "choice_loop (Suc n) c ih ht cs p =
     (if cur_type p \<in> {T_ENDCHOICE, T_EOF} then Some (c, ht, cs, p)
      else case choice_property n c p of
          Some r \<Rightarrow> do { (c1, p1) \<leftarrow> r; p2 \<leftarrow> skip_newlines n p1; choice_loop n c1 ih (next_header ih ht p1) cs p2 }
        | None \<Rightarrow> do { (i, p1) \<leftarrow> parse_item n p; p2 \<leftarrow> skip_newlines n p1; choice_loop n c False ht (append_some cs i) p2 })"
| "if_loop 0 cs p = None"
| "if_loop (Suc n) cs p =
     (if cur_type p \<in> {T_ENDIF, T_ENDCHOICE, T_ENDMENU, T_EOF} then Some (cs, p)
      else do { (i, p1) \<leftarrow> parse_item n p; p2 \<leftarrow> skip_newlines n p1; if_loop n (append_some cs i) p2 })"

subsection \<open>A file\<close>

fun top_loop :: "nat \<Rightarrow> kitem list \<Rightarrow> kparser \<Rightarrow> (kitem list \<times> kparser) option" where
  "top_loop 0 items p = None"
| "top_loop (Suc n) items p =
     (if cur_type p = T_EOF then Some (items, p)
      else do { (i, p1) \<leftarrow> parse_item n p; p2 \<leftarrow> skip_newlines n p1; top_loop n (append_some items i) p2 })"

definition new_parser :: "token list \<Rightarrow> string \<Rightarrow> kparser" where
  "new_parser ts raw = \<lparr>toks = ts, pos = 0, raw_lines = splitlines True raw, warnings = []\<rparr>"

definition parse_tokens :: "nat \<Rightarrow> kparser \<Rightarrow> (kitem list \<times> kparser) option" where
  "parse_tokens n p = do { p1 \<leftarrow> skip_newlines n p; top_loop n [] p1 }"

text \<open>The fuel of a parse: seven calls per token are more than any chain of calls between two tokens.\<close>

definition enough_fuel :: "token list \<Rightarrow> nat" where
  "enough_fuel ts = 8 * length ts + 16"

definition parse_kconfig :: "string \<Rightarrow> (kitem list \<times> kparser) option" where
  "parse_kconfig s = (let ts = tokenize s in parse_tokens (enough_fuel ts) (new_parser ts s))"

end
