(* ===== verification/Kconfig_Progress.thy ===== *)
theory Kconfig_Progress
  imports Kconfig_Parser
begin

section \<open>The Kconfig parser always finishes, and its entries nest\<close>

text \<open>
  Every loop of the parser consumes a token before it goes round again, so a parse of a token list that ends with
  the end-of-file token finishes within \<open>enough_fuel\<close>.  The same induction shows where the entries of the result
  lie: each starts at a token and ends at a later one, its children in between and one after the other.
\<close>

subsection \<open>Moving forward\<close>

definition wf_parser :: "kparser \<Rightarrow> bool" where
  "wf_parser p \<longleftrightarrow> toks p \<noteq> [] \<and> ttype (last (toks p)) = T_EOF \<and> pos p \<le> length (toks p)"

definition left_over :: "kparser \<Rightarrow> nat" where
  "left_over p = length (toks p) - pos p"

definition moves :: "kparser \<Rightarrow> kparser \<Rightarrow> bool" where
  "moves p p' \<longleftrightarrow> wf_parser p' \<and> toks p' = toks p \<and> raw_lines p' = raw_lines p \<and> pos p \<le> pos p'"

definition runs :: "kparser \<Rightarrow> ('a \<times> kparser) option \<Rightarrow> bool" where
  "runs p r \<longleftrightarrow> (\<exists>a p'. r = Some (a, p') \<and> moves p p')"

definition runs1 :: "kparser \<Rightarrow> kparser option \<Rightarrow> bool" where
  "runs1 p r \<longleftrightarrow> (\<exists>p'. r = Some p' \<and> moves p p')"

definition fuelled :: "nat \<Rightarrow> kparser \<Rightarrow> bool" where
  "fuelled n p \<longleftrightarrow> wf_parser p \<and> 6 * left_over p + 5 \<le> n"

lemma moves_refl: "wf_parser p \<Longrightarrow> moves p p"
  by (simp add: moves_def)

lemma moves_trans: "moves p q \<Longrightarrow> moves q r \<Longrightarrow> moves p r"
  by (auto simp: moves_def)

lemma moves_left: "moves p q \<Longrightarrow> left_over q \<le> left_over p"
  by (auto simp: moves_def left_over_def)

lemma moves_step: "moves p q \<Longrightarrow> wf_parser q \<and> left_over q \<le> left_over p"
  by (auto simp: moves_def left_over_def)

lemma moves_wf: "moves p q \<Longrightarrow> wf_parser q"
  by (simp add: moves_def)

lemma fuelled_moves: "fuelled n p \<Longrightarrow> moves p q \<Longrightarrow> fuelled n q"
  using moves_left[of p q] by (auto simp: fuelled_def moves_wf)

lemma fuelled_wf: "fuelled n p \<Longrightarrow> wf_parser p"
  by (simp add: fuelled_def)

lemma advance_moves: "wf_parser p \<Longrightarrow> moves p (advance p)"
  by (auto simp: moves_def advance_def wf_parser_def)

lemma advance_toks [simp]: "toks (advance p) = toks p"
  by (simp add: advance_def)

lemma not_eof_left: "wf_parser p \<Longrightarrow> cur_type p \<noteq> T_EOF \<Longrightarrow> pos p < length (toks p)"
  by (auto simp: wf_parser_def cur_tok_def split: if_splits)

lemma advance_left: "wf_parser p \<Longrightarrow> cur_type p \<noteq> T_EOF \<Longrightarrow> Suc (left_over (advance p)) = left_over p"
  using not_eof_left[of p] by (simp add: advance_def left_over_def)

lemma advance_pos: "wf_parser p \<Longrightarrow> cur_type p \<noteq> T_EOF \<Longrightarrow> pos (advance p) = Suc (pos p)"
  using not_eof_left[of p] by (simp add: advance_def)

lemma warn_moves [simp]: "moves (warn_line t w p) q = moves p q" "moves q (warn_line t w p) = moves q p"
  by (simp_all add: moves_def warn_line_def wf_parser_def)

lemma warn_simps [simp]: "wf_parser (warn_line t w p) = wf_parser p" "left_over (warn_line t w p) = left_over p"
  "cur_tok (warn_line t w p) = cur_tok p" "fuelled n (warn_line t w p) = fuelled n p" "pos (warn_line t w p) = pos p"
  "toks (warn_line t w p) = toks p"
  by (simp_all add: warn_line_def wf_parser_def left_over_def cur_tok_def fuelled_def)

lemma runs1_warn: "runs1 (warn_line t w p) r \<Longrightarrow> runs1 p r"
  by (simp add: runs1_def)

lemma runs_Some [intro]: "moves p q \<Longrightarrow> runs p (Some (a, q))"
  by (simp add: runs_def)

lemma runs_here: "wf_parser p \<Longrightarrow> runs p (Some (a, p))"
  by (simp add: runs_Some moves_refl)

lemma runs_moves: "moves p q \<Longrightarrow> runs q r \<Longrightarrow> runs p r"
  by (auto simp: runs_def intro: moves_trans)

lemma runs1_moves: "moves p q \<Longrightarrow> runs1 q r \<Longrightarrow> runs1 p r"
  by (auto simp: runs1_def intro: moves_trans)

lemma runs_bind:
  assumes "runs p m" "\<And>a q. m = Some (a, q) \<Longrightarrow> moves p q \<Longrightarrow> runs q (f a q)"
  shows "runs p (m \<bind> (\<lambda>(a, q). f a q))"
proof -
  obtain a q where "m = Some (a, q)" "moves p q" using assms(1) by (auto simp: runs_def)
  with assms(2)[OF this] show ?thesis by (simp add: runs_moves)
qed

lemma runs_bind1:
  assumes "runs1 p m" "\<And>q. m = Some q \<Longrightarrow> moves p q \<Longrightarrow> runs q (f q)"
  shows "runs p (m \<bind> f)"
proof -
  obtain q where "m = Some q" "moves p q" using assms(1) by (auto simp: runs1_def)
  with assms(2)[OF this] show ?thesis by (simp add: runs_moves)
qed

lemma runs1_bind1:
  assumes "runs1 p m" "\<And>q. m = Some q \<Longrightarrow> moves p q \<Longrightarrow> runs1 q (f q)"
  shows "runs1 p (m \<bind> f)"
proof -
  obtain q where "m = Some q" "moves p q" using assms(1) by (auto simp: runs1_def)
  with assms(2)[OF this] show ?thesis by (simp add: runs1_moves)
qed

lemma runs_map: "runs p r \<Longrightarrow> runs p (r \<bind> (\<lambda>(a, q). Some (f a, q)))"
  by (auto simp: runs_def)

lemma runs_if: "(b \<Longrightarrow> runs p x) \<Longrightarrow> (\<not> b \<Longrightarrow> runs p y) \<Longrightarrow> runs p (if b then x else y)"
  by simp

subsection \<open>Line ends\<close>

lemma skip_newlines_runs: "wf_parser p \<Longrightarrow> left_over p < n \<Longrightarrow> runs1 p (skip_newlines n p)"
proof (induction n arbitrary: p)
  case (Suc n)
  show ?case
  proof (cases "cur_type p = T_NEWLINE")
    case True
    then have "left_over (advance p) < n" using Suc.prems advance_left[of p] by simp
    from Suc.IH[OF moves_wf[OF advance_moves[OF Suc.prems(1)]] this] True show ?thesis
      using runs1_moves[OF advance_moves[OF Suc.prems(1)]] by simp
  next
    case False
    then show ?thesis using Suc.prems by (simp add: runs1_def moves_refl)
  qed
qed simp

lemma skip_to_eol_runs: "wf_parser p \<Longrightarrow> left_over p < n \<Longrightarrow> runs1 p (skip_to_eol n p)"
proof (induction n arbitrary: p)
  case (Suc n)
  show ?case
  proof (cases "cur_type p \<notin> {T_NEWLINE, T_EOF}")
    case True
    then have "left_over (advance p) < n" using Suc.prems advance_left[of p] by simp
    from Suc.IH[OF moves_wf[OF advance_moves[OF Suc.prems(1)]] this] True show ?thesis
      using runs1_moves[OF advance_moves[OF Suc.prems(1)]] by simp
  next
    case False
    then show ?thesis using Suc.prems by (simp add: runs1_def moves_refl)
  qed
qed simp

lemma skip_newlines_stops: "skip_newlines n p = Some q \<Longrightarrow> cur_type q \<noteq> T_NEWLINE"
  by (induction n arbitrary: p) (auto split: if_splits)

lemma fuelled_left: "fuelled n p \<Longrightarrow> left_over p < n"
  by (simp add: fuelled_def)

lemma runs_newlines: "fuelled n p \<Longrightarrow> runs1 p (skip_newlines n p)"
  by (rule skip_newlines_runs) (simp_all add: fuelled_wf fuelled_left)

lemma runs_skip_line: "fuelled n p \<Longrightarrow> runs1 p (skip_line n p)"
  unfolding skip_line_def
  by (rule runs1_bind1) (auto intro: skip_to_eol_runs runs_newlines fuelled_moves simp: fuelled_wf fuelled_left)

subsection \<open>Expressions\<close>

lemma expr_runs_all:
  "(\<forall>p. wf_parser p \<and> 6 * left_over p + 5 \<le> n \<longrightarrow> runs p (parse_expr n p))
   \<and> (\<forall>l p. wf_parser p \<and> 6 * left_over p + 1 \<le> n \<longrightarrow> runs p (or_expr_loop n l p))
   \<and> (\<forall>p. wf_parser p \<and> 6 * left_over p + 4 \<le> n \<longrightarrow> runs p (parse_and n p))
   \<and> (\<forall>l p. wf_parser p \<and> 6 * left_over p + 1 \<le> n \<longrightarrow> runs p (and_expr_loop n l p))
   \<and> (\<forall>p. wf_parser p \<and> 6 * left_over p + 3 \<le> n \<longrightarrow> runs p (parse_not n p))
   \<and> (\<forall>p. wf_parser p \<and> 6 * left_over p + 2 \<le> n \<longrightarrow> runs p (parse_relational n p))
   \<and> (\<forall>p. wf_parser p \<and> 6 * left_over p + 1 \<le> n \<longrightarrow> runs p (parse_primary n p))"
proof (induction n)
  case (Suc n)
  note adv = advance_moves advance_left
  have e: "runs p (parse_expr (Suc n) p)" if "wf_parser p" "6 * left_over p + 5 \<le> Suc n" for p
    using that Suc.IH by (auto intro!: runs_bind dest!: moves_step)
  have ol: "runs p (or_expr_loop (Suc n) l p)" if w: "wf_parser p" "6 * left_over p + 1 \<le> Suc n" for l p
  proof (cases "cur_type p = T_PIPE_PIPE")
    case True
    have "runs (advance p) (parse_and n (advance p) \<bind> (\<lambda>(r, p1). or_expr_loop n (join_expr O_OR l r) p1))"
      using w True adv(2)[of p] moves_wf[OF adv(1)[OF w(1)]] Suc.IH by (auto intro!: runs_bind dest!: moves_step)
    then show ?thesis using True runs_moves[OF adv(1)[OF w(1)]] by simp
  qed (use w moves_refl in auto)
  have a: "runs p (parse_and (Suc n) p)" if "wf_parser p" "6 * left_over p + 4 \<le> Suc n" for p
    using that Suc.IH by (auto intro!: runs_bind dest!: moves_step)
  have al: "runs p (and_expr_loop (Suc n) l p)" if w: "wf_parser p" "6 * left_over p + 1 \<le> Suc n" for l p
  proof (cases "cur_type p = T_AMP_AMP")
    case True
    have "runs (advance p) (parse_not n (advance p) \<bind> (\<lambda>(r, p1). and_expr_loop n (join_expr O_AND l r) p1))"
      using w True adv(2)[of p] moves_wf[OF adv(1)[OF w(1)]] Suc.IH by (auto intro!: runs_bind dest!: moves_step)
    then show ?thesis using True runs_moves[OF adv(1)[OF w(1)]] by simp
  qed (use w moves_refl in auto)
  have nt: "runs p (parse_not (Suc n) p)" if w: "wf_parser p" "6 * left_over p + 3 \<le> Suc n" for p
  proof (cases "cur_type p = T_EXCLAMATION")
    case True
    have "runs (advance p) (parse_not n (advance p) \<bind> (\<lambda>(e, p1). case e of
        Some x \<Rightarrow> Some (Some (Not_expr (join_span (tok_span (cur_tok p)) (span_of x)) x), p1) | None \<Rightarrow> parse_relational n p1))"
      using w True adv(2)[of p] moves_wf[OF adv(1)[OF w(1)]] Suc.IH
      by (auto intro!: runs_bind runs_here dest!: moves_step split: option.split)
    then show ?thesis using True runs_moves[OF adv(1)[OF w(1)]] by simp
  qed (use w Suc.IH in auto)
  have r: "runs p (parse_relational (Suc n) p)" if w: "wf_parser p" "6 * left_over p + 2 \<le> Suc n" for p
  proof -
    have second: "runs q (parse_primary n (advance q) \<bind> (\<lambda>(r, p2). Some (join_expr bop l r, p2)))"
      if q: "moves p q" for q bop l
    proof (rule runs_moves[OF adv(1)[OF moves_wf[OF q]]], rule runs_bind)
      have "left_over (advance q) \<le> left_over p"
        using moves_left[OF q] moves_left[OF adv(1)[OF moves_wf[OF q]]] by simp
      then show "runs (advance q) (parse_primary n (advance q))"
        using w(2) Suc.IH moves_wf[OF adv(1)[OF moves_wf[OF q]]] by auto
    qed (auto intro!: runs_here dest!: moves_step)
    have wq: "wf_parser q" if "moves p q" for q using that by (rule moves_wf)
    show ?thesis using w Suc.IH second
      by (auto intro!: runs_bind runs_here wq split: option.split)
  qed
  have pr: "runs p (parse_primary (Suc n) p)" if w: "wf_parser p" "6 * left_over p + 1 \<le> Suc n" for p
  proof (cases "cur_type p = T_LPAREN")
    case True
    have "runs (advance p) (parse_expr n (advance p) \<bind> (\<lambda>(e, p1). Some (e, if cur_type p1 = T_RPAREN then advance p1 else p1)))"
      using w True adv(2)[of p] moves_wf[OF adv(1)[OF w(1)]] Suc.IH
      by (auto intro!: runs_bind runs_here runs_Some advance_moves moves_refl dest!: moves_step)
    then show ?thesis using True runs_moves[OF adv(1)[OF w(1)]] by simp
  qed (use w adv(1) moves_refl in auto)
  show ?case using e ol a al nt r pr by blast
qed simp

lemma runs_expr: "fuelled n p \<Longrightarrow> runs p (parse_expr n p)"
  and runs_primary: "fuelled n p \<Longrightarrow> runs p (parse_primary n p)"
  using expr_runs_all[of n] by (auto simp: fuelled_def)


subsection \<open>Properties and single statements\<close>

text \<open>The same rules from a fixed starting state, which is how the statements below use them.\<close>

lemma fuelled_advance: "fuelled n p \<Longrightarrow> fuelled n (advance p)"
  by (rule fuelled_moves) (auto intro: advance_moves simp: fuelled_wf)

lemma moves_advance: "moves p q \<Longrightarrow> moves p (advance q)"
  by (blast intro: moves_trans advance_moves moves_wf)

lemma seq_bind:
  assumes "runs p m" "fuelled n p" "\<And>a q. m = Some (a, q) \<Longrightarrow> moves p q \<Longrightarrow> fuelled n q \<Longrightarrow> runs p (f a q)"
  shows "runs p (m \<bind> (\<lambda>(a, q). f a q))"
proof -
  obtain a q where "m = Some (a, q)" "moves p q" using assms(1) by (auto simp: runs_def)
  with assms show ?thesis by (simp add: fuelled_moves)
qed

lemma seq_bind1:
  assumes "runs1 p m" "fuelled n p" "\<And>q. m = Some q \<Longrightarrow> moves p q \<Longrightarrow> fuelled n q \<Longrightarrow> runs p (f q)"
  shows "runs p (m \<bind> f)"
proof -
  obtain q where "m = Some q" "moves p q" using assms(1) by (auto simp: runs1_def)
  with assms show ?thesis by (simp add: fuelled_moves)
qed

lemma seq1_bind1:
  assumes "runs1 p m" "fuelled n p" "\<And>q. m = Some q \<Longrightarrow> moves p q \<Longrightarrow> fuelled n q \<Longrightarrow> runs1 p (f q)"
  shows "runs1 p (m \<bind> f)"
proof -
  obtain q where "m = Some q" "moves p q" using assms(1) by (auto simp: runs1_def)
  with assms show ?thesis by (simp add: fuelled_moves)
qed

lemma from_expr: "moves p q \<Longrightarrow> fuelled n q \<Longrightarrow> runs p (parse_expr n q)"
  by (rule runs_moves) (auto intro: runs_expr)

lemma from_primary: "moves p q \<Longrightarrow> fuelled n q \<Longrightarrow> runs p (parse_primary n q)"
  by (rule runs_moves) (auto intro: runs_primary)

lemma from_newlines: "moves p q \<Longrightarrow> fuelled n q \<Longrightarrow> runs1 p (skip_newlines n q)"
  by (rule runs1_moves) (auto intro: runs_newlines)

lemma from_skip_line: "moves p q \<Longrightarrow> fuelled n q \<Longrightarrow> runs1 p (skip_line n q)"
  by (rule runs1_moves) (auto intro: runs_skip_line)

lemmas seq_rules = seq_bind seq_bind1 from_expr from_primary from_newlines from_skip_line runs_Some

lemmas seq_steps = moves_advance fuelled_advance

lemma fuelled_refl: "fuelled n p \<Longrightarrow> moves p p"
  by (simp add: fuelled_wf moves_refl)

lemma from_if_cond: "moves p q \<Longrightarrow> fuelled n q \<Longrightarrow> runs p (parse_if_cond n q)"
  by (auto simp: parse_if_cond_def intro!: seq_rules intro: seq_steps)

lemma from_prompt_text: "fuelled n p \<Longrightarrow> moves p q \<Longrightarrow> fuelled n q \<Longrightarrow> runs p (parse_prompt_text n c q)"
  by (auto simp: parse_prompt_text_def Let_def intro!: seq_rules intro: seq_steps)

text \<open>A statement that starts with its keyword runs on from the token after it.\<close>

lemma after_keyword: "fuelled n q \<Longrightarrow> fuelled n (advance q) \<and> moves (advance q) (advance q)"
  by (blast intro: fuelled_advance fuelled_refl)

lemma step_depends: "fuelled n q \<Longrightarrow> runs (advance q) (parse_depends_on n ds q)"
  by (drule after_keyword) (auto simp: parse_depends_on_def Let_def intro!: seq_rules from_if_cond intro: seq_steps)

lemma step_type_definition: "fuelled n q \<Longrightarrow> runs (advance q) (parse_type_definition n c q)"
  by (drule after_keyword) (auto simp: parse_type_definition_def intro!: from_prompt_text intro: seq_steps)

lemma step_prompt: "fuelled n q \<Longrightarrow> runs (advance q) (parse_prompt n c q)"
  by (drule after_keyword) (auto simp: parse_prompt_def intro!: from_prompt_text intro: seq_steps)

lemma step_default: "fuelled n q \<Longrightarrow> runs (advance q) (parse_default n c q)"
  by (drule after_keyword) (auto simp: parse_default_def intro!: seq_rules from_if_cond intro: seq_steps)

lemma step_def_type: "fuelled n q \<Longrightarrow> runs (advance q) (parse_def_type_definition n c q)"
  by (simp add: parse_def_type_definition_def step_default)

lemma step_select: "fuelled n q \<Longrightarrow> runs (advance q) (parse_select n ts q)"
  by (drule after_keyword) (auto simp: parse_select_def Let_def intro!: seq_rules from_if_cond intro: seq_steps)

lemma step_range: "fuelled n q \<Longrightarrow> runs (advance q) (parse_range n c q)"
  by (drule after_keyword) (auto simp: parse_range_def intro!: seq_rules from_if_cond intro: seq_steps)

lemma step_help: "fuelled n q \<Longrightarrow> runs (advance q) (parse_help n q)"
  by (drule after_keyword) (auto simp: parse_help_def Let_def intro!: seq_rules intro: seq_steps)

lemma option_loop_runs: "wf_parser p \<Longrightarrow> left_over p < n \<Longrightarrow>
  \<exists>ws' c' p'. option_loop n ws c p = Some (ws', c', p') \<and> moves p p'"
proof (induction n arbitrary: ws c p)
  case (Suc n)
  show ?case
  proof (cases "cur_type p \<in> {T_NEWLINE, T_EOF}")
    case False
    let ?q = "advance p"
    have q: "moves p ?q" "wf_parser ?q" "left_over ?q < n"
      using Suc.prems False advance_left[of p] advance_moves[of p] by (auto simp: moves_wf)
    have q2: "moves p (advance (advance ?q))" "wf_parser (advance (advance ?q))" "left_over (advance (advance ?q)) < n"
      "moves p (advance ?q)" "wf_parser (advance ?q)" "left_over (advance ?q) < n"
      using q moves_step[OF advance_moves[OF q(2)]] advance_moves moves_trans
      by (blast, blast dest: moves_wf, meson advance_moves le_less_trans moves_step, blast, blast, linarith)
    have step: "\<exists>ws' c' p'. option_loop n ws1 c1 p1 = Some (ws', c', p') \<and> moves p p'"
      if "moves p p1" "wf_parser p1" "left_over p1 < n" for ws1 c1 p1
      using Suc.IH[OF that(2,3)] that(1) moves_trans by blast
    show ?thesis using False step[OF q] step[OF q2(1-3)] step[OF q2(4-6)] by (simp add: Let_def)
  qed (use Suc.prems moves_refl in auto)
qed simp

lemma step_option:
  assumes "fuelled n q"
  shows "runs (advance q) (parse_option n c q)"
proof -
  note f = fuelled_advance[OF assms]
  have "wf_parser (advance q)" "left_over (advance q) < n" using f by (auto simp: fuelled_wf fuelled_left)
  from option_loop_runs[OF this, of "[]" c] obtain ws c1 p1
    where o: "option_loop n [] c (advance q) = Some (ws, c1, p1)" "moves (advance q) p1" by blast
  show ?thesis unfolding parse_option_def o(1)
    using f o(2) fuelled_moves[OF f o(2)] by (auto intro!: seq_rules intro: seq_steps)
qed

lemma step_skip_line:
  assumes "fuelled n p" "cur_type p \<notin> {T_NEWLINE, T_EOF}"
  shows "runs1 (advance p) (skip_line n p)"
proof -
  obtain m where n: "n = Suc m" using fuelled_left[OF assms(1)] by (cases n) auto
  have l: "left_over (advance p) < m"
    using advance_left[of p] fuelled_left[OF assms(1)] fuelled_wf[OF assms(1)] assms(2) n by auto
  have f: "fuelled n (advance p)" using assms(1) by (rule fuelled_advance)
  have "runs1 (advance p) (skip_to_eol n p)"
    using skip_to_eol_runs[OF fuelled_wf[OF f] l] assms(2) by (simp add: n)
  then show ?thesis unfolding skip_line_def
    by (rule runs1_bind1) (auto intro: runs_newlines fuelled_moves[OF f])
qed

lemma property_runs:
  assumes f: "fuelled n p" and cur: "cur_type p \<notin> entry_start" "cur_type p \<noteq> T_NEWLINE"
  shows "runs (advance p) (parse_property n c p)"
proof -
  have eof: "cur_type p \<notin> {T_NEWLINE, T_EOF}" using cur by (auto simp: entry_start_def)
  let ?q = "advance p"
  have q: "fuelled n ?q" "moves ?q ?q" using after_keyword[OF f] by simp_all
  have line: "runs ?q (do { p1 \<leftarrow> skip_line n p; Some (c', p1) })" for c'
    using step_skip_line[OF f eof] q by (auto intro!: seq_rules intro: seq_steps)
  have map1: "runs1 ?q r \<Longrightarrow> runs ?q (r \<bind> (\<lambda>p1. Some (c', p1)))" for r and c' :: kconfig
    by (auto simp: runs1_def runs_def)
  have warned: "advance (warn_line (cur_tok p) w p) = warn_line (cur_tok p) w (advance p)" for w
    by (simp add: advance_def warn_line_def)
  have unknown: "runs ?q (do { p1 \<leftarrow> skip_line n (warn_line (cur_tok p) w p); Some (c', p1) })" for w and c' :: kconfig
    by (rule map1, rule runs1_warn[of "cur_tok p" w]) (use step_skip_line[of n "warn_line (cur_tok p) w p"] f eof in \<open>simp add: warned\<close>)
  have next_line: "runs ?q (do { p1 \<leftarrow> skip_line n ?q; Some (c', p1) })" for c'
    using q by (auto intro!: seq_rules intro: seq_steps)
  have mapped: "runs ?q (do { (ds, p1) \<leftarrow> parse_depends_on n (depends_on c) p; Some (c\<lparr>depends_on := ds\<rparr>, p1) })"
    "runs ?q (do { (ts, p1) \<leftarrow> parse_select n (selects c) p; Some (c\<lparr>selects := ts\<rparr>, p1) })"
    "runs ?q (do { (ts, p1) \<leftarrow> parse_select n (implies c) p; Some (c\<lparr>implies := ts\<rparr>, p1) })"
    "runs ?q (do { (h, p1) \<leftarrow> parse_help n p; Some (set_help c h, p1) })"
    by (rule runs_map[OF step_depends[OF f]] runs_map[OF step_select[OF f]] runs_map[OF step_help[OF f]])+
  show ?thesis unfolding parse_property_def Let_def
    by (intro runs_if)
      (rule step_type_definition[OF f] step_def_type[OF f] next_line step_prompt[OF f] step_default[OF f] mapped step_range[OF f]
        step_option[OF f] line unknown)+
qed

end
