(* ===== verification/Kconfig_Extents.thy ===== *)
theory Kconfig_Extents
  imports Kconfig_Progress
begin

section \<open>Kconfig files parse to the end, into entries that nest\<close>

text \<open>
  The statement level: \<open>parse_item\<close> consumes a token whenever it is called before the end of the file, and what it
  returns lies between the tokens it consumed.  From that follow the termination of \<open>parse_kconfig\<close> on every
  text and the nesting of the entries' extents.
\<close>

subsection \<open>Where an entry lies\<close>

definition tok_at :: "token list \<Rightarrow> nat \<Rightarrow> token" where
  "tok_at ts k = (if k < length ts then ts ! k else last ts)"

lemma cur_tok_at: "cur_tok p = tok_at (toks p) (pos p)"
  by (simp add: cur_tok_def tok_at_def)

definition layout_type :: "token_type \<Rightarrow> bool" where
  "layout_type ty \<longleftrightarrow> ty = T_HELP_TEXT \<or> ty = T_NEWLINE \<or> ty = T_EOF"

inductive placed :: "token list \<Rightarrow> nat \<Rightarrow> nat \<Rightarrow> kitem \<Rightarrow> bool"
  and placed_all :: "token list \<Rightarrow> nat \<Rightarrow> nat \<Rightarrow> kitem list \<Rightarrow> bool" where
  at: "a \<le> k \<Longrightarrow> k < length ts \<Longrightarrow> k \<le> e \<Longrightarrow> e \<le> b \<Longrightarrow> \<not> layout_type (ttype (ts ! k)) \<Longrightarrow>
     first_line (item_extent i) = tline (ts ! k) \<Longrightarrow> last_line (item_extent i) = tend_line (tok_at ts e) \<Longrightarrow>
     placed_all ts k e (item_children i) \<Longrightarrow> placed ts a b i"
| none: "a \<le> b \<Longrightarrow> placed_all ts a b []"
| more: "placed ts a m i \<Longrightarrow> placed_all ts m b is \<Longrightarrow> placed_all ts a b (i # is)"

inductive_cases placedE: "placed ts a b i"
inductive_cases placed_all_ConsE: "placed_all ts a b (i # is)"

lemma placed_le: "placed ts a b i \<Longrightarrow> a \<le> b"
  by (erule placedE) simp

lemma placed_widen:
  assumes "placed ts a b i" "a' \<le> a" "b \<le> b'"
  shows "placed ts a' b' i"
  using assms(1)
proof (rule placedE)
  fix k e
  assume "a \<le> k" "k < length ts" "k \<le> e" "e \<le> b" "\<not> layout_type (ttype (ts ! k))"
    "first_line (item_extent i) = tline (ts ! k)" "last_line (item_extent i) = tend_line (tok_at ts e)"
    "placed_all ts k e (item_children i)"
  then show ?thesis using assms(2,3) by (intro placed_placed_all.at[of a' k ts e b' i]) simp_all
qed

lemma placed_all_le: "placed_all ts a b is \<Longrightarrow> a \<le> b"
proof (induction "is" arbitrary: a)
  case Nil
  then show ?case by (auto elim: placed_all.cases)
next
  case (Cons i "is")
  then obtain m where "placed ts a m i" "placed_all ts m b is" by (auto elim: placed_all_ConsE)
  then show ?case using Cons.IH[of m] placed_le[of ts a m i] by simp
qed

lemma placed_all_mono: "placed_all ts a b is \<Longrightarrow> b \<le> b' \<Longrightarrow> placed_all ts a b' is"
proof (induction "is" arbitrary: a)
  case Nil
  then show ?case using placed_all_le[of ts a b "[]"] by (simp add: placed_placed_all.none)
next
  case (Cons i "is")
  then obtain m where "placed ts a m i" "placed_all ts m b is" by (auto elim: placed_all_ConsE)
  then show ?case using Cons.IH[of m] Cons.prems(2) by (simp add: placed_placed_all.more)
qed

lemma placed_all_snoc: "placed_all ts a m is \<Longrightarrow> placed ts m b i \<Longrightarrow> placed_all ts a b (is @ [i])"
proof (induction "is" arbitrary: a)
  case Nil
  then have "placed ts a b i" using placed_all_le[of ts a m "[]"] placed_widen[of ts m b i a b] by simp
  then show ?case by (auto intro: placed_placed_all.more placed_placed_all.none)
next
  case (Cons i' "is")
  then obtain m' where "placed ts a m' i'" "placed_all ts m' m is" by (auto elim: placed_all_ConsE)
  then show ?case using Cons.IH[of m'] Cons.prems(2) by (simp add: placed_placed_all.more)
qed

subsection \<open>Single statements\<close>

definition yields :: "kparser \<Rightarrow> (kitem \<times> kparser) option \<Rightarrow> bool" where
  "yields p r \<longleftrightarrow> (\<exists>i q. r = Some (i, q) \<and> moves p q \<and> pos p < pos q \<and> placed (toks p) (pos p) (pos q) i)"

definition item_runs :: "kparser \<Rightarrow> (kitem option \<times> kparser) option \<Rightarrow> bool" where
  "item_runs p r \<longleftrightarrow> (\<exists>i q. r = Some (i, q) \<and> moves p q \<and> pos p < pos q
     \<and> (case i of None \<Rightarrow> True | Some x \<Rightarrow> placed (toks p) (pos p) (pos q) x))"

lemma last_significant_at:
  assumes "k < pos q" "pos q \<le> length (toks q)" "ttype (toks q ! k) \<noteq> T_NEWLINE"
  shows "\<exists>e. k \<le> e \<and> e < pos q \<and> last_significant q t = toks q ! e"
proof -
  let ?P = "\<lambda>t. ttype t \<noteq> T_NEWLINE" and ?ys = "drop k (take (pos q) (toks q))"
  have "?ys ! 0 = toks q ! k" "?ys \<noteq> []" using assms(1,2) by simp_all
  then have "toks q ! k \<in> set ?ys" by (metis length_greater_0_conv nth_mem)
  then have ne: "filter ?P ?ys \<noteq> []" using assms(3) by (auto simp: filter_empty_conv)
  have split: "filter ?P (take (pos q) (toks q)) = filter ?P (take k (take (pos q) (toks q))) @ filter ?P ?ys"
    by (metis append_take_drop_id filter_append)
  have "last_significant q t = last (filter ?P ?ys)"
    unfolding last_significant_def split using ne by (simp add: list.case_eq_if)
  moreover have "last (filter ?P ?ys) \<in> set ?ys" using last_in_set[OF ne] by simp
  then obtain j where "j < length ?ys" "last (filter ?P ?ys) = ?ys ! j" by (metis in_set_conv_nth)
  then have "k + j < pos q" "last (filter ?P ?ys) = toks q ! (k + j)" using assms(2) by auto
  ultimately show ?thesis by (metis le_add1)
qed

text \<open>An entry without children, from its first token to one of the tokens up to the end of the statement.\<close>

lemma placed_leaf:
  assumes "wf_parser p" "\<not> layout_type (cur_type p)" "moves p q" "pos p \<le> e" "e \<le> pos q"
    and "item_children i = []" "first_line (item_extent i) = tline (cur_tok p)"
      "last_line (item_extent i) = tend_line (tok_at (toks p) e)"
  shows "placed (toks p) (pos p) (pos q) i"
proof -
  have "cur_type p \<noteq> T_EOF" using assms(2) by (auto simp: layout_type_def)
  then have "pos p < length (toks p)" by (rule not_eof_left[OF assms(1)])
  then show ?thesis using assms
    by (intro placed_placed_all.at[of _ "pos p" _ e]) (auto simp: cur_tok_def layout_type_def placed_placed_all.none)
qed

lemma past_keyword: "wf_parser p \<Longrightarrow> cur_type p \<noteq> T_EOF \<Longrightarrow> moves (advance p) q \<Longrightarrow> moves p q \<and> pos p < pos q"
  using advance_pos[of p] advance_moves[of p] moves_trans[of p "advance p" q] by (auto simp: moves_def)

lemma yields_moves: "runs (advance p) r \<Longrightarrow> wf_parser p \<Longrightarrow> cur_type p \<noteq> T_EOF \<Longrightarrow>
  (\<And>i q. r = Some (i, q) \<Longrightarrow> moves p q \<Longrightarrow> pos p < pos q \<Longrightarrow> placed (toks p) (pos p) (pos q) i) \<Longrightarrow> yields p r"
  using past_keyword[of p] by (auto simp: yields_def runs_def)

lemma mk_extent_lines [simp]: "first_line (mk_extent p s le ce) = tline s" "last_line (mk_extent p s le ce) = le"
  by (simp_all add: mk_extent_def)

lemma mainmenu_yields:
  assumes f: "fuelled n p" and c: "cur_type p = T_MAINMENU"
  shows "yields p (parse_mainmenu n p)"
proof (rule yields_moves)
  let ?q = "advance p"
  note q = after_keyword[OF f] and w = fuelled_wf[OF f]
  show "runs ?q (parse_mainmenu n p)" using q
    by (auto simp: parse_mainmenu_def Let_def intro!: seq_rules intro: seq_steps)
  fix i r assume r: "parse_mainmenu n p = Some (i, r)" "moves p r" "pos p < pos r"
  then obtain title where i: "i = K_mainmenu title (mk_extent r (cur_tok p) (tend_line (cur_tok ?q)) (tend_col (cur_tok ?q)))"
    by (auto simp: parse_mainmenu_def Let_def split: bind_splits if_splits)
  have p1: "pos ?q = Suc (pos p)" "toks ?q = toks p" using advance_pos[OF w] c by auto
  show "placed (toks p) (pos p) (pos r) i"
    by (rule placed_leaf[of _ _ "pos ?q"]) (use r w c p1 in \<open>auto simp: i layout_type_def cur_tok_at\<close>)
qed (use f c in \<open>simp_all add: fuelled_wf\<close>)

lemma source_yields:
  assumes f: "fuelled n p" and c: "cur_type p \<in> {T_SOURCE, T_RSOURCE, T_OSOURCE}"
  shows "yields p (parse_source n rs os p)"
proof (rule yields_moves)
  let ?q = "advance p"
  note q = after_keyword[OF f] and w = fuelled_wf[OF f]
  show "runs ?q (parse_source n rs os p)" using q
    by (auto simp: parse_source_def Let_def intro!: seq_rules intro: seq_steps)
  fix i r assume r: "parse_source n rs os p = Some (i, r)" "moves p r" "pos p < pos r"
  then obtain s t where i: "i = K_source s (mk_extent r (cur_tok p) (tend_line t) (tend_col t))"
    and t: "t = cur_tok p \<or> t = cur_tok ?q"
    by (auto simp: parse_source_def Let_def split: bind_splits if_splits)
  have p1: "pos ?q = Suc (pos p)" "toks ?q = toks p" using advance_pos[OF w] c by auto
  from t show "placed (toks p) (pos p) (pos r) i"
  proof
    assume "t = cur_tok p"
    then show ?thesis by (intro placed_leaf[of _ _ "pos p"]) (use r w c p1 in \<open>auto simp: i layout_type_def cur_tok_at\<close>)
  next
    assume "t = cur_tok ?q"
    then show ?thesis by (intro placed_leaf[of _ _ "pos ?q"]) (use r w c p1 in \<open>auto simp: i layout_type_def cur_tok_at\<close>)
  qed
qed (use f c in \<open>auto simp: fuelled_wf\<close>)

text \<open>The last token consumed since the keyword.\<close>

lemma last_significant_since:
  assumes "moves p r" "pos p < pos r" "cur_type p \<noteq> T_NEWLINE"
  shows "\<exists>e. pos p \<le> e \<and> e < pos r \<and> last_significant r t = tok_at (toks p) e"
proof -
  have r: "toks r = toks p" "pos r \<le> length (toks r)" using assms(1) by (simp add: moves_def) (use assms(1) in \<open>unfold moves_def wf_parser_def, blast\<close>)
  then have "pos p < length (toks p)" using assms(2) by simp
  then have "ttype (toks r ! pos p) \<noteq> T_NEWLINE" using assms(3) by (simp add: cur_tok_def r(1))
  then obtain e where e: "pos p \<le> e" "e < pos r" "last_significant r t = toks r ! e"
    using last_significant_at[OF assms(2) r(2), of t] by blast
  then have "last_significant r t = tok_at (toks p) e" using r by (simp add: tok_at_def)
  with e show ?thesis by blast
qed

lemma comment_loop_runs: "wf_parser p \<Longrightarrow> 6 * left_over p + 6 \<le> n \<Longrightarrow> runs p (comment_loop n ds p)"
proof (induction n arbitrary: ds p)
  case (Suc n)
  note w = Suc.prems(1)
  show ?case
  proof (cases "cur_type p = T_DEPENDS")
    case True
    have f: "fuelled n p" using Suc.prems w by (simp add: fuelled_def)
    have l: "Suc (left_over (advance p)) = left_over p" using advance_left[OF w] True by simp
    have go: "runs q (comment_loop n ds' q)" if m: "moves (advance p) q" for q ds'
    proof (rule Suc.IH)
      show "wf_parser q" using m by (rule moves_wf)
      show "6 * left_over q + 6 \<le> n" using moves_left[OF m] l Suc.prems(2) by linarith
    qed
    have fa: "fuelled n (advance p)" using f by (rule fuelled_advance)
    have "runs (advance p) (parse_depends_on n ds p \<bind> (\<lambda>(ds1, p1). skip_newlines n p1 \<bind> comment_loop n ds1))"
    proof (rule runs_bind[OF step_depends[OF f]])
      fix ds1 p1 assume p1: "moves (advance p) p1"
      show "runs p1 (skip_newlines n p1 \<bind> comment_loop n ds1)"
        by (rule runs_bind1[OF runs_newlines[OF fuelled_moves[OF fa p1]]]) (rule go[OF moves_trans[OF p1]])
    qed
    then show ?thesis using True runs_moves[OF advance_moves[OF w]] by simp
  next
    case False
    then show ?thesis using w by (simp add: runs_here)
  qed
qed simp

lemma comment_yields:
  assumes f: "fuelled n p" and c: "cur_type p = T_COMMENT"
  shows "yields p (parse_comment n p)"
proof (rule yields_moves)
  let ?q = "advance p"
  note q = after_keyword[OF f] and w = fuelled_wf[OF f]
  have l: "Suc (left_over ?q) = left_over p" using advance_left[OF w] c by simp
  have loop: "runs ?q (comment_loop n ds r)" if "moves ?q r" for ds r
  proof (rule runs_moves[OF that], rule comment_loop_runs)
    show "wf_parser r" using that by (rule moves_wf)
    show "6 * left_over r + 6 \<le> n" using moves_left[OF that] l f by (simp add: fuelled_def)
  qed
  show "runs ?q (parse_comment n p)" using q
    by (auto simp: parse_comment_def Let_def intro!: seq_rules loop intro: seq_steps)
  fix i r assume r: "parse_comment n p = Some (i, r)" "moves p r" "pos p < pos r"
  then obtain title ds where i: "i = K_comment title ds (mk_extent r (cur_tok p)
      (tend_line (last_significant r (cur_tok p))) (tend_col (last_significant r (cur_tok p))))"
    by (auto simp: parse_comment_def Let_def split: bind_splits if_splits)
  obtain e where "pos p \<le> e" "e < pos r" "last_significant r (cur_tok p) = tok_at (toks p) e"
    using last_significant_since[OF r(2,3)] c by auto
  then show "placed (toks p) (pos p) (pos r) i"
    by (intro placed_leaf[of _ _ e]) (use r w c in \<open>auto simp: i layout_type_def\<close>)
qed (use f c in \<open>auto simp: fuelled_wf\<close>)

lemma property_loop_runs: "wf_parser p \<Longrightarrow> cur_type p \<noteq> T_NEWLINE \<Longrightarrow> 6 * left_over p + 6 \<le> n \<Longrightarrow> runs p (property_loop n c p)"
proof (induction n arbitrary: c p)
  case (Suc n)
  note w = Suc.prems(1)
  show ?case
  proof (cases "cur_type p \<in> entry_start")
    case False
    have f: "fuelled n p" using Suc.prems by (simp add: fuelled_def)
    have l: "Suc (left_over (advance p)) = left_over p"
      using advance_left[OF w] False by (auto simp: entry_start_def)
    have fa: "fuelled n (advance p)" using f by (rule fuelled_advance)
    have "runs (advance p) (parse_property n c p \<bind> (\<lambda>(c1, p1). skip_newlines n p1 \<bind> property_loop n c1))"
    proof (rule runs_bind[OF property_runs[OF f False Suc.prems(2)]])
      fix c1 p1 assume p1: "moves (advance p) p1"
      note fp1 = fuelled_moves[OF fa p1]
      show "runs p1 (skip_newlines n p1 \<bind> property_loop n c1)"
      proof (rule runs_bind1[OF runs_newlines[OF fp1]])
        fix p2 assume p2: "skip_newlines n p1 = Some p2" "moves p1 p2"
        have "6 * left_over p2 + 6 \<le> n"
          using moves_left[OF p1] moves_left[OF p2(2)] l Suc.prems(3) by linarith
        then show "runs p2 (property_loop n c1 p2)"
          using Suc.IH moves_wf[OF p2(2)] skip_newlines_stops[OF p2(1)] by blast
      qed
    qed
    then show ?thesis using False runs_moves[OF advance_moves[OF w]] by simp
  qed (use w in \<open>simp add: runs_here\<close>)
qed simp

lemma config_yields:
  assumes f: "fuelled n p" and c: "cur_type p \<in> {T_CONFIG, T_MENUCONFIG}"
  shows "yields p (parse_config n mc p)"
proof (rule yields_moves)
  let ?q = "advance p"
  note q = after_keyword[OF f] and w = fuelled_wf[OF f]
  have l: "Suc (left_over ?q) = left_over p" using advance_left[OF w] c by auto
  have loop: "runs ?q (property_loop n cfg r)" if "moves ?q r" "skip_newlines n r0 = Some r" for cfg r r0
  proof (rule runs_moves[OF that(1)], rule property_loop_runs)
    show "6 * left_over r + 6 \<le> n" using moves_left[OF that(1)] l f by (simp add: fuelled_def)
  qed (use that moves_wf skip_newlines_stops in blast)+
  show "runs ?q (parse_config n mc p)" using q
    by (auto simp: parse_config_def Let_def intro!: seq_rules intro: seq_steps loop)
  fix i r assume r: "parse_config n mc p = Some (i, r)" "moves p r" "pos p < pos r"
  let ?l = "last_significant r (cur_tok ?q)"
  obtain cfg where i: "i = K_config cfg (mk_extent r (cur_tok p) (max (tend_line ?l) (tend_line (cur_tok ?q)))
      (if tend_line ?l \<ge> tend_line (cur_tok ?q) then tend_col ?l else tend_col (cur_tok ?q)))"
    using r by (auto simp: parse_config_def Let_def split: bind_splits if_splits)
  obtain e where e: "pos p \<le> e" "e < pos r" "?l = tok_at (toks p) e"
    using last_significant_since[OF r(2,3), of "cur_tok ?q"] c by auto
  have p1: "pos ?q = Suc (pos p)" "toks ?q = toks p" using advance_pos[OF w] c by auto
  show "placed (toks p) (pos p) (pos r) i"
  proof (cases "tend_line ?l \<ge> tend_line (cur_tok ?q)")
    case True
    then show ?thesis by (intro placed_leaf[of _ _ e]) (use r w c e in \<open>auto simp: i layout_type_def max_def\<close>)
  next
    case False
    then show ?thesis
      by (intro placed_leaf[of _ _ "pos ?q"]) (use r w c p1 in \<open>auto simp: i layout_type_def max_def cur_tok_at\<close>)
  qed
qed (use f c in \<open>auto simp: fuelled_wf\<close>)

lemma item_of_yields: "yields p r \<Longrightarrow> item_runs p (map_option (\<lambda>(i, q). (Some i, q)) r)"
  by (auto simp: yields_def item_runs_def)

lemma item_of_nothing:
  assumes "runs1 (advance p) r" "wf_parser p" "cur_type p \<noteq> T_EOF"
  shows "item_runs p (map_option (\<lambda>q. (None, q)) r)"
  using assms past_keyword[OF assms(2,3)] by (auto simp: runs1_def item_runs_def)

lemma simple_runs:
  assumes f: "fuelled n p" and c: "cur_type p \<noteq> T_EOF"
  shows "item_runs p (parse_simple n p)"
proof -
  let ?q = "advance p"
  note w = fuelled_wf[OF f] and q = after_keyword[OF f]
  have stray: "runs1 ?q (skip_help n p)" using q
    by (auto simp: skip_help_def intro!: seq1_bind1 from_newlines intro: seq_steps)
  have help_text: "runs1 ?q (skip_newlines n ?q)" using q by (auto intro: runs_newlines)
  have unknown: "runs1 ?q (skip_unknown n p)"
  proof -
    let ?p = "if cur_type p \<in> {T_NEWLINE, T_EOF} then p else warn_line (cur_tok p) ''unknown statement'' p"
    have "runs1 (advance ?p) (skip_line n (advance ?p))"
      by (rule runs_skip_line, rule fuelled_advance) (use f in simp)
    then show ?thesis
      by (auto simp: skip_unknown_def runs1_def moves_def warn_line_def advance_def split: if_splits)
  qed
  show ?thesis unfolding parse_simple_def Let_def
    using item_of_yields[OF mainmenu_yields[OF f]] item_of_yields[OF config_yields[OF f]] item_of_yields[OF comment_yields[OF f]]
      item_of_yields[OF source_yields[OF f]] item_of_nothing[OF stray w c] item_of_nothing[OF help_text w c] item_of_nothing[OF unknown w c]
    by simp
qed

subsection \<open>Blocks\<close>

lemma menu_property_runs: "menu_property n m p = Some r \<Longrightarrow> fuelled n p \<Longrightarrow> runs (advance p) r"
  using step_depends[of n p] step_help[of n p] after_keyword[of n p]
  by (auto simp: menu_property_def split: if_splits intro!: runs_map seq_rules from_if_cond)

lemma choice_text_runs: "fuelled n q \<Longrightarrow> runs q (choice_prompt_text n c q)"
proof -
  assume f: "fuelled n q"
  note m = fuelled_refl[OF f]
  show ?thesis unfolding choice_prompt_text_def Let_def
    using f m by (auto intro!: seq_rules from_if_cond intro: seq_steps)
qed

lemma choice_property_runs: "choice_property n c p = Some r \<Longrightarrow> fuelled n p \<Longrightarrow> runs (advance p) r"
  using step_depends[of n p] step_help[of n p] after_keyword[of n p] choice_text_runs[of n "advance p"]
  by (auto simp: choice_property_def Let_def split: if_splits intro!: runs_map seq_rules from_if_cond intro: seq_steps)

lemma end_block_runs:
  assumes "fuelled n p"
  obtains q where "end_block n ty start p = Some (mk_extent q start (tend_line (cur_tok p)) (tend_col (cur_tok p)), q)" "moves p q"
proof -
  have "runs1 p (skip_newlines n (if cur_type p = ty then advance p else p))"
    using assms by (auto intro!: from_newlines intro: seq_steps fuelled_refl)
  then obtain q where "skip_newlines n (if cur_type p = ty then advance p else p) = Some q" "moves p q" by (auto simp: runs1_def)
  with that show ?thesis by (simp add: end_block_def Let_def)
qed

text \<open>A block around its children.\<close>

lemma close_block_runs:
  assumes f: "fuelled n r" and m: "moves (advance p) r" and w: "wf_parser p" and c: "\<not> layout_type (cur_type p)"
    and cs: "placed_all (toks p) (pos p) (pos r) cs"
    and mk: "\<And>x h. item_extent (mk x h) = x \<and> item_children (mk x h) = cs"
  shows "item_runs p (close_block n ty (cur_tok p) ht mk r)"
proof -
  have eof: "cur_type p \<noteq> T_EOF" using c by (auto simp: layout_type_def)
  obtain q where q: "end_block n ty (cur_tok p) r = Some (mk_extent q (cur_tok p) (tend_line (cur_tok r)) (tend_col (cur_tok r)), q)" "moves r q"
    using end_block_runs[OF f] by metis
  have pr: "moves p r \<and> pos p < pos r" by (rule past_keyword[OF w eof m])
  have pq: "moves p q" "pos p < pos q" "pos r \<le> pos q" using pr q(2) moves_trans by (auto simp: moves_def)
  have k: "pos p < length (toks p)" by (rule not_eof_left[OF w eof])
  have "cur_tok r = tok_at (toks p) (pos r)" using pr by (simp add: cur_tok_at moves_def)
  then have "placed (toks p) (pos p) (pos q) (mk (mk_extent q (cur_tok p) (tend_line (cur_tok r)) (tend_col (cur_tok r))) h)" for h
    using k c cs pr pq mk by (intro placed_placed_all.at[of _ "pos p" _ "pos r"]) (auto simp: cur_tok_def)
  then show ?thesis using q pq by (auto simp: item_runs_def close_block_def)
qed

definition block_runs :: "nat \<Rightarrow> kparser \<Rightarrow> (kitem list \<times> kparser) option \<Rightarrow> bool" where
  "block_runs a p r \<longleftrightarrow> (\<exists>cs q. r = Some (cs, q) \<and> moves p q \<and> placed_all (toks p) a (pos q) cs)"

lemma append_item_placed:
  assumes "placed_all ts a (pos p) cs" "case i of None \<Rightarrow> True | Some x \<Rightarrow> placed ts (pos p) (pos q) x" "pos p \<le> pos q"
  shows "placed_all ts a (pos q) (append_some cs i)"
  using assms placed_all_snoc placed_all_mono by (auto simp: append_some_def split: option.splits)

text \<open>
  What one turn of a block's loop does, for every block: it moves on, or the loop goes on with a child appended.
\<close>

lemma item_step:
  assumes "item_runs p r" "fuelled n p" "placed_all (toks p) a (pos p) cs" "8 * left_over p + 8 \<le> Suc n"
  obtains i p1 p2 where "r = Some (i, p1)" "skip_newlines n p1 = Some p2" "moves p p2" "8 * left_over p2 + 8 \<le> n"
    "placed_all (toks p2) a (pos p2) (append_some cs i)" "cur_type p2 \<noteq> T_NEWLINE"
proof -
  obtain i p1 where i: "r = Some (i, p1)" "moves p p1" "pos p < pos p1"
    "case i of None \<Rightarrow> True | Some x \<Rightarrow> placed (toks p) (pos p) (pos p1) x" using assms(1) by (auto simp: item_runs_def)
  obtain p2 where p2: "skip_newlines n p1 = Some p2" "moves p1 p2"
    using runs_newlines[OF fuelled_moves[OF assms(2) i(2)]] by (auto simp: runs1_def)
  have pl: "placed_all (toks p) a (pos p1) (append_some cs i)" by (rule append_item_placed[OF assms(3) i(4)]) (use i in simp)
  have t: "toks p2 = toks p" "pos p1 \<le> pos p2" "pos p1 \<le> length (toks p)" using i(2) p2(2) by (auto simp: moves_def wf_parser_def)
  have "left_over p1 < left_over p" using i(2,3) t(3) by (auto simp: left_over_def moves_def)
  then have "8 * left_over p2 + 8 \<le> n" using moves_left[OF p2(2)] assms(4) by linarith
  moreover have "placed_all (toks p2) a (pos p2) (append_some cs i)" using placed_all_mono[OF pl t(2)] t(1) by simp
  ultimately show ?thesis using that i(1) p2 moves_trans[OF i(2) p2(2)] skip_newlines_stops[OF p2(1)] by blast
qed

lemma property_step:
  assumes "runs (advance p) r" "fuelled n p" "cur_type p \<noteq> T_EOF" "placed_all (toks p) a (pos p) cs" "8 * left_over p + 8 \<le> Suc n"
  obtains m p1 p2 where "r = Some (m, p1)" "skip_newlines n p1 = Some p2" "moves p p2" "8 * left_over p2 + 8 \<le> n"
    "placed_all (toks p2) a (pos p2) cs" "cur_type p2 \<noteq> T_NEWLINE"
proof -
  obtain m p1 where m: "r = Some (m, p1)" "moves (advance p) p1" using assms(1) by (auto simp: runs_def)
  have "item_runs p (Some (None, p1))"
    using past_keyword[OF fuelled_wf[OF assms(2)] assms(3) m(2)] by (simp add: item_runs_def)
  from item_step[OF this assms(2,4,5)] obtain i q p2 where
    "Some (None, p1) = Some (i :: kitem option, q)" "skip_newlines n q = Some p2" "moves p p2" "8 * left_over p2 + 8 \<le> n"
    "placed_all (toks p2) a (pos p2) (append_some cs i)" "cur_type p2 \<noteq> T_NEWLINE" by metis
  then show ?thesis using that m(1) by (auto simp: append_some_def)
qed


lemma open_menu_runs: "fuelled n p \<Longrightarrow> \<exists>m ht q. open_menu n p = Some (m, ht, q) \<and> moves (advance p) q"
proof -
  assume f: "fuelled n p"
  let ?q = "if at_text (advance p) then advance (advance p) else advance p"
  have "runs1 (advance p) (skip_newlines n ?q)"
    using after_keyword[OF f] by (auto intro!: from_newlines intro: seq_steps)
  then show ?thesis by (auto simp: open_menu_def Let_def runs1_def split: if_splits)
qed

lemma open_choice_runs: "fuelled n p \<Longrightarrow> \<exists>c ht q. open_choice n p = Some (c, ht, q) \<and> moves (advance p) q"
proof -
  assume f: "fuelled n p"
  let ?q = "if cur_type (advance p) = T_SYMBOL then advance (advance p) else advance p"
  have "runs1 (advance p) (skip_newlines n ?q)"
    using after_keyword[OF f] by (auto intro!: from_newlines intro: seq_steps)
  then show ?thesis by (auto simp: open_choice_def Let_def runs1_def split: if_splits)
qed

lemma open_if_runs: "fuelled n p \<Longrightarrow> \<exists>e ht q. open_if n p = Some (e, ht, q) \<and> moves (advance p) q"
proof -
  assume f: "fuelled n p"
  note q = after_keyword[OF f]
  obtain e p1 where e: "parse_expr n (advance p) = Some (e, p1)" "moves (advance p) p1"
    using runs_expr[of n "advance p"] q by (auto simp: runs_def)
  obtain p2 where p2: "skip_newlines n p1 = Some p2" "moves p1 p2"
    using runs_newlines[of n p1] fuelled_moves[OF _ e(2)] q by (auto simp: runs1_def)
  show ?thesis using e p2 moves_trans[OF e(2) p2(2)] by (auto simp: open_if_def)
qed

lemma items_run_all:
  "(\<forall>p. wf_parser p \<and> cur_type p \<noteq> T_EOF \<and> 8 * left_over p + 7 \<le> n \<longrightarrow> item_runs p (parse_item n p))
   \<and> (\<forall>m ih ht a cs p. wf_parser p \<and> placed_all (toks p) a (pos p) cs \<and> 8 * left_over p + 8 \<le> n \<longrightarrow>
        block_runs a p (map_option (\<lambda>(m, ht, r). r) (menu_loop n m ih ht cs p)))
   \<and> (\<forall>c ih ht a cs p. wf_parser p \<and> placed_all (toks p) a (pos p) cs \<and> 8 * left_over p + 8 \<le> n \<longrightarrow>
        block_runs a p (map_option (\<lambda>(c, ht, r). r) (choice_loop n c ih ht cs p)))
   \<and> (\<forall>a cs p. wf_parser p \<and> placed_all (toks p) a (pos p) cs \<and> 8 * left_over p + 8 \<le> n \<longrightarrow>
        block_runs a p (if_loop n cs p))"
proof (induction n)
  case (Suc n)
  have item: "item_runs p (parse_item (Suc n) p)"
    if w: "wf_parser p" and eof: "cur_type p \<noteq> T_EOF" and n: "8 * left_over p + 7 \<le> Suc n" for p
  proof -
    have f: "fuelled n p" using w n by (simp add: fuelled_def)
    have l: "Suc (left_over (advance p)) = left_over p" by (rule advance_left[OF w eof])
    have inner: "wf_parser q \<and> fuelled n q \<and> placed_all (toks q) (pos p) (pos q) [] \<and> 8 * left_over q + 8 \<le> n \<and> toks q = toks p"
      if m: "moves (advance p) q" for q
      using past_keyword[OF w eof m] moves_left[OF m] l n fuelled_moves[OF fuelled_advance[OF f] m]
      by (auto simp: moves_def placed_placed_all.none)
    have close: "item_runs p (close_block n ty (cur_tok p) ht mk r)"
      if q: "moves (advance p) q" and r: "moves q r" "placed_all (toks q) (pos p) (pos r) cs" and c: "\<not> layout_type (cur_type p)"
        and mk: "\<And>x h. item_extent (mk x h) = x \<and> item_children (mk x h) = cs" for q r cs ty ht mk
    proof (rule close_block_runs[OF _ moves_trans[OF q r(1)] w c _ mk])
      show "fuelled n r" using inner[OF q] fuelled_moves[OF _ r(1)] by blast
      show "placed_all (toks p) (pos p) (pos r) cs" using inner[OF q] r(2) by simp
    qed
    consider "cur_type p = T_MENU" | "cur_type p = T_CHOICE" | "cur_type p = T_IF" | "cur_type p \<notin> {T_MENU, T_CHOICE, T_IF}" by blast
    then show ?thesis
    proof cases
      case 1
      obtain m ht q where o: "open_menu n p = Some (m, ht, q)" "moves (advance p) q" using open_menu_runs[OF f] by blast
      have "block_runs (pos p) q (map_option (\<lambda>(m, ht, r). r) (menu_loop n m True ht [] q))"
        using Suc.IH inner[OF o(2)] by blast
      then obtain m1 ht1 cs r where "menu_loop n m True ht [] q = Some (m1, ht1, cs, r)" "moves q r" "placed_all (toks q) (pos p) (pos r) cs"
        by (auto simp: block_runs_def)
      then show ?thesis using 1 o close[OF o(2), of r cs] by (simp add: layout_type_def)
    next
      case 2
      obtain c ht q where o: "open_choice n p = Some (c, ht, q)" "moves (advance p) q" using open_choice_runs[OF f] by blast
      have "block_runs (pos p) q (map_option (\<lambda>(c, ht, r). r) (choice_loop n c True ht [] q))"
        using Suc.IH inner[OF o(2)] by blast
      then obtain c1 ht1 cs r where "choice_loop n c True ht [] q = Some (c1, ht1, cs, r)" "moves q r" "placed_all (toks q) (pos p) (pos r) cs"
        by (auto simp: block_runs_def)
      then show ?thesis using 2 o close[OF o(2), of r cs] by (simp add: layout_type_def)
    next
      case 3
      obtain e ht q where o: "open_if n p = Some (e, ht, q)" "moves (advance p) q" using open_if_runs[OF f] by blast
      have "block_runs (pos p) q (if_loop n [] q)" using Suc.IH inner[OF o(2)] by blast
      then obtain cs r where "if_loop n [] q = Some (cs, r)" "moves q r" "placed_all (toks q) (pos p) (pos r) cs"
        by (auto simp: block_runs_def)
      then show ?thesis using 3 o close[OF o(2), of r cs] by (simp add: layout_type_def)
    next
      case 4
      then show ?thesis using simple_runs[OF f eof] by simp
    qed
  qed
  have stop: "block_runs a p (Some (cs, p))" if "wf_parser p" "placed_all (toks p) a (pos p) cs" for a p cs
    using that by (auto simp: block_runs_def moves_refl)
  have onward: "block_runs a p r" if "moves p p2" "block_runs a p2 r" for a p p2 r
    using that moves_trans by (auto simp: block_runs_def moves_def)
  have fuel: "fuelled n p \<and> 8 * left_over p + 7 \<le> n" if "wf_parser p" "8 * left_over p + 8 \<le> Suc n" for p
    using that by (simp add: fuelled_def)
  have menu: "block_runs a p (map_option (\<lambda>(m, ht, r). r) (menu_loop (Suc n) m ih ht cs p))"
    if p: "wf_parser p" "placed_all (toks p) a (pos p) cs" "8 * left_over p + 8 \<le> Suc n" for m ih ht a cs p
  proof (cases "cur_type p \<in> {T_ENDMENU, T_EOF}")
    case False
    then have eof: "cur_type p \<noteq> T_EOF" by simp
    note fp = fuel[OF p(1,3)]
    show ?thesis
    proof (cases "menu_property n m p")
      case None
      have "item_runs p (parse_item n p)" using Suc.IH p(1) eof fp by blast
      from item_step[OF this conjunct1[OF fp] p(2,3)] obtain i p1 p2 where
        s: "parse_item n p = Some (i, p1)" "skip_newlines n p1 = Some p2" "moves p p2" "8 * left_over p2 + 8 \<le> n"
        "placed_all (toks p2) a (pos p2) (append_some cs i)" by metis
      have "block_runs a p2 (map_option (\<lambda>(m, ht, r). r) (menu_loop n m False ht (append_some cs i) p2))"
        using Suc.IH s moves_wf by blast
      from onward[OF s(3) this] show ?thesis using False None s by simp
    next
      case (Some r)
      from property_step[OF menu_property_runs[OF Some conjunct1[OF fp]] conjunct1[OF fp] eof p(2,3)] obtain m1 p1 p2 where
        s: "r = Some (m1, p1)" "skip_newlines n p1 = Some p2" "moves p p2" "8 * left_over p2 + 8 \<le> n"
        "placed_all (toks p2) a (pos p2) cs" by metis
      have "block_runs a p2 (map_option (\<lambda>(m, ht, r). r) (menu_loop n m1 ih (next_header ih ht p1) cs p2))"
        using Suc.IH s moves_wf by blast
      from onward[OF s(3) this] show ?thesis using False Some s by simp
    qed
  qed (use stop p in simp)
  have choice: "block_runs a p (map_option (\<lambda>(c, ht, r). r) (choice_loop (Suc n) c ih ht cs p))"
    if p: "wf_parser p" "placed_all (toks p) a (pos p) cs" "8 * left_over p + 8 \<le> Suc n" for c ih ht a cs p
  proof (cases "cur_type p \<in> {T_ENDCHOICE, T_EOF}")
    case False
    then have eof: "cur_type p \<noteq> T_EOF" by simp
    note fp = fuel[OF p(1,3)]
    show ?thesis
    proof (cases "choice_property n c p")
      case None
      have "item_runs p (parse_item n p)" using Suc.IH p(1) eof fp by blast
      from item_step[OF this conjunct1[OF fp] p(2,3)] obtain i p1 p2 where
        s: "parse_item n p = Some (i, p1)" "skip_newlines n p1 = Some p2" "moves p p2" "8 * left_over p2 + 8 \<le> n"
        "placed_all (toks p2) a (pos p2) (append_some cs i)" by metis
      have "block_runs a p2 (map_option (\<lambda>(c, ht, r). r) (choice_loop n c False ht (append_some cs i) p2))"
        using Suc.IH s moves_wf by blast
      from onward[OF s(3) this] show ?thesis using False None s by simp
    next
      case (Some r)
      from property_step[OF choice_property_runs[OF Some conjunct1[OF fp]] conjunct1[OF fp] eof p(2,3)] obtain c1 p1 p2 where
        s: "r = Some (c1, p1)" "skip_newlines n p1 = Some p2" "moves p p2" "8 * left_over p2 + 8 \<le> n"
        "placed_all (toks p2) a (pos p2) cs" by metis
      have "block_runs a p2 (map_option (\<lambda>(c, ht, r). r) (choice_loop n c1 ih (next_header ih ht p1) cs p2))"
        using Suc.IH s moves_wf by blast
      from onward[OF s(3) this] show ?thesis using False Some s by simp
    qed
  qed (use stop p in simp)
  have ifs: "block_runs a p (if_loop (Suc n) cs p)"
    if p: "wf_parser p" "placed_all (toks p) a (pos p) cs" "8 * left_over p + 8 \<le> Suc n" for a cs p
  proof (cases "cur_type p \<in> {T_ENDIF, T_ENDCHOICE, T_ENDMENU, T_EOF}")
    case False
    then have eof: "cur_type p \<noteq> T_EOF" by simp
    note fp = fuel[OF p(1,3)]
    have "item_runs p (parse_item n p)" using Suc.IH p(1) eof fp by blast
    from item_step[OF this conjunct1[OF fp] p(2,3)] obtain i p1 p2 where
      s: "parse_item n p = Some (i, p1)" "skip_newlines n p1 = Some p2" "moves p p2" "8 * left_over p2 + 8 \<le> n"
      "placed_all (toks p2) a (pos p2) (append_some cs i)" by metis
    have "block_runs a p2 (if_loop n (append_some cs i) p2)" using Suc.IH s moves_wf by blast
    from onward[OF s(3) this] show ?thesis using False s by simp
  qed (use stop p in simp)
  show ?case using item menu choice ifs by blast
qed simp


subsection \<open>The lines of the token list\<close>

definition lines_ok :: "token list \<Rightarrow> bool" where
  "lines_ok ts \<longleftrightarrow> sorted (map tend_line ts) \<and> sorted (map tline (filter (\<lambda>t. \<not> layout_type (ttype t)) ts))
     \<and> list_all (\<lambda>t. layout_type (ttype t) \<or> tline t \<le> tend_line t) ts"

lemma lex_from_lines: "t \<in> set (lex_from ln eln idx s) \<Longrightarrow> tline t = ln \<and> tend_line t = eln"
proof (induction ln eln idx s rule: lex_from.induct)
  case (1 ln eln idx s)
  show ?case using 1(3) 1(1,2) by (subst (asm) lex_from.simps) (auto split: if_splits scan.splits)
qed

lemma sorted_const: "(\<And>t. t \<in> set ts \<Longrightarrow> f t = c) \<Longrightarrow> sorted (map f ts)"
  by (induction ts) auto

lemma help_lines_bounds:
  "help_lines mi cur e ls = (hs, e', n) \<Longrightarrow> e' \<le> max e n \<and> e \<le> max e' e \<and> n \<le> cur + length ls \<and> min e (cur + 1) \<le> e'"
proof (induction ls arbitrary: cur e hs e' n)
  case (Cons l ls)
  consider (blank) "blank_line l" | (done_at) "\<not> blank_line l" "indent_of l < mi" | (body) "\<not> blank_line l" "\<not> indent_of l < mi" by blast
  then show ?case
  proof cases
    case blank
    then obtain hs1 where "help_lines mi (cur + 1) e ls = (hs1, e', n)" using Cons.prems by (auto split: prod.splits)
    from Cons.IH[OF this] show ?thesis by auto
  next
    case body
    then obtain hs1 where h: "help_lines mi (cur + 1) (cur + 1) ls = (hs1, e', n)" using Cons.prems by (auto split: prod.splits)
    have "cur + 1 \<le> n" using help_lines_next[of "cur + 1" mi "cur + 1" ls] h by simp
    with Cons.IH[OF h] show ?thesis by auto
  qed (use Cons.prems in auto)
qed simp

lemma consume_help_bounds:
  assumes "consume_help_block ls start = (htxt, s, e, n)" "start \<le> length ls" "0 < start"
  shows "start \<le> e \<and> e \<le> n + 1 \<and> n \<le> length ls \<and> start \<le> n"
proof -
  let ?cur = "start + length (takeWhile blank_line (drop start ls))"
  have cur: "start \<le> ?cur" "?cur \<le> length ls"
    using assms(2) length_takeWhile_le[of blank_line "drop start ls"] by simp_all
  have nxt: "start \<le> n" using consume_help_next[of start ls] assms(1) by simp
  consider "?cur \<ge> length ls" | "?cur < length ls" "takeWhile blank_or_tab (ls ! ?cur) = []"
    | "?cur < length ls" "takeWhile blank_or_tab (ls ! ?cur) \<noteq> []" by linarith
  then show ?thesis
  proof cases
    case 3
    obtain hs e' n' where h: "help_lines (indent_of (ls ! ?cur)) ?cur (?cur + 1) (drop ?cur ls) = (hs, e', n')" by (metis prod_cases3)
    then have "e = e'" "n = n'" using assms(1) 3 by (simp_all add: consume_help_block_def Let_def)
    with help_lines_bounds[OF h] help_lines_next[of ?cur "indent_of (ls ! ?cur)" "?cur + 1" "drop ?cur ls"] h cur nxt show ?thesis
      by auto
  qed (use assms cur nxt in \<open>auto simp: consume_help_block_def Let_def\<close>)
qed

lemma continue_line_bound: "i < length lines \<Longrightarrow> snd (continue_line lines i l) < length lines"
proof (induction lines i l rule: continue_line.induct)
  case (1 lines i l)
  then show ?case by (subst continue_line.simps) auto
qed

lemma lines_ok_append:
  assumes "lines_ok ts" "lines_ok rs"
    and "\<And>t r. t \<in> set ts \<Longrightarrow> r \<in> set rs \<Longrightarrow> tend_line t \<le> tend_line r"
    and "\<And>t r. t \<in> set ts \<Longrightarrow> r \<in> set rs \<Longrightarrow> \<not> layout_type (ttype t) \<Longrightarrow> \<not> layout_type (ttype r) \<Longrightarrow> tline t \<le> tline r"
  shows "lines_ok (ts @ rs)"
  using assms by (auto simp: lines_ok_def sorted_append)

text \<open>What \<open>iter_tokens\<close> returns from line \<open>i\<close> on.\<close>

definition lexed :: "string list \<Rightarrow> nat \<Rightarrow> token list \<Rightarrow> bool" where
  "lexed lines i ts \<longleftrightarrow> lines_ok ts \<and> ts \<noteq> [] \<and> ttype (last ts) = T_EOF
     \<and> (\<forall>t \<in> set ts. i < tend_line t \<and> tend_line t \<le> Suc (length lines) \<and> (layout_type (ttype t) \<or> i < tline t))"

lemma lexed_append:
  assumes "lexed lines n rs" "lines_ok ts" "i \<le> n"
    and "\<And>t. t \<in> set ts \<Longrightarrow> i < tend_line t \<and> tend_line t \<le> Suc n \<and> (layout_type (ttype t) \<or> i < tline t \<and> tline t \<le> Suc n)"
    and "n \<le> length lines"
  shows "lexed lines i (ts @ rs)"
proof -
  have "lines_ok (ts @ rs)"
  proof (rule lines_ok_append[OF assms(2)])
    fix t r assume t: "t \<in> set ts" and r: "r \<in> set rs"
    have "n < tend_line r" "layout_type (ttype r) \<or> n < tline r" using assms(1) r by (auto simp: lexed_def)
    with assms(4)[OF t] show "tend_line t \<le> tend_line r"
      and "\<not> layout_type (ttype t) \<Longrightarrow> \<not> layout_type (ttype r) \<Longrightarrow> tline t \<le> tline r" by auto
  qed (use assms(1) in \<open>simp add: lexed_def\<close>)
  moreover have "i < tend_line r \<and> tend_line r \<le> Suc (length lines) \<and> (layout_type (ttype r) \<or> i < tline r)" if "r \<in> set rs" for r
  proof -
    have "n < tend_line r" "tend_line r \<le> Suc (length lines)" "layout_type (ttype r) \<or> n < tline r"
      using assms(1) that by (auto simp: lexed_def)
    with assms(3) show ?thesis by auto
  qed
  moreover have "i < tend_line t \<and> tend_line t \<le> Suc (length lines) \<and> (layout_type (ttype t) \<or> i < tline t)" if "t \<in> set ts" for t
    using assms(4)[OF that] assms(5) by auto
  ultimately show ?thesis using assms(1) unfolding lexed_def by auto
qed

lemma lex_lines_ok: "i \<le> length lines \<Longrightarrow> lexed lines i (lex_lines lines i)"
proof (induction lines i rule: lex_lines.induct)
  case (1 lines i)
  show ?case
  proof (cases "i \<ge> length lines")
    case True
    then show ?thesis using 1(3) by (subst lex_lines.simps) (simp add: lexed_def lines_ok_def layout_type_def)
  next
    case False
    obtain l j where lj: "continue_line lines i (lines ! i) = (l, j)" by (metis prod.exhaust)
    have j: "i \<le> j" "j < length lines"
      using continue_line_index[of i lines "lines ! i"] continue_line_bound[of i lines "lines ! i"] lj False by simp_all
    obtain ts hlp where ts: "tokenize_line l (i + 1) (j + 1) = (ts, hlp)" by (metis prod.exhaust)
    have tsl: "tline t = i + 1 \<and> tend_line t = j + 1" if "t \<in> set ts" for t
      using that ts lex_from_lines[of t "i + 1" "j + 1" 0 l] by (auto simp: tokenize_line_def Let_def)
    have ts_ok: "lines_ok ts"
      unfolding lines_ok_def using tsl j(1) by (auto intro!: sorted_const[where f = tend_line and c = "j + 1"] sorted_const[where f = tline and c = "i + 1"] simp: list_all_iff)
    show ?thesis
    proof (cases hlp)
      case no: False
      have rec: "lex_lines lines i = ts @ lex_lines lines (j + 1)"
        using False lj ts no by (subst lex_lines.simps) simp
      have nof: "hlp = False" using no by simp
      have "lexed lines (j + 1) (lex_lines lines (j + 1))"
        using "1.IH"(2)[OF False lj[symmetric] ts[symmetric] nof] j(2) by simp
      then show ?thesis unfolding rec by (rule lexed_append[OF _ ts_ok]) (use tsl j in auto)
    next
      case yes: True
      obtain htxt s e n where h: "consume_help_block lines (j + 1) = (htxt, s, e, n)" by (metis prod_cases4)
      have b: "j + 1 \<le> e" "e \<le> n + 1" "n \<le> length lines" "j + 1 \<le> n" using consume_help_bounds[OF h] j by simp_all
      have rec: "lex_lines lines i = (ts @ help_tokens lines (htxt, s, e, n)) @ lex_lines lines n"
        using False lj ts yes h by (subst lex_lines.simps) (simp add: Let_def)
      have yest: "hlp = True" using yes by simp
      have IH: "lexed lines n (lex_lines lines n)"
        using "1.IH"(1)[OF False lj[symmetric] ts[symmetric] yest h[symmetric]] b by simp
      have ht: "tend_line t = e \<and> layout_type (ttype t)" if "t \<in> set (help_tokens lines (htxt, s, e, n))" for t
        using that by (auto simp: help_tokens_def Let_def layout_type_def)
      have h_ok: "lines_ok (help_tokens lines (htxt, s, e, n))"
        by (simp add: lines_ok_def help_tokens_def Let_def layout_type_def)
      have "lines_ok (ts @ help_tokens lines (htxt, s, e, n))"
        by (rule lines_ok_append[OF ts_ok h_ok]) (use ht tsl b(1) in auto)
      from lexed_append[OF IH this] show ?thesis unfolding rec using ht tsl b j by fastforce
    qed
  qed
qed

lemma tokenize_lexed: "lexed (splitlines True s) 0 (tokenize s)"
  unfolding tokenize_def by (rule lex_lines_ok) simp

lemma tokenize_ok: "lines_ok (tokenize s) \<and> tokenize s \<noteq> [] \<and> ttype (last (tokenize s)) = T_EOF"
  using tokenize_lexed[of s] by (simp add: lexed_def)

subsection \<open>The entries' lines\<close>

lemma sorted_nth_map: "sorted (map f ts) \<Longrightarrow> i \<le> j \<Longrightarrow> j < length ts \<Longrightarrow> f (ts ! i) \<le> f (ts ! j)"
  by (auto simp: sorted_iff_nth_mono)

lemma sorted_filter_map:
  "sorted (map f (filter P ts)) \<Longrightarrow> i \<le> j \<Longrightarrow> j < length ts \<Longrightarrow> P (ts ! i) \<Longrightarrow> P (ts ! j) \<Longrightarrow> f (ts ! i) \<le> f (ts ! j)"
proof (induction ts arbitrary: i j)
  case (Cons t ts)
  show ?case
  proof (cases i)
    case 0
    then show ?thesis using Cons.prems by (cases j) (auto simp: image_iff)
  next
    case (Suc i')
    then obtain j' where "j = Suc j'" using Cons.prems(2) by (cases j) auto
    then show ?thesis using Suc Cons.prems Cons.IH[of i' j'] by (auto split: if_splits)
  qed
qed simp

text \<open>
  Each entry lies within the lines \<open>lo\<close> to \<open>hi\<close> and its children within its own lines; entries that follow each other
  start in order and end in order.
\<close>

function entries_ok :: "nat \<Rightarrow> nat \<Rightarrow> nat \<Rightarrow> kitem list \<Rightarrow> bool" where
  "entries_ok lo le hi [] = True"
| "entries_ok lo le hi (i # is) =
     (lo \<le> first_line (item_extent i) \<and> le \<le> last_line (item_extent i) \<and> first_line (item_extent i) \<le> last_line (item_extent i)
      \<and> last_line (item_extent i) \<le> hi
      \<and> entries_ok (first_line (item_extent i)) (first_line (item_extent i)) (last_line (item_extent i)) (item_children i)
      \<and> entries_ok (first_line (item_extent i)) (last_line (item_extent i)) hi is)"
  by pat_completeness auto
termination
proof (relation "measure (\<lambda>(_, _, _, is). size_list size is)")
  show "((first_line (item_extent i), first_line (item_extent i), last_line (item_extent i), item_children i), lo, le, hi, i # is)
      \<in> measure (\<lambda>(_, _, _, is). size_list size is)" for lo le hi i "is"
    by (cases i) auto
qed auto

lemma tok_at_min: "ts \<noteq> [] \<Longrightarrow> tok_at ts k = ts ! min k (length ts - 1)"
  by (simp add: tok_at_def last_conv_nth min_def) (metis Suc_pred le_antisym length_greater_0_conv less_Suc_eq_le)

lemma tok_at_sorted:
  assumes "lines_ok ts" "ts \<noteq> []" "e \<le> e'"
  shows "tend_line (tok_at ts e) \<le> tend_line (tok_at ts e')"
proof -
  have s: "sorted (map tend_line ts)" using assms(1) by (simp add: lines_ok_def)
  have "0 < length ts" using assms(2) by simp
  then have "min e (length ts - 1) \<le> min e' (length ts - 1)" "min e' (length ts - 1) < length ts" using assms(3) by linarith+
  from sorted_nth_map[OF s this] show ?thesis using assms(2) by (simp add: tok_at_min)
qed

text \<open>Every token from \<open>a\<close> on starts at line \<open>lo\<close> or later and ends at line \<open>le\<close> or later.\<close>

definition above :: "token list \<Rightarrow> nat \<Rightarrow> nat \<Rightarrow> nat \<Rightarrow> bool" where
  "above ts a lo le \<longleftrightarrow> (\<forall>k. a \<le> k \<and> k < length ts \<and> \<not> layout_type (ttype (ts ! k)) \<longrightarrow> lo \<le> tline (ts ! k))
     \<and> (\<forall>e. a \<le> e \<longrightarrow> le \<le> tend_line (tok_at ts e))"

lemma above_tokens:
  assumes "lines_ok ts" "ts \<noteq> []" "k < length ts" "\<not> layout_type (ttype (ts ! k))" "k \<le> a" "e \<le> a"
  shows "above ts a (tline (ts ! k)) (tend_line (tok_at ts e))"
  unfolding above_def using assms tok_at_sorted[OF assms(1,2)] sorted_filter_map[of tline "\<lambda>t. \<not> layout_type (ttype t)" ts k]
  by (auto simp: lines_ok_def)

lemma placed_entries_all:
  assumes ok: "lines_ok ts" "ts \<noteq> []"
  shows "(placed ts a b i \<longrightarrow> (\<forall>lo le hi. above ts a lo le \<and> tend_line (tok_at ts b) \<le> hi \<longrightarrow> entries_ok lo le hi [i]))
    \<and> (placed_all ts a b is \<longrightarrow> (\<forall>lo le hi. above ts a lo le \<and> tend_line (tok_at ts b) \<le> hi \<longrightarrow> entries_ok lo le hi is))"
proof -
  have one: "entries_ok lo le hi [i]"
    if k: "a \<le> k" "k < length ts" "k \<le> e" "e \<le> b" "\<not> layout_type (ttype (ts ! k))"
      and x: "first_line (item_extent i) = tline (ts ! k)" "last_line (item_extent i) = tend_line (tok_at ts e)"
      and ch: "\<forall>lo le hi. above ts k lo le \<and> tend_line (tok_at ts e) \<le> hi \<longrightarrow> entries_ok lo le hi (item_children i)"
      and ab: "above ts a lo le" "tend_line (tok_at ts b) \<le> hi" for a b k e i lo le hi
  proof -
    have kk: "tok_at ts k = ts ! k" using k(2) by (simp add: tok_at_def)
    have fl: "tline (ts ! k) \<le> tend_line (tok_at ts k)"
      using ok(1) k(2,5) by (auto simp: lines_ok_def list_all_length kk)
    have "above ts k (tline (ts ! k)) (tend_line (tok_at ts k))" by (rule above_tokens[OF ok k(2,5)]) simp_all
    then have "above ts k (tline (ts ! k)) (tline (ts ! k))" using fl by (auto simp: above_def intro: order.trans)
    then have c: "entries_ok (tline (ts ! k)) (tline (ts ! k)) (tend_line (tok_at ts e)) (item_children i)" using ch by blast
    have l: "lo \<le> tline (ts ! k)" using ab(1) k unfolding above_def by blast
    have "le \<le> tend_line (tok_at ts a)" using ab(1) unfolding above_def by blast
    moreover have "tend_line (tok_at ts a) \<le> tend_line (tok_at ts e)" using tok_at_sorted[OF ok, of a e] k(1,3) by simp
    moreover have "tline (ts ! k) \<le> tend_line (tok_at ts e)" using fl tok_at_sorted[OF ok k(3)] by simp
    moreover have "tend_line (tok_at ts e) \<le> hi" using tok_at_sorted[OF ok k(4)] ab(2) by simp
    ultimately show ?thesis using c l by (simp only: entries_ok.simps x) simp
  qed
  have both: "(placed ts' a b i \<Longrightarrow> ts' = ts \<longrightarrow> (\<forall>lo le hi. above ts a lo le \<and> tend_line (tok_at ts b) \<le> hi \<longrightarrow> entries_ok lo le hi [i]))"
    "(placed_all ts' a b is \<Longrightarrow> ts' = ts \<longrightarrow> (\<forall>lo le hi. above ts a lo le \<and> tend_line (tok_at ts b) \<le> hi \<longrightarrow> entries_ok lo le hi is))"
    for ts' a b i "is"
  proof (induction rule: placed_placed_all.inducts)
    case (at a k ts' e b i)
    then show ?case using one[of a k e b i] by blast
  next
    case (more ts' a m i b "is")
    show ?case
    proof (intro impI allI)
      fix lo le hi assume t: "ts' = ts" and h: "above ts a lo le \<and> tend_line (tok_at ts b) \<le> hi"
      have mb: "m \<le> b" using more(2) placed_all_le by blast
      have i: "entries_ok lo le hi [i]" using more(3) t h tok_at_sorted[OF ok mb] by (meson order.trans)
      obtain k e where k: "k < length ts" "\<not> layout_type (ttype (ts ! k))" "k \<le> m" "e \<le> m"
        "first_line (item_extent i) = tline (ts ! k)" "last_line (item_extent i) = tend_line (tok_at ts e)"
        using more(1) t by (auto elim!: placedE)
      have "above ts m (first_line (item_extent i)) (last_line (item_extent i))" using above_tokens[OF ok k(1-4)] k(5,6) by simp
      then have "entries_ok (first_line (item_extent i)) (last_line (item_extent i)) hi is" using more(4) t h by blast
      with i show "entries_ok lo le hi (i # is)" by simp
    qed
  qed simp
  show ?thesis
    by (intro conjI impI) (erule both(1)[THEN mp, OF _ refl], erule both(2)[THEN mp, OF _ refl])
qed

subsection \<open>The parser on a file\<close>

lemma new_parser_wf: "wf_parser (new_parser (tokenize s) s)"
  using tokenize_ok[of s] by (simp add: wf_parser_def new_parser_def)

lemma top_loop_runs: "wf_parser p \<Longrightarrow> placed_all (toks p) a (pos p) items \<Longrightarrow> 8 * left_over p + 8 \<le> n \<Longrightarrow>
   \<exists>items' q. top_loop n items p = Some (items', q) \<and> moves p q \<and> placed_all (toks p) a (pos q) items' \<and> cur_type q = T_EOF"
proof (induction n arbitrary: items p)
  case (Suc n)
  show ?case
  proof (cases "cur_type p = T_EOF")
    case True
    then show ?thesis using Suc.prems by (auto intro: moves_refl)
  next
    case False
    have f: "fuelled n p" "8 * left_over p + 7 \<le> n" using Suc.prems by (simp_all add: fuelled_def)
    have "item_runs p (parse_item n p)" using items_run_all[of n] Suc.prems(1) False f(2) by blast
    from item_step[OF this f(1) Suc.prems(2,3)] obtain i p1 p2 where
      s: "parse_item n p = Some (i, p1)" "skip_newlines n p1 = Some p2" "moves p p2" "8 * left_over p2 + 8 \<le> n"
      "placed_all (toks p2) a (pos p2) (append_some items i)" by metis
    from Suc.IH[OF moves_wf[OF s(3)] s(5,4)] obtain items' q where
      q: "top_loop n (append_some items i) p2 = Some (items', q)" "moves p2 q" "placed_all (toks p2) a (pos q) items'" "cur_type q = T_EOF"
      by blast
    have "toks p2 = toks p" using s(3) by (simp add: moves_def)
    then show ?thesis using False s q moves_trans[OF s(3) q(2)] by simp
  qed
qed simp

lemma parse_runs:
  "\<exists>items q. parse_kconfig s = Some (items, q) \<and> cur_type q = T_EOF \<and> toks q = tokenize s
     \<and> placed_all (tokenize s) 0 (pos q) items"
proof -
  let ?p = "new_parser (tokenize s) s" and ?n = "enough_fuel (tokenize s)"
  have p: "toks ?p = tokenize s" "pos ?p = 0" "left_over ?p = length (tokenize s)"
    by (simp_all add: new_parser_def left_over_def)
  have f: "fuelled ?n ?p" using new_parser_wf[of s] p by (simp add: fuelled_def enough_fuel_def)
  obtain p1 where p1: "skip_newlines ?n ?p = Some p1" "moves ?p p1" using runs_newlines[OF f] by (auto simp: runs1_def)
  have t1: "toks p1 = tokenize s" using p1(2) p(1) by (simp add: moves_def)
  have "8 * left_over p1 + 8 \<le> ?n" using moves_left[OF p1(2)] p(3) by (simp add: enough_fuel_def)
  moreover have "placed_all (toks p1) 0 (pos p1) []" by (simp add: placed_placed_all.none)
  ultimately obtain items q where q: "top_loop ?n [] p1 = Some (items, q)" "moves p1 q" "placed_all (toks p1) 0 (pos q) items" "cur_type q = T_EOF"
    using top_loop_runs[OF moves_wf[OF p1(2)]] by blast
  then show ?thesis using p1 t1 by (auto simp: parse_kconfig_def parse_tokens_def Let_def moves_def)
qed

text \<open>
  C15: Parsing a Kconfig file always ends.  Whatever the text (unclosed blocks and strings, stray keywords, garbage),
  the lexer and the parser return a list of entries, and the parser has then consumed every token up to the
  end-of-file token.
\<close>

theorem parse_kconfig_total:
  "\<exists>items p. parse_kconfig s = Some (items, p) \<and> cur_type p = T_EOF \<and> toks p = tokenize s"
  using parse_runs[of s] by blast



definition small_menu :: string where
  "small_menu = ''menu M'' @ [CHR 0x0A] @ ''config A'' @ [CHR 0x0A, CHR 0x09] @ ''bool'' @ [CHR 0x0A] @ ''endmenu'' @ [CHR 0x0A]"

lemma small_menu_items: "(case parse_kconfig small_menu of Some (items, p) \<Rightarrow> map (length \<circ> item_children) items = [1] | None \<Rightarrow> False)"
  by code_simp


end
