(* ===== verification/ChangeSet_Routes.thy ===== *)
theory ChangeSet_Routes
  imports Table_Schema "HOL-Library.Monad_Syntax"
begin

section \<open>Change sets: routes, stored operations, references (core/TableHandling.py)\<close>

text \<open>
  \<open>ChangeSet\<close> collects the operations a parser stores for one file.  A stack of links (\<open>with CS(link):\<close>) gives
  every operation a route, under which later operations refer to its columns.  This theory has the operations, the
  link stack, \<open>route_parse\<close>, \<open>store\<close>, \<open>ref\<close> and the lookups within the file; their execution is in
  \<open>ChangeSet_Execute\<close>.  Type checks that only run with \<open>DEBUG_TYPECHECK\<close> are left out.
\<close>

subsection \<open>Links and operations\<close>

text \<open>
  A link is an integer or a string.  The markers are the integers 0 to 6, so a position equal to a marker is read as
  that marker wherever the code compares without looking at the place.  \<open>LFalse\<close> is the \<open>False\<close> that
  \<open>route_parse\<close> leaves behind a final \<open>REF_FILE\<close>; it equals 0.
\<close>

datatype link = LInt int | LStr string | LFalse

abbreviation REF_ROOT :: link where "REF_ROOT \<equiv> LInt 0"
abbreviation REF_OLD :: link where "REF_OLD \<equiv> LInt 1"
abbreviation REF_POS :: link where "REF_POS \<equiv> LInt 2"
abbreviation REF_FILE :: link where "REF_FILE \<equiv> LInt 3"
abbreviation REF_MULTI :: link where "REF_MULTI \<equiv> LInt 4"
abbreviation REF_C_AST :: link where "REF_C_AST \<equiv> LInt 5"
abbreviation REF_NO_REF :: link where "REF_NO_REF \<equiv> LInt 6"

fun link_value :: "link \<Rightarrow> link" where
  "link_value LFalse = LInt 0"
| "link_value l = l"

definition link_is :: "link \<Rightarrow> link \<Rightarrow> bool" where
  "link_is a b \<longleftrightarrow> link_value a = link_value b"

definition bypass_link :: "link \<Rightarrow> bool" where
  "bypass_link l \<longleftrightarrow> link_is l REF_POS \<or> link_is l REF_MULTI"

definition reset_link :: "link \<Rightarrow> bool" where
  "reset_link l \<longleftrightarrow> link_is l REF_ROOT \<or> link_is l REF_C_AST \<or> link_is l REF_NO_REF"

text \<open>A column value of an operation: a safe value, or a reference \<open>(query, OP_REF, route)\<close>.\<close>

datatype ucell = UVal cell | URef pointer "link list"

text \<open>
  The schema of a \<open>ref_view\<close>: rules (column, expected value or values), one (joins, items) pair per rule with the
  last as the default, the route of the matched operations, the first rank, trailing (joins, items) pairs.
\<close>

datatype expected = Is_value cell | One_of "cell list"

datatype item = Item_column pointer | Item_rank | Item_value ucell

type_synonym join_triple = "pointer \<times> pointer \<times> nat"

datatype schema = Schema
  (schema_ifs: "(pointer \<times> expected) list")
  (schema_thens: "(join_triple list \<times> item list) list")
  (schema_route: "link list")
  (schema_rank: int)
  (schema_trailing: "(join_triple list \<times> item list) list")

datatype op_body =
    Op_set "ucell list"
  | Op_update "ucell list"
  | Op_view_set "ucell list"
  | Op_done row
  | Op_view_done row
  | Op_ref_view "ucell list" schema

type_synonym operation = "joins \<times> op_body"

type_synonym symkey = "string \<times> int"

record changeset =
  file_operation :: "string option"
  current_path :: "string option"
  old_path :: "string option"
  cs_ops :: "operation list"
  cs_processed :: bool
  cs_result :: "row option list"
  store_dict :: "(link list, (nat, nat) dict) dict"
  multi_store :: "nat list list"
  cs_route :: "link list"
  route_count :: "nat list"
  multi_stack :: "nat list"
  no_ref_depth :: nat
  cached_route :: "link list option"
  symbol_dict :: "(symkey, nat) dict"
  foreign_deps :: "string list"
  unresolved_indices :: "nat list option"
  blocked_on :: "string option"
  executing :: bool
  resolved_symbols :: "(symkey, cell) dict"
  store_cleared :: bool
  pre_extracted_tags :: "row list option"
  blob_id :: cell

text \<open>\<open>ChangeSet.__init__\<close>: a git status line, or an operation with its paths.\<close>

definition nonempty :: "string \<Rightarrow> string option" where
  "nonempty s = (if s = [] then None else Some s)"

definition split_status :: "string option \<Rightarrow> string option \<Rightarrow> string option \<Rightarrow> string option \<times> string option \<times> string option" where
  "split_status op cur old =
     (case (cur, op) of
        (None, Some line) \<Rightarrow> (case split_on (CHR 0x09) line of
            [a] \<Rightarrow> (nonempty a, None, old)
          | [a, b] \<Rightarrow> (nonempty a, Some b, old)
          | a # b # c # _ \<Rightarrow> (nonempty a, Some c, Some b)
          | [] \<Rightarrow> (None, None, old))
      | _ \<Rightarrow> (op \<bind> nonempty, cur, old))"

definition new_changeset :: "string option \<Rightarrow> string option \<Rightarrow> string option \<Rightarrow> changeset" where
  "new_changeset op cur old = (case split_status op cur old of (fop, cp, ol) \<Rightarrow>
     \<lparr>file_operation = fop, current_path = cp \<bind> nonempty, old_path = ol \<bind> nonempty, cs_ops = [], cs_processed = False,
      cs_result = [], store_dict = [], multi_store = [], cs_route = [REF_ROOT], route_count = [], multi_stack = [],
      no_ref_depth = 0, cached_route = Some [REF_ROOT], symbol_dict = [], foreign_deps = [], unresolved_indices = None,
      blocked_on = None, executing = False, resolved_symbols = [], store_cleared = False,
      pre_extracted_tags = None, blob_id = CNone\<rparr>)"

subsection \<open>Canonical routes\<close>

text \<open>
  One turn of the loop of \<open>route_parse\<close>: the canonical links so far, whether the next link is data, and the file
  of the route.
\<close>

fun link_step :: "link list \<times> bool \<times> link option \<Rightarrow> link \<Rightarrow> link list \<times> bool \<times> link option" where
  "link_step (acc, True, f) l = (if f = Some LFalse then (acc, False, Some l) else (acc @ [l], False, f))"
| "link_step (acc, False, f) l =
     (if link_is l REF_FILE then ([], True, Some LFalse)
      else if bypass_link l then ([l], True, f)
      else if reset_link l then ([l], False, f)
      else (acc @ [l], False, f))"

definition route_parse :: "link list \<Rightarrow> link list" where
  "route_parse r = (case foldl link_step ([], False, None) r of
       (acc, _, None) \<Rightarrow> acc
     | (acc, _, Some f) \<Rightarrow> REF_FILE # f # acc)"

subsection \<open>The link stack\<close>

text \<open>\<open>__call__\<close>: open a block with some links.\<close>

definition push_links :: "link list \<Rightarrow> changeset \<Rightarrow> changeset" where
  "push_links ls c0 = (let c = c0\<lparr>cached_route := None\<rparr> in
     (case ls of
        [l] \<Rightarrow>
          if link_is l REF_MULTI then
            (let i = length (multi_store c)
             in c\<lparr>route_count := route_count c @ [2], cs_route := cs_route c @ [l, LInt (int i)],
                  multi_store := multi_store c @ [[]], multi_stack := multi_stack c @ [i]\<rparr>)
          else c\<lparr>route_count := route_count c @ [1], cs_route := cs_route c @ [l],
                 no_ref_depth := (if link_is l REF_NO_REF then no_ref_depth c + 1 else no_ref_depth c)\<rparr>
      | _ \<Rightarrow> c\<lparr>route_count := route_count c @ [length ls], cs_route := cs_route c @ ls\<rparr>))"

fun pop_links :: "nat \<Rightarrow> changeset \<Rightarrow> changeset" where
  "pop_links 0 c = c"
| "pop_links (Suc n) c =
     (if length (cs_route c) \<le> 1 then pop_links n (c\<lparr>cs_route := [REF_ROOT], cached_route := Some [REF_ROOT]\<rparr>)
      else pop_links n (c\<lparr>cs_route := butlast (cs_route c)\<rparr>))"

text \<open>\<open>route[-count:]\<close> when the route is long enough (all of it when \<open>count\<close> is 0).\<close>

definition popped_links :: "nat \<Rightarrow> link list \<Rightarrow> link list" where
  "popped_links n r = (if length r \<ge> n then (if n = 0 then r else drop (length r - n) r) else [])"

text \<open>The bucket stack and the no-reference depth follow the first of the links that are popped.\<close>

definition forget_links :: "link list \<Rightarrow> changeset \<Rightarrow> changeset" where
  "forget_links popped c =
     (if popped \<noteq> [] \<and> link_is (hd popped) REF_MULTI \<and> multi_stack c \<noteq> [] then c\<lparr>multi_stack := butlast (multi_stack c)\<rparr>
      else if popped \<noteq> [] \<and> link_is (hd popped) REF_NO_REF \<and> no_ref_depth c > 0 then c\<lparr>no_ref_depth := no_ref_depth c - 1\<rparr>
      else c)"

text \<open>\<open>__exit__\<close>; \<open>None\<close> is the \<open>IndexError\<close> of an exit without an open block.\<close>

definition leave :: "changeset \<Rightarrow> changeset option" where
  "leave c =
     (if route_count c = [] then None
      else let n = last (route_count c)
           in Some (pop_links n (forget_links (popped_links n (cs_route c))
                (c\<lparr>cached_route := None, route_count := butlast (route_count c)\<rparr>))))"

subsection \<open>Storing an operation\<close>

definition push_op :: "operation \<Rightarrow> changeset \<Rightarrow> changeset" where
  "push_op op c = c\<lparr>cs_ops := cs_ops c @ [op]\<rparr>"

text \<open>The position of the next operation goes into the innermost open \<open>REF_MULTI\<close> bucket.\<close>

definition note_multi :: "changeset \<Rightarrow> changeset" where
  "note_multi c =
     (if multi_stack c \<noteq> [] \<and> no_ref_depth c = 0 \<and> last (multi_stack c) < length (multi_store c)
      then c\<lparr>multi_store := (multi_store c)[last (multi_stack c) := multi_store c ! last (multi_stack c) @ [length (cs_ops c)]]\<rparr>
      else c)"

definition route_index :: "link list \<Rightarrow> nat option" where
  "route_index r = (case r of _ # LInt i # _ \<Rightarrow> if i < 0 then None else Some (nat i) | _ \<Rightarrow> None)"

text \<open>Index the next position under a canonical route; \<open>None\<close> is an \<open>IndexError\<close>.\<close>

definition index_op :: "link list \<Rightarrow> nat \<Rightarrow> changeset \<Rightarrow> changeset option" where
  "index_op r tid c =
     (case r of
        [] \<Rightarrow> None
      | l # _ \<Rightarrow>
          if link_is l REF_MULTI then
            (case route_index r of
               Some i \<Rightarrow> if i < length (multi_store c)
                         then Some (c\<lparr>multi_store := (multi_store c)[i := multi_store c ! i @ [length (cs_ops c)]]\<rparr>) else None
             | None \<Rightarrow> None)
          else Some (c\<lparr>store_dict := dict_set r
                 (dict_set tid (length (cs_ops c)) (case dict_get (store_dict c) r of None \<Rightarrow> [] | Some d \<Rightarrow> d)) (store_dict c)\<rparr>))"

text \<open>\<open>store(operation, *args)\<close>\<close>

definition current_route :: "changeset \<Rightarrow> link list" where
  "current_route c = (case cached_route c of Some r \<Rightarrow> r | None \<Rightarrow> route_parse (cs_route c))"

definition store_indexed :: "operation \<Rightarrow> link list \<Rightarrow> changeset \<Rightarrow> changeset option" where
  "store_indexed op args c =
     (let r = (if args = [] then current_route c else route_parse (cs_route c @ args));
          c1 = (if args = [] then c\<lparr>cached_route := Some r\<rparr> else c)
      in case first_table_id (fst op) of
           None \<Rightarrow> None
         | Some tid \<Rightarrow> map_option (push_op op) (index_op r tid c1))"

definition store_pos :: "operation \<Rightarrow> changeset \<Rightarrow> changeset" where
  "store_pos op c = push_op op (c\<lparr>cached_route := None, cs_route := cs_route c @ [LInt (int (length (cs_ops c)))]\<rparr>)"

definition store_op :: "operation \<Rightarrow> link list \<Rightarrow> changeset \<Rightarrow> changeset option" where
  "store_op op args c0 = (let c = c0\<lparr>cs_processed := False\<rparr> in
     (if file_operation c = None then Some (push_op op c)
      else if args \<noteq> [] then
        (if link_is (last args) REF_POS then
           (let c1 = c\<lparr>route_count := route_count c @ [2]\<rparr>;
                c2 = (if list_ex (\<lambda>l. link_is l REF_NO_REF) args then c1 else note_multi c1)
            in Some (store_pos op (c2\<lparr>cs_route := cs_route c2 @ [REF_POS]\<rparr>)))
         else if link_is (last args) REF_NO_REF then Some (push_op op c)
         else store_indexed op args c)
      else if cs_route c = [] then None
      else if link_is (last (cs_route c)) REF_POS then
        (if route_count c = [] then None
         else Some (store_pos op (note_multi (c\<lparr>route_count := butlast (route_count c) @ [2]\<rparr>))))
      else if no_ref_depth c > 0 then Some (push_op op c)
      else store_indexed op [] c))"

definition get_route_parse :: "changeset \<Rightarrow> link list" where
  "get_route_parse c = route_parse (cs_route c)"

subsection \<open>Lookups within the file\<close>

text \<open>What can go wrong in a lookup or in the execution of an operation.\<close>

datatype cs_error =
    Index_error
  | Legacy_ref      \<comment> \<open>a reference to another file that is not a four-link AST reference: outside the model\<close>
  | List_value      \<comment> \<open>a \<open>REF_MULTI\<close> reference used as a column value: a list, which no table stores\<close>
  | Shutdown        \<comment> \<open>\<open>G.emergency_shutdown\<close>\<close>
  | Schema_value    \<comment> \<open>the schema of a view used as a column value: outside the model\<close>
  | Type_error
  | Key_error
  | Engine_error

text \<open>\<open>operation[2][col]\<close>: \<open>None\<close> is an \<open>IndexError\<close>, \<open>Some None\<close> a tuple (a reference or a schema).\<close>

fun column :: "ucell list \<Rightarrow> nat \<Rightarrow> cell option option" where
  "column ds i = (if i < length ds then Some (case ds ! i of UVal v \<Rightarrow> Some v | URef _ _ \<Rightarrow> None) else None)"

fun op_column :: "op_body \<Rightarrow> nat \<Rightarrow> cell option option" where
  "op_column (Op_set ds) i = column ds i"
| "op_column (Op_update ds) i = column ds i"
| "op_column (Op_view_set ds) i = column ds i"
| "op_column (Op_done r) i = (if i < length r then Some (Some (r ! i)) else None)"
| "op_column (Op_view_done r) i = (if i < length r then Some (Some (r ! i)) else None)"
| "op_column (Op_ref_view ds s) i = (if i = length ds then Some None else column ds i)"

definition result_at :: "changeset \<Rightarrow> nat \<Rightarrow> row option" where
  "result_at c p = (if p < length (cs_result c) then cs_result c ! p else None)"

text \<open>\<open>_get_value_at\<close>\<close>

definition get_value_at :: "changeset \<Rightarrow> pointer \<Rightarrow> nat option \<Rightarrow> cs_error + cell" where
  "get_value_at c q pos = (case pos of
       None \<Rightarrow> Inr CNone
     | Some p \<Rightarrow>
         if p \<ge> length (cs_ops c) then Inl Index_error
         else (case (case result_at c p of
                 Some r \<Rightarrow> (if snd q < length r then Some (Some (r ! snd q)) else None)
               | None \<Rightarrow> op_column (snd (cs_ops c ! p)) (snd q)) of
             None \<Rightarrow> Inl Index_error
           | Some None \<Rightarrow> Inr CNone
           | Some (Some v) \<Rightarrow> Inr v))"

fun get_values_at :: "changeset \<Rightarrow> pointer \<Rightarrow> nat list \<Rightarrow> cs_error + cell list" where
  "get_values_at c q [] = Inr []"
| "get_values_at c q (p # ps) = (case get_value_at c q (Some p) of
       Inl e \<Rightarrow> Inl e
     | Inr v \<Rightarrow> (case get_values_at c q ps of Inl e \<Rightarrow> Inl e | Inr vs \<Rightarrow> Inr (v # vs)))"

definition get_pos_from_route :: "changeset \<Rightarrow> link list \<Rightarrow> nat \<Rightarrow> nat option" where
  "get_pos_from_route c r tid = (case dict_get (store_dict c) r of None \<Rightarrow> None | Some d \<Rightarrow> dict_get d tid)"

text \<open>\<open>store_dict[REF_MULTI][route[-1]]\<close>\<close>

definition get_multi_from_route :: "changeset \<Rightarrow> link list \<Rightarrow> nat list option" where
  "get_multi_from_route c r = (case last r of
       LInt i \<Rightarrow> if 0 \<le> i \<and> nat i < length (multi_store c) then Some (multi_store c ! nat i) else None
     | _ \<Rightarrow> None)"

datatype resolved = One cell | Many "cell list"

text \<open>\<open>resolve_ref\<close> for a route that does not start with \<open>REF_FILE\<close>.\<close>

definition resolve_local :: "changeset \<Rightarrow> pointer \<Rightarrow> link list \<Rightarrow> cs_error + resolved" where
  "resolve_local c q r = (case r of
       [] \<Rightarrow> Inl Index_error
     | l # _ \<Rightarrow>
         if link_is l REF_NO_REF then Inr (One CNone)
         else if link_is l REF_POS then
           (case route_index r of None \<Rightarrow> Inl Index_error | Some p \<Rightarrow> map_sum id One (get_value_at c q (Some p)))
         else if link_is l REF_MULTI then
           (case get_multi_from_route c r of None \<Rightarrow> Inl Index_error | Some ps \<Rightarrow> map_sum id Many (get_values_at c q ps))
         else map_sum id One (get_value_at c q (get_pos_from_route c r (fst q))))"

text \<open>\<open>ref(query, *args)\<close>: the value when it is known, else the reference.\<close>

datatype ref_result = Ref_value resolved | Ref_later pointer "link list"

definition ref_route :: "changeset \<Rightarrow> link list \<Rightarrow> link list" where
  "ref_route c args =
     (if args = [] then route_parse (cs_route c)
      else if cs_route c \<noteq> [] \<and> link_is (last (cs_route c)) REF_POS \<and> link_is (hd args) REF_POS then route_parse args
      else route_parse (cs_route c @ args))"

definition ref :: "pointer \<Rightarrow> link list \<Rightarrow> changeset \<Rightarrow> cs_error + (ref_result \<times> changeset)" where
  "ref q args c =
     (let r = ref_route c args
      in case r of
           l # f # _ \<Rightarrow>
             (if link_is l REF_FILE
              then Inr (Ref_later q r, (case f of LStr p \<Rightarrow> c\<lparr>foreign_deps := append_new (foreign_deps c) p\<rparr> | _ \<Rightarrow> c))
              else (case resolve_local c q r of
                  Inl e \<Rightarrow> Inl e
                | Inr (One CNone) \<Rightarrow> Inr (Ref_later q r, c)
                | Inr v \<Rightarrow> Inr (Ref_value v, c)))
         | _ \<Rightarrow> (case resolve_local c q r of
                  Inl e \<Rightarrow> Inl e
                | Inr (One CNone) \<Rightarrow> Inr (Ref_later q r, c)
                | Inr v \<Rightarrow> Inr (Ref_value v, c)))"


subsection \<open>Canonical routes are canonical\<close>

definition link_state_ok :: "link list \<times> bool \<times> link option \<Rightarrow> bool" where
  "link_state_ok s = (case s of (acc, d, f) \<Rightarrow>
     (f = Some LFalse \<longrightarrow> acc = [] \<and> d)
     \<and> (\<forall>g. g \<noteq> Some LFalse \<longrightarrow> foldl link_step ([], False, g) acc = (acc, d \<and> f \<noteq> Some LFalse, g)))"

lemma link_is_distinct [simp]:
  "link_is REF_FILE REF_FILE" "\<not> link_is REF_FILE REF_POS" "\<not> link_is REF_FILE REF_MULTI"
  "\<not> bypass_link REF_FILE" "\<not> reset_link REF_FILE"
  by (simp_all add: link_is_def bypass_link_def reset_link_def)

lemma link_step_ok: "link_state_ok s \<Longrightarrow> l \<noteq> LFalse \<Longrightarrow> link_state_ok (link_step s l)"
proof (cases s)
  case (fields acc d f)
  assume "link_state_ok s" "l \<noteq> LFalse"
  then show ?thesis unfolding fields by (cases d) (auto simp: link_state_ok_def)
qed

lemma link_states_ok: "LFalse \<notin> set r \<Longrightarrow> link_state_ok s \<Longrightarrow> link_state_ok (foldl link_step s r)"
proof (induction r arbitrary: s)
  case (Cons l r)
  have "link_state_ok (link_step s l)" by (rule link_step_ok) (use Cons.prems in auto)
  then show ?case using Cons.IH[of "link_step s l"] Cons.prems(1) by simp
qed simp

text \<open>
  A canonical route is left alone: parsing a route twice gives what parsing it once gives, so the routes that
  \<open>ref\<close> and \<open>store\<close> build can be looked up, passed on and parsed again.
\<close>

theorem route_parse_idem:
  assumes "LFalse \<notin> set r"
  shows "route_parse (route_parse r) = route_parse r"
proof -
  obtain acc d f where s: "foldl link_step ([], False, None) r = (acc, d, f)" by (metis prod_cases3)
  have "link_state_ok ([], False, None)" by (simp add: link_state_ok_def)
  then have ok: "link_state_ok (acc, d, f)" using link_states_ok[OF assms] s by metis
  show ?thesis
  proof (cases f)
    case None
    then show ?thesis using s ok by (simp add: route_parse_def link_state_ok_def)
  next
    case (Some l)
    then have "route_parse r = REF_FILE # l # acc" using s by (simp add: route_parse_def)
    moreover have "route_parse (REF_FILE # l # acc) = REF_FILE # l # acc"
      using ok Some by (cases "l = LFalse") (auto simp: route_parse_def link_state_ok_def)
    ultimately show ?thesis by simp
  qed
qed

lemma route_parse_idem_witness:
  "route_parse (route_parse [REF_ROOT, LStr ''a'', REF_FILE, LStr ''x.h'', LStr ''foo'', LInt 60])
     = route_parse [REF_ROOT, LStr ''a'', REF_FILE, LStr ''x.h'', LStr ''foo'', LInt 60]"
  by (rule route_parse_idem) simp

end
