(* ===== verification/ChangeSet_Scopes.thy ===== *)
theory ChangeSet_Scopes
  imports ChangeSet_Routes
begin

section \<open>Scopes of a change set\<close>

text \<open>
  How parsers use a change set: nested \<open>with CS(links):\<close> blocks around \<open>store\<close> calls.  A block gives back the
  link stack it found, the position index only names stored operations, and an operation is found again under the
  route it was stored with.
\<close>

subsection \<open>Nested blocks\<close>

datatype script = Block "link list" "script list" | Store operation "link list"

fun run_script :: "script \<Rightarrow> changeset \<Rightarrow> changeset option"
  and run_scripts :: "script list \<Rightarrow> changeset \<Rightarrow> changeset option" where
  "run_script (Store op args) c = store_op op args c"
| "run_script (Block ls ss) c = do { c1 \<leftarrow> run_scripts ss (push_links ls c); leave c1 }"
| "run_scripts [] c = Some c"
| "run_scripts (s # ss) c = do { c1 \<leftarrow> run_script s c; run_scripts ss c1 }"

text \<open>
  Blocks open with one link, or with several that neither start with a marker \<open>__exit__\<close> counts nor end with
  \<open>REF_POS\<close>; \<open>REF_POS\<close> is not given to \<open>store\<close> itself.  (The parsers only write blocks of one link and plain stores.)
\<close>

definition usable_links :: "link list \<Rightarrow> bool" where
  "usable_links ls \<longleftrightarrow> ls \<noteq> [] \<and> (length ls > 1 \<longrightarrow>
     \<not> link_is (hd ls) REF_MULTI \<and> \<not> link_is (hd ls) REF_NO_REF \<and> \<not> link_is (last ls) REF_POS)"

fun usable :: "script \<Rightarrow> bool" where
  "usable (Store op args) = (args = [] \<or> \<not> link_is (last args) REF_POS)"
| "usable (Block ls ss) = (usable_links ls \<and> list_all usable ss)"

text \<open>
  Markers and numbers share a type: \<open>REF_POS\<close> is the integer 2.  The number of the operation a \<open>REF_POS\<close> block begins
  with, or of the bucket a \<open>REF_MULTI\<close> block opens, is therefore taken for the marker when it is 2 and something is then
  stored directly in the block.  A script is clear, run where \<open>n\<close> operations and \<open>m\<close> buckets exist, when this does not
  happen in any of its blocks.
\<close>

fun ops_in :: "script \<Rightarrow> nat" where
  "ops_in (Store op args) = 1"
| "ops_in (Block ls ss) = sum_list (map ops_in ss)"

fun buckets_in :: "script \<Rightarrow> nat" where
  "buckets_in (Store op args) = 0"
| "buckets_in (Block ls ss) = (if length ls = 1 \<and> link_is (hd ls) REF_MULTI then 1 else 0) + sum_list (map buckets_in ss)"

fun plain_stores :: "script list \<Rightarrow> nat" where
  "plain_stores [] = 0"
| "plain_stores (Store op [] # ss) = Suc (plain_stores ss)"
| "plain_stores (_ # ss) = plain_stores ss"

text \<open>The number of the operation the first plain store makes.\<close>

fun first_store :: "nat \<Rightarrow> script list \<Rightarrow> nat option" where
  "first_store n [] = None"
| "first_store n (Store op [] # ss) = Some n"
| "first_store n (s # ss) = first_store (n + ops_in s) ss"

definition pos_clear :: "nat \<Rightarrow> script list \<Rightarrow> bool" where
  "pos_clear n ss \<longleftrightarrow> (first_store n ss = Some 2 \<longrightarrow> plain_stores ss \<le> 1)"

fun clear :: "nat \<Rightarrow> nat \<Rightarrow> script \<Rightarrow> bool"
  and clear_all :: "nat \<Rightarrow> nat \<Rightarrow> script list \<Rightarrow> bool" where
  "clear n m (Store op args) = True"
| "clear n m (Block ls ss) =
     (if length ls = 1 \<and> link_is (hd ls) REF_MULTI then (m = 2 \<longrightarrow> plain_stores ss = 0) \<and> clear_all n (Suc m) ss
      else (length ls = 1 \<and> link_is (hd ls) REF_POS \<longrightarrow> pos_clear n ss) \<and> clear_all n m ss)"
| "clear_all n m [] = True"
| "clear_all n m (s # ss) = (clear n m s \<and> clear_all (n + ops_in s) (m + buckets_in s) ss)"

text \<open>With three operations and three buckets every script is clear.\<close>

lemma first_store_le: "first_store n ss = Some k \<Longrightarrow> n \<le> k"
  by (induction n ss rule: first_store.induct) auto

lemma later_scripts_clear:
  "3 \<le> n \<Longrightarrow> 3 \<le> m \<Longrightarrow> clear n m s"
  "3 \<le> n \<Longrightarrow> 3 \<le> m \<Longrightarrow> clear_all n m ss"
  by (induction n m s and n m ss rule: clear_clear_all.induct) (auto simp: pos_clear_def dest: first_store_le)

subsection \<open>The link stack is given back\<close>

definition same_scope :: "changeset \<Rightarrow> changeset \<Rightarrow> bool" where
  "same_scope c c' \<longleftrightarrow> cs_route c' = cs_route c \<and> route_count c' = route_count c \<and> multi_stack c' = multi_stack c
     \<and> no_ref_depth c' = no_ref_depth c"

text \<open>Operations and buckets are only added, so many of them.\<close>

definition grown :: "nat \<Rightarrow> nat \<Rightarrow> changeset \<Rightarrow> changeset \<Rightarrow> bool" where
  "grown k l c c' \<longleftrightarrow> length (cs_ops c') = length (cs_ops c) + k \<and> length (multi_store c') = length (multi_store c) + l"

text \<open>Inside a \<open>REF_POS\<close> block, the first stored operation adds its position to the route.\<close>

definition opened :: "changeset \<Rightarrow> changeset \<Rightarrow> bool" where
  "opened c c' \<longleftrightarrow> same_scope c c' \<or>
     (link_is (last (cs_route c)) REF_POS \<and> route_count c \<noteq> [] \<and>
      (\<exists>p. cs_route c' = cs_route c @ [LInt p]) \<and> route_count c' = butlast (route_count c) @ [2]
      \<and> multi_stack c' = multi_stack c \<and> no_ref_depth c' = no_ref_depth c)"

lemma same_scope_trans: "same_scope a b \<Longrightarrow> same_scope b c \<Longrightarrow> same_scope a c"
  by (simp add: same_scope_def)

lemma opened_same: "opened c c' \<Longrightarrow> \<not> link_is (last (cs_route c)) REF_POS \<Longrightarrow> same_scope c c'"
  by (auto simp: opened_def)

lemma opened_then: "opened a b \<Longrightarrow> same_scope b c \<Longrightarrow> opened a c"
  by (auto simp: opened_def same_scope_def)

lemma same_then_opened: "same_scope a b \<Longrightarrow> opened b c \<Longrightarrow> opened a c"
  by (auto simp: opened_def same_scope_def)

lemma pop_links_append: "r \<noteq> [] \<Longrightarrow> cs_route c = r @ xs \<Longrightarrow> pop_links (length xs) c = c\<lparr>cs_route := r\<rparr>"
proof (induction xs arbitrary: c rule: rev_induct)
  case (snoc x xs)
  have l: "\<not> length (cs_route c) \<le> 1" using snoc.prems by (cases r) auto
  have "butlast (cs_route c) = r @ xs" using snoc.prems by (simp add: butlast_append)
  then have "pop_links (length xs) (c\<lparr>cs_route := butlast (cs_route c)\<rparr>) = c\<lparr>cs_route := r\<rparr>"
    using snoc.IH[of "c\<lparr>cs_route := butlast (cs_route c)\<rparr>"] snoc.prems(1) by simp
  then show ?case using l by simp
qed simp

lemma popped_append: "xs \<noteq> [] \<Longrightarrow> popped_links (length xs) (r @ xs) = xs"
  by (simp add: popped_links_def)

text \<open>Leaving a block whose links are \<open>xs\<close>.\<close>

lemma leave_block:
  assumes "leave c = Some c'" "r \<noteq> []" "cs_route c = r @ xs" "xs \<noteq> []" "route_count c = rc @ [length xs]"
  shows "cs_route c' = r \<and> route_count c' = rc \<and> grown 0 0 c c'
    \<and> multi_stack c' = (if link_is (hd xs) REF_MULTI \<and> multi_stack c \<noteq> [] then butlast (multi_stack c) else multi_stack c)
    \<and> no_ref_depth c' = (if \<not> (link_is (hd xs) REF_MULTI \<and> multi_stack c \<noteq> []) \<and> link_is (hd xs) REF_NO_REF
        then no_ref_depth c - 1 else no_ref_depth c)"
proof -
  let ?d = "forget_links xs (c\<lparr>cached_route := None, route_count := rc\<rparr>)"
  have "c' = pop_links (length xs) ?d"
    using assms(1,3-5) by (auto simp: leave_def Let_def popped_append)
  moreover have "cs_route ?d = r @ xs" using assms(3) by (simp add: forget_links_def)
  ultimately have "c' = ?d\<lparr>cs_route := r\<rparr>" using pop_links_append[OF assms(2)] by metis
  then show ?thesis using assms(4) by (simp add: grown_def forget_links_def)
qed

lemma index_op_scope: "index_op r tid c = Some c' \<Longrightarrow> same_scope c c' \<and> cs_ops c' = cs_ops c \<and> length (multi_store c') = length (multi_store c)"
  by (auto simp: index_op_def same_scope_def split: list.splits if_splits option.splits)

lemma store_indexed_scope: "store_indexed op args c = Some c' \<Longrightarrow> same_scope c c' \<and> grown 1 0 c c'"
  using index_op_scope by (fastforce simp: store_indexed_def Let_def push_op_def same_scope_def grown_def split: option.splits if_splits)

text \<open>The ways a \<open>store\<close> ends.\<close>

lemma store_cases:
  assumes s: "store_op op args c = Some c'"
  defines "d \<equiv> c\<lparr>cs_processed := False\<rparr>"
  shows "c' = push_op op d \<or> store_indexed op args d = Some c' \<or> store_indexed op [] d = Some c'
    \<or> (args = [] \<and> link_is (last (cs_route c)) REF_POS \<and> route_count c \<noteq> []
        \<and> c' = store_pos op (note_multi (d\<lparr>route_count := butlast (route_count c) @ [2]\<rparr>)))
    \<or> (\<exists>e. args \<noteq> [] \<and> link_is (last args) REF_POS
        \<and> e \<in> {d\<lparr>route_count := route_count c @ [2]\<rparr>, note_multi (d\<lparr>route_count := route_count c @ [2]\<rparr>)}
        \<and> c' = store_pos op (e\<lparr>cs_route := cs_route e @ [REF_POS]\<rparr>))"
proof (cases "file_operation c = None")
  case True
  then show ?thesis using s by (simp add: store_op_def Let_def d_def)
next
  case f: False
  show ?thesis
  proof (cases "args = []")
    case True
    then show ?thesis using s f by (cases "cs_route c = []") (simp_all add: store_op_def Let_def d_def split: if_split_asm)
  next
    case a: False
    show ?thesis
    proof (cases "link_is (last args) REF_POS")
      case True
      define e where "e = (if list_ex (\<lambda>l. link_is l REF_NO_REF) args then d\<lparr>route_count := route_count c @ [2]\<rparr>
        else note_multi (d\<lparr>route_count := route_count c @ [2]\<rparr>))"
      have "c' = store_pos op (e\<lparr>cs_route := cs_route e @ [REF_POS]\<rparr>)"
        using s f a True by (cases "list_ex (\<lambda>l. link_is l REF_NO_REF) args") (simp_all add: store_op_def Let_def d_def e_def)
      moreover have "e \<in> {d\<lparr>route_count := route_count c @ [2]\<rparr>, note_multi (d\<lparr>route_count := route_count c @ [2]\<rparr>)}"
        by (simp add: e_def)
      ultimately show ?thesis using a True by blast
    next
      case False
      then show ?thesis using s f a by (simp add: store_op_def Let_def d_def split: if_split_asm)
    qed
  qed
qed

text \<open>A plain store in an open \<open>REF_POS\<close> scope opens its position; any other keeps the scope.\<close>

lemma store_scope:
  assumes s: "store_op op args c = Some c'" and u: "args = [] \<or> \<not> link_is (last args) REF_POS"
  shows "opened c c' \<and> grown 1 0 c c' \<and> (args \<noteq> [] \<longrightarrow> same_scope c c')
    \<and> (args = [] \<longrightarrow> same_scope c c' \<or> last (cs_route c') = LInt (int (length (cs_ops c))) \<and> file_operation c \<noteq> None)"
proof -
  let ?c = "c\<lparr>cs_processed := False\<rparr>"
  have base: ?thesis if "same_scope ?c c' \<and> grown 1 0 ?c c'"
    using that by (simp add: opened_def same_scope_def grown_def)
  from store_cases[OF s] show ?thesis
  proof (elim disjE conjE exE)
    assume "c' = push_op op ?c"
    then show ?thesis by (simp add: opened_def same_scope_def grown_def push_op_def)
  next
    assume p: "args = []" "link_is (last (cs_route c)) REF_POS" "route_count c \<noteq> []"
      "c' = store_pos op (note_multi (?c\<lparr>route_count := butlast (route_count c) @ [2]\<rparr>))"
    moreover have "same_scope c c'" if "file_operation c = None" using s that by (auto simp: store_op_def Let_def push_op_def same_scope_def)
    ultimately show ?thesis by (auto simp: opened_def grown_def store_pos_def push_op_def note_multi_def)
  next
    assume "store_indexed op args ?c = Some c'"
    then show ?thesis by (rule base[OF store_indexed_scope])
  next
    assume "store_indexed op [] ?c = Some c'"
    then show ?thesis by (rule base[OF store_indexed_scope])
  qed (use u in auto)
qed

lemma call_scope:
  assumes "usable_links ls"
  obtains xs where "cs_route (push_links ls c) = cs_route c @ xs" "route_count (push_links ls c) = route_count c @ [length xs]" "xs \<noteq> []"
    "hd xs = hd ls" "link_is (last xs) REF_POS \<longrightarrow> length ls = 1 \<and> (if link_is (hd ls) REF_MULTI then length (multi_store c) = 2 else xs = ls)"
    "multi_stack (push_links ls c) = (if link_is (hd ls) REF_MULTI then multi_stack c @ [length (multi_store c)] else multi_stack c)"
    "no_ref_depth (push_links ls c) = (if link_is (hd ls) REF_NO_REF then no_ref_depth c + 1 else no_ref_depth c)"
    "grown 0 (if length ls = 1 \<and> link_is (hd ls) REF_MULTI then 1 else 0) c (push_links ls c)"
proof (cases "length ls = 1")
  case True
  then obtain l where l: "ls = [l]" by (metis One_nat_def length_0_conv length_Suc_conv)
  show ?thesis
  proof (cases "link_is l REF_MULTI")
    case True
    then have "\<not> link_is l REF_NO_REF" by (auto simp: link_is_def)
    then show ?thesis using that[of "[l, LInt (int (length (multi_store c)))]"] l True
      by (simp add: push_links_def Let_def grown_def link_is_def)
  next
    case False
    then show ?thesis using that[of "[l]"] l by (simp add: push_links_def Let_def grown_def)
  qed
next
  case False
  then have "length ls > 1" using assms(1) by (cases ls) (auto simp: usable_links_def)
  then obtain l k rest where ls: "ls = l # k # rest" by (cases ls; cases "tl ls") auto
  then have "\<not> link_is l REF_MULTI" "\<not> link_is l REF_NO_REF" "\<not> link_is (last ls) REF_POS" using assms(1) by (auto simp: usable_links_def)
  then show ?thesis using that[of ls] ls by (simp add: push_links_def Let_def grown_def)
qed

lemma grown_trans: "grown k l a b \<Longrightarrow> grown k' l' b c \<Longrightarrow> grown (k + k') (l + l') a c"
  by (simp add: grown_def)

lemma block_scope:
  assumes body: "opened (push_links ls c) c1" "link_is (hd ls) REF_MULTI \<Longrightarrow> same_scope (push_links ls c) c1"
    and lv: "leave c1 = Some c'" and ul: "usable_links ls" and c: "cs_route c \<noteq> []"
  shows "same_scope c c' \<and> grown 0 0 c1 c'"
proof -
  let ?p = "push_links ls c"
  obtain xs where x: "cs_route ?p = cs_route c @ xs" "route_count ?p = route_count c @ [length xs]" "xs \<noteq> []"
    "hd xs = hd ls" "link_is (last xs) REF_POS \<longrightarrow> length ls = 1 \<and> (if link_is (hd ls) REF_MULTI then length (multi_store c) = 2 else xs = ls)"
    "multi_stack ?p = (if link_is (hd ls) REF_MULTI then multi_stack c @ [length (multi_store c)] else multi_stack c)"
    "no_ref_depth ?p = (if link_is (hd ls) REF_NO_REF then no_ref_depth c + 1 else no_ref_depth c)"
    "grown 0 (if length ls = 1 \<and> link_is (hd ls) REF_MULTI then 1 else 0) c ?p"
    by (rule call_scope[OF ul, of c])
  obtain ys where y: "cs_route c1 = cs_route c @ ys" "route_count c1 = route_count c @ [length ys]" "ys \<noteq> []" "hd ys = hd ls"
  proof (cases "same_scope (push_links ls c) c1")
    case True
    then show ?thesis using that[of xs] x(1-4) by (simp add: same_scope_def)
  next
    case False
    then obtain p where p: "link_is (last (cs_route (push_links ls c))) REF_POS" "cs_route c1 = cs_route (push_links ls c) @ [LInt p]"
      "route_count c1 = butlast (route_count (push_links ls c)) @ [2]" using body(1) by (auto simp: opened_def)
    moreover have "\<not> link_is (hd ls) REF_MULTI" using body(2) False by blast
    ultimately have "xs = ls \<and> length ls = 1" using x(1,3,5) by simp
    then have "length xs = 1" by simp
    then show ?thesis using that[of "xs @ [LInt p]"] p x(1-4) by simp
  qed
  have m: "multi_stack c1 = multi_stack (push_links ls c)" "no_ref_depth c1 = no_ref_depth (push_links ls c)"
    using body(1) by (auto simp: opened_def same_scope_def)
  have not_both: "\<not> (link_is (hd ls) REF_MULTI \<and> link_is (hd ls) REF_NO_REF)" by (auto simp: link_is_def)
  note lb = leave_block[OF lv c y(1,3,2)]
  then show ?thesis using y(4) m x(6,7) not_both by (auto simp: same_scope_def)
qed

lemma index_op_file: "index_op r tid c = Some c' \<Longrightarrow> file_operation c' = file_operation c"
  by (auto simp: index_op_def split: list.splits if_splits option.splits)

lemma store_file: "store_op op args c = Some c' \<Longrightarrow> file_operation c' = file_operation c"
  by (auto simp: store_op_def Let_def push_op_def store_pos_def note_multi_def store_indexed_def dest: index_op_file split: if_splits option.splits)

lemma pop_links_file: "file_operation (pop_links n c) = file_operation c"
  by (induction n c rule: pop_links.induct) simp_all

lemma block_file: "file_operation (push_links ls c) = file_operation c" "leave c = Some c' \<Longrightarrow> file_operation c' = file_operation c"
  by (auto simp: push_links_def Let_def leave_def forget_links_def pop_links_file split: list.splits if_splits)

text \<open>
  A list of scripts keeps the scope where the last link is no \<open>REF_POS\<close> or nothing is stored directly, and where it is
  opens at most the position of the first plain store.
\<close>

lemma scripts_scope:
  "run_script s c = Some c' \<Longrightarrow> usable s \<Longrightarrow> cs_route c \<noteq> [] \<Longrightarrow> clear (length (cs_ops c)) (length (multi_store c)) s
     \<Longrightarrow> grown (ops_in s) (buckets_in s) c c' \<and> opened c c' \<and> (plain_stores [s] = 0 \<longrightarrow> same_scope c c')
       \<and> (same_scope c c' \<or> last (cs_route c') = LInt (int (length (cs_ops c)))) \<and> (file_operation c = None \<longrightarrow> same_scope c c')
       \<and> file_operation c' = file_operation c"
  "run_scripts ss c = Some c' \<Longrightarrow> list_all usable ss \<Longrightarrow> cs_route c \<noteq> [] \<Longrightarrow> clear_all (length (cs_ops c)) (length (multi_store c)) ss
     \<Longrightarrow> grown (sum_list (map ops_in ss)) (sum_list (map buckets_in ss)) c c'
       \<and> (\<not> link_is (last (cs_route c)) REF_POS \<or> plain_stores ss = 0 \<longrightarrow> same_scope c c')
       \<and> (pos_clear (length (cs_ops c)) ss \<longrightarrow> opened c c') \<and> (file_operation c = None \<longrightarrow> same_scope c c')
       \<and> file_operation c' = file_operation c"
proof (induction s c and ss c arbitrary: c' and c' rule: run_script_run_scripts.induct)
  case (1 op args c)
  then show ?case using store_scope[of op args c c'] store_file[of op args c c'] by (cases args) auto
next
  case (2 ls ss c)
  obtain c1 where r: "run_scripts ss (push_links ls c) = Some c1" "leave c1 = Some c'"
    using 2(2) by (auto split: bind_splits)
  have ul: "usable_links ls" "list_all usable ss" using 2(3) by simp_all
  let ?p = "push_links ls c" and ?b = "if length ls = 1 \<and> link_is (hd ls) REF_MULTI then 1 else 0 :: nat"
  obtain xs where x0: "cs_route ?p = cs_route c @ xs" "route_count ?p = route_count c @ [length xs]" "xs \<noteq> []"
    "hd xs = hd ls" "link_is (last xs) REF_POS \<longrightarrow> length ls = 1 \<and> (if link_is (hd ls) REF_MULTI then length (multi_store c) = 2 else xs = ls)"
    "multi_stack ?p = (if link_is (hd ls) REF_MULTI then multi_stack c @ [length (multi_store c)] else multi_stack c)"
    "no_ref_depth ?p = (if link_is (hd ls) REF_NO_REF then no_ref_depth c + 1 else no_ref_depth c)"
    "grown 0 (if length ls = 1 \<and> link_is (hd ls) REF_MULTI then 1 else 0) c ?p"
    by (rule call_scope[OF ul(1), of c])
  note x = x0(1,3,5,8)
  have last: "last (cs_route ?p) = last xs" using x(1,2) by simp
  have multi: "link_is (hd ls) REF_MULTI \<Longrightarrow> length ls = 1" using ul(1) by (cases ls) (auto simp: usable_links_def)
  have "clear_all (length (cs_ops ?p)) (length (multi_store ?p)) ss" using 2(5) x(4) by (auto simp: grown_def split: if_splits)
  then have body: "grown (sum_list (map ops_in ss)) (sum_list (map buckets_in ss)) ?p c1"
    "\<not> link_is (last (cs_route ?p)) REF_POS \<or> plain_stores ss = 0 \<longrightarrow> same_scope ?p c1" "pos_clear (length (cs_ops ?p)) ss \<longrightarrow> opened ?p c1"
    "file_operation c1 = file_operation ?p"
    using 2(1)[OF r(1) ul(2)] x(1,2) by simp_all
  have same: "same_scope ?p c1" if m: "link_is (hd ls) REF_MULTI"
  proof -
    have "length (multi_store c) = 2 \<longrightarrow> plain_stores ss = 0" using 2(5) m multi by simp
    then show ?thesis using body(2) x(3) m last by (metis (full_types))
  qed
  have opn: "opened ?p c1"
  proof (cases "link_is (last xs) REF_POS \<and> \<not> link_is (hd ls) REF_MULTI")
    case True
    then have "xs = ls" "length ls = 1" using x(3) by auto
    then have "link_is (hd ls) REF_POS" using True by (cases ls) auto
    then have "pos_clear (length (cs_ops c)) ss" using 2(5) True \<open>length ls = 1\<close> by simp
    then show ?thesis using body(3) x(4) by (simp add: grown_def)
  next
    case False
    then show ?thesis using same body(2) last by (auto simp: opened_def)
  qed
  have "same_scope c c'" "grown 0 0 c1 c'" using block_scope[OF opn same r(2) ul(1) 2(4)] by simp_all
  moreover have "grown (ops_in (Block ls ss)) (buckets_in (Block ls ss)) c c1" using grown_trans[OF x(4) body(1)] by simp
  ultimately show ?case using grown_trans[of "ops_in (Block ls ss)" "buckets_in (Block ls ss)" c c1 0 0 c'] body(4) block_file r(2)
    by (simp add: opened_def)
next
  case (3 c)
  then show ?case by (simp add: opened_def same_scope_def grown_def)
next
  case (4 s ss c)
  let ?n = "length (cs_ops c)"
  obtain c1 where r: "run_script s c = Some c1" "run_scripts ss c1 = Some c'" using 4(3) by (auto split: bind_splits)
  have f: "grown (ops_in s) (buckets_in s) c c1" "opened c c1" "plain_stores [s] = 0 \<longrightarrow> same_scope c c1"
    "same_scope c c1 \<or> last (cs_route c1) = LInt (int ?n)" "file_operation c = None \<longrightarrow> same_scope c c1"
    "file_operation c1 = file_operation c" using 4(1)[OF r(1)] 4(4-6) by simp_all
  have ne: "cs_route c1 \<noteq> []" using f(2) 4(5) by (auto simp: opened_def same_scope_def)
  have "clear_all (length (cs_ops c1)) (length (multi_store c1)) ss" using 4(6) f(1) by (simp add: grown_def)
  then have g: "grown (sum_list (map ops_in ss)) (sum_list (map buckets_in ss)) c1 c'"
    "\<not> link_is (last (cs_route c1)) REF_POS \<or> plain_stores ss = 0 \<Longrightarrow> same_scope c1 c'"
    "pos_clear (length (cs_ops c1)) ss \<Longrightarrow> opened c1 c'" "file_operation c1 = None \<Longrightarrow> same_scope c1 c'"
    "file_operation c' = file_operation c1" using 4(2)[OF r] 4(4) ne by simp_all
  have "same_scope c c'" if h: "\<not> link_is (last (cs_route c)) REF_POS \<or> plain_stores (s # ss) = 0"
  proof -
    have p: "plain_stores (s # ss) = plain_stores [s] + plain_stores ss" by (cases s; cases "case s of Store op args \<Rightarrow> args | _ \<Rightarrow> []") auto
    have "same_scope c c1" using h f(2,3) opened_same p by auto
    then show ?thesis using h g(2) p same_scope_trans[of c c1 c'] by (auto simp: same_scope_def)
  qed
  moreover have "opened c c'" if h: "pos_clear ?n (s # ss)"
  proof (cases "\<exists>op. s = Store op []")
    case True
    then obtain op where s: "s = Store op []" by blast
    show ?thesis
    proof (cases "same_scope c c1")
      case same: True
      show ?thesis
      proof (cases "link_is (last (cs_route c)) REF_POS")
        case pos: True
        then have "file_operation c = None" using r(1) s same 4(5)
          by (auto simp: store_op_def Let_def store_pos_def push_op_def note_multi_def same_scope_def split: if_splits)
        then show ?thesis using f(5,6) g(4) same_scope_trans[of c c1 c'] by (simp add: opened_def)
      next
        case False
        then have "same_scope c1 c'" using g(2) same by (simp add: same_scope_def)
        then show ?thesis using f(2) opened_then by blast
      qed
    next
      case False
      then have "last (cs_route c1) = LInt (int ?n)" using f(4) by blast
      then have "\<not> link_is (last (cs_route c1)) REF_POS \<or> plain_stores ss = 0"
        using h s by (auto simp: pos_clear_def link_is_def)
      then show ?thesis using g(2) f(2) opened_then by blast
    qed
  next
    case False
    then have ns: "plain_stores [s] = 0" "first_store ?n (s # ss) = first_store (?n + ops_in s) ss" "plain_stores (s # ss) = plain_stores ss"
      by (cases s; cases "case s of Store op args \<Rightarrow> args | _ \<Rightarrow> []"; auto)+
    then have "pos_clear (length (cs_ops c1)) ss" using h f(1) by (simp add: pos_clear_def grown_def)
    then show ?thesis using g(3) f(3) ns(1) same_then_opened by blast
  qed
  moreover have "file_operation c = None \<longrightarrow> same_scope c c'" using f(5,6) g(4) same_scope_trans[of c c1 c'] by simp
  ultimately show ?case using grown_trans[OF f(1) g(1)] f(6) g(5) by simp
qed

text \<open>
  C25: A \<open>with CS(links):\<close> block gives back the link stack it found: the route, the counts, the bucket stack and the
  no-reference depth are what they were, whatever is stored and nested inside, in the first block of a file as in any
  later one, unless something is stored in one of its blocks after a position 2, or directly in the bucket 2, which the code
  takes for the marker \<open>REF_POS\<close> (see \<open>third_bucket_sticks\<close>).
\<close>

theorem blocks_restore_scope:
  assumes "run_script (Block ls ss) c = Some c'" "usable (Block ls ss)" "cs_route c \<noteq> []"
    and "clear (length (cs_ops c)) (length (multi_store c)) (Block ls ss)"
  shows "cs_route c' = cs_route c \<and> route_count c' = route_count c \<and> multi_stack c' = multi_stack c \<and> no_ref_depth c' = no_ref_depth c"
  using scripts_scope(1)[OF assms] by (simp add: same_scope_def)

definition new_file :: changeset where
  "new_file = new_changeset (Some ''M'') (Some ''a.c'') None"

lemma blocks_restore_scope_witness:
  "\<exists>c'. run_script (Block [REF_MULTI] [Block [REF_POS] [Store (JTable 7, Op_set [UVal CNone]) [], Store (JTable 8, Op_set [UVal CNone]) []]]) new_file = Some c'
     \<and> length (cs_ops c') = 2 \<and> cs_route c' = [REF_ROOT] \<and> multi_stack c' = []"
proof -
  let ?s = "Block [REF_MULTI] [Block [REF_POS] [Store (JTable 7, Op_set [UVal CNone]) [], Store (JTable 8, Op_set [UVal CNone]) []]]"
  have r: "map_option (\<lambda>c. length (cs_ops c)) (run_script ?s new_file) = Some 2" by code_simp
  then obtain c' where c': "run_script ?s new_file = Some c'" "length (cs_ops c') = 2" by auto
  moreover have "cs_route new_file = [REF_ROOT]" "multi_stack new_file = []" "clear (length (cs_ops new_file)) (length (multi_store new_file)) ?s"
    by code_simp+
  ultimately show ?thesis using blocks_restore_scope[OF c'(1)] by (simp add: usable_links_def)
qed

definition two_ops :: changeset where
  "two_ops = (new_changeset (Some ''M'') (Some ''a.c'') None)
     \<lparr>cs_ops := replicate 3 (JTable 1, Op_set [UVal CNone]), multi_store := [[], [], []]\<rparr>"

text \<open>
  The marker \<open>REF_POS\<close> is the integer 2, and so is the index of the third multi bucket: a plain \<open>store\<close> in that
  bucket takes the bucket's index for an open \<open>REF_POS\<close> scope, and the block leaves its links behind; so does a second store
  in a \<open>REF_POS\<close> block that began with the third operation.
\<close>

lemma third_position_sticks:
  "map_option cs_route (run_scripts
     [Store (JTable 1, Op_set [UVal CNone]) [], Store (JTable 1, Op_set [UVal CNone]) [],
      Block [REF_POS] [Store (JTable 1, Op_set [UVal CNone]) [], Store (JTable 1, Op_set [UVal CNone]) []]] new_file)
   = Some [REF_ROOT, REF_POS]"
  by code_simp

lemma third_bucket_sticks:
  "map_option (\<lambda>c. (cs_route c, multi_stack c)) (run_scripts
     [Block [REF_MULTI] [], Block [REF_MULTI] [], Block [REF_MULTI] [Store (JTable 1, Op_set [UVal CNone]) []]]
     new_file) = Some ([REF_ROOT, REF_MULTI], [2])"
  by code_simp

subsection \<open>What the index names is there\<close>

definition cs_ok :: "changeset \<Rightarrow> bool" where
  "cs_ok c \<longleftrightarrow> cs_route c \<noteq> [] \<and> (\<forall>r. cached_route c = Some r \<longrightarrow> r = route_parse (cs_route c))
     \<and> (\<forall>r d t p. dict_get (store_dict c) r = Some d \<longrightarrow> dict_get d t = Some p \<longrightarrow> p < length (cs_ops c))
     \<and> (\<forall>ps \<in> set (multi_store c). \<forall>p \<in> set ps. p < length (cs_ops c))
     \<and> (\<forall>i \<in> set (multi_stack c). i < length (multi_store c))"

lemma cs_ok_call: "cs_ok c \<Longrightarrow> cs_ok (push_links ls c)"
  by (auto simp: cs_ok_def push_links_def Let_def split: list.splits)

lemma cs_ok_pop: "cs_ok c \<Longrightarrow> cached_route c = None \<or> cs_route c = [REF_ROOT] \<Longrightarrow> cs_ok (pop_links n c)"
proof (induction n c rule: pop_links.induct)
  case (2 n c)
  show ?case
  proof (cases "length (cs_route c) \<le> 1")
    case True
    have "route_parse [REF_ROOT] = [REF_ROOT]" by code_simp
    then have "cs_ok (c\<lparr>cs_route := [REF_ROOT], cached_route := Some [REF_ROOT]\<rparr>)" using 2(3) by (simp add: cs_ok_def)
    then show ?thesis using 2(1) True by simp
  next
    case False
    then have n: "cached_route c = None" using 2(4) by auto
    have "butlast (cs_route c) \<noteq> []" using False by (cases "cs_route c" rule: rev_cases) auto
    then have "cs_ok (c\<lparr>cs_route := butlast (cs_route c)\<rparr>)" using 2(3) n by (simp add: cs_ok_def)
    then show ?thesis using 2(2) False n by simp
  qed
qed simp

lemma cs_ok_leave: "cs_ok c \<Longrightarrow> leave c = Some c' \<Longrightarrow> cs_ok c'"
proof -
  assume ok: "cs_ok c" and l: "leave c = Some c'"
  let ?d = "forget_links (popped_links (last (route_count c)) (cs_route c))
      (c\<lparr>cached_route := None, route_count := butlast (route_count c)\<rparr>)"
  have "cs_ok ?d \<and> cached_route ?d = None" using ok by (auto simp: cs_ok_def forget_links_def dest: in_set_butlastD)
  then show ?thesis using l cs_ok_pop[of ?d] by (auto simp: leave_def Let_def split: if_splits)
qed

lemma in_set_update: "x \<in> set (xs[i := y]) \<Longrightarrow> x = y \<or> x \<in> set xs"
  using set_update_subset_insert by fastforce

lemma cs_ok_push: "cs_ok c \<Longrightarrow> cs_ok (push_op op c)"
  by (fastforce simp: cs_ok_def push_op_def)

text \<open>A bucket that gets the next position.\<close>

lemma cs_ok_bucket:
  assumes "cs_ok c" "i < length (multi_store c)"
  shows "cs_ok (push_op op (c\<lparr>multi_store := (multi_store c)[i := multi_store c ! i @ [length (cs_ops c)]]\<rparr>))"
proof -
  have b: "p < Suc (length (cs_ops c))" if "ps \<in> set ((multi_store c)[i := multi_store c ! i @ [length (cs_ops c)]])" "p \<in> set ps" for ps p
  proof -
    have "multi_store c ! i \<in> set (multi_store c)" using assms(2) by simp
    moreover have "ps = multi_store c ! i @ [length (cs_ops c)] \<or> ps \<in> set (multi_store c)" by (rule in_set_update[OF that(1)])
    ultimately show ?thesis using that(2) assms(1) by (auto simp: cs_ok_def less_Suc_eq)
  qed
  have d: "p < Suc (length (cs_ops c))" if "dict_get (store_dict c) r = Some d" "dict_get d t = Some p" for r d t p
    using assms(1) that unfolding cs_ok_def by (metis less_Suc_eq)
  show ?thesis using assms(1) b d unfolding cs_ok_def push_op_def by simp
qed


lemma cs_ok_index:
  assumes "cs_ok c" "index_op r tid c = Some c'"
  shows "cs_ok (push_op op c')"
proof (cases "r = [] \<or> \<not> link_is (hd r) REF_MULTI")
  case True
  then have c': "c' = c\<lparr>store_dict := dict_set r
      (dict_set tid (length (cs_ops c)) (case dict_get (store_dict c) r of None \<Rightarrow> [] | Some d \<Rightarrow> d)) (store_dict c)\<rparr>"
    using assms(2) by (cases r) (auto simp: index_op_def)
  have "p < Suc (length (cs_ops c))" if g: "dict_get (store_dict c') r1 = Some d" "dict_get d t = Some p" for r1 d t p
  proof (cases "r1 = r")
    case True
    then have d: "d = dict_set tid (length (cs_ops c)) (case dict_get (store_dict c) r of None \<Rightarrow> [] | Some d \<Rightarrow> d)"
      using g(1) c' by simp
    show ?thesis
    proof (cases "t = tid")
      case t: False
      then obtain d0 where "dict_get (store_dict c) r = Some d0" "dict_get d0 t = Some p"
        using g(2) d by (cases "dict_get (store_dict c) r") simp_all
      then have "p < length (cs_ops c)" using assms(1) unfolding cs_ok_def by blast
      then show ?thesis by simp
    qed (use g(2) d in simp)
  next
    case False
    then have "p < length (cs_ops c)" using g c' assms(1) unfolding cs_ok_def by auto
    then show ?thesis by simp
  qed
  moreover have "\<forall>ps \<in> set (multi_store c). \<forall>p \<in> set ps. p < Suc (length (cs_ops c))"
    using assms(1) by (auto simp: cs_ok_def less_Suc_eq)
  ultimately show ?thesis using assms(1) c' by (simp add: cs_ok_def push_op_def)
next
  case False
  then show ?thesis using assms cs_ok_bucket[where op = op] by (cases r) (auto simp: index_op_def split: option.splits if_splits)
qed

lemma cs_ok_indexed: "cs_ok c \<Longrightarrow> store_indexed op args c = Some c' \<Longrightarrow> cs_ok c'"
proof -
  assume ok: "cs_ok c" and s: "store_indexed op args c = Some c'"
  have r: "current_route c = route_parse (cs_route c)" using ok by (auto simp: cs_ok_def current_route_def split: option.splits)
  then have "cs_ok (c\<lparr>cached_route := Some (current_route c)\<rparr>)" using ok by (simp add: cs_ok_def)
  then show ?thesis using s ok cs_ok_index[where op = op] by (auto simp: store_indexed_def Let_def split: option.splits if_splits)
qed

lemma cs_ok_note: "cs_ok c \<Longrightarrow> cs_ok (push_op op (note_multi c))"
  unfolding note_multi_def by (rule if_split[THEN iffD2]) (blast intro: cs_ok_push cs_ok_bucket)

lemma cs_ok_store_pos: "cs_ok (push_op op c) \<Longrightarrow> cs_ok (store_pos op (c\<lparr>cs_route := ls\<rparr>))"
  by (simp add: cs_ok_def store_pos_def push_op_def)

lemma cs_ok_store:
  assumes "cs_ok c" "store_op op args c = Some c'"
  shows "cs_ok c'"
proof -
  let ?c = "c\<lparr>cs_processed := False\<rparr>"
  have ok: "cs_ok ?c" using assms(1) by (simp add: cs_ok_def)
  have rc: "cs_ok (?c\<lparr>route_count := xs\<rparr>)" for xs using ok by (simp add: cs_ok_def)
  from store_cases[OF assms(2)] show ?thesis
  proof (elim disjE conjE exE)
    assume "c' = push_op op ?c"
    then show ?thesis using cs_ok_push[OF ok] by simp
  next
    fix d assume d: "d \<in> {?c\<lparr>route_count := route_count c @ [2]\<rparr>, note_multi (?c\<lparr>route_count := route_count c @ [2]\<rparr>)}"
      and c': "c' = store_pos op (d\<lparr>cs_route := cs_route d @ [REF_POS]\<rparr>)"
    have "cs_ok (push_op op d)" using d cs_ok_push[OF rc] cs_ok_note[OF rc] by blast
    then show ?thesis unfolding c' by (rule cs_ok_store_pos)
  next
    assume "c' = store_pos op (note_multi (?c\<lparr>route_count := butlast (route_count c) @ [2]\<rparr>))"
    then show ?thesis
      using cs_ok_store_pos[OF cs_ok_note[OF rc[of "butlast (route_count c) @ [2]"]],
        of op "cs_route (note_multi (?c\<lparr>route_count := butlast (route_count c) @ [2]\<rparr>))"] by simp
  next
    assume "store_indexed op args ?c = Some c'"
    then show ?thesis by (rule cs_ok_indexed[OF ok])
  next
    assume "store_indexed op [] ?c = Some c'"
    then show ?thesis by (rule cs_ok_indexed[OF ok])
  qed
qed

text \<open>
  C33: The index of a change set names only operations that are there.  Whatever blocks and stores are run, every
  position in \<open>store_dict\<close> and in the multi buckets is the position of a stored operation, every open bucket exists,
  and the cached route is the canonical form of the link stack.
\<close>

theorem scripts_keep_index:
  assumes "run_scripts ss c = Some c'" "cs_ok c"
  shows "cs_ok c'"
proof -
  have "run_script s c = Some c1 \<Longrightarrow> cs_ok c \<Longrightarrow> cs_ok c1" "run_scripts ss c = Some c1 \<Longrightarrow> cs_ok c \<Longrightarrow> cs_ok c1" for s ss c c1
    by (induction s c and ss c arbitrary: c1 and c1 rule: run_script_run_scripts.induct)
      (auto split: bind_splits intro: cs_ok_store cs_ok_call cs_ok_leave)
  then show ?thesis using assms by blast
qed

lemma scripts_keep_index_witness:
  "\<exists>c'. run_scripts [Store (JTable 7, Op_set [UVal CNone]) []] two_ops = Some c' \<and> length (cs_ops c') = 4 \<and> cs_ok c'"
proof -
  have "map_option (\<lambda>c. length (cs_ops c)) (run_scripts [Store (JTable 7, Op_set [UVal CNone]) []] two_ops) = Some 4" by code_simp
  then obtain c' where c': "run_scripts [Store (JTable 7, Op_set [UVal CNone]) []] two_ops = Some c'" "length (cs_ops c') = 4" by auto
  moreover have "route_parse [REF_ROOT] = [REF_ROOT]" by code_simp
  then have "cs_ok two_ops" by (simp add: cs_ok_def two_ops_def new_changeset_def split_status_def nonempty_def)
  ultimately show ?thesis using scripts_keep_index by blast
qed


subsection \<open>Finding a stored operation again\<close>

text \<open>The value of a column of an operation that has no result yet.\<close>

definition column_value :: "operation \<Rightarrow> nat \<Rightarrow> cs_error + cell" where
  "column_value op i = (case op_column (snd op) i of None \<Rightarrow> Inl Index_error | Some None \<Rightarrow> Inr CNone | Some (Some v) \<Rightarrow> Inr v)"

lemma store_appends: "store_op op args c = Some c' \<Longrightarrow> cs_ops c' = cs_ops c @ [op] \<and> cs_result c' = cs_result c"
proof -
  assume "store_op op args c = Some c'"
  from store_cases[OF this] show ?thesis
    by (elim disjE conjE exE)
      (auto simp: push_op_def store_pos_def note_multi_def store_indexed_def Let_def index_op_def split: option.splits if_splits list.splits)
qed

lemma pop_links_ops: "cs_ops (pop_links n c) = cs_ops c \<and> cs_result (pop_links n c) = cs_result c"
  by (induction n c rule: pop_links.induct) simp_all

lemma leave_ops: "leave c = Some c' \<Longrightarrow> cs_ops c' = cs_ops c \<and> cs_result c' = cs_result c"
  using pop_links_ops by (auto simp: leave_def Let_def forget_links_def split: if_splits)

lemma call_ops: "cs_ops (push_links ls c) = cs_ops c \<and> cs_result (push_links ls c) = cs_result c"
  by (auto simp: push_links_def Let_def split: list.splits)

lemma scripts_append:
  "run_script s c = Some c' \<Longrightarrow> (\<exists>xs. cs_ops c' = cs_ops c @ xs) \<and> cs_result c' = cs_result c"
  "run_scripts ss c = Some c' \<Longrightarrow> (\<exists>xs. cs_ops c' = cs_ops c @ xs) \<and> cs_result c' = cs_result c"
proof (induction s c and ss c arbitrary: c' and c' rule: run_script_run_scripts.induct)
  case (2 ls ss c)
  obtain c1 where r: "run_scripts ss (push_links ls c) = Some c1" "leave c1 = Some c'" using 2(2) by (auto split: bind_splits)
  from 2(1)[OF r(1)] show ?case using leave_ops[OF r(2)] call_ops[of ls c] by auto
next
  case (4 s ss c)
  obtain c1 where r: "run_script s c = Some c1" "run_scripts ss c1 = Some c'" using 4(3) by (auto split: bind_splits)
  obtain xs where "cs_ops c1 = cs_ops c @ xs" "cs_result c1 = cs_result c" using 4(1)[OF r(1)] by blast
  moreover obtain ys where "cs_ops c' = cs_ops c1 @ ys" "cs_result c' = cs_result c1" using 4(2)[OF r] by blast
  ultimately show ?case by simp
qed (use store_appends in auto)

lemma value_of_new:
  assumes "cs_ops c' = cs_ops c @ op # xs" "cs_result c' = cs_result c" "length (cs_result c) \<le> length (cs_ops c)"
  shows "get_value_at c' q (Some (length (cs_ops c))) = column_value op (snd q)"
  using assms by (simp add: get_value_at_def result_at_def column_value_def nth_append split: option.splits)

text \<open>
  C34: Inside a \<open>REF_POS\<close> block of a file, references name the first operation stored there: whatever else is stored or
  nested in the block afterwards, the block's route leads to the first operation's columns.  (Excluded is again what is stored
  after a position 2, which the code takes for the marker.)
\<close>

theorem pos_block_names_first:
  assumes route: "cs_route c = r @ [REF_POS]" "foldl link_step ([], False, None) r = (acc, False, None)"
    and c: "route_count c \<noteq> []" "file_operation c \<noteq> None" "length (cs_result c) \<le> length (cs_ops c)"
    and run: "run_scripts (Store op [] # ss) c = Some c'" "list_all usable ss"
    and clear: "pos_clear (length (cs_ops c)) (Store op [] # ss)" "clear_all (length (cs_ops c)) (length (multi_store c)) (Store op [] # ss)"
  shows "resolve_local c' q (get_route_parse c') = map_sum id One (column_value op (snd q))"
proof -
  let ?n = "length (cs_ops c)"
  obtain c1 where r: "store_op op [] c = Some c1" "run_scripts ss c1 = Some c'" using run(1) by (auto split: bind_splits)
  let ?d = "note_multi (c\<lparr>cs_processed := False, route_count := butlast (route_count c) @ [2]\<rparr>)"
  have "cs_route c \<noteq> []" "link_is (last (cs_route c)) REF_POS" using route(1) by (simp_all add: link_is_def)
  then have e: "c1 = store_pos op ?d" using r(1) c(1,2) by (simp add: store_op_def Let_def)
  have "cs_route ?d = cs_route c" "cs_ops ?d = cs_ops c" "length (multi_store ?d) = length (multi_store c)" by (simp_all add: note_multi_def)
  then have c1: "cs_route c1 = r @ [REF_POS, LInt (int ?n)]" "length (multi_store c1) = length (multi_store c)"
    unfolding e using route(1) by (simp_all add: store_pos_def push_op_def)
  have o1: "cs_ops c1 = cs_ops c @ [op]" "cs_result c1 = cs_result c" using store_appends[OF r(1)] by simp_all
  have "\<not> link_is (last (cs_route c1)) REF_POS \<or> plain_stores ss = 0" using clear(1) c1(1) by (auto simp: pos_clear_def link_is_def)
  then have "same_scope c1 c'" using scripts_scope(2)[OF r(2) run(2)] c1 o1(1) clear(2) by simp
  then have "cs_route c' = r @ [REF_POS, LInt (int ?n)]" using c1(1) by (simp add: same_scope_def)
  then have "get_route_parse c' = [REF_POS, LInt (int ?n)]"
    using route(2) by (simp add: get_route_parse_def route_parse_def link_is_def bypass_link_def)
  moreover obtain xs where "cs_ops c' = cs_ops c @ op # xs" "cs_result c' = cs_result c"
    using scripts_append(2)[OF r(2)] o1 by auto
  ultimately show ?thesis
    using value_of_new[of c' c op xs q] c(3) by (simp add: resolve_local_def link_is_def route_index_def)
qed

lemma pos_block_names_first_witness:
  "\<exists>c'. run_scripts [Store (JTable 7, Op_set [UVal (CInt 9)]) [], Store (JTable 8, Op_set [UVal CNone]) []] (push_links [REF_POS] new_file) = Some c'
     \<and> resolve_local c' (7, 0) (get_route_parse c') = Inr (One (CInt 9))"
proof -
  let ?ss = "[Store (JTable 7, Op_set [UVal (CInt 9)]) [], Store (JTable 8, Op_set [UVal CNone]) []]" and ?c = "push_links [REF_POS] new_file"
  have "map_option (\<lambda>_. ()) (run_scripts ?ss ?c) = Some ()" by code_simp
  then obtain c' where c': "run_scripts ?ss ?c = Some c'" by auto
  have t: "cs_route ?c = [REF_ROOT] @ [REF_POS]" "route_count ?c \<noteq> []" "file_operation ?c \<noteq> None" "cs_result ?c = []"
    by (simp_all add: push_links_def new_file_def new_changeset_def split_status_def nonempty_def Let_def link_is_def)
  have k: "pos_clear (length (cs_ops ?c)) ?ss" "clear_all (length (cs_ops ?c)) (length (multi_store ?c)) ?ss" by code_simp+
  have "foldl link_step ([], False, None) [REF_ROOT] = ([REF_ROOT], False, None)" by code_simp
  from pos_block_names_first[OF t(1) this t(2,3) _ c' _ k, of "(7, 0)"] t(4)
  have "resolve_local c' (7, 0) (get_route_parse c') = Inr (One (CInt 9))" by (simp add: column_value_def)
  with c' show ?thesis by blast
qed

text \<open>
  C35: An operation stored in a named scope is found under the scope's route and the operation's table, and storing it
  changes what no other route or table names.
\<close>

theorem stored_op_found:
  assumes "store_op op [] c = Some c'" "cs_ok c" "file_operation c \<noteq> None" "no_ref_depth c = 0" "length (cs_result c) \<le> length (cs_ops c)"
    and "\<not> link_is (last (cs_route c)) REF_POS" "first_table_id (fst op) = Some tid"
    and "\<not> bypass_link (hd (get_route_parse c))" "\<not> link_is (hd (get_route_parse c)) REF_NO_REF" "get_route_parse c \<noteq> []"
  shows "resolve_local c' (tid, i) (get_route_parse c') = map_sum id One (column_value op i)
    \<and> (\<forall>r t. (r, t) \<noteq> (get_route_parse c, tid) \<longrightarrow> get_pos_from_route c' r t = get_pos_from_route c r t)"
proof -
  obtain l rest where r: "get_route_parse c = l # rest" using assms(10) by (cases "get_route_parse c") auto
  have cur: "current_route (c\<lparr>cs_processed := False\<rparr>) = l # rest"
    using assms(2) r by (auto simp: cs_ok_def current_route_def get_route_parse_def split: option.splits)
  have ne: "cs_route c \<noteq> []" using assms(2) by (simp add: cs_ok_def)
  have nm: "\<not> link_is l REF_MULTI" "\<not> link_is l REF_POS" "\<not> link_is l REF_NO_REF" using assms(8,9) r by (auto simp: bypass_link_def)
  have c': "c' = push_op op (c\<lparr>cs_processed := False, cached_route := Some (l # rest), store_dict := dict_set (l # rest)
      (dict_set tid (length (cs_ops c)) (case dict_get (store_dict c) (l # rest) of None \<Rightarrow> [] | Some d \<Rightarrow> d)) (store_dict c)\<rparr>)"
    using assms(1,3,4,6,7) ne cur nm(1) by (simp add: store_op_def Let_def store_indexed_def index_op_def)
  have v: "get_value_at c' (tid, i) (Some (length (cs_ops c))) = column_value op i"
    using value_of_new[of c' c op "[]" "(tid, i)"] assms(5) by (simp add: c' push_op_def)
  have "get_route_parse c' = l # rest" using r by (simp add: c' push_op_def get_route_parse_def)
  moreover have "get_pos_from_route c' (l # rest) tid = Some (length (cs_ops c))"
    by (simp add: c' push_op_def get_pos_from_route_def)
  ultimately have "resolve_local c' (tid, i) (get_route_parse c') = map_sum id One (column_value op i)"
    using v nm by (simp add: resolve_local_def)
  moreover have "get_pos_from_route c' r1 t = get_pos_from_route c r1 t" if "(r1, t) \<noteq> (l # rest, tid)" for r1 t
    using that by (auto simp: c' push_op_def get_pos_from_route_def split: option.splits)
  ultimately show ?thesis using r by simp
qed

lemma stored_op_found_witness:
  "\<exists>c'. store_op (JTable 7, Op_set [UVal (CInt 9)]) [] two_ops = Some c' \<and> resolve_local c' (7, 0) (get_route_parse c') = Inr (One (CInt 9))"
proof -
  have "map_option (\<lambda>_. ()) (store_op (JTable 7, Op_set [UVal (CInt 9)]) [] two_ops) = Some ()" by code_simp
  then obtain c' where c': "store_op (JTable 7, Op_set [UVal (CInt 9)]) [] two_ops = Some c'" by auto
  have rp: "route_parse [REF_ROOT] = [REF_ROOT]" by code_simp
  then have ok: "cs_ok two_ops" by (simp add: cs_ok_def two_ops_def new_changeset_def split_status_def nonempty_def)
  have g: "get_route_parse two_ops = [REF_ROOT]"
    using rp by (simp add: two_ops_def new_changeset_def split_status_def nonempty_def get_route_parse_def)
  have "resolve_local c' (7, 0) (get_route_parse c') = map_sum id One (column_value (JTable 7, Op_set [UVal (CInt 9)]) 0)"
    using stored_op_found[OF c' ok, of 7 0] g
    by (simp add: two_ops_def new_changeset_def split_status_def nonempty_def link_is_def bypass_link_def first_table_id_def)
  then show ?thesis using c' by (auto simp: column_value_def)
qed

end
