(* ===== verification/ChangeSet_Store.thy ===== *)
theory ChangeSet_Store
  imports ChangeSet_Routes
begin

section \<open>The compressed dictionary of change sets (core/GreatProcessor.py)\<close>

text \<open>
  \<open>CompressedChangeSetDict\<close> keeps executed change sets as they are, a few others in an LRU cache, and the rest
  pickled.  The codec (\<open>pickle\<close> with \<open>zlib\<close>) is a parameter; what the dictionary relies on is that loading what was
  dumped gives the value back.  The process-local references that \<open>_compress\<close> takes out and puts back (\<open>gp\<close>, \<open>mf\<close>,
  \<open>batch_cs_dict\<close>) are not fields of the model's change set.  Against it stands a plain map.
\<close>

abbreviation dict_del :: "'k \<Rightarrow> ('k, 'v) dict \<Rightarrow> ('k, 'v) dict" where
  "dict_del \<equiv> AList.delete"

lemma dict_get_del [simp]: "dict_get (dict_del k d) k' = (if k' = k then None else dict_get d k')"
  by (simp add: delete_conv')

lemma dom_del [simp]: "fst ` set (dict_del k d) = fst ` set d - {k}"
  by (force simp: AList.delete_eq)

lemma distinct_del [simp]: "distinct (map fst d) \<Longrightarrow> distinct (map fst (dict_del k d))"
  by (rule distinct_delete)

subsection \<open>The dictionary\<close>

record 'b codec =
  dumps :: "changeset \<Rightarrow> 'b option"
  loads :: "'b \<Rightarrow> changeset"

record 'b cs_dict =
  all_keys :: "string list"
  evacuated_store :: "(string, changeset) dict"
  compressed_store :: "(string, 'b option) dict"
  lru_cache :: "(string, changeset) dict"
  lru_size :: nat

definition new_cs_dict :: "nat \<Rightarrow> 'b cs_dict" where
  "new_cs_dict n = \<lparr>all_keys = [], evacuated_store = [], compressed_store = [], lru_cache = [], lru_size = n\<rparr>"

definition is_evacuated :: "changeset \<Rightarrow> bool" where
  "is_evacuated c \<longleftrightarrow> cs_processed c \<and> cs_ops c = [] \<and> store_cleared c \<and> store_dict c = []"

text \<open>\<open>_compress\<close>: \<open>False\<close> when pickling fails.\<close>

definition compress :: "'b codec \<Rightarrow> string \<Rightarrow> changeset \<Rightarrow> 'b cs_dict \<Rightarrow> 'b cs_dict \<times> bool" where
  "compress C k v d = (case dumps C v of
       None \<Rightarrow> (d, False)
     | Some b \<Rightarrow> (d\<lparr>compressed_store := dict_set k (Some b) (compressed_store d)\<rparr>, True))"

text \<open>\<open>_place\<close>; the value of a key may be \<open>None\<close>.\<close>

definition place :: "string \<Rightarrow> changeset option \<Rightarrow> 'b cs_dict \<Rightarrow> 'b cs_dict" where
  "place k v d0 =
     (let d = d0\<lparr>all_keys := append_new (all_keys d0) k, lru_cache := dict_del k (lru_cache d0)\<rparr>
      in case v of
           None \<Rightarrow> d\<lparr>evacuated_store := dict_del k (evacuated_store d), compressed_store := dict_set k None (compressed_store d)\<rparr>
         | Some c \<Rightarrow>
             if is_evacuated c
             then d\<lparr>compressed_store := dict_del k (compressed_store d), evacuated_store := dict_set k c (evacuated_store d)\<rparr>
             else d\<lparr>evacuated_store := dict_del k (evacuated_store d), lru_cache := dict_set k c (lru_cache d)\<rparr>)"

text \<open>\<open>_evict_lru\<close>\<close>

function evict_lru :: "'b codec \<Rightarrow> 'b cs_dict \<Rightarrow> 'b cs_dict" where
  "evict_lru C d =
     (if length (lru_cache d) \<le> lru_size d then d
      else case lru_cache d of
          [] \<Rightarrow> d
        | (k, v) # rest \<Rightarrow>
            (let d1 = d\<lparr>lru_cache := rest\<rparr>
             in if is_evacuated v
                then evict_lru C (d1\<lparr>compressed_store := dict_del k (compressed_store d1),
                       evacuated_store := dict_set k v (evacuated_store d1)\<rparr>)
                else (case dumps C v of
                    None \<Rightarrow> d1\<lparr>lru_cache := dict_set k v rest\<rparr>
                  | Some b \<Rightarrow> evict_lru C (d1\<lparr>compressed_store := dict_set k (Some b) (compressed_store d1)\<rparr>))))"
  by pat_completeness auto
termination
  by (relation "measure (\<lambda>(C, d). length (lru_cache d))") auto

declare evict_lru.simps [simp del]

text \<open>\<open>_load\<close>: \<open>None\<close> is a missing key; the value found may itself be \<open>None\<close>.\<close>

definition load_entry :: "'b codec \<Rightarrow> string \<Rightarrow> 'b cs_dict \<Rightarrow> 'b cs_dict \<times> changeset option option" where
  "load_entry C k d = (case dict_get (evacuated_store d) k of
       Some v \<Rightarrow> (d, Some (Some v))
     | None \<Rightarrow> (case dict_get (lru_cache d) k of
           Some v \<Rightarrow> (d\<lparr>lru_cache := dict_del k (lru_cache d) @ [(k, v)]\<rparr>, Some (Some v))
         | None \<Rightarrow> (case dict_get (compressed_store d) k of
               None \<Rightarrow> (d, None)
             | Some None \<Rightarrow> (d, Some None)
             | Some (Some b) \<Rightarrow>
                 (let c = loads C b
                  in if is_evacuated c
                     then (d\<lparr>compressed_store := dict_del k (compressed_store d),
                            evacuated_store := dict_set k c (evacuated_store d)\<rparr>, Some (Some c))
                     else (evict_lru C (d\<lparr>lru_cache := dict_set k c (lru_cache d)\<rparr>), Some (Some c))))))"

definition set_item :: "'b codec \<Rightarrow> string \<Rightarrow> changeset option \<Rightarrow> 'b cs_dict \<Rightarrow> 'b cs_dict" where
  "set_item C k v d = evict_lru C (place k v d)"

text \<open>\<open>get(key, default)\<close>, and \<open>[key]\<close> with \<open>None\<close> for the \<open>KeyError\<close>.\<close>

definition get_item :: "'b codec \<Rightarrow> string \<Rightarrow> changeset option \<Rightarrow> 'b cs_dict \<Rightarrow> 'b cs_dict \<times> changeset option" where
  "get_item C k dflt d = (case load_entry C k d of (d', None) \<Rightarrow> (d', dflt) | (d', Some v) \<Rightarrow> (d', v))"

definition del_item :: "string \<Rightarrow> 'b cs_dict \<Rightarrow> 'b cs_dict" where
  "del_item k d = d\<lparr>all_keys := filter (\<lambda>x. x \<noteq> k) (all_keys d), evacuated_store := dict_del k (evacuated_store d),
     compressed_store := dict_del k (compressed_store d), lru_cache := dict_del k (lru_cache d)\<rparr>"

definition has_key :: "string \<Rightarrow> 'b cs_dict \<Rightarrow> bool" where
  "has_key k d \<longleftrightarrow> k \<in> set (all_keys d)"

definition clear_dict :: "'b cs_dict \<Rightarrow> 'b cs_dict" where
  "clear_dict d = d\<lparr>all_keys := [], evacuated_store := [], compressed_store := [], lru_cache := []\<rparr>"

definition update_dict :: "'b codec \<Rightarrow> (string \<times> changeset option) list \<Rightarrow> 'b cs_dict \<Rightarrow> 'b cs_dict" where
  "update_dict C its d = evict_lru C (foldl (\<lambda>d (k, v). place k v d) d its)"

text \<open>\<open>pop(key, default)\<close>: \<open>None\<close> is the \<open>KeyError\<close>.\<close>

definition pop_item :: "'b codec \<Rightarrow> string \<Rightarrow> changeset option option \<Rightarrow> 'b cs_dict \<Rightarrow> 'b cs_dict \<times> changeset option option" where
  "pop_item C k dflt d =
     (if has_key k d then (case load_entry C k d of
          (d', None) \<Rightarrow> (d', None)
        | (d', Some v) \<Rightarrow> (del_item k d', Some v))
      else (d, dflt))"

definition set_default :: "'b codec \<Rightarrow> string \<Rightarrow> changeset option \<Rightarrow> 'b cs_dict \<Rightarrow> 'b cs_dict \<times> changeset option option" where
  "set_default C k v d = (if has_key k d then load_entry C k d else (set_item C k v d, Some v))"

text \<open>\<open>items()\<close>: the generator loads every entry in turn.\<close>

fun load_items :: "'b codec \<Rightarrow> string list \<Rightarrow> 'b cs_dict \<Rightarrow> 'b cs_dict \<times> (string \<times> changeset option option) list" where
  "load_items C [] d = (d, [])"
| "load_items C (k # ks) d = (case load_entry C k d of
     (d1, v) \<Rightarrow> (case load_items C ks d1 of (d2, vs) \<Rightarrow> (d2, (k, v) # vs)))"

definition dict_items :: "'b codec \<Rightarrow> 'b cs_dict \<Rightarrow> 'b cs_dict \<times> (string \<times> changeset option option) list" where
  "dict_items C d = load_items C (all_keys d) d"

text \<open>\<open>flush\<close>, and the state that pickling the dictionary itself keeps (\<open>__reduce__\<close>).\<close>

definition flush :: "'b codec \<Rightarrow> 'b cs_dict \<Rightarrow> 'b cs_dict" where
  "flush C d = foldl (\<lambda>d (k, v). fst (compress C k v d)) d (lru_cache d)"

definition reduced :: "'b codec \<Rightarrow> 'b cs_dict \<Rightarrow> 'b cs_dict" where
  "reduced C d = (flush C d)\<lparr>lru_cache := []\<rparr>"

text \<open>The caller changes an object it was handed: the entry changes while the dictionary holds that object.\<close>

definition mutate_entry :: "string \<Rightarrow> (changeset \<Rightarrow> changeset) \<Rightarrow> 'b cs_dict \<Rightarrow> 'b cs_dict" where
  "mutate_entry k f d = (case dict_get (evacuated_store d) k of
       Some v \<Rightarrow> d\<lparr>evacuated_store := dict_set k (f v) (evacuated_store d)\<rparr>
     | None \<Rightarrow> (case dict_get (lru_cache d) k of
           Some v \<Rightarrow> d\<lparr>lru_cache := dict_set k (f v) (lru_cache d)\<rparr>
         | None \<Rightarrow> d))"

subsection \<open>The dictionary as a map\<close>

definition content_of :: "'b codec \<Rightarrow> 'b cs_dict \<Rightarrow> string \<Rightarrow> changeset option option" where
  "content_of C d k = (case dict_get (evacuated_store d) k of
       Some v \<Rightarrow> Some (Some v)
     | None \<Rightarrow> (case dict_get (lru_cache d) k of
           Some v \<Rightarrow> Some (Some v)
         | None \<Rightarrow> map_option (map_option (loads C)) (dict_get (compressed_store d) k)))"

definition faithful_codec :: "'b codec \<Rightarrow> bool" where
  "faithful_codec C \<longleftrightarrow> (\<forall>v b. dumps C v = Some b \<longrightarrow> loads C b = v)"

definition dict_ok :: "'b codec \<Rightarrow> 'b cs_dict \<Rightarrow> bool" where
  "dict_ok C d \<longleftrightarrow> distinct (map fst (lru_cache d)) \<and> fst ` set (lru_cache d) \<inter> fst ` set (evacuated_store d) = {}
     \<and> (\<forall>k. k \<in> set (all_keys d) \<longleftrightarrow> content_of C d k \<noteq> None)"

lemma dict_ok_lru_head:
  assumes "dict_ok C d" "lru_cache d = (k, v) # rest"
  shows "dict_get (evacuated_store d) k = None \<and> dict_get rest k = None \<and> dict_get (lru_cache d) k = Some v"
  using assms by (auto simp: dict_ok_def map_of_eq_None_iff)

text \<open>The oldest entry of the cache moves to another store, or to the other end when it cannot be pickled.\<close>

lemma evict_one:
  assumes ok: "dict_ok C d" and l: "lru_cache d = (k, v) # rest" and fc: "faithful_codec C"
  shows "is_evacuated v \<Longrightarrow> d' = d\<lparr>lru_cache := rest, compressed_store := dict_del k (compressed_store d),
      evacuated_store := dict_set k v (evacuated_store d)\<rparr> \<Longrightarrow> dict_ok C d' \<and> content_of C d' = content_of C d"
    and "dumps C v = Some b \<Longrightarrow> d' = d\<lparr>lru_cache := rest, compressed_store := dict_set k (Some b) (compressed_store d)\<rparr>
      \<Longrightarrow> dict_ok C d' \<and> content_of C d' = content_of C d"
    and "d' = d\<lparr>lru_cache := dict_set k v rest\<rparr> \<Longrightarrow> dict_ok C d' \<and> content_of C d' = content_of C d"
proof -
  note h = dict_ok_lru_head[OF ok l]
  have d: "distinct (map fst rest)" "k \<notin> fst ` set rest" "fst ` set rest \<inter> fst ` set (evacuated_store d) = {}" "k \<notin> fst ` set (evacuated_store d)"
    using ok l by (auto simp: dict_ok_def)
  have keys: "k' \<in> set (all_keys d) \<longleftrightarrow> content_of C d k' \<noteq> None" for k' using ok by (simp add: dict_ok_def)
  show "dict_ok C d' \<and> content_of C d' = content_of C d"
    if "is_evacuated v" "d' = d\<lparr>lru_cache := rest, compressed_store := dict_del k (compressed_store d), evacuated_store := dict_set k v (evacuated_store d)\<rparr>"
  proof -
    have c: "content_of C d' = content_of C d" using h l that(2) by (auto simp: content_of_def fun_eq_iff split: option.splits)
    then show ?thesis using d keys that(2) by (auto simp: dict_ok_def dom_update)
  qed
  show "dict_ok C d' \<and> content_of C d' = content_of C d"
    if "dumps C v = Some b" "d' = d\<lparr>lru_cache := rest, compressed_store := dict_set k (Some b) (compressed_store d)\<rparr>"
  proof -
    have "loads C b = v" using fc that(1) by (simp add: faithful_codec_def)
    then have c: "content_of C d' = content_of C d" using h l that(2) by (auto simp: content_of_def fun_eq_iff split: option.splits)
    then show ?thesis using d keys that(2) by (auto simp: dict_ok_def)
  qed
  show "dict_ok C d' \<and> content_of C d' = content_of C d" if "d' = d\<lparr>lru_cache := dict_set k v rest\<rparr>"
  proof -
    have c: "content_of C d' = content_of C d" using h l that by (auto simp: content_of_def fun_eq_iff split: option.splits)
    then show ?thesis using d keys that by (auto simp: dict_ok_def dom_update distinct_update)
  qed
qed

lemma evict_lru_content:
  "faithful_codec C \<Longrightarrow> dict_ok C d \<Longrightarrow> dict_ok C (evict_lru C d) \<and> content_of C (evict_lru C d) = content_of C d \<and> all_keys (evict_lru C d) = all_keys d"
proof (induction C d rule: evict_lru.induct)
  case (1 C d)
  show ?case
  proof (cases "length (lru_cache d) \<le> lru_size d \<or> lru_cache d = []")
    case True
    then have "evict_lru C d = d" by (subst evict_lru.simps) auto
    then show ?thesis using 1(4) by simp
  next
    case big: False
    then obtain k v rest where l: "lru_cache d = (k, v) # rest" by (cases "lru_cache d") auto
    note one = evict_one[OF 1(4) l 1(3)]
    show ?thesis
    proof (cases "is_evacuated v")
      case True
      let ?d = "d\<lparr>lru_cache := rest, compressed_store := dict_del k (compressed_store d), evacuated_store := dict_set k v (evacuated_store d)\<rparr>"
      have "evict_lru C d = evict_lru C ?d" using big l True by (subst evict_lru.simps) simp
      moreover have "dict_ok C ?d \<and> content_of C ?d = content_of C d" by (rule one(1)[OF True refl])
      ultimately show ?thesis using 1(1)[of "(k, v)" rest k v "d\<lparr>lru_cache := rest\<rparr>"] big l True 1(3) by simp
    next
      case ev: False
      show ?thesis
      proof (cases "dumps C v")
        case None
        then have "evict_lru C d = d\<lparr>lru_cache := dict_set k v rest\<rparr>" using big l ev by (subst evict_lru.simps) simp
        then show ?thesis using one(3)[OF refl] by simp
      next
        case (Some b)
        let ?d = "d\<lparr>lru_cache := rest, compressed_store := dict_set k (Some b) (compressed_store d)\<rparr>"
        have "evict_lru C d = evict_lru C ?d" using big l ev Some by (subst evict_lru.simps) simp
        moreover have "dict_ok C ?d \<and> content_of C ?d = content_of C d" by (rule one(2)[OF Some refl])
        ultimately show ?thesis using 1(2)[of "(k, v)" rest k v "d\<lparr>lru_cache := rest\<rparr>" b] big l ev Some 1(3) by simp
      qed
    qed
  qed
qed

lemma load_entry_content:
  assumes "faithful_codec C" "dict_ok C d" "load_entry C k d = (d', r)"
  shows "dict_ok C d' \<and> content_of C d' = content_of C d \<and> all_keys d' = all_keys d \<and> r = content_of C d k"
proof (cases "dict_get (evacuated_store d) k")
  case (Some v)
  then show ?thesis using assms by (auto simp: load_entry_def content_of_def)
next
  case ev: None
  show ?thesis
  proof (cases "dict_get (lru_cache d) k")
    case (Some v)
    let ?d = "d\<lparr>lru_cache := dict_del k (lru_cache d) @ [(k, v)]\<rparr>"
    have e: "d' = ?d" "r = Some (Some v)" using assms(3) ev Some by (auto simp: load_entry_def)
    have c: "content_of C ?d = content_of C d"
      using ev Some by (auto simp: content_of_def fun_eq_iff map_add_def split: option.splits)
    have k: "k \<notin> fst ` set (dict_del k (lru_cache d))" "distinct (map fst (dict_del k (lru_cache d)))"
      "fst ` set (dict_del k (lru_cache d)) \<subseteq> fst ` set (lru_cache d)"
      using assms(2) by (auto simp: dict_ok_def)
    have "k \<notin> fst ` set (evacuated_store d)" using ev by (simp add: map_of_eq_None_iff)
    then have "dict_ok C ?d" using assms(2) k c by (auto simp: dict_ok_def)
    then show ?thesis using e c ev Some by (simp add: content_of_def)
  next
    case lru: None
    show ?thesis
    proof (cases "\<exists>b. dict_get (compressed_store d) k = Some (Some b)")
      case True
      then obtain b where b: "dict_get (compressed_store d) k = Some (Some b)" by blast
      have r: "r = Some (Some (loads C b))" "content_of C d k = Some (Some (loads C b))"
        using assms(3) ev lru b by (auto simp: load_entry_def Let_def content_of_def split: if_splits)
      have dom: "k \<notin> fst ` set (evacuated_store d)" "k \<notin> fst ` set (lru_cache d)" using ev lru by (simp_all add: map_of_eq_None_iff)
      show ?thesis
      proof (cases "is_evacuated (loads C b)")
        case True
        let ?d = "d\<lparr>compressed_store := dict_del k (compressed_store d), evacuated_store := dict_set k (loads C b) (evacuated_store d)\<rparr>"
        have e: "d' = ?d" using assms(3) ev lru b True by (simp add: load_entry_def Let_def)
        have c: "content_of C ?d = content_of C d" using ev lru b by (auto simp: content_of_def fun_eq_iff split: option.splits)
        then have "dict_ok C ?d" using assms(2) dom by (auto simp: dict_ok_def dom_update)
        then show ?thesis using e c r by simp
      next
        case False
        let ?d = "d\<lparr>lru_cache := dict_set k (loads C b) (lru_cache d)\<rparr>"
        have e: "d' = evict_lru C ?d" using assms(3) ev lru b False by (simp add: load_entry_def Let_def)
        have c: "content_of C ?d = content_of C d" using ev lru b by (auto simp: content_of_def fun_eq_iff split: option.splits)
        then have "dict_ok C ?d" using assms(2) dom by (auto simp: dict_ok_def dom_update distinct_update)
        then show ?thesis using evict_lru_content[OF assms(1)] e c r by simp
      qed
    next
      case False
      then show ?thesis using assms ev lru by (auto simp: load_entry_def content_of_def split: option.splits)
    qed
  qed
qed

lemma place_content:
  assumes "dict_ok C d"
  shows "dict_ok C (place k v d) \<and> content_of C (place k v d) = (content_of C d)(k \<mapsto> v)"
proof -
  have l: "distinct (map fst (dict_del k (lru_cache d)))" "fst ` set (dict_del k (lru_cache d)) = fst ` set (lru_cache d) - {k}"
    "fst ` set (dict_del k (evacuated_store d)) = fst ` set (evacuated_store d) - {k}"
    using assms by (auto simp: dict_ok_def)
  have c: "content_of C (place k v d) = (content_of C d)(k \<mapsto> v)"
    by (cases v) (auto simp: place_def Let_def content_of_def fun_eq_iff split: option.splits)
  moreover have "distinct (map fst (lru_cache (place k v d)))" "fst ` set (lru_cache (place k v d)) \<inter> fst ` set (evacuated_store (place k v d)) = {}"
    using assms l by (cases v; auto simp: place_def Let_def dict_ok_def dom_update distinct_update)+
  moreover have "set (all_keys (place k v d)) = insert k (set (all_keys d))" by (cases v) (simp_all add: place_def Let_def)
  ultimately show ?thesis using assms by (simp add: dict_ok_def)
qed

lemma del_item_content:
  assumes "dict_ok C d"
  shows "dict_ok C (del_item k d) \<and> content_of C (del_item k d) = (content_of C d)(k := None)"
proof -
  have c: "content_of C (del_item k d) = (content_of C d)(k := None)"
    by (auto simp: del_item_def content_of_def fun_eq_iff split: option.splits)
  moreover have "distinct (map fst (dict_del k (lru_cache d)))" "fst ` set (dict_del k (lru_cache d)) = fst ` set (lru_cache d) - {k}"
    "fst ` set (dict_del k (evacuated_store d)) = fst ` set (evacuated_store d) - {k}"
    using assms by (auto simp: dict_ok_def)
  ultimately show ?thesis using assms by (auto simp: dict_ok_def del_item_def)
qed

lemma foldl_place_content:
  "dict_ok C d \<Longrightarrow> dict_ok C (foldl (\<lambda>d (k, v). place k v d) d its)
     \<and> content_of C (foldl (\<lambda>d (k, v). place k v d) d its) = foldl (\<lambda>m (k, v). m(k \<mapsto> v)) (content_of C d) its"
proof (induction its arbitrary: d)
  case (Cons it its)
  obtain k v where it: "it = (k, v)" by (cases it)
  have "dict_ok C (place k v d) \<and> content_of C (place k v d) = (content_of C d)(k \<mapsto> v)" by (rule place_content[OF Cons.prems])
  with Cons.IH[of "place k v d"] it show ?case by simp
qed simp


lemma dict_get_snoc: "k \<notin> fst ` set xs \<Longrightarrow> dict_get (xs @ [(k, v)]) k = Some v"
  by (induction xs) auto

text \<open>An entry that was just loaded is held as an object, so a change the caller makes to it is not lost.\<close>

lemma evict_keeps_last:
  "0 < lru_size d \<Longrightarrow> lru_cache d = xs @ [(k, v)] \<Longrightarrow> dict_get (evacuated_store d) k = None \<Longrightarrow> distinct (map fst (lru_cache d)) \<Longrightarrow>
   dict_get (evacuated_store (evict_lru C d)) k = None \<and> dict_get (lru_cache (evict_lru C d)) k = Some v"
proof (induction C d arbitrary: xs rule: evict_lru.induct)
  case (1 C d)
  show ?case
  proof (cases "length (lru_cache d) \<le> lru_size d")
    case True
    then have "evict_lru C d = d" by (subst evict_lru.simps) simp
    moreover have "dict_get (lru_cache d) k = Some v" using 1(4,6) dict_get_snoc[of k xs v] by simp
    ultimately show ?thesis using 1(5) by simp
  next
    case big: False
    then obtain k0 v0 ys where xs: "xs = (k0, v0) # ys" using 1(3,4) by (cases xs) auto
    let ?rest = "ys @ [(k, v)]"
    have l: "lru_cache d = (k0, v0) # ?rest" using 1(4) xs by simp
    have k0: "k0 \<noteq> k" "distinct (map fst ?rest)" "k0 \<notin> fst ` set ?rest" "k \<notin> fst ` set ys" using 1(6) l by auto
    have kr: "dict_get ?rest k = Some v" by (rule dict_get_snoc[OF k0(4)])
    show ?thesis
    proof (cases "is_evacuated v0")
      case True
      let ?d = "d\<lparr>lru_cache := ?rest, compressed_store := dict_del k0 (compressed_store d), evacuated_store := dict_set k0 v0 (evacuated_store d)\<rparr>"
      have e: "evict_lru C d = evict_lru C ?d" using big l True by (subst evict_lru.simps) simp
      show ?thesis unfolding e using 1(1)[of "(k0, v0)" ?rest k0 v0 "d\<lparr>lru_cache := ?rest\<rparr>" ys] big l True 1(3,5) k0 by simp
    next
      case ev: False
      show ?thesis
      proof (cases "dumps C v0")
        case None
        then have "evict_lru C d = d\<lparr>lru_cache := dict_set k0 v0 ?rest\<rparr>" using big l ev by (subst evict_lru.simps) simp
        then show ?thesis using 1(5) kr k0(1) by simp
      next
        case (Some b)
        let ?d = "d\<lparr>lru_cache := ?rest, compressed_store := dict_set k0 (Some b) (compressed_store d)\<rparr>"
        have e: "evict_lru C d = evict_lru C ?d" using big l ev Some by (subst evict_lru.simps) simp
        show ?thesis unfolding e using 1(2)[of "(k0, v0)" ?rest k0 v0 "d\<lparr>lru_cache := ?rest\<rparr>" b ys] big l ev Some 1(3,5) k0 by simp
      qed
    qed
  qed
qed

lemma load_entry_live:
  assumes "dict_ok C d" "0 < lru_size d" "load_entry C k d = (d', Some (Some v))"
  shows "dict_get (evacuated_store d') k = Some v \<or> dict_get (evacuated_store d') k = None \<and> dict_get (lru_cache d') k = Some v"
proof (cases "dict_get (evacuated_store d) k")
  case (Some w)
  then show ?thesis using assms(3) by (auto simp: load_entry_def)
next
  case ev: None
  show ?thesis
  proof (cases "dict_get (lru_cache d) k")
    case (Some w)
    then show ?thesis using assms(3) ev by (auto simp: load_entry_def map_add_def split: option.splits)
  next
    case lru: None
    then obtain b where b: "dict_get (compressed_store d) k = Some (Some b)" "v = loads C b"
      using assms(3) ev by (auto simp: load_entry_def Let_def split: option.splits if_splits)
    show ?thesis
    proof (cases "is_evacuated v")
      case True
      then show ?thesis using assms(3) ev lru b by (auto simp: load_entry_def Let_def)
    next
      case False
      let ?d = "d\<lparr>lru_cache := dict_set k v (lru_cache d)\<rparr>"
      have "d' = evict_lru C ?d" using assms(3) ev lru b False by (simp add: load_entry_def Let_def)
      moreover have "dict_set k v (lru_cache d) = lru_cache d @ [(k, v)]" using lru by (rule dict_values_set_new)
      ultimately show ?thesis
        using evict_keeps_last[of ?d "lru_cache d" k v C] assms(1,2) ev lru by (auto simp: dict_ok_def map_of_eq_None_iff)
    qed
  qed
qed

lemma mutate_entry_content:
  assumes "dict_ok C d" "dict_get (evacuated_store d) k = Some v \<or> dict_get (evacuated_store d) k = None \<and> dict_get (lru_cache d) k = Some v"
  shows "dict_ok C (mutate_entry k f d) \<and> content_of C (mutate_entry k f d) = (content_of C d)(k \<mapsto> Some (f v))"
proof -
  have k: "content_of C d k = Some (Some v)" using assms(2) by (auto simp: content_of_def)
  have c: "content_of C (mutate_entry k f d) = (content_of C d)(k \<mapsto> Some (f v))"
    using assms(2) by (auto simp: mutate_entry_def content_of_def fun_eq_iff split: option.splits)
  have in_dom: "dict_get (evacuated_store d) k = Some v \<Longrightarrow> k \<in> fst ` set (evacuated_store d)"
    "dict_get (lru_cache d) k = Some v \<Longrightarrow> k \<in> fst ` set (lru_cache d)"
    by (metis map_of_eq_None_iff option.distinct(1))+
  have "distinct (map fst (lru_cache (mutate_entry k f d)))" "fst ` set (lru_cache (mutate_entry k f d)) = fst ` set (lru_cache d)"
    "fst ` set (evacuated_store (mutate_entry k f d)) = fst ` set (evacuated_store d)"
    using assms in_dom by (auto simp: mutate_entry_def dict_ok_def dom_update distinct_update insert_absorb split: option.splits)
  moreover have "all_keys (mutate_entry k f d) = all_keys d" by (simp add: mutate_entry_def split: option.splits)
  ultimately show ?thesis using assms(1) c k by (auto simp: dict_ok_def)
qed

subsection \<open>It answers like a plain dictionary\<close>

text \<open>
  The calls of a user: \<open>D_change k f\<close> fetches the object under \<open>k\<close> and changes it in place.  An answer is the value of
  a key, or \<open>None\<close> when there is no such key.
\<close>

datatype dict_call =
    D_set string "changeset option" | D_get string | D_has string | D_del string | D_update "(string \<times> changeset option) list"
  | D_pop string "changeset option option" | D_default string "changeset option" | D_clear | D_change string "changeset \<Rightarrow> changeset"

fun dict_step :: "'b codec \<Rightarrow> dict_call \<Rightarrow> 'b cs_dict \<Rightarrow> 'b cs_dict \<times> changeset option option" where
  "dict_step C (D_set k v) d = (set_item C k v d, None)"
| "dict_step C (D_get k) d = load_entry C k d"
| "dict_step C (D_has k) d = (d, if has_key k d then Some None else None)"
| "dict_step C (D_del k) d = (del_item k d, None)"
| "dict_step C (D_update its) d = (update_dict C its d, None)"
| "dict_step C (D_pop k dflt) d = pop_item C k dflt d"
| "dict_step C (D_default k v) d = set_default C k v d"
| "dict_step C D_clear d = (clear_dict d, None)"
| "dict_step C (D_change k f) d = (case load_entry C k d of
     (d1, Some (Some v)) \<Rightarrow> (mutate_entry k f d1, Some (Some v))
   | r \<Rightarrow> r)"

fun map_step :: "dict_call \<Rightarrow> (string \<Rightarrow> changeset option option) \<Rightarrow> (string \<Rightarrow> changeset option option) \<times> changeset option option" where
  "map_step (D_set k v) m = (m(k \<mapsto> v), None)"
| "map_step (D_get k) m = (m, m k)"
| "map_step (D_has k) m = (m, if m k \<noteq> None then Some None else None)"
| "map_step (D_del k) m = (m(k := None), None)"
| "map_step (D_update its) m = (foldl (\<lambda>m (k, v). m(k \<mapsto> v)) m its, None)"
| "map_step (D_pop k dflt) m = (if m k \<noteq> None then (m(k := None), m k) else (m, dflt))"
| "map_step (D_default k v) m = (if m k \<noteq> None then (m, m k) else (m(k \<mapsto> v), Some v))"
| "map_step D_clear m = (Map.empty, None)"
| "map_step (D_change k f) m = (case m k of Some (Some v) \<Rightarrow> (m(k \<mapsto> Some (f v)), Some (Some v)) | r \<Rightarrow> (m, r))"

lemma evict_lru_size: "lru_size (evict_lru C d) = lru_size d"
proof (induction C d rule: evict_lru.induct)
  case (1 C d)
  then show ?case by (subst evict_lru.simps) (auto split: list.splits option.splits simp: Let_def)
qed

lemma place_size [simp]: "lru_size (place k v d) = lru_size d"
  by (cases v) (simp_all add: place_def Let_def)

lemma foldl_place_size: "lru_size (foldl (\<lambda>d (k, v). place k v d) d its) = lru_size d"
  by (induction its arbitrary: d) (auto split: prod.splits)

lemma load_entry_size: "load_entry C k d = (d', r) \<Longrightarrow> lru_size d' = lru_size d"
  by (auto simp: load_entry_def Let_def evict_lru_size split: option.splits if_splits)

lemma load_entry_size_fst: "lru_size (fst (load_entry C k d)) = lru_size d"
  using load_entry_size[of C k d] by (metis prod.collapse)

lemma mutate_entry_size [simp]: "lru_size (mutate_entry k f d) = lru_size d"
  by (simp add: mutate_entry_def split: option.splits)

lemma dict_step_size: "lru_size (fst (dict_step C call d)) = lru_size d"
  by (cases call)
    (auto simp: set_item_def del_item_def update_dict_def pop_item_def set_default_def clear_dict_def
      evict_lru_size foldl_place_size load_entry_size load_entry_size_fst split: prod.splits option.splits)

lemma has_key_content: "dict_ok C d \<Longrightarrow> has_key k d \<longleftrightarrow> content_of C d k \<noteq> None"
  by (simp add: has_key_def dict_ok_def)

lemma set_item_content:
  "faithful_codec C \<Longrightarrow> dict_ok C d \<Longrightarrow> dict_ok C (set_item C k v d) \<and> content_of C (set_item C k v d) = (content_of C d)(k \<mapsto> v)"
  using place_content evict_lru_content unfolding set_item_def by metis

lemma dict_step_refines:
  assumes "faithful_codec C" "dict_ok C d" "0 < lru_size d"
  shows "dict_ok C (fst (dict_step C call d))
    \<and> (content_of C (fst (dict_step C call d)), snd (dict_step C call d)) = map_step call (content_of C d)"
proof (cases call)
  case (D_set k v)
  then show ?thesis using set_item_content[OF assms(1,2), of k v] by simp
next
  case (D_get k)
  obtain d' r where l: "load_entry C k d = (d', r)" by (metis prod.exhaust)
  then show ?thesis using D_get load_entry_content[OF assms(1,2) l] by simp
next
  case (D_has k)
  then show ?thesis using assms(2) has_key_content[OF assms(2), of k] by simp
next
  case (D_del k)
  then show ?thesis using del_item_content[OF assms(2), of k] by simp
next
  case (D_update its)
  then show ?thesis using foldl_place_content[OF assms(2), of its] evict_lru_content[OF assms(1)] by (simp add: update_dict_def)
next
  case (D_pop k dflt)
  obtain d' r where l: "load_entry C k d = (d', r)" by (metis prod.exhaust)
  have lc: "dict_ok C d'" "content_of C d' = content_of C d" "r = content_of C d k" using load_entry_content[OF assms(1,2) l] by simp_all
  show ?thesis
  proof (cases "content_of C d k")
    case None
    then show ?thesis using D_pop assms(2) has_key_content[of C d k] by (simp add: pop_item_def)
  next
    case (Some v)
    then have "has_key k d" using has_key_content assms(2) by blast
    then show ?thesis using D_pop Some l lc del_item_content[OF lc(1), of k] by (simp add: pop_item_def)
  qed
next
  case (D_default k v)
  obtain d' r where l: "load_entry C k d = (d', r)" by (metis prod.exhaust)
  then show ?thesis
    using D_default load_entry_content[OF assms(1,2) l] set_item_content[OF assms(1,2), of k v] has_key_content[OF assms(2), of k]
    by (simp add: set_default_def)
next
  case D_clear
  then show ?thesis by (simp add: clear_dict_def dict_ok_def content_of_def fun_eq_iff)
next
  case (D_change k f)
  obtain d' r where l: "load_entry C k d = (d', r)" by (metis prod.exhaust)
  have lc: "dict_ok C d'" "content_of C d' = content_of C d" "r = content_of C d k" using load_entry_content[OF assms(1,2) l] by simp_all
  show ?thesis
  proof (cases "\<exists>v. r = Some (Some v)")
    case True
    then obtain v where v: "r = Some (Some v)" by blast
    note live = load_entry_live[OF assms(2,3) l[unfolded v]]
    show ?thesis using D_change l v lc mutate_entry_content[OF lc(1) live, of f] by simp
  next
    case False
    then show ?thesis using D_change l lc by (auto split: option.splits)
  qed
qed

fun dict_answers :: "'b codec \<Rightarrow> dict_call list \<Rightarrow> 'b cs_dict \<Rightarrow> changeset option option list" where
  "dict_answers C [] d = []"
| "dict_answers C (x # xs) d = (case dict_step C x d of (d', r) \<Rightarrow> r # dict_answers C xs d')"

fun map_answers :: "dict_call list \<Rightarrow> (string \<Rightarrow> changeset option option) \<Rightarrow> changeset option option list" where
  "map_answers [] m = []"
| "map_answers (x # xs) m = (case map_step x m of (m', r) \<Rightarrow> r # map_answers xs m')"

lemma dict_answers_refine:
  "faithful_codec C \<Longrightarrow> dict_ok C d \<Longrightarrow> 0 < lru_size d \<Longrightarrow> dict_answers C xs d = map_answers xs (content_of C d)"
proof (induction xs arbitrary: d)
  case (Cons x xs)
  obtain d' r where s: "dict_step C x d = (d', r)" by (metis prod.exhaust)
  have "dict_ok C d' \<and> (content_of C d', r) = map_step x (content_of C d)" "lru_size d' = lru_size d"
    using dict_step_refines[OF Cons.prems, of x] dict_step_size[of C x d] s by simp_all
  then show ?case using Cons.IH[of d'] Cons.prems s by (simp split: prod.splits) (metis fst_conv snd_conv)
qed simp

text \<open>
  C19: The compressed dictionary answers every sequence of calls like a plain dictionary, whatever is evicted,
  compressed, loaded back or kept because it cannot be pickled; a change made to an object fetched from it is seen by
  the next fetch.  The codec has to give back what it was given, and the cache to hold at least one entry.
\<close>

theorem cs_dict_is_a_dict:
  assumes "faithful_codec C" "0 < n"
  shows "dict_answers C calls (new_cs_dict n) = map_answers calls Map.empty"
proof -
  have "content_of C (new_cs_dict n) = Map.empty" by (simp add: new_cs_dict_def content_of_def fun_eq_iff)
  moreover have "dict_ok C (new_cs_dict n)" by (simp add: new_cs_dict_def dict_ok_def content_of_def)
  ultimately show ?thesis using dict_answers_refine[of C "new_cs_dict n" calls] assms by (simp add: new_cs_dict_def)
qed

text \<open>A codec on two change sets: it cannot pickle what has blocked operations.\<close>

definition demo_codec :: "changeset codec" where
  "demo_codec = \<lparr>dumps = (\<lambda>c. if blocked_on c = None then Some c else None), loads = id\<rparr>"

definition demo_cs :: "string \<Rightarrow> string option \<Rightarrow> changeset" where
  "demo_cs p b = (new_changeset (Some ''M'') (Some p) None)\<lparr>blocked_on := b\<rparr>"

lemma faithful_demo: "faithful_codec demo_codec"
  by (simp add: faithful_codec_def demo_codec_def)

definition demo_calls :: "dict_call list" where
  "demo_calls = [D_set ''a'' (Some (demo_cs ''a'' None)), D_set ''b'' (Some (demo_cs ''b'' (Some ''x''))),
     D_set ''c'' None, D_change ''a'' (\<lambda>c. c\<lparr>no_ref_depth := 5\<rparr>), D_set ''d'' (Some (demo_cs ''d'' None)),
     D_get ''a'', D_get ''b'', D_has ''c'', D_pop ''d'' None, D_get ''d'']"

lemma cs_dict_is_a_dict_witness:
  "dict_answers demo_codec demo_calls (new_cs_dict 1) = map_answers demo_calls Map.empty
     \<and> map_answers demo_calls Map.empty ! 5 = Some (Some ((demo_cs ''a'' None)\<lparr>no_ref_depth := 5\<rparr>))"
proof
  show "dict_answers demo_codec demo_calls (new_cs_dict 1) = map_answers demo_calls Map.empty"
    by (rule cs_dict_is_a_dict) (simp_all add: faithful_demo)
  show "map_answers demo_calls Map.empty ! 5 = Some (Some ((demo_cs ''a'' None)\<lparr>no_ref_depth := 5\<rparr>))"
    by (simp add: demo_calls_def)
qed

subsection \<open>Pickling the dictionary\<close>

lemma flush_store:
  "distinct (map fst its) \<Longrightarrow> evacuated_store (foldl (\<lambda>d (k, v). fst (compress C k v d)) d its) = evacuated_store d
     \<and> all_keys (foldl (\<lambda>d (k, v). fst (compress C k v d)) d its) = all_keys d
     \<and> dict_get (compressed_store (foldl (\<lambda>d (k, v). fst (compress C k v d)) d its)) k =
       (case dict_get its k of None \<Rightarrow> dict_get (compressed_store d) k
        | Some v \<Rightarrow> (case dumps C v of None \<Rightarrow> dict_get (compressed_store d) k | Some b \<Rightarrow> Some (Some b)))"
proof (induction its arbitrary: d)
  case (Cons it its)
  obtain k0 v0 where it: "it = (k0, v0)" by (cases it)
  have "dict_get its k0 = None" using Cons.prems it by (simp add: map_of_eq_None_iff)
  with Cons.IH[of "fst (compress C k0 v0 d)"] Cons.prems it show ?case
    by (auto simp: compress_def split: option.splits)
qed simp

text \<open>
  C38: Pickling the dictionary keeps its content, provided every cached change set can be pickled.  (An entry that
  cannot is dropped from the copy although its key is kept: see \<open>unpicklable_entry_lost\<close>.)
\<close>

theorem reduced_keeps_content:
  assumes "faithful_codec C" "dict_ok C d" "\<And>k v. (k, v) \<in> set (lru_cache d) \<Longrightarrow> dumps C v \<noteq> None"
  shows "content_of C (reduced C d) = content_of C d"
proof
  fix k
  have dist: "distinct (map fst (lru_cache d))" using assms(2) by (simp add: dict_ok_def)
  note f = flush_store[OF dist, of C d k]
  show "content_of C (reduced C d) k = content_of C d k"
  proof (cases "dict_get (lru_cache d) k")
    case (Some v)
    then obtain b where b: "dumps C v = Some b" using assms(3) by (meson map_of_SomeD not_None_eq)
    then have "loads C b = v" using assms(1) by (simp add: faithful_codec_def)
    then show ?thesis using f Some b by (simp add: content_of_def reduced_def flush_def split: option.splits)
  next
    case None
    then show ?thesis using f by (simp add: content_of_def reduced_def flush_def split: option.splits)
  qed
qed

lemma reduced_keeps_content_witness:
  "content_of demo_codec (reduced demo_codec (set_item demo_codec ''a'' (Some (demo_cs ''a'' None)) (new_cs_dict 2))) ''a''
     = Some (Some (demo_cs ''a'' None))"
proof -
  let ?d = "set_item demo_codec ''a'' (Some (demo_cs ''a'' None)) (new_cs_dict 2)"
  have e: "dict_ok demo_codec (new_cs_dict 2)" by (simp add: new_cs_dict_def dict_ok_def content_of_def)
  note s = set_item_content[OF faithful_demo e, of "''a''" "Some (demo_cs ''a'' None)"]
  have l: "lru_cache ?d = [(''a'', demo_cs ''a'' None)]"
    by (subst set_item_def, subst evict_lru.simps)
      (simp add: place_def Let_def new_cs_dict_def is_evacuated_def demo_cs_def new_changeset_def split_status_def nonempty_def)
  have "content_of demo_codec (reduced demo_codec ?d) = content_of demo_codec ?d"
    by (rule reduced_keeps_content[OF faithful_demo]) (use s l in \<open>auto simp: demo_codec_def demo_cs_def new_changeset_def split_status_def nonempty_def\<close>)
  then show ?thesis using s by simp
qed

text \<open>\<open>flush\<close> ignores that an entry could not be pickled, and \<open>__reduce__\<close> then drops the cache that held it.\<close>

lemma unpicklable_entry_lost:
  "has_key ''b'' (reduced demo_codec (set_item demo_codec ''b'' (Some (demo_cs ''b'' (Some ''x''))) (new_cs_dict 2)))
     \<and> content_of demo_codec (reduced demo_codec (set_item demo_codec ''b'' (Some (demo_cs ''b'' (Some ''x''))) (new_cs_dict 2))) ''b'' = None"
  by (subst (1 2) set_item_def, subst (1 2) evict_lru.simps)
    (simp add: place_def Let_def new_cs_dict_def is_evacuated_def demo_cs_def new_changeset_def split_status_def nonempty_def
      reduced_def flush_def compress_def demo_codec_def has_key_def content_of_def append_new_def)

end
