(* ===== verification/Sched_Waves.thy ===== *)
theory Sched_Waves
  imports ChangeSet_Routes ChangeSet_Store "HOL-Library.Char_ord" "HOL-Library.List_Lexorder" "HOL-Library.Product_Lexorder"
begin

section \<open>Dependency waves (execute\_phase2\_parallel\_waves, main.py)\<close>

text \<open>
  The files of an update that have not executed yet run in waves: a wave holds the files whose dependencies have all
  executed; when there is none, one file is run with stubs to break the cycle.  What running a file does is a parameter
  here (\<open>wave_env\<close>) and given by the change sets in \<open>Sched_Run\<close>; the log lists the files in the order they ran.  Sets of
  paths are lists without repetition.
\<close>

subsection \<open>State\<close>

record waves =
  w_remaining :: "string list"
  w_deps :: "(string, string list) dict"
  w_dependents :: "(string, string list) dict"
  w_ready :: "string list"
  w_completed :: "string list"
  w_count :: nat
  w_last_commit :: nat

datatype wave_event = Ran string | Forced string

text \<open>
  What a wave calls: running a file of a wave (and evacuating and storing it), running the file that breaks a deadlock,
  the commits, the deadline before each wave, the number of operations of a file.
\<close>

record 'w wave_env =
  wave_file :: "string \<Rightarrow> 'w \<Rightarrow> 'w \<times> cs_error option"
  stub_file :: "string \<Rightarrow> 'w \<Rightarrow> 'w \<times> cs_error option"
  wave_commit :: "'w \<Rightarrow> 'w \<times> cs_error option"
  last_commit :: "'w \<Rightarrow> 'w \<times> cs_error option"
  deadline :: "nat \<Rightarrow> bool"
  op_count :: "string \<Rightarrow> nat"
  chunk_interval :: nat

type_synonym 'w wave_state = "waves \<times> 'w \<times> wave_event list"

fun event_path :: "wave_event \<Rightarrow> string" where
  "event_path (Ran p) = p"
| "event_path (Forced p) = p"

subsection \<open>The dependency graph\<close>

text \<open>The paths that have not executed: \<open>stored_executed\<close> is \<open>_stored_changeset_executed\<close>.\<close>

definition find_remaining :: "(string, string list) dict \<Rightarrow> (string \<Rightarrow> bool option) \<Rightarrow> string list \<Rightarrow> string list \<times> string list" where
  "find_remaining file_deps stored_executed completed =
     foldl (\<lambda>(rem, done_set) p.
        if p \<in> set done_set then (rem, done_set)
        else case stored_executed p of
            None \<Rightarrow> (rem, done_set)
          | Some True \<Rightarrow> (rem, append_new done_set p)
          | Some False \<Rightarrow> (append_new rem p, done_set))
      ([], completed) (map fst file_deps)"

definition live_deps :: "(string, string list) dict \<Rightarrow> string list \<Rightarrow> string \<Rightarrow> string list" where
  "live_deps file_deps rem p = filter (\<lambda>t. t \<in> set rem \<and> t \<noteq> p) (remdups (dict_list file_deps p))"

definition add_dependent :: "string \<Rightarrow> (string, string list) dict \<Rightarrow> string \<Rightarrow> (string, string list) dict" where
  "add_dependent p d t = dict_set t (append_new (dict_list d t) p) d"

definition start_waves :: "(string, string list) dict \<Rightarrow> string list \<Rightarrow> string list \<Rightarrow> waves" where
  "start_waves file_deps rem completed =
     \<lparr>w_remaining = rem, w_deps = map (\<lambda>p. (p, live_deps file_deps rem p)) rem,
      w_dependents = foldl (\<lambda>d p. foldl (add_dependent p) d (live_deps file_deps rem p)) [] rem,
      w_ready = filter (\<lambda>p. live_deps file_deps rem p = []) rem,
      w_completed = completed, w_count = 0, w_last_commit = 0\<rparr>"

text \<open>\<open>_finish\<close>\<close>

definition release :: "string \<Rightarrow> waves \<Rightarrow> string \<Rightarrow> waves" where
  "release p w waiter = (case dict_get (w_deps w) waiter of
       None \<Rightarrow> w
     | Some ds \<Rightarrow> (let ds1 = filter (\<lambda>d. d \<noteq> p) ds; w1 = w\<lparr>w_deps := dict_set waiter ds1 (w_deps w)\<rparr>
         in if ds1 = [] \<and> waiter \<in> set (w_remaining w) then w1\<lparr>w_ready := append_new (w_ready w1) waiter\<rparr> else w1))"

definition finish_file :: "string \<Rightarrow> waves \<Rightarrow> waves" where
  "finish_file p w =
     foldl (release p)
       (w\<lparr>w_remaining := filter (\<lambda>x. x \<noteq> p) (w_remaining w), w_completed := append_new (w_completed w) p,
          w_deps := dict_del p (w_deps w), w_dependents := dict_del p (w_dependents w)\<rparr>)
       (dict_list (w_dependents w) p)"

subsection \<open>Running\<close>

text \<open>The bookkeeping after a file, with the commit every \<open>chunk_interval\<close> files.\<close>

definition after_file :: "'w wave_env \<Rightarrow> string \<Rightarrow> wave_event \<Rightarrow> 'w wave_state \<Rightarrow> 'w wave_state \<times> cs_error option" where
  "after_file W p ev s = (case s of (w, x, lg) \<Rightarrow>
     (let w1 = (finish_file p w)\<lparr>w_count := w_count w + 1\<rparr>
      in if w_count w1 - w_last_commit w1 \<ge> chunk_interval W
         then (case wave_commit W x of
             (x1, Some e) \<Rightarrow> ((w1, x1, lg @ [ev]), Some e)
           | (x1, None) \<Rightarrow> ((w1\<lparr>w_last_commit := w_count w1\<rparr>, x1, lg @ [ev]), None))
         else ((w1, x, lg @ [ev]), None)))"

fun wave_files :: "'w wave_env \<Rightarrow> string list \<Rightarrow> 'w wave_state \<Rightarrow> 'w wave_state \<times> cs_error option" where
  "wave_files W [] s = (s, None)"
| "wave_files W (p # ps) (w, x, lg) = (case wave_file W p x of
       (x1, Some e) \<Rightarrow> ((w, x1, lg), Some e)
     | (x1, None) \<Rightarrow> (case after_file W p (Ran p) (w, x1, lg) of
           (s1, Some e) \<Rightarrow> (s1, Some e)
         | (s1, None) \<Rightarrow> wave_files W ps s1))"

text \<open>The file most others wait on; ties go to the fewest operations, then to the greatest path.\<close>

definition candidate_key :: "'w wave_env \<Rightarrow> waves \<Rightarrow> string \<Rightarrow> nat \<times> int \<times> string" where
  "candidate_key W w p = (length (dict_list (w_dependents w) p), - int (op_count W p), p)"

definition candidate :: "'w wave_env \<Rightarrow> waves \<Rightarrow> string" where
  "candidate W w = foldl (\<lambda>b p. if candidate_key W w b < candidate_key W w p then p else b) (hd (w_remaining w)) (tl (w_remaining w))"

definition break_deadlock :: "'w wave_env \<Rightarrow> 'w wave_state \<Rightarrow> 'w wave_state \<times> cs_error option" where
  "break_deadlock W s = (case s of (w, x, lg) \<Rightarrow>
     (let p = candidate W w
      in case stub_file W p x of
           (x1, Some e) \<Rightarrow> ((w, x1, lg), Some e)
         | (x1, None) \<Rightarrow> after_file W p (Forced p) (w, x1, lg)))"

definition one_wave :: "'w wave_env \<Rightarrow> 'w wave_state \<Rightarrow> 'w wave_state \<times> cs_error option" where
  "one_wave W s = (case s of (w, x, lg) \<Rightarrow>
     (let wave = sort (w_ready w); w1 = w\<lparr>w_ready := []\<rparr>
      in if wave = [] then break_deadlock W (w1, x, lg) else wave_files W wave (w1, x, lg)))"

text \<open>The loop; \<open>None\<close> when the fuel does not last.\<close>

fun run_waves :: "'w wave_env \<Rightarrow> nat \<Rightarrow> nat \<Rightarrow> 'w wave_state \<Rightarrow> ('w wave_state \<times> cs_error option) option" where
  "run_waves W n fuel s =
     (if w_remaining (fst s) = [] \<or> deadline W n then Some (s, None)
      else case fuel of
          0 \<Rightarrow> None
        | Suc f \<Rightarrow> (case one_wave W s of
              (s1, Some e) \<Rightarrow> Some (s1, Some e)
            | (s1, None) \<Rightarrow> run_waves W (Suc n) f s1))"

declare run_waves.simps [simp del]

definition execute_waves :: "'w wave_env \<Rightarrow> (string, string list) dict \<Rightarrow> (string \<Rightarrow> bool option) \<Rightarrow> string list \<Rightarrow> 'w
    \<Rightarrow> ('w wave_state \<times> cs_error option) option" where
  "execute_waves W file_deps stored_executed completed x =
     (let (rem, done_set) = find_remaining file_deps stored_executed completed;
          w0 = start_waves file_deps rem done_set
      in if rem = [] then Some ((w0, x, []), None)
         else (case run_waves W 0 (length rem) (w0, x, []) of
             Some ((w, x1, lg), None) \<Rightarrow>
               if w_count w > w_last_commit w
               then (case last_commit W x1 of (x2, e) \<Rightarrow> Some ((w, x2, lg), e))
               else Some ((w, x1, lg), None)
           | r \<Rightarrow> r))"


subsection \<open>Finishing a file\<close>

lemma release_fields:
  "w_remaining (release p w q) = w_remaining w" "w_completed (release p w q) = w_completed w"
  "w_dependents (release p w q) = w_dependents w" "w_count (release p w q) = w_count w"
  "w_last_commit (release p w q) = w_last_commit w"
  by (simp_all add: release_def Let_def split: option.splits)

lemma releases_fields:
  "w_remaining (foldl (release p) w qs) = w_remaining w" "w_completed (foldl (release p) w qs) = w_completed w"
  "w_dependents (foldl (release p) w qs) = w_dependents w" "w_count (foldl (release p) w qs) = w_count w"
  "w_last_commit (foldl (release p) w qs) = w_last_commit w"
  by (induction qs arbitrary: w) (simp_all add: release_fields)

text \<open>The waiters lose the dependency; the ones that had no other become ready.\<close>

lemma release_one:
  "dict_get (w_deps (release p w q)) x = (if x = q then map_option (filter (\<lambda>d. d \<noteq> p)) (dict_get (w_deps w) q) else dict_get (w_deps w) x)"
  "set (w_ready (release p w q)) = set (w_ready w) \<union>
     {x. x = q \<and> q \<in> set (w_remaining w) \<and> map_option (filter (\<lambda>d. d \<noteq> p)) (dict_get (w_deps w) q) = Some []}"
  "distinct (w_ready w) \<Longrightarrow> distinct (w_ready (release p w q))"
  by (auto simp: release_def Let_def split: option.splits)

lemma releases:
  assumes "distinct qs"
  shows "dict_get (w_deps (foldl (release p) w qs)) x =
      (if x \<in> set qs then map_option (filter (\<lambda>d. d \<noteq> p)) (dict_get (w_deps w) x) else dict_get (w_deps w) x) \<and>
    set (w_ready (foldl (release p) w qs)) = set (w_ready w) \<union>
      {x \<in> set qs. x \<in> set (w_remaining w) \<and> map_option (filter (\<lambda>d. d \<noteq> p)) (dict_get (w_deps w) x) = Some []} \<and>
    (distinct (w_ready w) \<longrightarrow> distinct (w_ready (foldl (release p) w qs)))"
  using assms
proof (induction qs arbitrary: w)
  case (Cons q qs)
  have q: "q \<notin> set qs" using Cons.prems by simp
  have ih: "dict_get (w_deps (foldl (release p) w (q # qs))) x =
      (if x \<in> set qs then map_option (filter (\<lambda>d. d \<noteq> p)) (dict_get (w_deps (release p w q)) x) else dict_get (w_deps (release p w q)) x)"
    "set (w_ready (foldl (release p) w (q # qs))) = set (w_ready (release p w q)) \<union>
      {x \<in> set qs. x \<in> set (w_remaining w) \<and> map_option (filter (\<lambda>d. d \<noteq> p)) (dict_get (w_deps (release p w q)) x) = Some []}"
    "distinct (w_ready (release p w q)) \<longrightarrow> distinct (w_ready (foldl (release p) w (q # qs)))"
    using Cons.IH[of "release p w q"] Cons.prems by (simp_all add: release_fields)
  have "{x \<in> set qs. x \<in> set (w_remaining w) \<and> map_option (filter (\<lambda>d. d \<noteq> p)) (dict_get (w_deps (release p w q)) x) = Some []}
      = {x \<in> set qs. x \<in> set (w_remaining w) \<and> map_option (filter (\<lambda>d. d \<noteq> p)) (dict_get (w_deps w) x) = Some []}"
    using q by (auto simp: release_one(1))
  then show ?case using ih q by (auto simp: release_one)
qed simp

subsection \<open>The invariant of the waves\<close>

text \<open>
  With \<open>R\<close> the files of the waves and \<open>L\<close> their dependencies among them: the graph holds exactly what has not run, and
  the files of the running wave and the ready ones are those that wait for nothing.
\<close>

definition wave_inv :: "string list \<Rightarrow> (string \<Rightarrow> string list) \<Rightarrow> string list \<Rightarrow> waves \<Rightarrow> bool" where
  "wave_inv R L wave w \<longleftrightarrow> distinct (w_remaining w) \<and> set (w_remaining w) \<subseteq> set R
   \<and> (\<forall>p. dict_get (w_deps w) p = (if p \<in> set (w_remaining w) then Some (filter (\<lambda>d. d \<in> set (w_remaining w)) (L p)) else None))
   \<and> (\<forall>t\<in>set (w_remaining w). distinct (dict_list (w_dependents w) t) \<and> set (dict_list (w_dependents w) t) = {p \<in> set R. t \<in> set (L p)})
   \<and> distinct (w_ready w) \<and> distinct wave \<and> set (w_ready w) \<inter> set wave = {}
   \<and> set (w_ready w) \<union> set wave = {p \<in> set (w_remaining w). set (L p) \<inter> set (w_remaining w) = {}}"

lemma filter_member_Nil: "filter (\<lambda>d. d \<in> A) xs = [] \<longleftrightarrow> set xs \<inter> A = {}"
  by (auto simp: filter_empty_conv)

lemma finish_file_inv:
  assumes inv: "wave_inv R L wave w" and p: "p \<in> set (w_remaining w)" "p \<notin> set (w_ready w)"
  shows "wave_inv R L (filter (\<lambda>x. x \<noteq> p) wave) (finish_file p w)"
    "w_remaining (finish_file p w) = filter (\<lambda>x. x \<noteq> p) (w_remaining w)" "w_count (finish_file p w) = w_count w"
    "w_last_commit (finish_file p w) = w_last_commit w"
proof -
  let ?rem = "filter (\<lambda>x. x \<noteq> p) (w_remaining w)"
  let ?w1 = "w\<lparr>w_remaining := ?rem, w_completed := append_new (w_completed w) p,
          w_deps := dict_del p (w_deps w), w_dependents := dict_del p (w_dependents w)\<rparr>"
  let ?qs = "dict_list (w_dependents w) p"
  have i: "distinct (w_remaining w)" "set (w_remaining w) \<subseteq> set R"
    "\<And>q. dict_get (w_deps w) q = (if q \<in> set (w_remaining w) then Some (filter (\<lambda>d. d \<in> set (w_remaining w)) (L q)) else None)"
    "\<And>t. t \<in> set (w_remaining w) \<Longrightarrow> distinct (dict_list (w_dependents w) t) \<and> set (dict_list (w_dependents w) t) = {q \<in> set R. t \<in> set (L q)}"
    "distinct (w_ready w)" "distinct wave" "set (w_ready w) \<inter> set wave = {}"
    "set (w_ready w) \<union> set wave = {q \<in> set (w_remaining w). set (L q) \<inter> set (w_remaining w) = {}}"
    using inv by (auto simp: wave_inv_def)
  have qs: "distinct ?qs" "set ?qs = {q \<in> set R. p \<in> set (L q)}" using i(4)[OF p(1)] by auto
  note r = releases[OF qs(1), of p ?w1]
  have f: "finish_file p w = foldl (release p) ?w1 ?qs" by (simp add: finish_file_def)
  show rem: "w_remaining (finish_file p w) = ?rem" "w_count (finish_file p w) = w_count w"
    "w_last_commit (finish_file p w) = w_last_commit w" by (simp_all add: f releases_fields)
  have shrink: "filter (\<lambda>d. d \<noteq> p) (filter (\<lambda>d. d \<in> set (w_remaining w)) xs) = filter (\<lambda>d. d \<in> set ?rem) xs" for xs
    by (auto intro: filter_cong)
  have deps: "dict_get (w_deps (finish_file p w)) q = (if q \<in> set ?rem then Some (filter (\<lambda>d. d \<in> set ?rem) (L q)) else None)" for q
  proof (cases "q \<in> set ?qs")
    case True
    then show ?thesis using r[of q] unfolding f by (auto simp: i(3) shrink)
  next
    case False
    have "filter (\<lambda>d. d \<in> set ?rem) (L q) = filter (\<lambda>d. d \<in> set (w_remaining w)) (L q)" if "q \<in> set (w_remaining w)"
      using False that qs(2) i(2) by (auto intro!: filter_cong)
    then show ?thesis using r[of q] False unfolding f by (auto simp: i(3))
  qed
  have w1: "dict_get (w_deps ?w1) q = (if q \<in> set ?rem then Some (filter (\<lambda>d. d \<in> set (w_remaining w)) (L q)) else None)" for q
    by (auto simp: i(3))
  have ready: "set (w_ready (finish_file p w)) = set (w_ready w) \<union> {q \<in> set ?rem. p \<in> set (L q) \<and> set (L q) \<inter> set ?rem = {}}"
  proof -
    have "map_option (filter (\<lambda>d. d \<noteq> p)) (dict_get (w_deps ?w1) q) = Some [] \<longleftrightarrow> q \<in> set ?rem \<and> set (L q) \<inter> set ?rem = {}" for q
      unfolding w1 by (simp only: option.map if_distrib[of "map_option _"] shrink) (auto simp: filter_empty_conv)
    then have "{q \<in> set ?qs. q \<in> set ?rem \<and> map_option (filter (\<lambda>d. d \<noteq> p)) (dict_get (w_deps ?w1) q) = Some []}
        = {q \<in> set ?rem. p \<in> set (L q) \<and> set (L q) \<inter> set ?rem = {}}" unfolding qs(2) using i(2) by auto
    then show ?thesis using r unfolding f by simp
  qed
  show "wave_inv R L (filter (\<lambda>x. x \<noteq> p) wave) (finish_file p w)"
    unfolding wave_inv_def rem
  proof (intro conjI allI ballI)
    show "distinct ?rem" "set ?rem \<subseteq> set R" using i(1,2) by auto
    show "dict_get (w_deps (finish_file p w)) q = (if q \<in> set ?rem then Some (filter (\<lambda>d. d \<in> set ?rem) (L q)) else None)" for q
      by (rule deps)
    fix t assume t: "t \<in> set ?rem"
    have "dict_list (w_dependents (finish_file p w)) t = dict_list (w_dependents w) t"
      using t by (simp add: f releases_fields dict_list_def)
    then show "distinct (dict_list (w_dependents (finish_file p w)) t)"
      "set (dict_list (w_dependents (finish_file p w)) t) = {q \<in> set R. t \<in> set (L q)}" using i(4)[of t] t by auto
  next
    show "distinct (w_ready (finish_file p w))" using r i(5) unfolding f by simp
    show "distinct (filter (\<lambda>x. x \<noteq> p) wave)" using i(6) by simp
    have nw: "q \<notin> set wave \<union> set (w_ready w)" if "q \<in> set ?rem" "p \<in> set (L q)" for q
      using that i(8) p(1) by blast
    show "set (w_ready (finish_file p w)) \<inter> set (filter (\<lambda>x. x \<noteq> p) wave) = {}"
      unfolding ready using i(7) nw by auto
    show "set (w_ready (finish_file p w)) \<union> set (filter (\<lambda>x. x \<noteq> p) wave) = {q \<in> set ?rem. set (L q) \<inter> set ?rem = {}}"
    proof (rule set_eqI)
      fix q
      have a: "q \<in> set (w_ready w) \<or> q \<in> set wave \<longleftrightarrow> q \<in> set (w_remaining w) \<and> set (L q) \<inter> set (w_remaining w) = {}"
        using i(8) by blast
      have b: "set (L q) \<inter> set ?rem = {} \<longleftrightarrow> set (L q) \<inter> set (w_remaining w) \<subseteq> {p}" by auto
      show "q \<in> set (w_ready (finish_file p w)) \<union> set (filter (\<lambda>x. x \<noteq> p) wave) \<longleftrightarrow> q \<in> {q \<in> set ?rem. set (L q) \<inter> set ?rem = {}}"
        unfolding ready using a b p by auto
    qed
  qed
qed


subsection \<open>The start\<close>

lemma append_new_twice [simp]: "append_new (append_new xs x) x = append_new xs x"
  by (simp add: append_new_def)

lemma add_dependent_one: "dict_list (add_dependent p d t') t = (if t = t' then append_new (dict_list d t) p else dict_list d t)"
  by (simp add: add_dependent_def dict_list_def)

lemma add_dependents:
  "dict_list (foldl (add_dependent p) d ts) t = (if t \<in> set ts then append_new (dict_list d t) p else dict_list d t)"
  by (induction ts arbitrary: d) (simp_all add: add_dependent_one)

lemma dependents_of:
  "set (dict_list (foldl (\<lambda>d p. foldl (add_dependent p) d (L p)) d0 ps) t) = set (dict_list d0 t) \<union> {p \<in> set ps. t \<in> set (L p)} \<and>
   (distinct (dict_list d0 t) \<longrightarrow> distinct (dict_list (foldl (\<lambda>d p. foldl (add_dependent p) d (L p)) d0 ps) t))"
proof (induction ps arbitrary: d0)
  case (Cons p ps)
  have "set (dict_list (foldl (add_dependent p) d0 (L p)) t) = set (dict_list d0 t) \<union> (if t \<in> set (L p) then {p} else {})"
    "distinct (dict_list d0 t) \<longrightarrow> distinct (dict_list (foldl (add_dependent p) d0 (L p)) t)"
    by (simp_all add: add_dependents)
  then show ?case using Cons.IH[of "foldl (add_dependent p) d0 (L p)"] by (simp split: if_splits) blast+
qed simp

lemma dict_get_map_fun: "dict_get (map (\<lambda>p. (p, f p)) ps) q = (if q \<in> set ps then Some (f q) else None)"
  by (induction ps) auto

lemma start_waves_inv:
  assumes "distinct rem"
  shows "wave_inv rem (live_deps file_deps rem) [] (start_waves file_deps rem c)"
proof -
  let ?L = "live_deps file_deps rem"
  have L: "filter (\<lambda>d. d \<in> set rem) (?L p) = ?L p" for p by (rule filter_True) (simp add: live_deps_def)
  have "?L p = [] \<longleftrightarrow> set (?L p) \<inter> set rem = {}" for p by (metis L filter_member_Nil)
  moreover have "distinct (dict_list (w_dependents (start_waves file_deps rem c)) t) \<and>
      set (dict_list (w_dependents (start_waves file_deps rem c)) t) = {p \<in> set rem. t \<in> set (?L p)}" for t
    using dependents_of[of ?L "[]" rem t] by (simp add: start_waves_def dict_list_def)
  ultimately show ?thesis using assms by (simp add: wave_inv_def start_waves_def dict_get_map_fun L)
qed

subsection \<open>The log\<close>

text \<open>
  The log holds the files that ran, each once; a file of a wave comes after its dependencies, and a forced one stands
  where every file left waits for a file left.
\<close>

definition log_ok :: "string list \<Rightarrow> (string \<Rightarrow> string list) \<Rightarrow> wave_event list \<Rightarrow> bool" where
  "log_ok R L lg \<longleftrightarrow> distinct (map event_path lg) \<and> (\<forall>pre ev post. lg = pre @ ev # post \<longrightarrow>
     (case ev of
        Ran p \<Rightarrow> set (L p) \<inter> set R \<subseteq> event_path ` set pre
      | Forced p \<Rightarrow> (\<forall>q \<in> set R - event_path ` set pre. \<exists>d \<in> set (L q). d \<in> set R - event_path ` set pre)))"

definition state_ok :: "string list \<Rightarrow> (string \<Rightarrow> string list) \<Rightarrow> string list \<Rightarrow> 'w wave_state \<Rightarrow> bool" where
  "state_ok R L wave s \<longleftrightarrow> (case s of (w, x, lg) \<Rightarrow>
     wave_inv R L wave w \<and> log_ok R L lg \<and> set (w_remaining w) = set R - event_path ` set lg \<and> event_path ` set lg \<subseteq> set R)"

lemma log_ok_snoc:
  "log_ok R L (lg @ [ev]) \<longleftrightarrow> log_ok R L lg \<and> event_path ev \<notin> event_path ` set lg \<and>
     (case ev of
        Ran p \<Rightarrow> set (L p) \<inter> set R \<subseteq> event_path ` set lg
      | Forced p \<Rightarrow> (\<forall>q \<in> set R - event_path ` set lg. \<exists>d \<in> set (L q). d \<in> set R - event_path ` set lg))"
  (is "?l \<longleftrightarrow> ?r")
proof
  assume l: ?l
  have "log_ok R L lg" using l unfolding log_ok_def by (auto 0 3 intro: append_Cons)
  then show ?r using l unfolding log_ok_def by auto
next
  assume r: ?r
  show ?l unfolding log_ok_def
  proof (intro conjI allI impI)
    show "distinct (map event_path (lg @ [ev]))" using r by (auto simp: log_ok_def)
    fix pre e post assume "lg @ [ev] = pre @ e # post"
    then consider "pre = lg" "e = ev" | post' where "lg = pre @ e # post'"
      by (cases post rule: rev_cases) auto
    then show "case e of Ran p \<Rightarrow> set (L p) \<inter> set R \<subseteq> event_path ` set pre
      | Forced p \<Rightarrow> (\<forall>q \<in> set R - event_path ` set pre. \<exists>d \<in> set (L q). d \<in> set R - event_path ` set pre)"
      using r unfolding log_ok_def by cases blast+
  qed
qed

text \<open>One file, run or forced.\<close>

lemma wave_inv_count: "wave_inv R L wave (w\<lparr>w_count := n\<rparr>) = wave_inv R L wave w"
  "wave_inv R L wave (w\<lparr>w_last_commit := m\<rparr>) = wave_inv R L wave w"
  by (simp_all add: wave_inv_def)

lemma after_file_ok:
  assumes s: "state_ok R L wave (w, x, lg)" and p: "p \<in> set (w_remaining w)" "p \<notin> set (w_ready w)"
    and ev: "event_path ev = p" "case ev of Ran p \<Rightarrow> set (L p) \<inter> set (w_remaining w) = {}
       | Forced p \<Rightarrow> \<forall>q \<in> set (w_remaining w). set (L q) \<inter> set (w_remaining w) \<noteq> {}"
    and a: "after_file W p ev (w, x, lg) = (s', e)"
  shows "state_ok R L (filter (\<lambda>y. y \<noteq> p) wave) s' \<and> snd (snd s') = lg @ [ev]
    \<and> w_remaining (fst s') = filter (\<lambda>y. y \<noteq> p) (w_remaining w)"
proof -
  have i: "wave_inv R L wave w" "log_ok R L lg" "set (w_remaining w) = set R - event_path ` set lg" "event_path ` set lg \<subseteq> set R"
    using s by (simp_all add: state_ok_def)
  note f = finish_file_inv[OF i(1) p]
  have "set R - event_path ` set lg = set (w_remaining w)" using i(3) by simp
  then have lg: "log_ok R L (lg @ [ev])" using i(2) ev p(1) unfolding log_ok_snoc
    by (cases ev) (auto simp: i(3))
  have "set (filter (\<lambda>y. y \<noteq> p) (w_remaining w)) = set R - event_path ` set (lg @ [ev])" using i(3) ev(1) by auto
  moreover have "event_path ` set (lg @ [ev]) \<subseteq> set R" using i(3,4) ev(1) p(1) by auto
  moreover obtain w1 x1 where "s' = (w1, x1, lg @ [ev])" "wave_inv R L (filter (\<lambda>y. y \<noteq> p) wave) w1"
    "w_remaining w1 = filter (\<lambda>y. y \<noteq> p) (w_remaining w)"
    using a f(1,2) by (auto simp: after_file_def Let_def wave_inv_count split: if_splits prod.splits option.splits)
  ultimately show ?thesis using lg by (simp add: state_ok_def)
qed

text \<open>A wave, a broken deadlock, the loop.\<close>

lemma wave_files_ok:
  assumes "state_ok R L ps s" "wave_files W ps s = (s', e)"
  shows "\<exists>rest. state_ok R L rest s' \<and> (e = None \<longrightarrow> rest = [] \<and> set (w_remaining (fst s')) = set (w_remaining (fst s)) - set ps)"
  using assms
proof (induction ps arbitrary: s)
  case (Cons p ps)
  obtain w x lg where s: "s = (w, x, lg)" by (metis prod_cases3)
  obtain x1 e1 where r: "wave_file W p x = (x1, e1)" by (metis prod.exhaust)
  show ?case
  proof (cases e1)
    case (Some e2)
    then have "s' = (w, x1, lg)" "e = Some e2" using Cons.prems(2) s r by simp_all
    then show ?thesis using Cons.prems(1) s by (auto simp: state_ok_def)
  next
    case None
    have st: "state_ok R L (p # ps) (w, x1, lg)" using Cons.prems(1) s by (simp add: state_ok_def)
    then have "wave_inv R L (p # ps) w" by (simp add: state_ok_def)
    then have p: "p \<in> set (w_remaining w)" "p \<notin> set (w_ready w)" "set (L p) \<inter> set (w_remaining w) = {}" "p \<notin> set ps"
      by (auto simp: wave_inv_def)
    obtain s1 e3 where a: "after_file W p (Ran p) (w, x1, lg) = (s1, e3)" by (metis prod.exhaust)
    have f: "filter (\<lambda>y. y \<noteq> p) (p # ps) = ps" using p(4) by (simp add: filter_id_conv) (metis)
    note o = after_file_ok[OF st p(1,2) _ _ a, unfolded f]
    have o: "state_ok R L ps s1" "w_remaining (fst s1) = filter (\<lambda>y. y \<noteq> p) (w_remaining w)" using o p(3) by simp_all
    show ?thesis
    proof (cases e3)
      case (Some e4)
      then show ?thesis using Cons.prems(2) s r None a o(1) by auto
    next
      case n: None
      then have "wave_files W ps s1 = (s', e)" using Cons.prems(2) s r None a by simp
      from Cons.IH[OF o(1) this] show ?thesis using o(2) s by auto
    qed
  qed
qed auto

lemma candidate_remaining: "w_remaining w \<noteq> [] \<Longrightarrow> candidate W w \<in> set (w_remaining w)"
proof -
  have "foldl (\<lambda>b p. if candidate_key W w b < candidate_key W w p then p else b) b0 ps \<in> insert b0 (set ps)" for b0 ps
  proof (induction ps arbitrary: b0)
    case (Cons a ps)
    then show ?case using Cons.IH[of a] Cons.IH[of b0] by auto
  qed simp
  then show "w_remaining w \<noteq> [] \<Longrightarrow> candidate W w \<in> set (w_remaining w)"
    unfolding candidate_def by (cases "w_remaining w") simp_all
qed

lemma one_wave_ok:
  assumes s: "state_ok R L [] s" and ne: "w_remaining (fst s) \<noteq> []" and o: "one_wave W s = (s', e)"
  shows "\<exists>rest. state_ok R L rest s' \<and> (e = None \<longrightarrow> rest = [] \<and> card (set (w_remaining (fst s'))) < card (set (w_remaining (fst s))))"
proof -
  obtain w x lg where w: "s = (w, x, lg)" by (metis prod_cases3)
  let ?w1 = "w\<lparr>w_ready := []\<rparr>"
  have i: "wave_inv R L [] w" using s w by (simp add: state_ok_def)
  then have i1: "wave_inv R L (sort (w_ready w)) ?w1" by (simp add: wave_inv_def)
  then have s1: "state_ok R L (sort (w_ready w)) (?w1, x, lg)" using s w by (simp add: state_ok_def)
  show ?thesis
  proof (cases "w_ready w = []")
    case True
    have w1: "?w1 = w" by (rule waves.equality) (use True in simp_all)
    have "one_wave W s = break_deadlock W (?w1, x, lg)" using True by (simp add: one_wave_def w)
    then have w1: "one_wave W s = break_deadlock W (w, x, lg)" unfolding w1 .
    let ?p = "candidate W w"
    have p: "?p \<in> set (w_remaining w)" using candidate_remaining ne w by simp
    obtain x1 e1 where r: "stub_file W ?p x = (x1, e1)" by (metis prod.exhaust)
    show ?thesis
    proof (cases e1)
      case (Some e2)
      then have "s' = (w, x1, lg)" "e = Some e2" using o w1 r by (simp_all add: break_deadlock_def)
      then show ?thesis using s w by (auto simp: state_ok_def)
    next
      case None
      have st: "state_ok R L [] (w, x1, lg)" using s w by (simp add: state_ok_def)
      have a: "after_file W ?p (Forced ?p) (w, x1, lg) = (s', e)" using o w1 r None by (simp add: break_deadlock_def Let_def)
      have "\<forall>q \<in> set (w_remaining w). set (L q) \<inter> set (w_remaining w) \<noteq> {}" using i True by (auto simp: wave_inv_def)
      then have f: "state_ok R L [] s'" "w_remaining (fst s') = filter (\<lambda>y. y \<noteq> ?p) (w_remaining w)"
        using after_file_ok[OF st p _ _ _ a] True by simp_all
      have "set (filter (\<lambda>y. y \<noteq> ?p) (w_remaining w)) \<subset> set (w_remaining w)" using p by auto
      then show ?thesis using f w by (metis List.finite_set fst_conv psubset_card_mono)
    qed
  next
    case False
    then have "sort (w_ready w) \<noteq> []" by (metis set_empty set_sort)
    then have "wave_files W (sort (w_ready w)) (?w1, x, lg) = (s', e)" using o w by (simp add: one_wave_def Let_def)
    from wave_files_ok[OF s1 this] obtain rest where r: "state_ok R L rest s'"
      "e = None \<longrightarrow> rest = [] \<and> set (w_remaining (fst s')) = set (w_remaining w) - set (w_ready w)" by auto
    have "set (w_ready w) \<subseteq> set (w_remaining w)" using i by (auto simp: wave_inv_def)
    then have "set (w_remaining w) - set (w_ready w) \<subset> set (w_remaining w)" using False by (cases "w_ready w") auto
    then show ?thesis using r w by (metis List.finite_set fst_conv psubset_card_mono)
  qed
qed


lemma run_waves_ok:
  assumes "state_ok R L [] s" "run_waves W n fuel s = Some (s', e)"
  shows "\<exists>rest. state_ok R L rest s' \<and> (e = None \<longrightarrow> rest = [] \<and> ((\<forall>n. \<not> deadline W n) \<longrightarrow> w_remaining (fst s') = []))"
  using assms
proof (induction fuel arbitrary: n s)
  case 0
  then show ?case by (auto simp: run_waves.simps[of W n 0 s] split: if_splits)
next
  case (Suc fuel)
  show ?case
  proof (cases "w_remaining (fst s) = [] \<or> deadline W n")
    case True
    then show ?thesis using Suc.prems by (auto simp: run_waves.simps[of W n "Suc fuel" s])
  next
    case False
    obtain s1 e1 where o: "one_wave W s = (s1, e1)" by (metis prod.exhaust)
    obtain rest where r: "state_ok R L rest s1" "e1 = None \<longrightarrow> rest = []" using one_wave_ok[OF Suc.prems(1) _ o] False by blast
    show ?thesis
    proof (cases e1)
      case (Some e2)
      then show ?thesis using Suc.prems(2) False o r(1) by (auto simp: run_waves.simps[of W n "Suc fuel" s])
    next
      case None
      then have "run_waves W (Suc n) fuel s1 = Some (s', e)" using Suc.prems(2) False o by (simp add: run_waves.simps[of W n "Suc fuel" s])
      then show ?thesis using Suc.IH r None by blast
    qed
  qed
qed

lemma run_waves_ends:
  assumes "state_ok R L [] s" "card (set (w_remaining (fst s))) \<le> fuel"
  shows "run_waves W n fuel s \<noteq> None"
  using assms
proof (induction fuel arbitrary: n s)
  case 0
  then show ?case by (simp add: run_waves.simps[of W n 0 s])
next
  case (Suc fuel)
  show ?case
  proof (cases "w_remaining (fst s) = [] \<or> deadline W n")
    case False
    obtain s1 e1 where o: "one_wave W s = (s1, e1)" by (metis prod.exhaust)
    note r = one_wave_ok[OF Suc.prems(1) _ o]
    show ?thesis
    proof (cases e1)
      case None
      then have "state_ok R L [] s1" "card (set (w_remaining (fst s1))) \<le> fuel" using r False Suc.prems(2) by auto
      then show ?thesis using Suc.IH False o None by (simp add: run_waves.simps[of W n "Suc fuel" s])
    qed (use False o in \<open>simp add: run_waves.simps[of W n "Suc fuel" s]\<close>)
  qed (simp add: run_waves.simps[of W n "Suc fuel" s])
qed

lemma find_remaining_distinct: "distinct (fst (find_remaining fd se c))"
proof -
  have "distinct (fst (foldl (\<lambda>(rem, done_set) p.
        if p \<in> set done_set then (rem, done_set)
        else case se p of
            None \<Rightarrow> (rem, done_set)
          | Some True \<Rightarrow> (rem, append_new done_set p)
          | Some False \<Rightarrow> (append_new rem p, done_set)) (r, d) ps))" if "distinct r" for r d ps
    using that by (induction ps arbitrary: r d) (auto split: option.splits bool.splits)
  then show ?thesis by (simp add: find_remaining_def)
qed

lemma start_state_ok:
  "distinct rem \<Longrightarrow> state_ok rem (live_deps fd rem) [] (start_waves fd rem c, x, [])"
  using start_waves_inv[of rem fd c] by (simp add: state_ok_def log_ok_def start_waves_def)

subsection \<open>Small instances\<close>

text \<open>Files that always run: a chain of includes, and a cycle with a file outside it.\<close>

definition quiet_env :: "unit wave_env" where
  "quiet_env = \<lparr>wave_file = (\<lambda>_ x. (x, None)), stub_file = (\<lambda>_ x. (x, None)), wave_commit = (\<lambda>x. (x, None)), last_commit = (\<lambda>x. (x, None)),
     deadline = (\<lambda>_. False), op_count = (\<lambda>_. 0), chunk_interval = 2\<rparr>"

definition chain :: "(string, string list) dict" where
  "chain = [(''a'', [''b'', ''c'']), (''b'', [''c'']), (''c'', [])]"

definition cycle :: "(string, string list) dict" where
  "cycle = [(''a'', [''b'']), (''b'', [''a'']), (''c'', [''a''])]"

text \<open>
  C17: The wave pass ends.  Whatever running a file does, errors and deadlines included, every round takes at least one
  file out of the pass, so as many rounds as there are files left are enough.
\<close>

theorem waves_end: "execute_waves W fd se c x \<noteq> None"
proof -
  obtain rem dn where f: "find_remaining fd se c = (rem, dn)" by (metis prod.exhaust)
  have d: "distinct rem" using find_remaining_distinct[of fd se c] f by simp
  have "run_waves W 0 (length rem) (start_waves fd rem dn, x, []) \<noteq> None"
    by (rule run_waves_ends[OF start_state_ok[OF d]]) (simp add: start_waves_def distinct_card[OF d])
  then obtain w x1 lg e where "run_waves W 0 (length rem) (start_waves fd rem dn, x, []) = Some ((w, x1, lg), e)" by auto
  then show ?thesis by (cases e) (auto simp: execute_waves_def f Let_def split: prod.splits)
qed

text \<open>What a pass leaves: its loop, then perhaps the last commit.\<close>

lemma execute_waves_state:
  assumes "execute_waves W fd se c x = Some ((w, y, lg), e)" "find_remaining fd se c = (rem, dn)"
  shows "\<exists>rest. state_ok rem (live_deps fd rem) rest (w, y, lg) \<and> (e = None \<longrightarrow> (\<forall>n. \<not> deadline W n) \<longrightarrow> w_remaining w = [])"
proof -
  have d: "distinct rem" using find_remaining_distinct[of fd se c] assms(2) by simp
  note start = start_state_ok[OF d]
  show ?thesis
  proof (cases "rem = []")
    case True
    then have "w = start_waves fd rem dn" "lg = []" using assms by (simp_all add: execute_waves_def)
    moreover have "w_remaining (start_waves fd rem dn) = []" using True by (simp add: start_waves_def)
    ultimately show ?thesis using start[of fd dn y] by auto
  next
    case False
    then obtain w1 x1 lg1 e1 where r: "run_waves W 0 (length rem) (start_waves fd rem dn, x, []) = Some ((w1, x1, lg1), e1)"
      using assms by (auto simp: execute_waves_def split: option.splits)
    have "w = w1 \<and> lg = lg1 \<and> (e = None \<longrightarrow> e1 = None)"
      using assms False r by (cases e1) (auto simp: execute_waves_def Let_def split: if_splits prod.splits)
    then show ?thesis using run_waves_ok[OF start r] by (auto simp: state_ok_def)
  qed
qed

text \<open>
  C6: The wave pass runs every file, once.  When no file fails with an exception and the deadline is not reached, the
  files that ran are exactly the unexecuted ones, each run once, and none is left.
\<close>

theorem waves_run_all:
  assumes "execute_waves W fd se c x = Some ((w, y, lg), None)" "\<And>n. \<not> deadline W n"
  shows "distinct (map event_path lg) \<and> event_path ` set lg = set (fst (find_remaining fd se c)) \<and> w_remaining w = []"
proof -
  obtain rem dn where f: "find_remaining fd se c = (rem, dn)" by (metis prod.exhaust)
  obtain rest where "state_ok rem (live_deps fd rem) rest (w, y, lg)" "w_remaining w = []"
    using execute_waves_state[OF assms(1) f] assms(2) by blast
  then show ?thesis using f by (auto simp: state_ok_def log_ok_def)
qed

theorem waves_run_all_witness:
  "\<exists>w y. execute_waves quiet_env chain (\<lambda>_. Some False) [] () = Some ((w, y, [Ran ''c'', Ran ''b'', Ran ''a'']), None) \<and> w_remaining w = []"
proof -
  let ?r = "execute_waves quiet_env chain (\<lambda>_. Some False) [] ()"
  have lg: "map_option (\<lambda>((w, y, lg), e). (lg, e)) ?r = Some ([Ran ''c'', Ran ''b'', Ran ''a''], None)" by code_simp
  then obtain w y where r: "?r = Some ((w, y, [Ran ''c'', Ran ''b'', Ran ''a'']), None)" by auto
  have "\<not> deadline quiet_env n" for n by (simp add: quiet_env_def)
  from waves_run_all[OF r this] show ?thesis using r by blast
qed

text \<open>
  C3: The wave pass respects the dependencies.  Also when it stops early, a file of a wave ran after every unexecuted
  file it depends on, and a file was run with stubs only when every file left depended on a file left, that is at a
  circular deadlock.
\<close>

theorem waves_respect_dependencies:
  assumes "execute_waves W fd se c x = Some ((w, y, lg), e)" "rem = fst (find_remaining fd se c)"
  shows "(\<forall>pre p post. lg = pre @ Ran p # post \<longrightarrow> (\<forall>d\<in>set (dict_list fd p). d \<in> set rem \<and> d \<noteq> p \<longrightarrow> d \<in> event_path ` set pre))
    \<and> (\<forall>pre p post. lg = pre @ Forced p # post \<longrightarrow> (\<forall>q \<in> set rem - event_path ` set pre.
         \<exists>d \<in> set (dict_list fd q). d \<noteq> q \<and> d \<in> set rem - event_path ` set pre))"
proof -
  obtain dn where f: "find_remaining fd se c = (rem, dn)" using assms(2) by (metis prod.collapse)
  obtain rest where "state_ok rem (live_deps fd rem) rest (w, y, lg)" using execute_waves_state[OF assms(1) f] by blast
  then have ok: "log_ok rem (live_deps fd rem) lg" by (simp add: state_ok_def)
  have L: "set (live_deps fd rem p) = {d \<in> set (dict_list fd p). d \<in> set rem \<and> d \<noteq> p}" for p by (auto simp: live_deps_def)
  show ?thesis
  proof (intro conjI allI impI)
    fix pre p post assume "lg = pre @ Ran p # post"
    then have "set (live_deps fd rem p) \<inter> set rem \<subseteq> event_path ` set pre" using ok unfolding log_ok_def by fastforce
    then show "\<forall>d\<in>set (dict_list fd p). d \<in> set rem \<and> d \<noteq> p \<longrightarrow> d \<in> event_path ` set pre" unfolding L by auto
  next
    fix pre p post assume "lg = pre @ Forced p # post"
    then have "\<forall>q \<in> set rem - event_path ` set pre. \<exists>d \<in> set (live_deps fd rem q). d \<in> set rem - event_path ` set pre"
      using ok unfolding log_ok_def by fastforce
    then show "\<forall>q \<in> set rem - event_path ` set pre. \<exists>d \<in> set (dict_list fd q). d \<noteq> q \<and> d \<in> set rem - event_path ` set pre"
      unfolding L by blast
  qed
qed

theorem waves_respect_dependencies_witness:
  "\<exists>w y. execute_waves quiet_env cycle (\<lambda>_. Some False) [] () = Some ((w, y, [Forced ''a'', Ran ''b'', Ran ''c'']), None)
     \<and> (\<exists>d \<in> set (dict_list cycle ''b''). d \<noteq> ''b'' \<and> d \<in> {''a'', ''b'', ''c''})"
proof -
  let ?r = "execute_waves quiet_env cycle (\<lambda>_. Some False) [] ()"
  have "map_option (\<lambda>((w, y, lg), e). (lg, e)) ?r = Some ([Forced ''a'', Ran ''b'', Ran ''c''], None)" by code_simp
  then obtain w y where r: "?r = Some ((w, y, [Forced ''a'', Ran ''b'', Ran ''c'']), None)" by auto
  have rem: "[''a'', ''b'', ''c''] = fst (find_remaining cycle (\<lambda>_. Some False) [])" by code_simp
  from waves_respect_dependencies[OF r rem, THEN conjunct2, rule_format, of "[]" "''a''" "[Ran ''b'', Ran ''c'']" "''b''"]
  show ?thesis using r by auto
qed



end
