(* ===== verification/Sched_Stream.thy ===== *)
theory Sched_Stream
  imports ChangeSet_Store
begin

section \<open>The streaming scheduler (DependencyScheduler, main.py)\<close>

text \<open>
  While parsing workers still deliver files, every file that can run does: a file that has to wait for another file of
  the update is parked under it and runs again as soon as that one completes, which may wake more files.  What running a
  file does is a parameter (\<open>sched_env\<close>), given by the change sets in \<open>Sched_Run\<close>.  Sets of paths are lists without
  repetition, iterated in the order of insertion.
\<close>

subsection \<open>State\<close>

record sched =
  deferred_queue :: "string list"
  completed :: "string list"
  executed_count :: nat
  waiters :: "(string, string list) dict"
  pending_deps :: "(string, string list) dict"
  sched_ready :: "string list"

definition new_sched :: sched where
  "new_sched = \<lparr>deferred_queue = [], completed = [], executed_count = 0, waiters = [], pending_deps = [], sched_ready = []\<rparr>"

text \<open>A file that was tried: executed, evacuated and stored, or stored as it is with the file it is blocked on.\<close>

datatype tried = Executed | Parked "string option"

text \<open>
  What the scheduler calls.  \<open>try_batch\<close> runs a file of the batch at hand, \<open>try_stored\<close> one of the processor's dictionary
  (\<open>None\<close> when it holds none); \<open>store_batch\<close> stores a file of the batch as it is; \<open>known\<close>: the path is a changed one or
  has a change set; \<open>chunk_commit\<close> gets the number of executed files; \<open>open_batch\<close> records the batch's dependencies and
  runs its files without references; \<open>wave_pass\<close> is the pass of \<open>Sched_Waves\<close>, given and giving the completed paths.
\<close>

record 'w sched_env =
  try_batch :: "string \<Rightarrow> 'w \<Rightarrow> 'w \<times> (cs_error + tried)"
  try_stored :: "string \<Rightarrow> 'w \<Rightarrow> 'w \<times> (cs_error + tried) option"
  store_batch :: "string \<Rightarrow> 'w \<Rightarrow> 'w"
  batch_processed :: "'w \<Rightarrow> string \<Rightarrow> bool"
  batch_deps :: "'w \<Rightarrow> string \<Rightarrow> string list"
  known_path :: "'w \<Rightarrow> string \<Rightarrow> bool"
  chunk_commit :: "nat \<Rightarrow> 'w \<Rightarrow> 'w \<times> cs_error option"
  open_batch :: "'w \<Rightarrow> 'w \<times> cs_error option"
  wave_pass :: "string list \<Rightarrow> 'w \<Rightarrow> ('w \<times> string list) \<times> cs_error option"
  all_paths :: "'w \<Rightarrow> string list"
  end_headers :: "'w \<Rightarrow> 'w"
  end_stage :: "'w \<Rightarrow> 'w \<times> cs_error option"

subsection \<open>Completing and waking\<close>

definition sched_in_flight :: "'w sched_env \<Rightarrow> 'w \<Rightarrow> sched \<Rightarrow> string \<Rightarrow> bool" where
  "sched_in_flight V x s p \<longleftrightarrow> p \<notin> set (completed s) \<and> known_path V x p"

text \<open>A waiter of a completed file: a held header only when nothing else holds it.\<close>

definition wake :: "string \<Rightarrow> sched \<Rightarrow> string \<Rightarrow> sched" where
  "wake p s w = (case dict_get (pending_deps s) w of
       None \<Rightarrow> s\<lparr>sched_ready := sched_ready s @ [w]\<rparr>
     | Some ds \<Rightarrow> (let ds1 = filter (\<lambda>d. d \<noteq> p) ds
         in if ds1 \<noteq> [] then s\<lparr>pending_deps := dict_set w ds1 (pending_deps s)\<rparr>
            else s\<lparr>pending_deps := dict_del w (pending_deps s), sched_ready := sched_ready s @ [w]\<rparr>))"

text \<open>\<open>_complete\<close>\<close>

definition complete :: "string \<Rightarrow> sched \<Rightarrow> sched" where
  "complete p s = foldl (wake p) (s\<lparr>completed := append_new (completed s) p, waiters := dict_del p (waiters s)\<rparr>) (dict_list (waiters s) p)"

definition add_waiter :: "string \<Rightarrow> sched \<Rightarrow> string \<Rightarrow> sched" where
  "add_waiter p s d = s\<lparr>waiters := dict_set d (append_new (dict_list (waiters s) d) p) (waiters s)\<rparr>"

text \<open>\<open>_execute\<close>, after the file was tried.\<close>

definition settle :: "'w sched_env \<Rightarrow> string \<Rightarrow> bool \<Rightarrow> 'w \<times> (cs_error + tried) \<Rightarrow> sched \<Rightarrow> (sched \<times> 'w) \<times> cs_error option" where
  "settle V p defer t s = (case t of
       (x, Inl e) \<Rightarrow> ((s, x), Some e)
     | (x, Inr Executed) \<Rightarrow>
         (let s1 = complete p (s\<lparr>executed_count := executed_count s + 1\<rparr>)
          in case chunk_commit V (executed_count s1) x of (x1, e) \<Rightarrow> ((s1, x1), e))
     | (x, Inr (Parked b)) \<Rightarrow>
         (((case b of
             Some d \<Rightarrow> if d \<noteq> [] \<and> d \<noteq> p \<and> sched_in_flight V x s d then add_waiter p s d
                        else if defer then s\<lparr>deferred_queue := deferred_queue s @ [p]\<rparr> else s
           | None \<Rightarrow> if defer then s\<lparr>deferred_queue := deferred_queue s @ [p]\<rparr> else s), x), None))"

text \<open>The paths that are queued or wait; they bound how often \<open>_drain_ready\<close> can go round.\<close>

definition tracked :: "sched \<Rightarrow> string set" where
  "tracked s = set (sched_ready s) \<union> \<Union> (set ` snd ` set (waiters s))"

lemma finite_tracked [simp]: "finite (tracked s)"
  by (auto simp: tracked_def)

lemma wake_fields [simp]: "completed (wake p s w) = completed s" "waiters (wake p s w) = waiters s"
  "deferred_queue (wake p s w) = deferred_queue s" "executed_count (wake p s w) = executed_count s"
  by (simp_all add: wake_def Let_def split: option.splits)

lemma wakes_fields [simp]: "completed (foldl (wake p) s ws) = completed s" "waiters (foldl (wake p) s ws) = waiters s"
  "deferred_queue (foldl (wake p) s ws) = deferred_queue s" "executed_count (foldl (wake p) s ws) = executed_count s"
  by (induction ws arbitrary: s) simp_all

lemma wake_ready: "set (sched_ready (wake p s w)) \<subseteq> insert w (set (sched_ready s))" "set (sched_ready s) \<subseteq> set (sched_ready (wake p s w))"
  by (auto simp: wake_def Let_def split: option.splits)

lemma wakes_ready: "set (sched_ready (foldl (wake p) s ws)) \<subseteq> set (sched_ready s) \<union> set ws" "set (sched_ready s) \<subseteq> set (sched_ready (foldl (wake p) s ws))"
proof (induction ws arbitrary: s)
  case (Cons w ws)
  {
    case 1
    show ?case using Cons.IH(1)[of "wake p s w"] wake_ready(1)[of p s w] by auto
  next
    case 2
    show ?case using Cons.IH(2)[of "wake p s w"] wake_ready(2)[of s p w] by auto
  }
qed simp_all

lemma complete_fields [simp]: "completed (complete p s) = append_new (completed s) p" "waiters (complete p s) = dict_del p (waiters s)"
  "deferred_queue (complete p s) = deferred_queue s" "executed_count (complete p s) = executed_count s"
  by (simp_all add: complete_def)

lemma dict_list_in: "w \<in> set (dict_list d k) \<Longrightarrow> w \<in> \<Union> (set ` snd ` set d)"
proof -
  assume w: "w \<in> set (dict_list d k)"
  then obtain ws where "dict_get d k = Some ws" "w \<in> set ws" by (cases "dict_get d k") (simp_all add: dict_list_def)
  then show ?thesis using map_of_SomeD[of d k ws] by force
qed

lemma tracked_complete: "tracked (complete p s) \<subseteq> tracked s"
proof -
  have "set (dict_list (waiters s) p) \<subseteq> \<Union> (set ` snd ` set (waiters s))" by (rule subsetI) (rule dict_list_in)
  moreover have "set (sched_ready (complete p s)) \<subseteq> set (sched_ready s) \<union> set (dict_list (waiters s) p)"
    unfolding complete_def by (rule subset_trans[OF wakes_ready(1)]) simp
  moreover have "\<Union> (set ` snd ` set (dict_del p (waiters s))) \<subseteq> \<Union> (set ` snd ` set (waiters s))"
    by (auto simp: AList.delete_eq)
  ultimately show ?thesis by (auto simp: tracked_def)
qed

lemma dict_set_entries: "(k, v) \<in> set (dict_set k' v' d) \<Longrightarrow> (k, v) = (k', v') \<or> (k, v) \<in> set d"
  by (induction d) (auto split: if_splits)

lemma add_waiter_fields [simp]: "completed (add_waiter p s d) = completed s" "sched_ready (add_waiter p s d) = sched_ready s"
  "deferred_queue (add_waiter p s d) = deferred_queue s" "pending_deps (add_waiter p s d) = pending_deps s" "executed_count (add_waiter p s d) = executed_count s"
  by (simp_all add: add_waiter_def)

lemma tracked_add_waiter: "tracked (add_waiter p s d) \<subseteq> insert p (tracked s)"
proof
  fix q assume "q \<in> tracked (add_waiter p s d)"
  then consider "q \<in> set (sched_ready s)" | k ws where "(k, ws) \<in> set (dict_set d (append_new (dict_list (waiters s) d) p) (waiters s))" "q \<in> set ws"
    by (auto simp: tracked_def add_waiter_def)
  then show "q \<in> insert p (tracked s)"
  proof cases
    case 2
    then have "q = p \<or> q \<in> set (dict_list (waiters s) d) \<or> (k, ws) \<in> set (waiters s)" using dict_set_entries[OF 2(1)] by auto
    then show ?thesis using 2(2) dict_list_in by (fastforce simp: tracked_def)
  qed (simp add: tracked_def)
qed

text \<open>What settling a file does to the bookkeeping.\<close>

lemma settle_shrinks:
  assumes "settle V p defer t s = ((s', x'), None)"
  shows "tracked s' \<subseteq> insert p (tracked s) \<and> ((completed s' = completed s \<and> sched_ready s' = sched_ready s) \<or> completed s' = append_new (completed s) p)"
proof -
  obtain x r where t: "t = (x, r)" by (cases t)
  consider (err) e where "r = Inl e" | (ex) "r = Inr Executed" | (park) b where "r = Inr (Parked b)" by (cases r; metis tried.exhaust)
  then show ?thesis
  proof cases
    case err
    then show ?thesis using assms t by (simp add: settle_def)
  next
    case ex
    then have "s' = complete p (s\<lparr>executed_count := executed_count s + 1\<rparr>)"
      using assms t by (auto simp: settle_def Let_def split: prod.splits)
    then show ?thesis using tracked_complete[of p "s\<lparr>executed_count := executed_count s + 1\<rparr>"] by (auto simp: tracked_def)
  next
    case park
    then consider d where "s' = add_waiter p s d" | "s' = s\<lparr>deferred_queue := deferred_queue s @ [p]\<rparr>" | "s' = s"
      using assms t by (auto simp: settle_def split: option.splits if_splits)
    then show ?thesis
    proof cases
      case (1 d)
      then show ?thesis using tracked_add_waiter[of p s d] by simp
    qed (auto simp: tracked_def)
  qed
qed

text \<open>\<open>_drain_ready\<close>\<close>

function drain_ready :: "'w sched_env \<Rightarrow> sched \<times> 'w \<Rightarrow> (sched \<times> 'w) \<times> cs_error option" where
  "drain_ready V (s, x) = (case sched_ready s of
       [] \<Rightarrow> ((s, x), None)
     | p # ps \<Rightarrow>
         (let s1 = s\<lparr>sched_ready := ps\<rparr>
          in if p \<in> set (completed s) then drain_ready V (s1, x)
             else (case try_stored V p x of
                 (x1, None) \<Rightarrow> drain_ready V (s1, x1)
               | (x1, Some t) \<Rightarrow> (case settle V p True (x1, t) s1 of
                     (r, Some e) \<Rightarrow> (r, Some e)
                   | (r, None) \<Rightarrow> drain_ready V r))))"
  by pat_completeness auto
termination
proof (relation "measures [\<lambda>(V, s, x). card (tracked s - set (completed s)), \<lambda>(V, s, x). length (sched_ready s)]", goal_cases)
  case 1
  show ?case by simp
next
  case (2 V s x p ps s1)
  have "tracked s1 \<subseteq> tracked s" using 2(1,2) by (auto simp: tracked_def)
  then have "card (tracked s1 - set (completed s1)) \<le> card (tracked s - set (completed s))"
    using 2(2) by (intro card_mono) auto
  then show ?case using 2(1,2) by auto
next
  case (3 V s x p ps s1 x1 y)
  have "tracked s1 \<subseteq> tracked s" using 3(1,2) by (auto simp: tracked_def)
  then have "card (tracked s1 - set (completed s1)) \<le> card (tracked s - set (completed s))"
    using 3(2) by (intro card_mono) auto
  then show ?case using 3(1,2) by auto
next
  case (4 V s x p ps s1 x1 y t r z)
  obtain s2 x2 where r: "r = (s2, x2)" by (cases r)
  have "settle V p True (x1, t) s1 = ((s2, x2), None)" using 4(6,7) r by simp
  note m = settle_shrinks[OF this]
  have p: "p \<in> tracked s" "p \<notin> set (completed s)" and s1: "tracked s1 \<subseteq> tracked s" "completed s1 = completed s" "length (sched_ready s1) < length (sched_ready s)"
    using 4(1,2,3) by (auto simp: tracked_def)
  have sub: "tracked s2 \<subseteq> tracked s" using m p(1) s1(1) by auto
  show ?case
  proof (cases "completed s2 = completed s1 \<and> sched_ready s2 = sched_ready s1")
    case True
    then have "card (tracked s2 - set (completed s2)) \<le> card (tracked s - set (completed s))"
      using sub s1(2) by (intro card_mono) auto
    then show ?thesis using True s1(3) r by auto
  next
    case False
    then have "completed s2 = append_new (completed s) p" using m s1(2) by metis
    then have "tracked s2 - set (completed s2) \<subset> tracked s - set (completed s)" using sub p by auto
    then have "card (tracked s2 - set (completed s2)) < card (tracked s - set (completed s))" by (intro psubset_card_mono) auto
    then show ?thesis using r by simp
  qed
qed

declare drain_ready.simps [simp del]


subsection \<open>Batches and stages\<close>

text \<open>The files of a batch (\<open>ingest_batch\<close> after \<open>execute_and_purge\<close>).\<close>

definition hold_header :: "string \<Rightarrow> string list \<Rightarrow> sched \<Rightarrow> sched" where
  "hold_header p ds s = foldl (add_waiter p) (s\<lparr>pending_deps := dict_set p ds (pending_deps s)\<rparr>) ds"

definition ingest_file :: "'w sched_env \<Rightarrow> bool \<Rightarrow> string \<Rightarrow> sched \<times> 'w \<Rightarrow> (sched \<times> 'w) \<times> cs_error option" where
  "ingest_file V header p st = (case st of (s, x) \<Rightarrow>
     if batch_processed V x p then ((complete p s, store_batch V p x), None)
     else if p \<in> set (completed s) then ((s, store_batch V p x), None)
     else (let ds = (if header then filter (\<lambda>d. d \<noteq> p \<and> sched_in_flight V x s d) (remdups (batch_deps V x p)) else [])
           in if ds \<noteq> [] then ((hold_header p ds s, store_batch V p x), None)
              else settle V p (\<not> header) (try_batch V p x) s))"

fun ingest_files :: "'w sched_env \<Rightarrow> bool \<Rightarrow> string list \<Rightarrow> sched \<times> 'w \<Rightarrow> (sched \<times> 'w) \<times> cs_error option" where
  "ingest_files V header [] st = (st, None)"
| "ingest_files V header (p # ps) st = (case ingest_file V header p st of
       (st1, Some e) \<Rightarrow> (st1, Some e)
     | (st1, None) \<Rightarrow> ingest_files V header ps st1)"

definition ingest_batch :: "'w sched_env \<Rightarrow> bool \<Rightarrow> string list \<Rightarrow> sched \<times> 'w \<Rightarrow> (sched \<times> 'w) \<times> cs_error option" where
  "ingest_batch V header ps st = (case open_batch V (snd st) of
       (x, Some e) \<Rightarrow> ((fst st, x), Some e)
     | (x, None) \<Rightarrow> (case ingest_files V header ps (fst st, x) of
           (st1, Some e) \<Rightarrow> (st1, Some e)
         | (st1, None) \<Rightarrow> drain_ready V st1))"

definition wake_completed :: "'w sched_env \<Rightarrow> sched \<times> 'w \<Rightarrow> (sched \<times> 'w) \<times> cs_error option" where
  "wake_completed V st = (case st of (s, x) \<Rightarrow>
     drain_ready V (foldl (\<lambda>s d. complete d s) s (filter (\<lambda>d. d \<in> set (completed s)) (map fst (waiters s))), x))"

text \<open>The wave pass over what is left, after which every path of the dictionary counts as completed.\<close>

definition wave_stage :: "'w sched_env \<Rightarrow> sched \<times> 'w \<Rightarrow> (sched \<times> 'w) \<times> cs_error option" where
  "wave_stage V st = (case st of (s, x) \<Rightarrow> (case wave_pass V (completed s) x of
       ((x1, cs), Some e) \<Rightarrow> ((s\<lparr>completed := cs\<rparr>, x1), Some e)
     | ((x1, cs), None) \<Rightarrow> ((s\<lparr>completed := foldl append_new cs (all_paths V x1), pending_deps := []\<rparr>, x1), None)))"

definition count_completed :: "sched \<Rightarrow> sched" where
  "count_completed s = s\<lparr>executed_count := length (completed s)\<rparr>"

definition resolve_headers :: "'w sched_env \<Rightarrow> sched \<times> 'w \<Rightarrow> (sched \<times> 'w) \<times> cs_error option" where
  "resolve_headers V st = (case wave_stage V st of
       (st1, Some e) \<Rightarrow> (st1, Some e)
     | (st1, None) \<Rightarrow> (case wake_completed V st1 of
           (st2, Some e) \<Rightarrow> (st2, Some e)
         | ((s, x), None) \<Rightarrow> ((count_completed s, end_headers V x), None)))"

fun retry_files :: "'w sched_env \<Rightarrow> string list \<Rightarrow> sched \<times> 'w \<Rightarrow> (sched \<times> 'w) \<times> cs_error option" where
  "retry_files V [] st = (st, None)"
| "retry_files V (p # ps) (s, x) =
     (if p \<in> set (completed s) then retry_files V ps (s, x)
      else (case try_stored V p x of
          (x1, None) \<Rightarrow> retry_files V ps (s, x1)
        | (x1, Some t) \<Rightarrow> (case settle V p True (x1, t) s of
              (st1, Some e) \<Rightarrow> (st1, Some e)
            | (st1, None) \<Rightarrow> retry_files V ps st1)))"

definition drain_deferred_queue :: "'w sched_env \<Rightarrow> sched \<times> 'w \<Rightarrow> (sched \<times> 'w) \<times> cs_error option" where
  "drain_deferred_queue V st = (case wake_completed V st of
       (st1, Some e) \<Rightarrow> (st1, Some e)
     | ((s, x), None) \<Rightarrow> (case retry_files V (deferred_queue s) (s\<lparr>deferred_queue := []\<rparr>, x) of
           (st2, Some e) \<Rightarrow> (st2, Some e)
         | (st2, None) \<Rightarrow> drain_ready V st2))"

definition finalize :: "'w sched_env \<Rightarrow> sched \<times> 'w \<Rightarrow> (sched \<times> 'w) \<times> cs_error option" where
  "finalize V st = (case drain_deferred_queue V st of
       (st1, Some e) \<Rightarrow> (st1, Some e)
     | (st1, None) \<Rightarrow> (case wave_stage V st1 of
           (st2, Some e) \<Rightarrow> (st2, Some e)
         | ((s, x), None) \<Rightarrow> (case end_stage V x of
               (x1, e) \<Rightarrow> ((count_completed (s\<lparr>waiters := []\<rparr>), x1), e))))"

subsection \<open>No file is lost\<close>

definition waits :: "sched \<Rightarrow> string \<Rightarrow> bool" where
  "waits s p \<longleftrightarrow> (\<exists>d. p \<in> set (dict_list (waiters s) d) \<and> d \<notin> set (completed s))"

definition accounted :: "sched \<Rightarrow> string \<Rightarrow> bool" where
  "accounted s p \<longleftrightarrow> p \<in> set (completed s) \<or> p \<in> set (sched_ready s) \<or> p \<in> set (deferred_queue s) \<or> waits s p"

text \<open>
  Waiters wait for files that have not completed; a held header waits under every file that holds it; every path of
  \<open>P\<close> is completed, queued, deferred or waits.
\<close>

definition sched_ok :: "string set \<Rightarrow> sched \<Rightarrow> bool" where
  "sched_ok P s \<longleftrightarrow> (\<forall>d. dict_list (waiters s) d \<noteq> [] \<longrightarrow> d \<notin> set (completed s))
   \<and> (\<forall>p ds. dict_get (pending_deps s) p = Some ds \<longrightarrow> ds \<noteq> [] \<and> (\<forall>d\<in>set ds. p \<in> set (dict_list (waiters s) d)))
   \<and> (\<forall>p\<in>P. accounted s p)"

lemma dict_list_del [simp]: "dict_list (dict_del k d) k' = (if k' = k then [] else dict_list d k')"
  by (simp add: dict_list_def)

lemma dict_list_set [simp]: "dict_list (dict_set k v d) k' = (if k' = k then v else dict_list d k')"
  by (simp add: dict_list_def)

text \<open>Waking the waiters of \<open>p\<close>: each becomes ready, or keeps what else holds it.\<close>

lemma wake_pending:
  "dict_get (pending_deps (wake p s w)) q = (if q = w
     then (case dict_get (pending_deps s) w of
         None \<Rightarrow> None
       | Some ds \<Rightarrow> if filter (\<lambda>d. d \<noteq> p) ds = [] then None else Some (filter (\<lambda>d. d \<noteq> p) ds))
     else dict_get (pending_deps s) q)"
  by (auto simp: wake_def Let_def split: option.splits)

lemma wakes_pending:
  "dict_get (pending_deps (foldl (wake p) s ws)) q = (if q \<in> set ws
     then (case dict_get (pending_deps s) q of
         None \<Rightarrow> None
       | Some ds \<Rightarrow> if filter (\<lambda>d. d \<noteq> p) ds = [] then None else Some (filter (\<lambda>d. d \<noteq> p) ds))
     else dict_get (pending_deps s) q)"
proof (induction ws arbitrary: s)
  case (Cons w ws)
  show ?case using Cons.IH[of "wake p s w"] by (cases "q = w"; cases "dict_get (pending_deps s) q") (simp_all add: wake_pending)
qed simp

lemma wake_woken: "w \<in> set (sched_ready (wake p s w)) \<or> dict_get (pending_deps (wake p s w)) w \<noteq> None"
  by (auto simp: wake_def Let_def split: option.splits)

lemma wakes_woken:
  "w \<in> set ws \<Longrightarrow> w \<in> set (sched_ready (foldl (wake p) s ws)) \<or> dict_get (pending_deps (foldl (wake p) s ws)) w \<noteq> None"
proof (induction ws arbitrary: s)
  case (Cons v ws)
  show ?case
  proof (cases "w \<in> set ws")
    case False
    then have "w = v" using Cons.prems by simp
    then show ?thesis using wake_woken[of w p s] wakes_ready(2)[of "wake p s v" p ws] False wakes_pending[of p "wake p s v" ws w] by auto
  qed (use Cons.IH in simp)
qed simp

lemma waits_complete: "q \<in> set (dict_list (waiters s) d) \<Longrightarrow> d \<noteq> p \<Longrightarrow> d \<notin> set (completed s) \<Longrightarrow> waits (complete p s) q"
  unfolding waits_def by (intro exI[of _ d]) simp

lemma complete_ok:
  assumes "sched_ok P s"
  shows "sched_ok (insert p P) (complete p s)"
proof -
  let ?s1 = "s\<lparr>completed := append_new (completed s) p, waiters := dict_del p (waiters s)\<rparr>" and ?ws = "dict_list (waiters s) p"
  have K: "\<And>d. dict_list (waiters s) d \<noteq> [] \<Longrightarrow> d \<notin> set (completed s)"
    and H: "\<And>q ds. dict_get (pending_deps s) q = Some ds \<Longrightarrow> ds \<noteq> [] \<and> (\<forall>d\<in>set ds. q \<in> set (dict_list (waiters s) d))"
    and J: "\<And>q. q \<in> P \<Longrightarrow> accounted s q" using assms by (auto simp: sched_ok_def)
  have c: "complete p s = foldl (wake p) ?s1 ?ws" by (simp add: complete_def)
  have pend: "ds \<noteq> [] \<and> p \<notin> set ds \<and> (\<forall>d\<in>set ds. q \<in> set (dict_list (waiters s) d))"
    if q: "dict_get (pending_deps (complete p s)) q = Some ds" for q ds
  proof (cases "q \<in> set ?ws")
    case True
    then obtain ds0 where "dict_get (pending_deps s) q = Some ds0" "ds = filter (\<lambda>d. d \<noteq> p) ds0" "ds \<noteq> []"
      using q by (auto simp: c wakes_pending split: option.splits if_splits)
    then show ?thesis using H[of q ds0] by auto
  next
    case False
    then have "dict_get (pending_deps s) q = Some ds" using q by (simp add: c wakes_pending)
    then show ?thesis using H[of q ds] False by auto
  qed
  have acc: "accounted (complete p s) q" if "q \<in> insert p P" for q
  proof (cases "q = p \<or> q \<in> set ?ws")
    case True
    then consider "q = p" | "q \<in> set (sched_ready (complete p s))" | ds where "dict_get (pending_deps (complete p s)) q = Some ds"
      using wakes_woken[of q ?ws p ?s1] c by fastforce
    then show ?thesis
    proof cases
      case (3 ds)
      note d = pend[OF 3]
      then obtain d where "d \<in> set ds" "d \<noteq> p" "q \<in> set (dict_list (waiters s) d)" by (cases ds) auto
      moreover from this have "dict_list (waiters s) d \<noteq> []" by auto
      ultimately have "waits (complete p s) q" using K[of d] waits_complete by blast
      then show ?thesis by (simp add: accounted_def)
    qed (simp_all add: accounted_def)
  next
    case False
    then have "accounted s q" using that J by blast
    then consider "q \<in> set (completed s)" | "q \<in> set (sched_ready s)" | "q \<in> set (deferred_queue s)" | "waits s q"
      unfolding accounted_def by blast
    then show ?thesis
    proof cases
      case 2
      then have "q \<in> set (sched_ready (complete p s))" using wakes_ready(2)[of ?s1 p ?ws] unfolding c by auto
      then show ?thesis by (simp add: accounted_def)
    next
      case 4
      then obtain d where d: "q \<in> set (dict_list (waiters s) d)" "d \<notin> set (completed s)" unfolding waits_def by blast
      then have "d \<noteq> p" using False by blast
      then have "waits (complete p s) q" using waits_complete d by blast
      then show ?thesis by (simp add: accounted_def)
    qed (simp_all add: accounted_def)
  qed
  have "d \<notin> set (completed (complete p s))" if "dict_list (waiters (complete p s)) d \<noteq> []" for d
    using that K[of d] by (auto split: if_splits)
  moreover have "ds \<noteq> [] \<and> (\<forall>d\<in>set ds. q \<in> set (dict_list (waiters (complete p s)) d))"
    if "dict_get (pending_deps (complete p s)) q = Some ds" for q ds using pend[OF that] by auto
  ultimately show ?thesis using acc by (simp add: sched_ok_def)
qed


lemma sched_ok_count [simp]: "sched_ok P (s\<lparr>executed_count := n\<rparr>) = sched_ok P s"
  by (simp add: sched_ok_def accounted_def waits_def)

lemma sched_ok_subset: "sched_ok P s \<Longrightarrow> Q \<subseteq> P \<Longrightarrow> sched_ok Q s"
  by (auto simp: sched_ok_def)

lemma sched_ok_insert: "sched_ok (insert p P) s \<longleftrightarrow> accounted s p \<and> sched_ok P s"
  by (auto simp: sched_ok_def)

lemma defer_ok:
  assumes "sched_ok P s"
  shows "sched_ok (insert p P) (s\<lparr>deferred_queue := deferred_queue s @ [p]\<rparr>)"
  using assms by (auto simp: sched_ok_def accounted_def waits_def)

lemma add_waiter_list: "dict_list (waiters (add_waiter p s d)) d' = (if d' = d then append_new (dict_list (waiters s) d) p else dict_list (waiters s) d')"
  by (simp add: add_waiter_def)

lemma add_waiter_waits: "waits s q \<Longrightarrow> waits (add_waiter p s d) q"
proof -
  assume "waits s q"
  then obtain e where e: "q \<in> set (dict_list (waiters s) e)" "e \<notin> set (completed s)" unfolding waits_def by blast
  then show ?thesis unfolding waits_def by (intro exI[of _ e]) (auto simp: add_waiter_list)
qed

lemma add_waiter_accounted: "accounted s q \<Longrightarrow> accounted (add_waiter p s d) q"
  unfolding accounted_def using add_waiter_waits by auto

lemma add_waiter_ok:
  assumes "sched_ok P s" "d \<notin> set (completed s)"
  shows "sched_ok (insert p P) (add_waiter p s d)"
proof -
  have "waits (add_waiter p s d) p" unfolding waits_def by (intro exI[of _ d]) (use assms(2) in \<open>simp add: add_waiter_list\<close>)
  then show ?thesis using assms add_waiter_accounted unfolding sched_ok_insert
    by (auto simp: sched_ok_def add_waiter_list accounted_def[of _ p])
qed

lemma hold_header_ok:
  assumes "sched_ok P s" "ds \<noteq> []" "\<forall>d\<in>set ds. d \<notin> set (completed s)"
  shows "sched_ok (insert p P) (hold_header p ds s)"
proof -
  have f: "dict_list (waiters (foldl (add_waiter p) t es)) d = (if d \<in> set es then append_new (dict_list (waiters t) d) p else dict_list (waiters t) d)"
    "completed (foldl (add_waiter p) t es) = completed t" "sched_ready (foldl (add_waiter p) t es) = sched_ready t"
    "deferred_queue (foldl (add_waiter p) t es) = deferred_queue t" "pending_deps (foldl (add_waiter p) t es) = pending_deps t" for t es d
    by (induction es arbitrary: t) (auto simp: add_waiter_list append_new_def)
  let ?t = "hold_header p ds s"
  have list: "dict_list (waiters ?t) d = (if d \<in> set ds then append_new (dict_list (waiters s) d) p else dict_list (waiters s) d)" for d
    by (simp add: hold_header_def f)
  have same: "completed ?t = completed s" "sched_ready ?t = sched_ready s" "deferred_queue ?t = deferred_queue s"
    "pending_deps ?t = dict_set p ds (pending_deps s)" by (simp_all add: hold_header_def f)
  have w: "waits ?t q" if wq: "waits s q" for q
  proof -
    obtain e where e: "q \<in> set (dict_list (waiters s) e)" "e \<notin> set (completed s)" using wq unfolding waits_def by blast
    then show ?thesis unfolding waits_def by (intro exI[of _ e]) (simp add: list same)
  qed
  obtain d where "d \<in> set ds" using assms(2) by (cases ds) auto
  then have "waits ?t p" unfolding waits_def by (intro exI[of _ d]) (use assms(3) in \<open>simp add: list same\<close>)
  moreover have "accounted ?t q" if "accounted s q" for q using that w unfolding accounted_def same by blast
  ultimately show ?thesis using assms(1,3) assms(2) unfolding sched_ok_insert
    by (auto simp: sched_ok_def list same accounted_def[of _ p])
qed

lemma settle_ok:
  assumes "sched_ok P s" "settle V p defer (x, r) s = ((s', x'), None)"
  shows "sched_ok P s' \<and> (defer \<longrightarrow> accounted s' p) \<and> (x' = x \<or> (\<exists>n. chunk_commit V n x = (x', None))) \<and> (\<exists>t. r = Inr t)"
proof -
  consider (err) e where "r = Inl e" | (ex) "r = Inr Executed" | (park) b where "r = Inr (Parked b)" by (cases r; metis tried.exhaust)
  then show ?thesis
  proof cases
    case err
    then show ?thesis using assms(2) by (simp add: settle_def)
  next
    case ex
    then have "s' = complete p (s\<lparr>executed_count := executed_count s + 1\<rparr>)" "\<exists>n. chunk_commit V n x = (x', None)"
      using assms(2) by (auto simp: settle_def Let_def split: prod.splits)
    then show ?thesis using complete_ok[of P "s\<lparr>executed_count := executed_count s + 1\<rparr>" p] assms(1) ex
      by (auto simp: sched_ok_insert)
  next
    case park
    then have x: "x' = x" and c: "(\<exists>d. s' = add_waiter p s d \<and> d \<notin> set (completed s)) \<or> (defer \<and> s' = s\<lparr>deferred_queue := deferred_queue s @ [p]\<rparr>) \<or> (\<not> defer \<and> s' = s)"
      using assms(2) by (auto simp: settle_def sched_in_flight_def split: option.splits if_splits)
    from c have "sched_ok P s' \<and> (defer \<longrightarrow> accounted s' p)"
      using add_waiter_ok[OF assms(1)] defer_ok[OF assms(1), of p] assms(1) by (auto simp: sched_ok_insert)
    then show ?thesis using x park by simp
  qed
qed

subsection \<open>The interface to the files\<close>

text \<open>
  What the scheduler needs of the files: a file that was tried or stored is in the dictionary and stays there, and a
  stored file can be tried again.
\<close>

locale stored_files =
  fixes V :: "'w sched_env" and good :: "'w \<Rightarrow> bool" and stored :: "'w \<Rightarrow> string \<Rightarrow> bool" and in_batch :: "'w \<Rightarrow> string \<Rightarrow> bool"
  assumes try_batch_keeps: "good x \<Longrightarrow> try_batch V p x = (x', Inr t) \<Longrightarrow> in_batch x p \<Longrightarrow>
      good x' \<and> stored x' p \<and> (\<forall>q. stored x q \<longrightarrow> stored x' q) \<and> in_batch x' = in_batch x"
    and try_stored_keeps: "good x \<Longrightarrow> try_stored V p x = (x', Some (Inr t)) \<Longrightarrow>
      good x' \<and> (\<forall>q. stored x q \<longrightarrow> stored x' q) \<and> in_batch x' = in_batch x"
    and try_stored_absent: "good x \<Longrightarrow> try_stored V p x = (x', None) \<Longrightarrow>
      good x' \<and> \<not> stored x p \<and> (\<forall>q. stored x q \<longrightarrow> stored x' q) \<and> in_batch x' = in_batch x"
    and store_batch_keeps: "good x \<Longrightarrow> in_batch x p \<Longrightarrow>
      good (store_batch V p x) \<and> stored (store_batch V p x) p \<and> (\<forall>q. stored x q \<longrightarrow> stored (store_batch V p x) q) \<and> in_batch (store_batch V p x) = in_batch x"
    and chunk_commit_keeps: "good x \<Longrightarrow> chunk_commit V n x = (x', None) \<Longrightarrow>
      good x' \<and> (\<forall>q. stored x q \<longrightarrow> stored x' q) \<and> in_batch x' = in_batch x"
    and open_batch_keeps: "good x \<Longrightarrow> open_batch V x = (x', None) \<Longrightarrow>
      good x' \<and> (\<forall>q. stored x q \<longrightarrow> stored x' q) \<and> in_batch x' = in_batch x"
begin

definition all_ok :: "string set \<Rightarrow> sched \<Rightarrow> 'w \<Rightarrow> bool" where
  "all_ok P s x \<longleftrightarrow> sched_ok P s \<and> good x \<and> (\<forall>p\<in>P. stored x p)"

lemma all_ok_settle:
  assumes "settle V p True (x1, t) s = ((s', x'), None)" "sched_ok P s" "good x1" "\<forall>q\<in>insert p P. stored x1 q"
  shows "all_ok (insert p P) s' x' \<and> in_batch x' = in_batch x1"
proof -
  note k = settle_ok[OF assms(2,1)]
  then have "sched_ok (insert p P) s'" by (simp add: sched_ok_insert)
  moreover have "good x' \<and> (\<forall>q. stored x1 q \<longrightarrow> stored x' q) \<and> in_batch x' = in_batch x1"
    using k chunk_commit_keeps[OF assms(3)] assms(3) by blast
  ultimately show ?thesis using assms(4) by (simp add: all_ok_def)
qed

lemma drain_ready_ok:
  "drain_ready V' st = ((s', x'), None) \<Longrightarrow> V' = V \<Longrightarrow> all_ok P (fst st) (snd st) \<Longrightarrow>
   all_ok P s' x' \<and> sched_ready s' = [] \<and> in_batch x' = in_batch (snd st)"
proof (induction V' st rule: drain_ready.induct)
  case (1 V' s x)
  have V: "V' = V" by fact
  have ok: "sched_ok P s" "good x" "\<forall>p\<in>P. stored x p" using 1(6) by (auto simp: all_ok_def)
  show ?case
  proof (cases "sched_ready s")
    case Nil
    then show ?thesis using 1(4,6) by (simp add: drain_ready.simps)
  next
    case (Cons p ps)
    let ?s1 = "s\<lparr>sched_ready := ps\<rparr>"
    have pop: "sched_ok (P - {p}) ?s1" "p \<in> set (completed s) \<Longrightarrow> sched_ok P ?s1"
      using ok(1) Cons by (auto simp: sched_ok_def accounted_def waits_def)
    show ?thesis
    proof (cases "p \<in> set (completed s)")
      case True
      then have "drain_ready V' (?s1, x) = ((s', x'), None)" using 1(4) Cons by (simp add: drain_ready.simps[of V' s])
      then show ?thesis using 1(1)[OF Cons refl True _ V] pop(2)[OF True] ok by (simp add: all_ok_def)
    next
      case False
      obtain x1 r where t: "try_stored V' p x = (x1, r)" by (metis prod.exhaust)
      consider (absent) "r = None" | (err) e where "r = Some (Inl e)" | (tried) y where "r = Some (Inr y)" by (metis old.sum.exhaust option.exhaust)
      then show ?thesis
      proof cases
        case absent
        note a = try_stored_absent[OF ok(2) t[unfolded V absent]]
        have "p \<notin> P" using a ok(3) by blast
        then have "all_ok P ?s1 x1" using pop(1) a ok(3) by (simp add: all_ok_def)
        moreover have "drain_ready V' (?s1, x1) = ((s', x'), None)" using 1(4) Cons False t absent by (simp add: drain_ready.simps[of V' s])
        ultimately show ?thesis using 1(2)[OF Cons refl False t[symmetric] absent _ V] a by simp
      next
        case err
        then have "settle V' p True (x1, Inl e) ?s1 = ((?s1, x1), Some e)" by (simp add: settle_def)
        then show ?thesis using 1(4) Cons False t err by (simp add: drain_ready.simps[of V' s])
      next
        case tried
        obtain st2 e where s2: "settle V' p True (x1, Inr y) ?s1 = (st2, e)" by (metis prod.exhaust)
        have e: "e = None" using 1(4) Cons False t tried s2 by (cases e) (simp_all add: drain_ready.simps[of V' s])
        have d: "drain_ready V' st2 = ((s', x'), None)" using 1(4) Cons False t tried s2 e by (simp add: drain_ready.simps[of V' s])
        note k = try_stored_keeps[OF ok(2) t[unfolded V tried]]
        have pP: "\<forall>q\<in>P. stored x1 q" using k ok(3) by blast
        have acc: "sched_ok P (fst st2) \<and> good (snd st2) \<and> (\<forall>q\<in>P. stored (snd st2) q) \<and> in_batch (snd st2) = in_batch x1"
        proof -
          have s2': "settle V p True (x1, Inr y) ?s1 = ((fst st2, snd st2), None)" using s2 e V by simp
          note a = settle_ok[OF pop(1) s2']
          have "sched_ok P (fst st2)" using a sched_ok_insert[of p "P - {p}" "fst st2"] sched_ok_subset[of "insert p (P - {p})" "fst st2" P] by auto
          moreover have "good (snd st2) \<and> (\<forall>q. stored x1 q \<longrightarrow> stored (snd st2) q) \<and> in_batch (snd st2) = in_batch x1"
            using a chunk_commit_keeps k by blast
          ultimately show ?thesis using pP by blast
        qed
        then show ?thesis using 1(3)[OF Cons refl False t[symmetric] tried s2[symmetric] e d V] k by (simp add: all_ok_def)
      qed
    qed
  qed
qed

lemma ingest_file_ok:
  assumes "ingest_file V header p (s, x) = ((s', x'), None)" "all_ok P s x" "in_batch x p"
  shows "all_ok (if header then P else insert p P) s' x' \<and> in_batch x' = in_batch x"
proof -
  have ok: "sched_ok P s" "good x" "\<forall>p\<in>P. stored x p" using assms(2) by (auto simp: all_ok_def)
  note sb = store_batch_keeps[OF ok(2) assms(3)]
  let ?ds = "if header then filter (\<lambda>d. d \<noteq> p \<and> sched_in_flight V x s d) (remdups (batch_deps V x p)) else []"
  consider (pre) "batch_processed V x p" | (again) "\<not> batch_processed V x p" "p \<in> set (completed s)"
    | (hold) "\<not> batch_processed V x p" "p \<notin> set (completed s)" "?ds \<noteq> []"
    | (run) "\<not> batch_processed V x p" "p \<notin> set (completed s)" "?ds = []" by blast
  then show ?thesis
  proof cases
    case pre
    then have "s' = complete p s" "x' = store_batch V p x" using assms(1) by (simp_all add: ingest_file_def)
    then show ?thesis using complete_ok[OF ok(1), of p] sb ok(3) by (auto simp: all_ok_def sched_ok_insert)
  next
    case again
    then have "s' = s" "x' = store_batch V p x" using assms(1) by (simp_all add: ingest_file_def)
    then show ?thesis using again sb ok by (auto simp: all_ok_def sched_ok_insert accounted_def)
  next
    case hold
    then have e: "s' = hold_header p ?ds s" "x' = store_batch V p x" using assms(1) unfolding ingest_file_def by (simp_all add: Let_def)
    have "\<forall>d\<in>set ?ds. d \<notin> set (completed s)" by (auto simp: sched_in_flight_def)
    from hold_header_ok[OF ok(1) hold(3) this, of p] show ?thesis using e sb ok(3) by (auto simp: all_ok_def sched_ok_insert)
  next
    case run
    obtain x1 r where t: "try_batch V p x = (x1, r)" by (metis prod.exhaust)
    have st: "settle V p (\<not> header) (x1, r) s = ((s', x'), None)" using assms(1) run t unfolding ingest_file_def by (simp add: Let_def)
    note a = settle_ok[OF ok(1) st]
    then obtain y where "r = Inr y" by blast
    note k = try_batch_keeps[OF ok(2) t[unfolded this] assms(3)]
    have "good x' \<and> (\<forall>q. stored x1 q \<longrightarrow> stored x' q) \<and> in_batch x' = in_batch x1" using a chunk_commit_keeps k by blast
    then show ?thesis using a k ok(3) by (auto simp: all_ok_def sched_ok_insert)
  qed
qed

lemma ingest_files_ok:
  "ingest_files V header ps (s, x) = ((s', x'), None) \<Longrightarrow> all_ok P s x \<Longrightarrow> \<forall>p\<in>set ps. in_batch x p \<Longrightarrow>
   all_ok (if header then P else P \<union> set ps) s' x'"
proof (induction ps arbitrary: s x P)
  case (Cons p ps)
  obtain s1 x1 e where f: "ingest_file V header p (s, x) = ((s1, x1), e)" by (metis prod.exhaust)
  then have e: "e = None" using Cons.prems(1) by (cases e) auto
  note a = ingest_file_ok[OF f[unfolded e] Cons.prems(2)]
  then have "all_ok (if header then P else insert p P) s1 x1" "\<forall>p\<in>set ps. in_batch x1 p" using Cons.prems(3) by auto
  moreover have "ingest_files V header ps (s1, x1) = ((s', x'), None)" using Cons.prems(1) f e by simp
  ultimately show ?case using Cons.IH[of s1 x1 "if header then P else insert p P"] by (cases header) simp_all
qed simp

text \<open>A batch of source files: every file is completed, deferred, or waits for a file that has not completed.\<close>

lemma ingest_batch_ok:
  assumes "ingest_batch V header ps (s, x) = ((s', x'), None)" "all_ok P s x" "\<forall>p\<in>set ps. in_batch x p"
  shows "all_ok (if header then P else P \<union> set ps) s' x' \<and> sched_ready s' = []"
proof -
  obtain x1 where o: "open_batch V x = (x1, None)" "(case ingest_files V header ps (s, x1) of (st1, Some e) \<Rightarrow> (st1, Some e) | (st1, None) \<Rightarrow> drain_ready V st1) = ((s', x'), None)"
    using assms(1) by (auto simp: ingest_batch_def split: prod.splits option.splits)
  note k = open_batch_keeps[OF _ o(1)]
  have ok: "all_ok P s x1" "\<forall>p\<in>set ps. in_batch x1 p" using assms(2,3) k by (auto simp: all_ok_def)
  obtain s2 x2 e where f: "ingest_files V header ps (s, x1) = ((s2, x2), e)" by (metis prod.exhaust)
  then have e: "e = None" using o(2) by (cases e) auto
  note a = ingest_files_ok[OF f[unfolded e] ok]
  show ?thesis using drain_ready_ok[of V "(s2, x2)" s' x' "if header then P else P \<union> set ps"] a o(2) f e by simp
qed

end

end
