(* ===== verification/Db_Layout.thy ===== *)
theory Db_Layout
  imports Table_Schema
begin

section \<open>The database layout (core/DBLayout.py)\<close>

text \<open>
  The tables of the database as the module declares them, the numbering of syntax nodes, and what the declarations promise
  to the code that interprets them: ids are positions, keys and foreign keys name columns, parents are declared before
  their children, and the initial rows respect the foreign keys.
\<close>

subsection \<open>Kinds of syntax nodes (\<open>ASTT\<close>), numbered from 0\<close>

definition ASTT :: "string list" where
  "ASTT = [
    ''Undefined'', ''C_Compound'', ''C_Comment'', ''C_Keyword'', ''C_SCauto'', ''C_SCregister'', ''C_SCstatic'',
    ''C_SCextern'', ''C_SC_Thread_local'', ''C_SCthread_local'', ''C_SCtypedef'', ''C_SCconstexpr'', ''C_FSinline'',
    ''C_FS_Noreturn'', ''C_AS__Alignas'', ''C_AS_alignas'', ''C_Qconst'', ''C_Qvolatile'', ''C_Qrestrict'',
    ''C_Q_Atomic'', ''C_functionproto'', ''C_functionprotodecl'', ''C_functionprotnotbind'', ''C_array'',
    ''C_arrayempty'', ''C_enumequal'', ''C_pointer'', ''C_struct'', ''C_structdecl'', ''C_structnotbind'',
    ''C_enum'', ''C_enumdecl'', ''C_enumnotbind'', ''C_union'', ''C_uniondecl'', ''C_unionnotbind'', ''C_void'',
    ''C_unsigned'', ''C_signed'', ''C_char'', ''C_short'', ''C_int'', ''C_long'', ''C_bool'', ''C_float'',
    ''C_double'', ''C_CompoundStmt'', ''C_IfStmt'', ''C_SwitchStmt'', ''C_CaseStmt'', ''C_DefaultStmt'',
    ''C_WhileStmt'', ''C_DoStmt'', ''C_ForStmt'', ''C_ReturnStmt'', ''C_BreakStmt'', ''C_ContinueStmt'',
    ''C_GotoStmt'', ''C_LabelStmt'', ''C_AsmStmt'', ''C_CallExpr'', ''C_MemberRefExpr'', ''C_DeclRefExpr'',
    ''C_BinaryOperator'', ''C_UnaryOperator'', ''C_ParenExpr'', ''C_InitListExpr'', ''CPPro_if'', ''CPPro_elif'',
    ''CPPro_else'', ''CPPro_endif'', ''CPPro_ifdef'', ''CPPro_ifndef'', ''CPPro_elifdef'', ''CPPro_elifndef'',
    ''CPPro_define'', ''CPPro_define_macro'', ''CPPro_undef'', ''CPPro_include'', ''CPPro_line'', ''CPPro_error'',
    ''CPPro_warning'', ''CPPro_pragma'', ''ASM_Macro'', ''ASM_Directive'', ''ASM_Instruction'', ''ASM_Label'',
    ''ASM_Comment'', ''Kconfig_Mainmenu'', ''Kconfig_Menu'', ''Kconfig_Endmenu'', ''Kconfig_Config'',
    ''Kconfig_Menuconfig'', ''Kconfig_Choice'', ''Kconfig_Endchoice'', ''Kconfig_Comment'', ''Kconfig_Source'',
    ''Kconfig_Rsource'', ''Kconfig_If'', ''Kconfig_Endif'', ''Kconfig_Type_Bool'', ''Kconfig_Type_Tristate'',
    ''Kconfig_Type_String'', ''Kconfig_Type_Hex'', ''Kconfig_Type_Int'', ''Kconfig_Prompt'', ''Kconfig_Default'',
    ''Kconfig_Depends_On'', ''Kconfig_Select'', ''Kconfig_Imply'', ''Kconfig_Range'', ''Kconfig_Help'',
    ''Kconfig_Op_And'', ''Kconfig_Op_Or'', ''Kconfig_Op_Not'', ''Kconfig_Op_Equal'', ''Kconfig_Op_Unequal'',
    ''Kconfig_Symbol_Ref'', ''Kconfig_Constant'', ''Maintainer_Section'', ''Maintainer_Member'',
    ''Maintainer_Pattern'', ''Credits_Entry'', ''Rust_Struct'', ''Rust_Field'', ''Rust_Enum'', ''Rust_Variant'',
    ''Rust_Union'', ''Rust_Fn'', ''Rust_Param'', ''Rust_Trait'', ''Rust_TraitAlias'', ''Rust_Impl'', ''Rust_Type'',
    ''Rust_Const'', ''Rust_Static'', ''Rust_Mod'', ''Rust_Use'', ''Rust_MacroDef'', ''Rust_MacroCall'',
    ''Rust_ForeignMod'', ''Rust_Attribute'', ''Rust_DocComment'', ''Rust_Comment'', ''Raw_Content'',
    ''C_SizeofExpr'', ''C_TypeRef'', ''C_SyscallDef'', ''C_AsmEntry'', ''C_ModuleAttr'', ''C_MacroVarDef'',
    ''C_TracepointDef'', ''C_PerCpuVarDef'', ''C_ModuleParamDef'', ''C_CastExpr'', ''C_ConditionalOperator'',
    ''C_ArraySubscriptExpr'', ''C_DesignatedInitExpr'', ''C_CompoundAssignOperator'', ''C_CompoundLiteralExpr'',
    ''C_IndirectGotoStmt'', ''C_AddrLabelExpr'', ''C_NullStmt'', ''C_InitcallDef'', ''C_ExportSymbolDef'',
    ''CPPro_embed'', ''CPPro_defined'', ''C_StmtExpr'', ''C_GenericSelectionExpr'', ''C_VaArgExpr'', ''C_LabelRef'',
    ''C_IntegerLiteral'', ''C_FloatingLiteral'', ''C_StringLiteral'', ''C_CharacterLiteral'', ''C_DeviceTableDef'',
    ''C_SysfsAttrDef'', ''C_MacroParam'', ''Maintainer_Person'', ''Maintainer_List'', ''Maintainer_Web'',
    ''Maintainer_Tree'', ''Maintainer_Status'', ''C_longlong'', ''C_int128'', ''C_complex'', ''C_StaticAssert'',
    ''C_TypeofExpr'', ''C_OffsetofExpr'', ''C_TypesCompatiblePExpr'', ''C_ChooseExpr'', ''Kconfig_Osource'',
    ''Kconfig_Def_Bool'', ''Kconfig_Def_Tristate'', ''Kconfig_Visible'', ''C_AlignofExpr'', ''C_AtomicExpr'',
    ''CPPro_include_next'', ''CPPro_ident'', ''Maintainer_Bug'', ''Maintainer_Chat'', ''Maintainer_Patchwork'',
    ''C_Bitfield'', ''C_char16'', ''C_char32'', ''C_wchar'', ''C_longdouble'', ''C_float128'', ''C_float16'',
    ''C_Vector'', ''C_vla'']"

definition m_type_descriptor_insert :: "row list" where
  "m_type_descriptor_insert = map (\<lambda>(i, n). [CInt (int i), CStr n]) (enumerate 0 ASTT)"

subsection \<open>Declarations\<close>

text \<open>A declaration with the keyword arguments every table gives; the others are set by the updates.\<close>

definition new_table :: "nat \<Rightarrow> string \<Rightarrow> string list list \<Rightarrow> string list \<Rightarrow> (string \<times> string \<times> string) list \<Rightarrow>
    row list option \<Rightarrow> bool \<Rightarrow> cache_cfg \<Rightarrow> hash_cfg \<Rightarrow> table" where
  "new_table tid name cols prim foreign init nodup cache hashing =
     the (mk_table tid name cols prim foreign init nodup cache False hashing [] [] False False)"

definition quoted :: "string \<Rightarrow> string" where
  "quoted s = [CHR 0x27] @ s @ [CHR 0x27]"

definition m_project :: table where
  "m_project = (new_table 0 ''m_project''
     [[''project_id'', ''INT'', ''NOT NULL'', ''AUTO_INCREMENT''],
      [''name'', ''VARCHAR(64)'', ''NOT NULL'', ''COLLATE utf8mb4_bin''],
      [''slug'', ''VARCHAR(32)'', ''NOT NULL'', ''COLLATE utf8mb4_bin'']]
     [''project_id'']
     []
     (Some [[CInt 0, CStr ''default'', CStr ''default'']]) True CacheAll NoHashing)
     \<lparr>unique_keys := [[''slug'']]\<rparr>"

definition m_file_name :: table where
  "m_file_name = (new_table 1 ''m_file_name''
     [[''fnid'', ''INT'', ''NOT NULL'', ''AUTO_INCREMENT''],
      [''fname'', ''VARCHAR(255)'', ''NOT NULL'', ''COLLATE utf8mb4_bin'']]
     [''fnid'']
     []
     (Some [[CInt 0, CStr []]]) True CacheAll NoHashing)
     \<lparr>indexes := [(''file_name_index'', [''fname''])]\<rparr>"

definition m_file_blob :: table where
  "m_file_blob = (new_table 2 ''m_file_blob''
     [[''blob_id'', ''INT'', ''NOT NULL'', ''AUTO_INCREMENT''],
      [''blob_hash'', ''BINARY(20)'', ''NOT NULL''],
      [''ftype'', ''TINYINT'', ''UNSIGNED'', ''NOT NULL'']]
     [''blob_id'']
     []
     (Some [[CInt 0, CBytes (replicate 20 (CHR 0x00)), CInt 0]]) True CacheAll NoHashing)
     \<lparr>unique_keys := [[''blob_hash'', ''ftype'']]\<rparr>"

definition m_bridge_checkpoint :: table where
  "m_bridge_checkpoint = (new_table 3 ''m_bridge_checkpoint''
     [[''commit_id'', ''INT'', ''NOT NULL''],
      [''fnid'', ''INT'', ''NOT NULL''],
      [''blob_id'', ''INT'', ''NOT NULL'']]
     [''commit_id'', ''fnid'']
     [(''fnid'', ''m_file_name'', ''fnid''), (''blob_id'', ''m_file_blob'', ''blob_id'')]
     None False CacheAll NoHashing)
     \<lparr>indexes := [(''chk_blob_idx'', [''blob_id''])],
      blob_scoped := True\<rparr>"

definition m_blob_transition :: table where
  "m_blob_transition = (new_table 4 ''m_blob_transition''
     [[''old_blob_id'', ''INT'', ''NOT NULL''],
      [''new_blob_id'', ''INT'', ''NOT NULL'']]
     [''old_blob_id'', ''new_blob_id'']
     [(''old_blob_id'', ''m_file_blob'', ''blob_id''), (''new_blob_id'', ''m_file_blob'', ''blob_id'')]
     None False CacheAll NoHashing)
     \<lparr>idempotent_pk := True\<rparr>"

definition m_type_descriptor :: table where
  "m_type_descriptor = new_table 5 ''m_type_descriptor''
     [[''type_id'', ''SMALLINT'', ''UNSIGNED'', ''NOT NULL''],
      [''name'', ''VARCHAR(64)'', ''NOT NULL'', ''COLLATE utf8mb4_bin'']]
     [''type_id'']
     []
     (Some m_type_descriptor_insert) False CacheAll NoHashing"

definition m_ast :: table where
  "m_ast = (new_table 6 ''m_ast''
     [[''ast_id'', ''INT'', ''NOT NULL'', ''AUTO_INCREMENT''],
      [''name'', ''VARCHAR(255)'', ''NOT NULL'', ''COLLATE utf8mb4_bin''],
      [''type_id'', ''SMALLINT'', ''UNSIGNED'', ''NOT NULL'']]
     [''ast_id'']
     [(''type_id'', ''m_type_descriptor'', ''type_id'')]
     (Some [[CInt 0, CStr [], CInt 0]]) False CacheNone (HashNamed ''m_ast_hash''))
     \<lparr>indexes := [(''ast_index'', [''name'', ''type_id''])]\<rparr>"

definition m_ast_container :: table where
  "m_ast_container = (new_table 7 ''m_ast_container''
     [[''ast_id'', ''INT'', ''NOT NULL''],
      [''priority'', ''SMALLINT'', ''UNSIGNED'', ''NOT NULL''],
      [''type_id'', ''SMALLINT'', ''UNSIGNED'', ''NOT NULL''],
      [''ref_ast_id'', ''INT'', ''NOT NULL'']]
     [''ast_id'', ''priority'']
     [(''ast_id'', ''m_ast'', ''ast_id''), (''type_id'', ''m_type_descriptor'', ''type_id''), (''ref_ast_id'', ''m_ast'', ''ast_id'')]
     None False CacheNone NoHashing)
     \<lparr>indexes := [(''ast_cont_ref_idx'', [''ref_ast_id''])]\<rparr>"

definition m_ast_include :: table where
  "m_ast_include = (new_table 8 ''m_ast_include''
     [[''ast_id'', ''INT'', ''NOT NULL''],
      [''fnid'', ''INT'', ''NOT NULL'']]
     [''ast_id'']
     [(''ast_id'', ''m_ast'', ''ast_id''), (''fnid'', ''m_file_name'', ''fnid'')]
     None False CacheNone NoHashing)
     \<lparr>indexes := [(''ast_inc_fnid_idx'', [''fnid''])]\<rparr>"

definition m_ast_debug :: table where
  "m_ast_debug = new_table 9 ''m_ast_debug''
     [[''ast_id'', ''INT'', ''NOT NULL''],
      [''ast_raw'', ''MEDIUMTEXT'', ''NOT NULL'']]
     [''ast_id'']
     [(''ast_id'', ''m_ast'', ''ast_id'')]
     None False CacheNone NoHashing"

definition m_tag :: table where
  "m_tag = (new_table 10 ''m_tag''
     [[''tag_id'', ''INT'', ''NOT NULL'', ''AUTO_INCREMENT''],
      [''hash'', ''BINARY(32)'', ''NOT NULL''],
      [''ast_id'', ''INT'', ''NOT NULL''],
      [''hl_s'', ''INT'', ''NOT NULL''],
      [''hl_l'', ''INT'', ''NOT NULL'']]
     [''tag_id'']
     [(''ast_id'', ''m_ast'', ''ast_id'')]
     (Some [[CInt 0, CBytes (replicate 32 (CHR 0x00)), CInt 0, CInt 0, CInt 0]]) False CacheNone NoHashing)
     \<lparr>indexes := [(''tag_hash_idx'', [''hash'']), (''tag_ast_idx'', [''ast_id''])]\<rparr>"

definition m_bridge_tag :: table where
  "m_bridge_tag = (new_table 11 ''m_bridge_tag''
     [[''blob_id'', ''INT'', ''NOT NULL''],
      [''tag_id'', ''INT'', ''NOT NULL''],
      [''line_s'', ''INT'', ''NOT NULL''],
      [''line_e'', ''INT'', ''NOT NULL''],
      [''char_s'', ''INT'', ''NOT NULL''],
      [''char_e'', ''INT'', ''NOT NULL'']]
     [''blob_id'', ''tag_id'']
     [(''blob_id'', ''m_file_blob'', ''blob_id''), (''tag_id'', ''m_tag'', ''tag_id'')]
     None False CacheNone NoHashing)
     \<lparr>indexes := [(''bridge_tag_tid_idx'', [''tag_id''])],
      idempotent_pk := True\<rparr>"

definition m_map_ast :: table where
  "m_map_ast = (new_table 12 ''m_map_ast''
     [[''map_id'', ''INT'', ''NOT NULL''],
      [''line_s'', ''INT'', ''NOT NULL''],
      [''char_s'', ''INT'', ''NOT NULL''],
      [''line_e'', ''INT'', ''NOT NULL''],
      [''char_e'', ''INT'', ''NOT NULL''],
      [''ast_id'', ''INT'', ''NOT NULL'']]
     [''map_id'', ''line_s'', ''char_s'', ''line_e'', ''char_e'', ''ast_id'']
     [(''ast_id'', ''m_ast'', ''ast_id'')]
     None False CacheNone NoHashing)
     \<lparr>idempotent_pk := True\<rparr>"

definition m_bridge_map :: table where
  "m_bridge_map = (new_table 13 ''m_bridge_map''
     [[''tag_id'', ''INT'', ''NOT NULL''],
      [''map_id'', ''INT'', ''NOT NULL'']]
     [''tag_id'', ''map_id'']
     [(''tag_id'', ''m_tag'', ''tag_id'')]
     None False CacheNone NoHashing)
     \<lparr>idempotent_pk := True\<rparr>"

definition m_ast_hash :: table where
  "m_ast_hash = (new_table 14 ''m_ast_hash''
     [[''hash'', ''BINARY(32)'', ''NOT NULL''],
      [''ast_id'', ''INT'', ''NOT NULL'']]
     [''hash'']
     [(''ast_id'', ''m_ast'', ''ast_id'')]
     (Some [[CBytes (replicate 32 (CHR 0x00)), CInt 0]]) False CacheAll NoHashing)
     \<lparr>idempotent_pk := True\<rparr>"

definition m_maintainer_person :: table where
  "m_maintainer_person = new_table 15 ''m_maintainer_person''
     [[''person_id'', ''INT'', ''NOT NULL'', ''AUTO_INCREMENT''],
      [''name'', ''VARCHAR(128)'', ''NOT NULL'', ''COLLATE utf8mb4_bin''],
      [''email'', ''VARCHAR(128)'', ''NOT NULL'', ''COLLATE utf8mb4_bin'']]
     [''person_id'']
     []
     (Some [[CInt 0, CStr [], CStr []]]) True CacheAll NoHashing"

definition m_maintainer_section :: table where
  "m_maintainer_section = (new_table 16 ''m_maintainer_section''
     [[''sec_id'', ''INT'', ''NOT NULL'', ''AUTO_INCREMENT''],
      [''blob_id'', ''INT'', ''NOT NULL''],
      [''name'', ''VARCHAR(128)'', ''NOT NULL'', ''COLLATE utf8mb4_bin''],
      [''status'', ''VARCHAR(32)'', ''NOT NULL'', ''COLLATE utf8mb4_bin''],
      [''scm_tree'', ''VARCHAR(255)'', ''NOT NULL'', ''COLLATE utf8mb4_bin''],
      [''web_page'', ''VARCHAR(255)'', ''NOT NULL'', ''COLLATE utf8mb4_bin''],
      [''mailing_list'', ''VARCHAR(255)'', ''NOT NULL'', ''COLLATE utf8mb4_bin''],
      [''ast_id'', ''INT'', ''NOT NULL'']]
     [''sec_id'']
     [(''blob_id'', ''m_file_blob'', ''blob_id''), (''ast_id'', ''m_ast'', ''ast_id'')]
     (Some [[CInt 0, CInt 0, CStr [], CStr [], CStr [], CStr [], CStr [], CInt 0]]) True CacheAll NoHashing)
     \<lparr>indexes := [(''maint_sec_blob_idx'', [''blob_id''])]\<rparr>"

definition m_maintainer_member :: table where
  "m_maintainer_member = (new_table 17 ''m_maintainer_member''
     [[''sec_id'', ''INT'', ''NOT NULL''],
      [''person_id'', ''INT'', ''NOT NULL''],
      [''role_type'', ''TINYINT'', ''UNSIGNED'', ''NOT NULL''],
      [''priority'', ''INT'', ''NOT NULL'']]
     [''sec_id'', ''person_id'', ''role_type'']
     [(''sec_id'', ''m_maintainer_section'', ''sec_id''), (''person_id'', ''m_maintainer_person'', ''person_id'')]
     None False CacheAll NoHashing)
     \<lparr>idempotent_pk := True\<rparr>"

definition m_maintainer_pattern :: table where
  "m_maintainer_pattern = (new_table 18 ''m_maintainer_pattern''
     [[''sec_id'', ''INT'', ''NOT NULL''],
      [''pat_type'', ''TINYINT'', ''UNSIGNED'', ''NOT NULL''],
      [''pattern'', ''VARCHAR(255)'', ''NOT NULL'', ''COLLATE utf8mb4_bin''],
      [''priority'', ''INT'', ''NOT NULL'']]
     [''sec_id'', ''pat_type'', ''pattern'', ''priority'']
     [(''sec_id'', ''m_maintainer_section'', ''sec_id'')]
     None False CacheAll NoHashing)
     \<lparr>idempotent_pk := True\<rparr>"

definition m_maintainer_file :: table where
  "m_maintainer_file = (new_table 19 ''m_maintainer_file''
     [[''maintainers_blob_id'', ''INT'', ''NOT NULL''],
      [''fnid'', ''INT'', ''NOT NULL''],
      [''sec_id'', ''INT'', ''NOT NULL'']]
     [''maintainers_blob_id'', ''fnid'', ''sec_id'']
     [(''maintainers_blob_id'', ''m_file_blob'', ''blob_id''), (''fnid'', ''m_file_name'', ''fnid''), (''sec_id'', ''m_maintainer_section'', ''sec_id'')]
     None False CacheNone NoHashing)
     \<lparr>indexes := [(''maint_file_fnid_idx'', [''maintainers_blob_id'', ''fnid''])],
      idempotent_pk := True\<rparr>"

definition m_credits_entry :: table where
  "m_credits_entry = (new_table 20 ''m_credits_entry''
     [[''credit_id'', ''INT'', ''NOT NULL'', ''AUTO_INCREMENT''],
      [''blob_id'', ''INT'', ''NOT NULL''],
      [''person_id'', ''INT'', ''NOT NULL''],
      [''web_page'', ''VARCHAR(255)'', ''NOT NULL'', ''COLLATE utf8mb4_bin''],
      [''pgp_key'', ''VARCHAR(255)'', ''NOT NULL'', ''COLLATE utf8mb4_bin''],
      [''description'', ''MEDIUMTEXT'', ''NOT NULL''],
      [''snail_mail'', ''MEDIUMTEXT'', ''NOT NULL''],
      [''ast_id'', ''INT'', ''NOT NULL'']]
     [''credit_id'']
     [(''blob_id'', ''m_file_blob'', ''blob_id''), (''person_id'', ''m_maintainer_person'', ''person_id''), (''ast_id'', ''m_ast'', ''ast_id'')]
     None True CacheAll NoHashing)
     \<lparr>indexes := [(''credits_blob_idx'', [''blob_id''])]\<rparr>"

definition m_commit :: table where
  "m_commit = (new_table 21 ''m_commit''
     [[''commit_id'', ''INT'', ''NOT NULL'', ''AUTO_INCREMENT''],
      [''network_id'', ''INT'', ''NOT NULL''],
      [''commit_hash'', ''BINARY(20)'', ''NOT NULL''],
      [''author_id'', ''INT'', ''NOT NULL''],
      [''author_date'', ''INT'', ''NOT NULL''],
      [''committer_id'', ''INT'', ''NOT NULL''],
      [''committer_date'', ''INT'', ''NOT NULL''],
      [''subject'', ''VARCHAR(500)'', ''NOT NULL'', ''COLLATE utf8mb4_bin''],
      [''message'', ''MEDIUMTEXT'', ''NOT NULL'']]
     [''commit_id'']
     [(''author_id'', ''m_maintainer_person'', ''person_id''), (''committer_id'', ''m_maintainer_person'', ''person_id'')]
     (Some [[CInt 0, CInt 0, CBytes (replicate 20 (CHR 0x00)), CInt 0, CInt 0, CInt 0, CInt 0, CStr [], CStr []]]) False CacheNone NoHashing)
     \<lparr>indexes := [(''commit_author_idx'', [''author_id''])],
      unique_keys := [[''network_id'', ''commit_hash'']]\<rparr>"

definition m_bridge_commit_person :: table where
  "m_bridge_commit_person = (new_table 22 ''m_bridge_commit_person''
     [[''commit_id'', ''INT'', ''NOT NULL''],
      [''person_id'', ''INT'', ''NOT NULL''],
      [''role_type'', ''TINYINT'', ''UNSIGNED'', ''NOT NULL''],
      [''priority'', ''SMALLINT'', ''UNSIGNED'', ''NOT NULL'']]
     [''commit_id'', ''person_id'', ''role_type'']
     [(''commit_id'', ''m_commit'', ''commit_id''), (''person_id'', ''m_maintainer_person'', ''person_id'')]
     None False CacheNone NoHashing)
     \<lparr>indexes := [(''bcp_person_idx'', [''person_id''])],
      idempotent_pk := True\<rparr>"

definition m_commit_file :: table where
  "m_commit_file = (new_table 23 ''m_commit_file''
     [[''commit_id'', ''INT'', ''NOT NULL''],
      [''fnid'', ''INT'', ''NOT NULL''],
      [''blob_id'', ''INT'', ''NOT NULL''],
      [''old_fnid'', ''INT'', ''NOT NULL''],
      [''old_blob_id'', ''INT'', ''NOT NULL''],
      [''change_type'', ''CHAR(1)'', ''NOT NULL'']]
     [''commit_id'', ''fnid'']
     [(''commit_id'', ''m_commit'', ''commit_id''), (''fnid'', ''m_file_name'', ''fnid''), (''blob_id'', ''m_file_blob'', ''blob_id'')]
     None False CacheNone NoHashing)
     \<lparr>indexes := [(''cf_fnid_cid_idx'', [''fnid'', ''commit_id'']), (''cf_blob_idx'', [''blob_id''])],
      idempotent_pk := True\<rparr>"

definition m_bridge_commit_tag :: table where
  "m_bridge_commit_tag = (new_table 24 ''m_bridge_commit_tag''
     [[''commit_id'', ''INT'', ''NOT NULL''],
      [''blob_id'', ''INT'', ''NOT NULL''],
      [''tag_id'', ''INT'', ''NOT NULL'']]
     [''commit_id'', ''tag_id'']
     [(''commit_id'', ''m_commit'', ''commit_id''), (''blob_id'', ''m_file_blob'', ''blob_id''), (''tag_id'', ''m_tag'', ''tag_id'')]
     None False CacheNone NoHashing)
     \<lparr>indexes := [(''bct_tag_idx'', [''tag_id''])],
      idempotent_pk := True\<rparr>"

definition m_moved_tag :: table where
  "m_moved_tag = (new_table 25 ''m_moved_tag''
     [[''s_tag_id'', ''INT'', ''NOT NULL''],
      [''e_tag_id'', ''INT'', ''NOT NULL'']]
     [''s_tag_id'', ''e_tag_id'']
     [(''s_tag_id'', ''m_tag'', ''tag_id''), (''e_tag_id'', ''m_tag'', ''tag_id'')]
     None False CacheNone NoHashing)
     \<lparr>indexes := [(''moved_tag_end_idx'', [''e_tag_id''])],
      idempotent_pk := True\<rparr>"

definition m_blob_symbol_def :: table where
  "m_blob_symbol_def = (new_table 26 ''m_blob_symbol_def''
     [[''def_id'', ''INT'', ''NOT NULL'', ''AUTO_INCREMENT''],
      [''blob_id'', ''INT'', ''NOT NULL''],
      [''tag_id'', ''INT'', ''NOT NULL''],
      [''ast_id'', ''INT'', ''NOT NULL''],
      [''name'', ''VARCHAR(255)'', ''NOT NULL'', ''COLLATE utf8mb4_bin''],
      [''type_id'', ''TINYINT'', ''UNSIGNED'', ''NOT NULL''],
      [''linkage'', ''TINYINT'', ''UNSIGNED'', ''NOT NULL'', ''DEFAULT 0''],
      [''line_s'', ''INT'', ''NOT NULL''],
      [''line_e'', ''INT'', ''NOT NULL'']]
     [''def_id'']
     [(''blob_id'', ''m_file_blob'', ''blob_id''), (''tag_id'', ''m_tag'', ''tag_id''), (''ast_id'', ''m_ast'', ''ast_id'')]
     None False CacheNone NoHashing)
     \<lparr>indexes := [(''sym_def_blob_name_idx'', [''blob_id'', ''name'', ''type_id'']), (''sym_def_name_idx'', [''name'', ''type_id'']), (''sym_def_ast_idx'', [''ast_id''])],
      blob_scoped := True\<rparr>"

definition m_blob_symbol_ref :: table where
  "m_blob_symbol_ref = (new_table 27 ''m_blob_symbol_ref''
     [[''ref_id'', ''INT'', ''NOT NULL'', ''AUTO_INCREMENT''],
      [''blob_id'', ''INT'', ''NOT NULL''],
      [''tag_id'', ''INT'', ''NOT NULL''],
      [''ast_id'', ''INT'', ''NOT NULL''],
      [''target_fnid'', ''INT'', ''NOT NULL'', ''DEFAULT 0''],
      [''role'', ''TINYINT'', ''UNSIGNED'', ''NOT NULL''],
      [''line'', ''INT'', ''NOT NULL''],
      [''char_s'', ''INT'', ''NOT NULL'']]
     [''ref_id'']
     [(''blob_id'', ''m_file_blob'', ''blob_id''), (''tag_id'', ''m_tag'', ''tag_id''), (''ast_id'', ''m_ast'', ''ast_id'')]
     None False CacheNone NoHashing)
     \<lparr>indexes := [(''sym_ref_blob_idx'', [''blob_id'']), (''sym_ref_ast_idx'', [''ast_id'', ''role'']), (''sym_ref_tgt_idx'', [''target_fnid'', ''ast_id''])],
      blob_scoped := True\<rparr>"

definition m_file_reference :: table where
  "m_file_reference = (new_table 28 ''m_file_reference''
     [[''ref_id'', ''INT'', ''NOT NULL'', ''AUTO_INCREMENT''],
      [''source_blob_id'', ''INT'', ''NOT NULL''],
      [''source_fnid'', ''INT'', ''NOT NULL''],
      [''target_fnid'', ''INT'', ''NOT NULL''],
      [''ref_type'', ''TINYINT'', ''UNSIGNED'', ''NOT NULL''],
      [''line_no'', ''INT'', ''NOT NULL''],
      [''details'', ''VARCHAR(255)'', (''DEFAULT '' @ quoted []), ''COLLATE utf8mb4_bin'']]
     [''ref_id'']
     [(''source_blob_id'', ''m_file_blob'', ''blob_id''), (''source_fnid'', ''m_file_name'', ''fnid''), (''target_fnid'', ''m_file_name'', ''fnid'')]
     None False CacheNone NoHashing)
     \<lparr>indexes := [(''fref_tgt_idx'', [''target_fnid'', ''ref_type''])],
      unique_keys := [[''source_blob_id'', ''source_fnid'', ''target_fnid'', ''ref_type'', ''line_no'']],
      blob_scoped := True\<rparr>"

definition m_db_instance :: table where
  "m_db_instance = (new_table 29 ''m_db_instance''
     [[''instance_hash'', ''VARCHAR(64)'', ''NOT NULL'', ''COLLATE utf8mb4_bin''],
      [''created_at'', ''BIGINT'', ''NOT NULL'']]
     [''instance_hash'']
     []
     None False CacheNone NoHashing)
     \<lparr>idempotent_pk := True\<rparr>"

definition m_git_network :: table where
  "m_git_network = (new_table 30 ''m_git_network''
     [[''network_id'', ''INT'', ''NOT NULL'', ''AUTO_INCREMENT''],
      [''project_id'', ''INT'', ''NOT NULL''],
      [''name'', ''VARCHAR(64)'', ''NOT NULL'', ''COLLATE utf8mb4_bin''],
      [''root_commit_hash'', ''BINARY(20)'', ''NOT NULL'']]
     [''network_id'']
     [(''project_id'', ''m_project'', ''project_id'')]
     (Some [[CInt 0, CInt 0, CStr ''default'', CBytes (replicate 20 (CHR 0x00))]]) False CacheAll NoHashing)
     \<lparr>unique_keys := [[''root_commit_hash'']]\<rparr>"

definition m_repository :: table where
  "m_repository = (new_table 31 ''m_repository''
     [[''repo_id'', ''INT'', ''NOT NULL'', ''AUTO_INCREMENT''],
      [''network_id'', ''INT'', ''NOT NULL''],
      [''name'', ''VARCHAR(64)'', ''NOT NULL'', ''COLLATE utf8mb4_bin''],
      [''git_url'', ''VARCHAR(255)'', ''NOT NULL'', ''COLLATE utf8mb4_bin''],
      [''default_branch'', ''VARCHAR(64)'', ''NOT NULL'', (''DEFAULT '' @ quoted ''main''), ''COLLATE utf8mb4_bin'']]
     [''repo_id'']
     [(''network_id'', ''m_git_network'', ''network_id'')]
     (Some [[CInt 0, CInt 0, CStr ''default'', CStr [], CStr ''main'']]) True CacheAll NoHashing)
     \<lparr>unique_keys := [[''network_id'', ''name'']]\<rparr>"

definition m_git_ref :: table where
  "m_git_ref = (new_table 32 ''m_git_ref''
     [[''ref_id'', ''INT'', ''NOT NULL'', ''AUTO_INCREMENT''],
      [''repo_id'', ''INT'', ''NOT NULL''],
      [''ref_type'', ''TINYINT'', ''UNSIGNED'', ''NOT NULL''],
      [''ref_name'', ''VARCHAR(255)'', ''NOT NULL'', ''COLLATE utf8mb4_bin''],
      [''commit_id'', ''INT'', ''NOT NULL''],
      [''tagger_id'', ''INT'', ''NULL''],
      [''tagger_date'', ''INT'', ''NULL''],
      [''tag_message'', ''TEXT'', ''NULL'']]
     [''ref_id'']
     [(''repo_id'', ''m_repository'', ''repo_id''), (''commit_id'', ''m_commit'', ''commit_id'')]
     (Some [[CInt 0, CInt 0, CInt 1, CStr ''default'', CInt 0, CNone, CNone, CNone]]) False CacheAll NoHashing)
     \<lparr>indexes := [(''git_ref_cid_idx'', [''commit_id''])],
      unique_keys := [[''repo_id'', ''ref_name'']]\<rparr>"

definition m_commit_parent :: table where
  "m_commit_parent = (new_table 33 ''m_commit_parent''
     [[''commit_id'', ''INT'', ''NOT NULL''],
      [''parent_commit_id'', ''INT'', ''NOT NULL''],
      [''parent_idx'', ''SMALLINT'', ''UNSIGNED'', ''NOT NULL'']]
     [''commit_id'', ''parent_idx'']
     [(''commit_id'', ''m_commit'', ''commit_id''), (''parent_commit_id'', ''m_commit'', ''commit_id'')]
     None False CacheNone NoHashing)
     \<lparr>indexes := [(''cp_parent_idx'', [''parent_commit_id'', ''parent_idx''])],
      idempotent_pk := True\<rparr>"

definition m_ast_attribute :: table where
  "m_ast_attribute = (new_table 34 ''m_ast_attribute''
     [[''ast_id'', ''INT'', ''NOT NULL''],
      [''priority'', ''SMALLINT'', ''UNSIGNED'', ''NOT NULL''],
      [''name'', ''VARCHAR(64)'', ''NOT NULL'', ''COLLATE utf8mb4_bin''],
      [''val'', ''VARCHAR(255)'', (''DEFAULT '' @ quoted []), ''COLLATE utf8mb4_bin'']]
     [''ast_id'', ''priority'']
     [(''ast_id'', ''m_ast'', ''ast_id'')]
     None False CacheNone NoHashing)
     \<lparr>idempotent_pk := True\<rparr>"

definition m_ingest_state :: table where
  "m_ingest_state = (new_table 35 ''m_ingest_state''
     [[''network_id'', ''INT'', ''NOT NULL''],
      [''commit_id'', ''INT'', ''NOT NULL''],
      [''status'', ''TINYINT'', ''UNSIGNED'', ''NOT NULL''],
      [''updated_at'', ''BIGINT'', ''NOT NULL'']]
     [''network_id'', ''commit_id'']
     [(''network_id'', ''m_git_network'', ''network_id''), (''commit_id'', ''m_commit'', ''commit_id'')]
     None False CacheNone NoHashing)
     \<lparr>idempotent_pk := True\<rparr>"

definition m_tag_def :: table where
  "m_tag_def = (new_table 36 ''m_tag_def''
     [[''tag_id'', ''INT'', ''NOT NULL''],
      [''def_idx'', ''SMALLINT'', ''UNSIGNED'', ''NOT NULL''],
      [''sym_key'', ''BIGINT'', ''NOT NULL''],
      [''name'', ''VARCHAR(255)'', ''NOT NULL'', ''COLLATE utf8mb4_bin''],
      [''type_id'', ''TINYINT'', ''UNSIGNED'', ''NOT NULL''],
      [''linkage'', ''TINYINT'', ''UNSIGNED'', ''NOT NULL'', ''DEFAULT 0''],
      [''rel_line_s'', ''INT'', ''NOT NULL''],
      [''rel_line_e'', ''INT'', ''NOT NULL'']]
     [''tag_id'', ''def_idx'']
     [(''tag_id'', ''m_tag'', ''tag_id'')]
     None False CacheNone NoHashing)
     \<lparr>indexes := [(''tag_def_name_idx'', [''name'', ''type_id'']), (''tag_def_key_idx'', [''sym_key'', ''tag_id''])]\<rparr>"

definition m_tag_ref :: table where
  "m_tag_ref = (new_table 37 ''m_tag_ref''
     [[''tag_id'', ''INT'', ''NOT NULL''],
      [''ref_idx'', ''INT'', ''UNSIGNED'', ''NOT NULL''],
      [''sym_key'', ''BIGINT'', ''NOT NULL''],
      [''role'', ''TINYINT'', ''UNSIGNED'', ''NOT NULL''],
      [''rel_line'', ''INT'', ''NOT NULL''],
      [''char_s'', ''INT'', ''NOT NULL'']]
     [''tag_id'', ''ref_idx'']
     [(''tag_id'', ''m_tag'', ''tag_id'')]
     None False CacheNone NoHashing)
     \<lparr>indexes := [(''tag_ref_key_idx'', [''sym_key'', ''tag_id''])]\<rparr>"

definition m_blob_symbol :: table where
  "m_blob_symbol = (new_table 38 ''m_blob_symbol''
     [[''blob_id'', ''INT'', ''NOT NULL''],
      [''sym_key'', ''BIGINT'', ''NOT NULL''],
      [''target_ast_id'', ''INT'', ''NOT NULL''],
      [''target_fnid'', ''INT'', ''NOT NULL'', ''DEFAULT 0'']]
     [''blob_id'', ''sym_key'']
     [(''blob_id'', ''m_file_blob'', ''blob_id''), (''target_ast_id'', ''m_ast'', ''ast_id'')]
     None False CacheNone NoHashing)
     \<lparr>indexes := [(''blob_symbol_target_idx'', [''target_ast_id''])],
      idempotent_pk := True\<rparr>"

definition m_symbol_own :: table where
  "m_symbol_own = (new_table 39 ''m_symbol_own''
     [[''blob_id'', ''INT'', ''NOT NULL''],
      [''tag_id'', ''INT'', ''NOT NULL''],
      [''kind'', ''TINYINT'', ''UNSIGNED'', ''NOT NULL'']]
     [''blob_id'', ''tag_id'', ''kind'']
     [(''blob_id'', ''m_file_blob'', ''blob_id''), (''tag_id'', ''m_tag'', ''tag_id'')]
     None False CacheNone NoHashing)
     \<lparr>idempotent_pk := True\<rparr>"

definition m_ingest_watermark :: table where
  "m_ingest_watermark = (new_table 40 ''m_ingest_watermark''
     [[''commit_id'', ''INT'', ''NOT NULL''],
      [''marked_table_id'', ''SMALLINT'', ''UNSIGNED'', ''NOT NULL''],
      [''max_id'', ''BIGINT'', ''NOT NULL'']]
     [''commit_id'', ''marked_table_id'']
     []
     None False CacheNone NoHashing)
     \<lparr>idempotent_pk := True\<rparr>"

definition m_ingest_blob :: table where
  "m_ingest_blob = (new_table 41 ''m_ingest_blob''
     [[''commit_id'', ''INT'', ''NOT NULL''],
      [''blob_id'', ''INT'', ''NOT NULL'']]
     [''commit_id'', ''blob_id'']
     []
     None False CacheNone NoHashing)
     \<lparr>idempotent_pk := True\<rparr>"

definition m_arch_root :: table where
  "m_arch_root = (new_table 42 ''m_arch_root''
     [[''commit_id'', ''INT'', ''NOT NULL''],
      [''arch'', ''VARCHAR(32)'', ''NOT NULL'', ''COLLATE utf8mb4_bin''],
      [''role'', ''TINYINT'', ''UNSIGNED'', ''NOT NULL''],
      [''priority'', ''SMALLINT'', ''UNSIGNED'', ''NOT NULL''],
      [''path'', ''VARCHAR(255)'', ''NOT NULL'', ''COLLATE utf8mb4_bin''],
      [''target'', ''VARCHAR(255)'', (''DEFAULT '' @ quoted []), ''COLLATE utf8mb4_bin'']]
     [''commit_id'', ''arch'', ''role'', ''path'']
     [(''commit_id'', ''m_commit'', ''commit_id'')]
     None False CacheNone NoHashing)
     \<lparr>idempotent_pk := True\<rparr>"

definition m_commit_email :: table where
  "m_commit_email = (new_table 43 ''m_commit_email''
     [[''commit_id'', ''INT'', ''NOT NULL''],
      [''message_id'', ''VARCHAR(255)'', ''NOT NULL'', ''COLLATE utf8mb4_bin''],
      [''thread_id'', ''BIGINT'', ''UNSIGNED'', ''NOT NULL'', ''DEFAULT 0''],
      [''relation_type'', ''TINYINT'', ''UNSIGNED'', ''NOT NULL''],
      [''match_tier'', ''TINYINT'', ''UNSIGNED'', ''NOT NULL''],
      [''patch_version'', ''TINYINT'', ''UNSIGNED'', ''NOT NULL'', ''DEFAULT 1''],
      [''patch_idx'', ''SMALLINT'', ''UNSIGNED'', ''NOT NULL'', ''DEFAULT 0''],
      [''patch_total'', ''SMALLINT'', ''UNSIGNED'', ''NOT NULL'', ''DEFAULT 0'']]
     [''commit_id'', ''message_id'', ''relation_type'']
     [(''commit_id'', ''m_commit'', ''commit_id'')]
     None False CacheNone NoHashing)
     \<lparr>idempotent_pk := True\<rparr>"

definition TABLES :: "table list" where
  "TABLES = [m_project, m_file_name, m_file_blob, m_bridge_checkpoint, m_blob_transition,
     m_type_descriptor, m_ast, m_ast_container, m_ast_include, m_ast_debug,
     m_tag, m_bridge_tag, m_map_ast, m_bridge_map, m_ast_hash,
     m_maintainer_person, m_maintainer_section, m_maintainer_member, m_maintainer_pattern, m_maintainer_file,
     m_credits_entry, m_commit, m_bridge_commit_person, m_commit_file, m_bridge_commit_tag,
     m_moved_tag, m_blob_symbol_def, m_blob_symbol_ref, m_file_reference, m_db_instance,
     m_git_network, m_repository, m_git_ref, m_commit_parent, m_ast_attribute,
     m_ingest_state, m_tag_def, m_tag_ref, m_blob_symbol, m_symbol_own,
     m_ingest_watermark, m_ingest_blob, m_arch_root, m_commit_email]"


subsection \<open>What the declarations promise\<close>

text \<open>A column's type and whether it is unsigned.\<close>

type_synonym col_type = "(string \<times> bool) option"

definition column_type :: "string list list \<Rightarrow> string \<Rightarrow> col_type" where
  "column_type cols c = (case find (\<lambda>col. col_name col = c) cols of
       Some (_ # ty # opts) \<Rightarrow> Some (ty, ''UNSIGNED'' \<in> set opts)
     | _ \<Rightarrow> None)"

text \<open>Columns are distinct and the keys name some of them.\<close>

definition keys_named :: "table \<Rightarrow> bool" where
  "keys_named t \<longleftrightarrow> (let names = map col_name (init_columns t)
     in distinct names \<and> init_primary t \<noteq> [] \<and> distinct (init_primary t) \<and> set (init_primary t) \<subseteq> set names
       \<and> list_all (\<lambda>(_, cs). set cs \<subseteq> set names) (indexes t) \<and> list_all (\<lambda>cs. set cs \<subseteq> set names) (unique_keys t))"

text \<open>Every foreign key names the one-column key of a table declared before, or of its own, with its type.\<close>

definition key_type :: "table \<Rightarrow> string \<times> string list \<times> col_type" where
  "key_type t = (table_name t, init_primary t, column_type (init_columns t) (case init_primary t of c # _ \<Rightarrow> c | [] \<Rightarrow> []))"

definition foreign_types :: "table \<Rightarrow> (string \<times> string \<times> col_type) list" where
  "foreign_types t = map (\<lambda>(c, n, pc). (n, pc, column_type (init_columns t) c)) (init_foreign t)"

fun parents_first :: "(string \<times> string list \<times> col_type) list \<Rightarrow>
    ((string \<times> string list \<times> col_type) \<times> (string \<times> string \<times> col_type) list) list \<Rightarrow> bool" where
  "parents_first before [] \<longleftrightarrow> True"
| "parents_first before ((k, fs) # ts) \<longleftrightarrow>
     list_all (\<lambda>(n, pc, ty). ty \<noteq> None \<and> (n, [pc], ty) \<in> set (k # before)) fs \<and> parents_first (k # before) ts"

lemma new_table_simps [simp]:
  assumes "cache = CacheAll \<or> cache = CacheNone"
  shows "table_id (new_table tid name cols prim foreign init nodup cache hashing) = tid"
    "table_name (new_table tid name cols prim foreign init nodup cache hashing) = name"
    "init_columns (new_table tid name cols prim foreign init nodup cache hashing) = cols"
    "init_primary (new_table tid name cols prim foreign init nodup cache hashing) = prim"
    "primary (new_table tid name cols prim foreign init nodup cache hashing) = resolve_primary cols prim"
    "init_foreign (new_table tid name cols prim foreign init nodup cache hashing) = foreign"
    "initial_insert (new_table tid name cols prim foreign init nodup cache hashing) = init"
    "indexes (new_table tid name cols prim foreign init nodup cache hashing) = []"
    "unique_keys (new_table tid name cols prim foreign init nodup cache hashing) = []"
  using assms by (auto simp: new_table_def mk_table_def cache_columns_def)

lemmas layout_defs = m_project_def m_file_name_def m_file_blob_def m_bridge_checkpoint_def m_blob_transition_def m_type_descriptor_def
  m_ast_def m_ast_container_def m_ast_include_def m_ast_debug_def m_tag_def m_bridge_tag_def m_map_ast_def
  m_bridge_map_def m_ast_hash_def m_maintainer_person_def m_maintainer_section_def m_maintainer_member_def
  m_maintainer_pattern_def m_maintainer_file_def m_credits_entry_def m_commit_def m_bridge_commit_person_def
  m_commit_file_def m_bridge_commit_tag_def m_moved_tag_def m_blob_symbol_def_def m_blob_symbol_ref_def
  m_file_reference_def m_db_instance_def m_git_network_def m_repository_def m_git_ref_def m_commit_parent_def
  m_ast_attribute_def m_ingest_state_def m_tag_def_def m_tag_ref_def m_blob_symbol_def m_symbol_own_def
  m_ingest_watermark_def m_ingest_blob_def m_arch_root_def m_commit_email_def TABLES_def

lemma TABLES_ids: "map table_id TABLES = [0..<44]"
  by (simp add: layout_defs upt_rec)

lemma TABLES_distinct: "distinct (map table_name TABLES)"
  by (simp add: layout_defs)

lemma TABLES_keys: "list_all keys_named TABLES"
  by (simp add: layout_defs keys_named_def col_name_def)

lemma TABLES_foreign: "parents_first [] (map (\<lambda>t. (key_type t, foreign_types t)) TABLES)"
  apply (simp add: layout_defs key_type_def foreign_types_def column_type_def col_name_def del: parents_first.simps)
  apply code_simp
  done

end
