(* ===== verification/ChangeSet_Symbols.thy ===== *)
theory ChangeSet_Symbols
  imports ChangeSet_Store Table_Engine Db_Layout
begin

section \<open>Symbols of other files (ChangeSet.resolve\_ref, core/TableHandling.py)\<close>

text \<open>
  A reference \<open>(REF_FILE, file, name, type)\<close> to an AST node of another file is looked up in a fixed order: the symbols
  the file published, the shared-memory tables, the file's own change set when it is at hand, the database for files
  that are not being changed, the staged symbols, the engine, and last a stub.  The state is the part of
  \<open>GreatProcessor\<close> the lookup reads and caches, and the table engine.  Queries of another table and shorter routes
  (the legacy fallback, which no parser uses) are outside the model.
\<close>

subsection \<open>State\<close>

text \<open>
  The shared-memory tables, through the four queries made on them; a snapshot given to \<open>pre_resolve_operations\<close> is one
  of them or plain maps.
\<close>

record shared_table =
  get_file_symbol :: "string \<Rightarrow> string \<Rightarrow> int \<Rightarrow> cell option"
  get_file_name :: "string \<Rightarrow> string \<Rightarrow> cell option"
  get_symbol :: "string \<Rightarrow> int \<Rightarrow> cell option"
  get_name :: "string \<Rightarrow> cell option"

datatype snapshot = Scoped shared_table | Plain "(symkey, cell) dict" "(string, cell) dict"

record 'b gproc =
  changed_paths :: "string list"
  completed_paths :: "string list"
  file_symbols :: "(string, (symkey, cell) dict) dict"
  file_names :: "(string, (string, cell) dict) dict"
  shared_symbols :: "shared_table option"
  cs_dict :: "'b cs_dict"
  ast_staged_symbols :: "(symkey, cell) dict"
  ast_staged_names :: "(string, cell) dict"
  ast_negative_cache :: "symkey list"
  is_worker :: bool
  file_deps :: "(string, string list) dict"
  cs_op_counts :: "(string, nat) dict"
  file_pre_extracted_tags :: "(string, row list) dict"
  file_blob_ids :: "(string, cell) dict"
  file_fnid_cache :: "(string, cell option) dict"
  file_fid_cache :: "(string, cell option) dict"
  vid :: int
  old_vid :: int

text \<open>
  What a lookup is given: the driver and the digest of views, \<open>m_ast.table_id\<close>, \<open>get_file_symbols_from_db\<close>, the snapshot of the running
  pre-resolution, and the batch the change set arrived in.
\<close>

record 'db lookup_env =
  env_driver :: "'db driver"
  env_digest :: digest
  ast_table :: nat
  db_symbols :: "string \<Rightarrow> (symkey, cell) dict option"
  phase2 :: "snapshot option"
  batch_cs :: "(string, changeset) dict"

type_synonym ('b, 'db) lookup_state = "'b gproc \<times> 'db te"

text \<open>\<open>{s_name: a_id for (s_name, _), a_id in syms.items()}\<close>\<close>

definition names_of :: "(symkey, 'v) dict \<Rightarrow> (string, 'v) dict" where
  "names_of syms = foldl (\<lambda>m ((n, _), i). dict_set n i m) [] syms"

text \<open>Exact (name, type), then the name alone.\<close>

definition find_symbol :: "(symkey, 'v) dict \<Rightarrow> (string, 'v) dict \<Rightarrow> symkey \<Rightarrow> 'v option" where
  "find_symbol syms names key = (case dict_get syms key of Some v \<Rightarrow> Some v | None \<Rightarrow> dict_get names (fst key))"

text \<open>\<open>get_notbind_type\<close>, on the numbers of \<open>ASTT\<close>.\<close>

definition get_notbind_type :: "int \<Rightarrow> int" where
  "get_notbind_type ty =
     (if ty = 27 \<or> ty = 28 then 29           \<comment> \<open>struct\<close>
      else if ty = 33 \<or> ty = 34 then 35      \<comment> \<open>union\<close>
      else if ty = 30 \<or> ty = 31 then 32      \<comment> \<open>enum\<close>
      else if ty = 20 \<or> ty = 21 then 22      \<comment> \<open>function prototype\<close>
      else ty)"

subsection \<open>The steps of a lookup\<close>

text \<open>Step 0: the symbols the file published (its name table is built on first use).\<close>

definition published :: "string \<Rightarrow> symkey \<Rightarrow> 'b gproc \<Rightarrow> 'b gproc \<times> cell option" where
  "published rel key g = (case dict_get (file_symbols g) rel of
       None \<Rightarrow> (g, None)
     | Some syms \<Rightarrow>
         if syms = [] then (g, None)
         else (case dict_get syms key of
             Some v \<Rightarrow> (g, Some v)
           | None \<Rightarrow> (case dict_get (file_names g) rel of
                 Some names \<Rightarrow> (g, dict_get names (fst key))
               | None \<Rightarrow> (g\<lparr>file_names := dict_set rel (names_of syms) (file_names g)\<rparr>, dict_get (names_of syms) (fst key)))))"

text \<open>Step 0b: the shared tables, restricted to the file, or the plain snapshot maps.\<close>

definition scoped_table :: "'db lookup_env \<Rightarrow> 'b gproc \<Rightarrow> shared_table option" where
  "scoped_table E g = (case phase2 E of
       Some (Scoped s) \<Rightarrow> Some s
     | Some (Plain _ _) \<Rightarrow> None
     | None \<Rightarrow> shared_symbols g)"

definition or_else :: "'a option \<Rightarrow> 'a option \<Rightarrow> 'a option" where
  "or_else a b = (case a of Some v \<Rightarrow> Some v | None \<Rightarrow> b)"

definition shared_lookup :: "'db lookup_env \<Rightarrow> string \<Rightarrow> symkey \<Rightarrow> 'b gproc \<Rightarrow> cell option" where
  "shared_lookup E rel key g = (case scoped_table E g of
       Some s \<Rightarrow> or_else (get_file_symbol s rel (fst key) (snd key)) (get_file_name s rel (fst key))
     | None \<Rightarrow> (case phase2 E of
           Some (Plain syms names) \<Rightarrow> if syms = [] then None else find_symbol syms names key
         | _ \<Rightarrow> None))"

text \<open>Step 1: the file's change set, when it is in the batch, executed, or cached (never decompressed for this).\<close>

definition foreign_cs :: "'db lookup_env \<Rightarrow> string \<Rightarrow> 'b gproc \<Rightarrow> changeset option" where
  "foreign_cs E rel g = (case dict_get (batch_cs E) rel of
       Some c \<Rightarrow> Some c
     | None \<Rightarrow> if all_keys (cs_dict g) = [] then None
               else or_else (dict_get (evacuated_store (cs_dict g)) rel) (dict_get (lru_cache (cs_dict g)) rel))"

definition symbol_value :: "changeset \<Rightarrow> pointer \<Rightarrow> nat option \<Rightarrow> cs_error + cell option" where
  "symbol_value c q pos = (case pos of
       None \<Rightarrow> Inr None
     | Some p \<Rightarrow> (case get_value_at c q (Some p) of
           Inl e \<Rightarrow> Inl e
         | Inr v \<Rightarrow> Inr (if v = CNone then None else Some v)))"

definition foreign_lookup :: "'db lookup_env \<Rightarrow> pointer \<Rightarrow> string \<Rightarrow> symkey \<Rightarrow> 'b gproc \<Rightarrow> cs_error + cell option" where
  "foreign_lookup E q rel key g = (case foreign_cs E rel g of
       None \<Rightarrow> Inr None
     | Some c \<Rightarrow> (case find_symbol (resolved_symbols c) (names_of (resolved_symbols c)) key of
           Some v \<Rightarrow> Inr (Some v)
         | None \<Rightarrow>
             if symbol_dict c = [] \<or> cs_ops c = [] then Inr None
             else (case symbol_value c q (dict_get (symbol_dict c) key) of
                 Inl e \<Rightarrow> Inl e
               | Inr (Some v) \<Rightarrow> Inr (Some v)
               | Inr None \<Rightarrow> symbol_value c q (dict_get (names_of (symbol_dict c)) (fst key)))))"

text \<open>A file of this update that has not executed yet: neither its old rows nor its staged symbols may answer for it.\<close>

definition in_flight :: "string \<Rightarrow> 'b gproc \<Rightarrow> bool" where
  "in_flight rel g \<longleftrightarrow> \<not> (rel \<in> set (completed_paths g) \<or> dict_get (file_symbols g) rel \<noteq> None)
     \<and> (rel \<in> set (changed_paths g) \<or> has_key rel (cs_dict g))"

text \<open>Step 1c: the database, for a file that is not in flight; what it has is published.\<close>

definition db_lookup :: "'db lookup_env \<Rightarrow> string \<Rightarrow> symkey \<Rightarrow> 'b gproc \<Rightarrow> 'b gproc \<times> cell option" where
  "db_lookup E rel key g =
     (if in_flight rel g then (g, None)
      else case db_symbols E rel of
          None \<Rightarrow> (g, None)
        | Some syms \<Rightarrow>
            if syms = [] then (g, None)
            else (g\<lparr>file_symbols := dict_set rel syms (file_symbols g), file_names := dict_set rel (names_of syms) (file_names g)\<rparr>,
                  find_symbol syms (names_of syms) key))"

text \<open>Step 2: symbols staged in this version, then any file's symbol in the shared table.\<close>

definition staged_lookup :: "'b gproc \<Rightarrow> symkey \<Rightarrow> cell option" where
  "staged_lookup g key =
     or_else (dict_get (ast_staged_symbols g) key)
       (or_else (dict_get (ast_staged_symbols g) (fst key, get_notbind_type (snd key))) (dict_get (ast_staged_names g) (fst key)))"

definition shared_any :: "'db lookup_env \<Rightarrow> 'b gproc \<Rightarrow> symkey \<Rightarrow> cell option" where
  "shared_any E g key = (case scoped_table E g of
       None \<Rightarrow> None
     | Some s \<Rightarrow> or_else (get_symbol s (fst key) (snd key))
         (or_else (get_symbol s (fst key) (get_notbind_type (snd key))) (get_name s (fst key))))"

definition value_in :: "row option \<Rightarrow> nat \<Rightarrow> cell option" where
  "value_in r i = (case r of
       Some xs \<Rightarrow> if i < length xs \<and> xs ! i \<noteq> CNone then Some (xs ! i) else None
     | None \<Rightarrow> None)"

definition cache_found :: "symkey \<Rightarrow> bool \<Rightarrow> cell \<Rightarrow> 'b gproc \<Rightarrow> 'b gproc" where
  "cache_found key any v g = g\<lparr>ast_staged_symbols := dict_set key v (ast_staged_symbols g),
     ast_staged_names := (if any \<or> dict_get (ast_staged_names g) (fst key) = None
       then dict_set (fst key) v (ast_staged_names g) else ast_staged_names g)\<rparr>"

text \<open>The engine: exact type, the unbound variant, any type of that name, each with the type it is cached under.\<close>

fun engine_lookup :: "'db lookup_env \<Rightarrow> pointer \<Rightarrow> string \<Rightarrow> (int option \<times> int) list \<Rightarrow> ('b, 'db) lookup_state
    \<Rightarrow> ('b, 'db) lookup_state \<times> (cs_error + cell option)" where
  "engine_lookup E q name [] s = (s, Inr None)"
| "engine_lookup E q name ((ty, cty) # tys) (g, te) =
     (case get (env_driver E) te (ast_table E) [CNone, CStr name, case ty of Some t \<Rightarrow> CInt t | None \<Rightarrow> CNone] of
        (te1, Inl _) \<Rightarrow> ((g, te1), Inl Engine_error)
      | (te1, Inr r) \<Rightarrow> (case value_in r (snd q) of
            Some v \<Rightarrow> ((cache_found (name, cty) (ty = None) v g, te1), Inr (Some v))
          | None \<Rightarrow> engine_lookup E q name tys (g, te1)))"

text \<open>A stub: the symbol as an unbound node.\<close>

definition stage_stub :: "'db lookup_env \<Rightarrow> pointer \<Rightarrow> symkey \<Rightarrow> ('b, 'db) lookup_state \<Rightarrow> ('b, 'db) lookup_state \<times> (cs_error + cell option)" where
  "stage_stub E q key s = (case s of (g, te) \<Rightarrow>
     (let nb = (fst key, get_notbind_type (snd key))
      in case te_set (env_driver E) te (ast_table E) [CNone, CStr (fst nb), CInt (snd nb)] of
           (te1, Inl _) \<Rightarrow> ((g, te1), Inl Engine_error)
         | (te1, Inr r) \<Rightarrow> (case value_in (Some r) (snd q) of
               None \<Rightarrow> ((g, te1), Inr None)
             | Some v \<Rightarrow> (let g1 = cache_found nb False v g
                 in ((g1\<lparr>ast_negative_cache := filter (\<lambda>k. k \<noteq> key \<and> k \<noteq> nb) (ast_negative_cache g1)\<rparr>, te1), Inr (Some v))))))"

definition ask_engine :: "'db lookup_env \<Rightarrow> bool \<Rightarrow> bool \<Rightarrow> pointer \<Rightarrow> symkey \<Rightarrow> ('b, 'db) lookup_state
    \<Rightarrow> ('b, 'db) lookup_state \<times> (cs_error + cell option)" where
  "ask_engine E force active q key s0 = (case s0 of (g, te) \<Rightarrow>
     (let nb = get_notbind_type (snd key);
          (s1, r1) = (if key \<in> set (ast_negative_cache g) \<or> is_worker g then (s0, Inr None)
            else (case engine_lookup E q (fst key) [(Some (snd key), snd key), (Some nb, nb), (None, snd key)] s0 of
                ((g1, te1), Inr None) \<Rightarrow> ((g1\<lparr>ast_negative_cache := append_new (ast_negative_cache g1) key\<rparr>, te1), Inr None)
              | r \<Rightarrow> r))
      in case r1 of
           Inr None \<Rightarrow> if (force \<or> \<not> active) \<and> \<not> is_worker g then stage_stub E q key s1 else (s1, Inr None)
         | _ \<Rightarrow> (s1, r1)))"

definition resolve_ast :: "'db lookup_env \<Rightarrow> bool \<Rightarrow> bool \<Rightarrow> pointer \<Rightarrow> symkey \<Rightarrow> ('b, 'db) lookup_state
    \<Rightarrow> ('b, 'db) lookup_state \<times> (cs_error + cell option)" where
  "resolve_ast E force active q key s = (case s of (g, te) \<Rightarrow>
     if active \<and> \<not> force then (s, Inr None)
     else (let k = (take 255 (fst key), snd key)
           in case or_else (staged_lookup g k) (shared_any E g k) of
                Some v \<Rightarrow> (s, Inr (Some v))
              | None \<Rightarrow> ask_engine E force active q k s))"

text \<open>
  \<open>resolve_ref\<close> for \<open>(REF_FILE, rel, name, type)\<close>.  \<open>Inr None\<close> means that the change set has to wait: it is then blocked
  on \<open>rel\<close>.
\<close>

definition resolve_foreign :: "'db lookup_env \<Rightarrow> bool \<Rightarrow> pointer \<Rightarrow> string \<Rightarrow> symkey \<Rightarrow> ('b, 'db) lookup_state
    \<Rightarrow> ('b, 'db) lookup_state \<times> (cs_error + cell option)" where
  "resolve_foreign E force q rel key s = (case s of (g0, te) \<Rightarrow>
     (case published rel key g0 of
        (g, Some v) \<Rightarrow> ((g, te), Inr (Some v))
      | (g, None) \<Rightarrow> (case shared_lookup E rel key g of
            Some v \<Rightarrow> ((g, te), Inr (Some v))
          | None \<Rightarrow> (case foreign_lookup E q rel key g of
                Inl e \<Rightarrow> ((g, te), Inl e)
              | Inr (Some v) \<Rightarrow> ((g, te), Inr (Some v))
              | Inr None \<Rightarrow> (case db_lookup E rel key g of
                    (g1, Some v) \<Rightarrow> ((g1, te), Inr (Some v))
                  | (g1, None) \<Rightarrow>
                      if fst q \<noteq> ast_table E then ((g1, te), Inl Legacy_ref)
                      else resolve_ast E force (in_flight rel g) q key (g1, te))))))"


subsection \<open>A small instance\<close>

text \<open>The AST table of the layout, and a processor with one file being changed and nothing resolved yet.\<close>

definition some_lookup_env :: "unit lookup_env" where
  "some_lookup_env = \<lparr>env_driver = mock_less_driver, env_digest = (\<lambda>_ _. []), ast_table = 6, db_symbols = (\<lambda>_. None), phase2 = None, batch_cs = []\<rparr>"

definition some_gproc :: "unit gproc" where
  "some_gproc = \<lparr>changed_paths = [''a.h''], completed_paths = [], file_symbols = [], file_names = [], shared_symbols = None,
     cs_dict = new_cs_dict 2, ast_staged_symbols = [], ast_staged_names = [], ast_negative_cache = [], is_worker = False,
     file_deps = [], cs_op_counts = [], file_pre_extracted_tags = [], file_blob_ids = [], file_fnid_cache = [], file_fid_cache = [],
     vid = 2, old_vid = 1\<rparr>"

definition some_ast_engine :: "unit te" where
  "some_ast_engine = register_table m_ast new_te"

subsection \<open>Facts about the steps\<close>

lemma published_fields [simp]:
  "cs_dict (fst (published rel key g)) = cs_dict g" "shared_symbols (fst (published rel key g)) = shared_symbols g"
  "file_symbols (fst (published rel key g)) = file_symbols g" "completed_paths (fst (published rel key g)) = completed_paths g"
  "changed_paths (fst (published rel key g)) = changed_paths g" "is_worker (fst (published rel key g)) = is_worker g"
  "ast_staged_symbols (fst (published rel key g)) = ast_staged_symbols g" "ast_staged_names (fst (published rel key g)) = ast_staged_names g"
  "ast_negative_cache (fst (published rel key g)) = ast_negative_cache g"
  by (simp_all add: published_def split: option.splits)

lemma scoped_table_cong: "shared_symbols g' = shared_symbols g \<Longrightarrow> scoped_table E g' = scoped_table E g"
  by (cases "phase2 E") (auto simp: scoped_table_def split: snapshot.split)

lemma shared_lookup_cong: "shared_symbols g' = shared_symbols g \<Longrightarrow> shared_lookup E rel key g' = shared_lookup E rel key g"
  unfolding shared_lookup_def by (simp only: scoped_table_cong[of g' g E])

lemma foreign_cs_cong: "cs_dict g' = cs_dict g \<Longrightarrow> foreign_cs E rel g' = foreign_cs E rel g"
  unfolding foreign_cs_def by (simp only:)

lemma foreign_lookup_cong: "cs_dict g' = cs_dict g \<Longrightarrow> foreign_lookup E q rel key g' = foreign_lookup E q rel key g"
  unfolding foreign_lookup_def by (simp only: foreign_cs_cong[of g' g E rel])

lemma in_flight_published [simp]: "in_flight rel (fst (published rel key g)) = in_flight rel g"
  by (simp add: in_flight_def)

lemma published_in_flight: "in_flight rel g \<Longrightarrow> published rel key g = (g, None)"
  by (simp add: in_flight_def published_def)

text \<open>
  C13: A file of the update that has not executed yet is waited for.  While it is in flight and offers no symbol of its
  own, the reference is suspended on it: nothing of the database, the staged symbols or the engine answers for it, and
  neither the engine nor the processor's caches change.
\<close>

theorem in_flight_blocks:
  assumes "in_flight rel g" "shared_lookup E rel key g = None" "foreign_lookup E q rel key g = Inr None" "fst q = ast_table E"
  shows "resolve_foreign E False q rel key (g, te) = ((g, te), Inr None)"
  using assms by (simp add: resolve_foreign_def published_in_flight db_lookup_def resolve_ast_def)

theorem in_flight_blocks_witness:
  "resolve_foreign some_lookup_env False (6, 0) ''a.h'' (''f'', 20) (some_gproc, some_ast_engine) = ((some_gproc, some_ast_engine), Inr None)"
proof -
  have "in_flight ''a.h'' some_gproc" by (simp add: in_flight_def some_gproc_def)
  moreover have "shared_lookup some_lookup_env ''a.h'' (''f'', 20) some_gproc = None"
    by (simp add: shared_lookup_def scoped_table_def some_lookup_env_def some_gproc_def)
  moreover have "foreign_lookup some_lookup_env (6, 0) ''a.h'' (''f'', 20) some_gproc = Inr None"
    by (simp add: foreign_lookup_def foreign_cs_def some_lookup_env_def some_gproc_def new_cs_dict_def)
  ultimately show ?thesis by (rule in_flight_blocks) (simp add: some_lookup_env_def)
qed

text \<open>The engine with no commit in the background: a lookup by name in the AST table answers and only counts the read.\<close>

definition only_counts :: "'db te \<Rightarrow> 'db te \<Rightarrow> bool" where
  "only_counts te te' \<longleftrightarrow> (\<exists>s. te' = te\<lparr>stats := s\<rparr>)"

lemma only_counts_refl [simp]: "only_counts te te"
  unfolding only_counts_def by (rule exI[of _ "stats te"]) simp

lemma only_counts_trans: "only_counts a b \<Longrightarrow> only_counts b c \<Longrightarrow> only_counts a c"
  by (auto simp: only_counts_def)

lemma only_counts_fields: "only_counts te te' \<Longrightarrow> te_tables te' = te_tables te \<and> pending_commit te' = pending_commit te
    \<and> unique_positions te' = unique_positions te"
  by (auto simp: only_counts_def)

text \<open>The AST table with its indexes, as \<open>register_table\<close> leaves them.\<close>

definition ast_registered :: "'db te \<Rightarrow> bool" where
  "ast_registered te \<longleftrightarrow> dict_get (te_tables te) (table_id m_ast) = Some m_ast
     \<and> unique_positions te (table_id m_ast) = fst (compile_indexes m_ast)"

lemma m_ast_facts [simp]: "primary m_ast = [0]" "no_duplicate m_ast = False" "fst (compile_indexes m_ast) = []" "table_id m_ast = 6"
  by code_simp+

lemma register_ast: "ast_registered (register_table m_ast te)"
  by (simp add: ast_registered_def register_table_def Let_def split: prod.splits)
     (metis fst_conv m_ast_facts(3))

lemma get_counts:
  assumes "ast_registered te" "pending_commit te = None"
  shows "\<exists>te' r. get D te (table_id m_ast) (CNone # rest) = (te', Inr r) \<and> only_counts te te'"
proof -
  have read: "\<exists>te' r. db_read D [6] f None te = (te', Inr r) \<and> only_counts te te'" for f :: "'a \<Rightarrow> row option"
    using assms(2) by (auto simp: db_read_def await_writes_def only_counts_def)
  obtain r where r: "staged_hit te m_ast 6 (CNone # rest) = Inr r" by (simp add: staged_hit_def)
  have t: "dict_get (te_tables te) 6 = Some m_ast" using assms(1) by (simp add: ast_registered_def)
  show ?thesis
  proof (cases r)
    case None
    then show ?thesis using t r read[of "\<lambda>db. drv_select D db m_ast (CNone # rest)"] by (auto simp: get_def)
  qed (use t r in \<open>simp add: get_def\<close>)
qed

lemma engine_lookup_counts:
  "ast_registered te \<Longrightarrow> ast_table E = table_id m_ast \<Longrightarrow> pending_commit te = None \<Longrightarrow>
   \<exists>g' te' r. engine_lookup E q name tys (g, te) = ((g', te'), Inr r) \<and> is_worker g' = is_worker g \<and> only_counts te te'"
proof (induction tys arbitrary: g te)
  case (Cons ty tys)
  obtain a cty where ty: "ty = (a, cty)" by (cases ty)
  obtain te1 r where r: "get (env_driver E) te (ast_table E) [CNone, CStr name, case a of Some t \<Rightarrow> CInt t | None \<Rightarrow> CNone] = (te1, Inr r)"
    "only_counts te te1" using get_counts[OF Cons.prems(1,3)] Cons.prems(2) by metis
  have "ast_registered te1" "pending_commit te1 = None"
    using only_counts_fields[OF r(2)] Cons.prems(1,3) by (simp_all add: ast_registered_def)
  then obtain g' te' r' where "engine_lookup E q name tys (g, te1) = ((g', te'), Inr r')" "is_worker g' = is_worker g" "only_counts te1 te'"
    using Cons.IH[of te1 g] Cons.prems(2) by blast
  moreover have "only_counts te te'" using only_counts_trans[OF r(2)] calculation(3) by blast
  ultimately show ?case using ty r by (cases "value_in r (snd q)") (simp_all add: cache_found_def)
qed simp

lemma set_stub_value:
  assumes "ast_registered te"
  shows "te_set D te (table_id m_ast) (CNone # rest) = (stage 6 (KCell (CInt (next_id te 6))) (StagedRow (CInt (next_id te 6) # rest))
    (bump_id 6 (next_id te 6 + 1) te), Inr (CInt (next_id te 6) # rest))"
  using assms by (simp add: te_set_def set_fresh_def ast_registered_def Let_def)

text \<open>
  C31: A forced lookup answers.  When stubs are forced, outside the parsing workers and with no commit running in the
  background, a reference to a node of any file is resolved: to a symbol that is found, or to a stub staged in \<open>m_ast\<close>
  under the next id.  (The file's own change set, when it is at hand, has to hold the values its symbols point to.)
\<close>

theorem forced_lookup_answers:
  assumes "ast_registered te" "ast_table E = table_id m_ast" "pending_commit te = None"
    and "\<not> is_worker g" "q = (table_id m_ast, 0)" "\<And>e. foreign_lookup E q rel key g \<noteq> Inl e"
  shows "\<exists>s v. resolve_foreign E True q rel key (g, te) = (s, Inr (Some v))"
proof -
  have stub: "\<exists>s v. stage_stub E q k (g', te') = (s, Inr (Some v))" if "only_counts te te'" for k g' te'
  proof -
    have "ast_registered te'" using only_counts_fields[OF that] assms(1) by (simp add: ast_registered_def)
    from set_stub_value[OF this, of "env_driver E" "[CStr (fst k), CInt (get_notbind_type (snd k))]"]
    show ?thesis using assms(2,5) by (auto simp: stage_stub_def Let_def value_in_def)
  qed
  have engine: "\<exists>s v. ask_engine E True active q k (g', te) = (s, Inr (Some v))" if w: "\<not> is_worker g'" for active k g'
  proof (cases "k \<in> set (ast_negative_cache g')")
    case True
    then show ?thesis using w stub[OF only_counts_refl, of k g'] by (simp add: ask_engine_def Let_def)
  next
    case False
    obtain g1 te1 r where e: "engine_lookup E q (fst k) [(Some (snd k), snd k), (Some (get_notbind_type (snd k)), get_notbind_type (snd k)), (None, snd k)]
        (g', te) = ((g1, te1), Inr r)" "is_worker g1 = is_worker g'" "only_counts te te1"
      using engine_lookup_counts[OF assms(1-3), of q "fst k" _ g'] by blast
    show ?thesis using False w e stub[OF e(3)] by (cases r) (simp_all add: ask_engine_def Let_def)
  qed
  have ast: "\<exists>s v. resolve_ast E True active q key (g', te) = (s, Inr (Some v))" if "\<not> is_worker g'" for active g'
    using engine[OF that, of active] by (auto simp: resolve_ast_def Let_def split: option.splits)
  obtain g1 r1 where p: "published rel key g = (g1, r1)" by (metis prod.exhaust)
  then have g1: "cs_dict g1 = cs_dict g" "\<not> is_worker g1"
    using assms(4) published_fields(1,6)[of rel key g] by simp_all
  have f: "foreign_lookup E q rel key g1 \<noteq> Inl e" for e using assms(6) foreign_lookup_cong[OF g1(1)] by metis
  obtain g2 r2 where d: "db_lookup E rel key g1 = (g2, r2)" by (metis prod.exhaust)
  then have "\<not> is_worker g2" using g1(2) by (auto simp: db_lookup_def split: option.splits if_splits)
  then have a: "\<exists>s v. resolve_ast E True (in_flight rel g1) q key (g2, te) = (s, Inr (Some v))" by (rule ast)
  show ?thesis using p d a f assms(2,5) by (cases r1; cases "shared_lookup E rel key g1"; cases "foreign_lookup E q rel key g1"; cases r2)
    (auto simp: resolve_foreign_def split: option.splits)
qed

theorem forced_lookup_answers_witness:
  "\<exists>s v. resolve_foreign some_lookup_env True (6, 0) ''a.h'' (''f'', 20) (some_gproc, some_ast_engine) = (s, Inr (Some v))"
proof (rule forced_lookup_answers)
  show "ast_registered some_ast_engine" unfolding some_ast_engine_def by (rule register_ast)
  show "pending_commit some_ast_engine = None" by code_simp
  show "foreign_lookup some_lookup_env (6, 0) ''a.h'' (''f'', 20) some_gproc \<noteq> Inl e" for e
    by (simp add: foreign_lookup_def foreign_cs_def some_lookup_env_def some_gproc_def new_cs_dict_def)
qed (simp_all add: some_lookup_env_def some_gproc_def)

end
