(* ===== verification/ChangeSet_Once.thy ===== *)
theory ChangeSet_Once
  imports ChangeSet_Symbols
begin

section \<open>A symbol of another file is resolved once\<close>

text \<open>
  The caches that a lookup fills (published symbols, staged symbols, the negative cache) make the same lookup answer the
  same id again, without the engine.
\<close>

text \<open>Two states that agree on everything but the staged-symbol caches.\<close>

definition same_sources :: "'b gproc \<Rightarrow> 'b gproc \<Rightarrow> bool" where
  "same_sources g g' \<longleftrightarrow> (\<exists>ss ns nc. g' = g\<lparr>ast_staged_symbols := ss, ast_staged_names := ns, ast_negative_cache := nc\<rparr>)"

lemma same_sourcesI: "same_sources g (g\<lparr>ast_staged_symbols := ss, ast_staged_names := ns, ast_negative_cache := nc\<rparr>)"
  unfolding same_sources_def by blast

lemma same_sources_refl [simp]: "same_sources g g"
  using same_sourcesI[where g = g and ss = "ast_staged_symbols g" and ns = "ast_staged_names g" and nc = "ast_negative_cache g"] by simp

lemma same_sources_fields:
  assumes "same_sources g g'"
  shows "file_symbols g' = file_symbols g" "file_names g' = file_names g" "shared_symbols g' = shared_symbols g"
    "cs_dict g' = cs_dict g" "in_flight rel g' = in_flight rel g"
  using assms by (auto simp: same_sources_def in_flight_def)

lemma engine_lookup_caches:
  "(\<forall>v. engine_lookup E q name tys (g, te) = ((g', te'), Inr (Some v)) \<longrightarrow>
      (\<exists>ty b. ty \<in> set tys \<and> g' = cache_found (name, snd ty) b v g)) \<and>
   (engine_lookup E q name tys (g, te) = ((g', te'), Inr None) \<longrightarrow> g' = g)"
proof (induction tys arbitrary: te)
  case (Cons ty tys)
  obtain a cty where ty: "ty = (a, cty)" by (cases ty)
  let ?get = "get (env_driver E) te (ast_table E) [CNone, CStr name, case a of Some t \<Rightarrow> CInt t | None \<Rightarrow> CNone]"
  obtain te1 r where r: "?get = (te1, r)" by (cases ?get)
  show ?case
  proof (cases r)
    case (Inl e)
    then show ?thesis using r ty by simp
  next
    case (Inr row)
    show ?thesis
    proof (cases "value_in row (snd q)")
      case None
      have "engine_lookup E q name (ty # tys) (g, te) = engine_lookup E q name tys (g, te1)" using r ty Inr None by simp
      then show ?thesis using Cons.IH[of te1] by (metis list.set_intros(2))
    next
      case (Some v)
      then have "engine_lookup E q name (ty # tys) (g, te) = ((cache_found (name, cty) (a = None) v g, te1), Inr (Some v))"
        using r ty Inr by simp
      then show ?thesis using ty by (intro conjI allI impI exI[of _ ty] exI[of _ "a = None"]) simp_all
    qed
  qed
qed simp

lemma stage_stub_caches:
  "stage_stub E q k (g, te) = ((g', te'), Inr (Some v)) \<Longrightarrow>
   \<exists>nc. g' = (cache_found (fst k, get_notbind_type (snd k)) False v g)\<lparr>ast_negative_cache := nc\<rparr>"
  by (auto simp: stage_stub_def Let_def split: sum.splits option.splits prod.splits)

lemma staged_after_cache:
  assumes "staged_lookup g k = None" "cty \<in> {snd k, get_notbind_type (snd k)}"
    "g' = (cache_found (fst k, cty) b v g)\<lparr>ast_negative_cache := nc\<rparr>"
  shows "staged_lookup g' k = Some v \<and> same_sources g g'"
proof
  show "staged_lookup g' k = Some v"
    using assms by (cases k) (auto simp: staged_lookup_def or_else_def cache_found_def split: option.splits if_splits)
  show "same_sources g g'" 
    using same_sourcesI[where g = g and ss = "ast_staged_symbols (cache_found (fst k, cty) b v g)"
      and ns = "ast_staged_names (cache_found (fst k, cty) b v g)" and nc = nc] by (simp add: assms(3) cache_found_def)
qed

lemma ask_engine_caches:
  assumes "ask_engine E force active q k (g, te) = ((g', te'), Inr (Some v))" "staged_lookup g k = None"
  shows "staged_lookup g' k = Some v \<and> same_sources g g'"
proof -
  let ?tys = "[(Some (snd k), snd k), (Some (get_notbind_type (snd k)), get_notbind_type (snd k)), (None, snd k)]"
  have stub: "staged_lookup g' k = Some v \<and> same_sources g g'"
    if st: "stage_stub E q k (g\<lparr>ast_negative_cache := nc0\<rparr>, te1) = ((g', te'), Inr (Some v))" for nc0 te1
  proof -
    obtain nc' where "g' = (cache_found (fst k, get_notbind_type (snd k)) False v (g\<lparr>ast_negative_cache := nc0\<rparr>))\<lparr>ast_negative_cache := nc'\<rparr>"
      using stage_stub_caches[OF st] by blast
    then have "g' = (cache_found (fst k, get_notbind_type (snd k)) False v g)\<lparr>ast_negative_cache := nc'\<rparr>" by (simp add: cache_found_def)
    then show ?thesis by (intro staged_after_cache[OF assms(2)]) simp_all
  qed
  show ?thesis
  proof (cases "k \<in> set (ast_negative_cache g) \<or> is_worker g")
    case True
    then have "stage_stub E q k (g, te) = ((g', te'), Inr (Some v))" using assms(1) by (auto simp: ask_engine_def Let_def split: if_splits)
    then show ?thesis using stub[of "ast_negative_cache g" te] by simp
  next
    case False
    obtain g1 te1 r where e: "engine_lookup E q (fst k) ?tys (g, te) = ((g1, te1), r)" by (metis prod.exhaust)
    consider (err) x where "r = Inl x" | (found) w where "r = Inr (Some w)" | (none) "r = Inr None"
      by (metis old.sum.exhaust option.exhaust)
    then show ?thesis
    proof cases
      case err
      then show ?thesis using assms(1) False e by (simp add: ask_engine_def Let_def)
    next
      case found
      then have eq: "g1 = g'" "w = v" using assms(1) False e by (simp_all add: ask_engine_def Let_def)
      obtain ty b where c: "ty \<in> set ?tys" "g' = cache_found (fst k, snd ty) b v g"
        using engine_lookup_caches[THEN conjunct1, rule_format, OF e[unfolded found eq]] by blast
      then have "g' = (cache_found (fst k, snd ty) b v g)\<lparr>ast_negative_cache := ast_negative_cache g\<rparr>" by (simp add: cache_found_def)
      then show ?thesis using c(1) by (intro staged_after_cache[OF assms(2)]) auto
    next
      case none
      then have "g1 = g" using engine_lookup_caches[THEN conjunct2, rule_format, OF e[unfolded none]] by blast
      then show ?thesis using assms(1) False e none stub[of "append_new (ast_negative_cache g) k" te1]
        by (auto simp: ask_engine_def Let_def split: if_splits)
    qed
  qed
qed

lemma resolve_ast_again:
  assumes "resolve_ast E force active q key (g, te) = ((g', te'), Inr (Some v))"
  shows "resolve_ast E force active q key (g', te') = ((g', te'), Inr (Some v)) \<and> same_sources g g'"
proof -
  let ?k = "(take 255 (fst key), snd key)"
  have go: "\<not> (active \<and> \<not> force)" using assms by (auto simp: resolve_ast_def split: if_splits)
  show ?thesis
  proof (cases "or_else (staged_lookup g ?k) (shared_any E g ?k)")
    case (Some w)
    then show ?thesis using assms go by (auto simp: resolve_ast_def Let_def)
  next
    case None
    then have n: "staged_lookup g ?k = None" by (auto simp: or_else_def split: option.splits)
    have "ask_engine E force active q ?k (g, te) = ((g', te'), Inr (Some v))" using assms None go by (simp add: resolve_ast_def Let_def)
    from ask_engine_caches[OF this n] show ?thesis using go by (simp add: resolve_ast_def Let_def or_else_def)
  qed
qed

lemma dict_set_same: "dict_get d k = Some v \<Longrightarrow> dict_set k v d = d"
  by (induction d) auto

lemma published_again:
  assumes "published rel key g = (g1, r)" "file_symbols g' = file_symbols g1" "file_names g' = file_names g1"
  shows "published rel key g' = (g', r)"
proof -
  consider "dict_get (file_symbols g) rel = None"
    | syms where "dict_get (file_symbols g) rel = Some syms" "syms = []"
    | syms v where "dict_get (file_symbols g) rel = Some syms" "syms \<noteq> []" "dict_get syms key = Some v"
    | syms names where "dict_get (file_symbols g) rel = Some syms" "syms \<noteq> []" "dict_get syms key = None" "dict_get (file_names g) rel = Some names"
    | syms where "dict_get (file_symbols g) rel = Some syms" "syms \<noteq> []" "dict_get syms key = None" "dict_get (file_names g) rel = None"
    by (metis option.exhaust)
  then show ?thesis using assms by cases (auto simp: published_def split: option.splits)
qed

lemma published_db:
  assumes "file_symbols g' = dict_set rel syms fs" "file_names g' = dict_set rel (names_of syms) fn" "syms \<noteq> []"
  shows "published rel key g' = (g', find_symbol syms (names_of syms) key)"
  using assms by (simp add: published_def find_symbol_def split: option.splits)

lemma db_lookup_again:
  assumes p: "published rel key g = (g1, r1)" and d: "db_lookup E rel key g1 = (g2, None)" and same: "same_sources g2 g'"
    and r1: "r1 = None"
  shows "published rel key g' = (g', None) \<and> db_lookup E rel key g' = (g', None) \<and> in_flight rel g' = in_flight rel g1
    \<and> cs_dict g' = cs_dict g1 \<and> shared_symbols g' = shared_symbols g1"
proof -
  note f = same_sources_fields[OF same]
  consider (skip) "g2 = g1" "in_flight rel g1 \<or> db_symbols E rel \<in> {None, Some []}"
    | (set) syms where "\<not> in_flight rel g1" "db_symbols E rel = Some syms" "syms \<noteq> []" "find_symbol syms (names_of syms) key = None"
        "g2 = g1\<lparr>file_symbols := dict_set rel syms (file_symbols g1), file_names := dict_set rel (names_of syms) (file_names g1)\<rparr>"
    using d by (cases "in_flight rel g1"; cases "db_symbols E rel") (auto simp: db_lookup_def split: if_splits)
  then show ?thesis
  proof cases
    case skip
    have "published rel key g' = (g', None)" using published_again[OF p] f(1,2) skip(1) r1 by blast
    then show ?thesis using f skip by (auto simp: db_lookup_def)
  next
    case set
    have fs: "file_symbols g' = dict_set rel syms (file_symbols g1)" "file_names g' = dict_set rel (names_of syms) (file_names g1)"
      using f(1,2) set(5) by simp_all
    have "\<not> in_flight rel g'" using fs(1) by (simp add: in_flight_def)
    moreover have "db_lookup E rel key g' = (g', None)"
    proof -
      have "dict_set rel syms (file_symbols g') = file_symbols g'" "dict_set rel (names_of syms) (file_names g') = file_names g'"
        unfolding fs by (simp_all add: dict_set_same)
      then show ?thesis using calculation set(2-4) by (simp add: db_lookup_def)
    qed
    ultimately show ?thesis using published_db[OF fs set(3)] set f by simp
  qed
qed

text \<open>
  C14: A reference to a symbol of another file is resolved once.  After a lookup has answered, the same lookup answers
  the same id again, from the caches: it changes neither the engine nor the processor's state, whether the symbol was
  found or a stub was staged for it.
\<close>

theorem resolved_once:
  assumes "resolve_foreign E force q rel key s = (s', Inr (Some v))"
  shows "resolve_foreign E force q rel key s' = (s', Inr (Some v))"
proof -
  obtain g te g' te' where s: "s = (g, te)" "s' = (g', te')" by (metis prod.exhaust)
  obtain g1 r1 where p: "published rel key g = (g1, r1)" by (metis prod.exhaust)
  note r = assms[unfolded s resolve_foreign_def p prod.case]
  have pg1: "published rel key g1 = (g1, r1)" by (rule published_again[OF p refl refl])
  consider w where "r1 = Some w" | w where "r1 = None" "shared_lookup E rel key g1 = Some w"
    | e where "r1 = None" "shared_lookup E rel key g1 = None" "foreign_lookup E q rel key g1 = Inl e"
    | w where "r1 = None" "shared_lookup E rel key g1 = None" "foreign_lookup E q rel key g1 = Inr (Some w)"
    | (none) "r1 = None" "shared_lookup E rel key g1 = None" "foreign_lookup E q rel key g1 = Inr None"
    by (metis old.sum.exhaust option.exhaust)
  then show ?thesis
  proof cases
    case none
    obtain g2 r2 where d: "db_lookup E rel key g1 = (g2, r2)" by (metis prod.exhaust)
    show ?thesis
    proof (cases r2)
      case (Some w)
      then obtain syms where "syms \<noteq> []" "find_symbol syms (names_of syms) key = Some w"
        "g2 = g1\<lparr>file_symbols := dict_set rel syms (file_symbols g1), file_names := dict_set rel (names_of syms) (file_names g1)\<rparr>"
        using d by (auto simp: db_lookup_def split: if_splits option.splits)
      then have "published rel key g2 = (g2, Some w)" using published_db[of g2 rel syms "file_symbols g1" "file_names g1" key] by simp
      then show ?thesis using r none d Some s by (simp add: resolve_foreign_def)
    next
      case None
      have q: "fst q = ast_table E" and a: "resolve_ast E force (in_flight rel g1) q key (g2, te) = ((g', te'), Inr (Some v))"
        using r none d None by (simp_all split: if_splits)
      note again = resolve_ast_again[OF a]
      note same = db_lookup_again[OF p d[unfolded None] again[THEN conjunct2] none(1)]
      have "shared_lookup E rel key g' = None" "foreign_lookup E q rel key g' = Inr None"
        using same none shared_lookup_cong[of g' g1 E rel key] foreign_lookup_cong[of g' g1 E q rel key] by simp_all
      then show ?thesis using same again q s by (simp add: resolve_foreign_def)
    qed
  qed (use r pg1 s in \<open>auto simp: resolve_foreign_def\<close>)
qed

text \<open>The first lookup of \<open>f\<close> in a file that nobody changes stages a stub with id 1; the second one finds it.\<close>

definition after_stub :: "(unit, unit) lookup_state" where
  "after_stub = fst (resolve_foreign some_lookup_env False (6, 0) ''b.h'' (''f'', 20) (some_gproc, some_ast_engine))"

theorem resolved_once_witness:
  "resolve_foreign some_lookup_env False (6, 0) ''b.h'' (''f'', 20) after_stub = (after_stub, Inr (Some (CInt 1)))"
proof -
  have "snd (resolve_foreign some_lookup_env False (6, 0) ''b.h'' (''f'', 20) (some_gproc, some_ast_engine)) = Inr (Some (CInt 1))"
    by code_simp
  then show ?thesis using resolved_once[of some_lookup_env False "(6, 0)" "''b.h''" "(''f'', 20)" "(some_gproc, some_ast_engine)" after_stub "CInt 1"]
    by (simp add: after_stub_def prod_eq_iff)
qed

end
