(* ===== verification/ChangeSet_Execute.thy ===== *)
theory ChangeSet_Execute
  imports ChangeSet_Once
begin

section \<open>Executing the operations of a file (ChangeSet.execute, core/TableHandling.py)\<close>

text \<open>
  A change set runs its operations against the table engine, in order, as far as their references resolve; an
  operation whose reference has to wait is tried again by a later call.  The state is the change set, the lookup state of
  \<open>ChangeSet_Symbols\<close> and with it the engine.  Schemas whose route leads into another file are outside the model.
\<close>

type_synonym ('b, 'db) exec_state = "changeset \<times> ('b, 'db) lookup_state"

text \<open>\<open>REF_NOT_RESOLVABLE\<close>, which defers the operation, against every other exception.\<close>

datatype failure = Unresolvable | Crash cs_error

text \<open>\<open>resolve_ref\<close>: \<open>One CNone\<close> is Python's \<open>None\<close>.\<close>

definition resolve_ref :: "'db lookup_env \<Rightarrow> bool \<Rightarrow> pointer \<Rightarrow> link list \<Rightarrow> ('b, 'db) exec_state
    \<Rightarrow> ('b, 'db) exec_state \<times> (cs_error + resolved)" where
  "resolve_ref E force q r st = (case st of (c, s) \<Rightarrow>
     (case r of
        LInt i # LStr rel # LStr name # LInt ty # _ \<Rightarrow>
          if i = 3 then
            (case resolve_foreign E force q rel (name, ty) s of
               (s1, Inl e) \<Rightarrow> ((c, s1), Inl e)
             | (s1, Inr None) \<Rightarrow> ((c\<lparr>blocked_on := Some rel\<rparr>, s1), Inr (One CNone))
             | (s1, Inr (Some v)) \<Rightarrow> ((c, s1), Inr (One v)))
          else (st, resolve_local c q r)
      | l # _ \<Rightarrow> if link_is l REF_FILE then (st, Inl Legacy_ref) else (st, resolve_local c q r)
      | [] \<Rightarrow> (st, Inl cs_error.Index_error)))"

subsection \<open>References among the columns of an operation\<close>

text \<open>The direct path of \<open>_resolve_ref_from_tuple\<close>: a position whose result is known.\<close>

definition known_result :: "changeset \<Rightarrow> pointer \<Rightarrow> link list \<Rightarrow> cell option" where
  "known_result c q r = (if length r = 2 \<and> link_is (hd r) REF_POS
     then (case route_index r of
         None \<Rightarrow> None
       | Some p \<Rightarrow> (case result_at c p of
             None \<Rightarrow> None
           | Some row \<Rightarrow> if snd q < length row then Some (row ! snd q) else None))
     else None)"

definition resolve_cell :: "'db lookup_env \<Rightarrow> bool \<Rightarrow> ucell \<Rightarrow> ('b, 'db) exec_state \<Rightarrow> ('b, 'db) exec_state \<times> (failure + cell)" where
  "resolve_cell E force u st = (case u of
       UVal v \<Rightarrow> (st, Inr v)
     | URef q r \<Rightarrow> (case known_result (fst st) q r of
           Some v \<Rightarrow> (st, Inr v)
         | None \<Rightarrow> (case resolve_ref E force q r st of
               (st1, Inl e) \<Rightarrow> (st1, Inl (Crash e))
             | (st1, Inr (Many vs)) \<Rightarrow> (st1, Inl (Crash List_value))
             | (st1, Inr (One v)) \<Rightarrow> (st1, if v = CNone then Inl Unresolvable else Inr v))))"

text \<open>\<open>_resolve_ref_from_tuple\<close>\<close>

fun resolve_cells :: "'db lookup_env \<Rightarrow> bool \<Rightarrow> ucell list \<Rightarrow> ('b, 'db) exec_state \<Rightarrow> ('b, 'db) exec_state \<times> (failure + row)" where
  "resolve_cells E force [] st = (st, Inr [])"
| "resolve_cells E force (u # us) st = (case resolve_cell E force u st of
       (st1, Inl f) \<Rightarrow> (st1, Inl f)
     | (st1, Inr v) \<Rightarrow> (case resolve_cells E force us st1 of
           (st2, Inl f) \<Rightarrow> (st2, Inl f)
         | (st2, Inr vs) \<Rightarrow> (st2, Inr (v # vs))))"

subsection \<open>Views whose columns follow a schema\<close>

text \<open>\<open>get_available_data\<close>: the operations a route of the same file names, with their results and positions.\<close>

definition route_targets :: "changeset \<Rightarrow> link list \<Rightarrow> nat \<Rightarrow> nat list option" where
  "route_targets c r tid = (case r of
       [] \<Rightarrow> None
     | l # _ \<Rightarrow>
         if link_is l REF_POS then map_option (\<lambda>p. [p]) (route_index r)
         else if link_is l REF_MULTI then get_multi_from_route c r
         else Some (case get_pos_from_route c r tid of None \<Rightarrow> [] | Some p \<Rightarrow> [p]))"

definition get_available_data :: "changeset \<Rightarrow> link list \<Rightarrow> nat \<Rightarrow> (op_body \<times> row option \<times> nat) list option" where
  "get_available_data c r tid = map_option
     (\<lambda>ps. map (\<lambda>p. (snd (cs_ops c ! p), result_at c p, p))
        (filter (\<lambda>p. p < length (cs_ops c) \<and> first_table_id (fst (cs_ops c ! p)) = Some tid) ps))
     (route_targets c r tid)"

text \<open>A column of the stored operation: \<open>None\<close> when it has no such column.\<close>

definition data_cell :: "op_body \<Rightarrow> nat \<Rightarrow> (cs_error + ucell) option" where
  "data_cell b i = (case b of
       Op_done r \<Rightarrow> if i < length r then Some (Inr (UVal (r ! i))) else None
     | Op_view_done r \<Rightarrow> if i < length r then Some (Inr (UVal (r ! i))) else None
     | Op_set ds \<Rightarrow> if i < length ds then Some (Inr (ds ! i)) else None
     | Op_update ds \<Rightarrow> if i < length ds then Some (Inr (ds ! i)) else None
     | Op_view_set ds \<Rightarrow> if i < length ds then Some (Inr (ds ! i)) else None
     | Op_ref_view ds s \<Rightarrow> if i < length ds then Some (Inr (ds ! i)) else if i = length ds then Some (Inl Schema_value) else None)"

text \<open>\<open>_resolve_col_val\<close>: the result's column, else the operation's own, its reference resolved.\<close>

definition resolve_col_val :: "'db lookup_env \<Rightarrow> bool \<Rightarrow> op_body \<Rightarrow> row option \<Rightarrow> nat \<Rightarrow> ('b, 'db) exec_state
    \<Rightarrow> ('b, 'db) exec_state \<times> (cs_error + cell)" where
  "resolve_col_val E force b res i st =
     (let v = (case res of Some r \<Rightarrow> if i < length r then r ! i else CNone | None \<Rightarrow> CNone)
      in if v \<noteq> CNone then (st, Inr v)
         else (case data_cell b i of
             None \<Rightarrow> (st, Inr CNone)
           | Some (Inl e) \<Rightarrow> (st, Inl e)
           | Some (Inr (UVal w)) \<Rightarrow> (st, Inr w)
           | Some (Inr (URef q r)) \<Rightarrow> (case resolve_ref E force q r st of
                 (st1, Inl e) \<Rightarrow> (st1, Inl e)
               | (st1, Inr (One w)) \<Rightarrow> (st1, Inr w)
               | (st1, Inr (Many ws)) \<Rightarrow> (st1, Inl List_value))))"

definition rule_matches :: "cell \<Rightarrow> expected \<Rightarrow> bool" where
  "rule_matches v ex \<longleftrightarrow> (case ex of Is_value w \<Rightarrow> v = w | One_of ws \<Rightarrow> v \<in> set ws)"

text \<open>The first rule whose column has an expected value; \<open>Inr None\<close> is the default.\<close>

fun choose_rule :: "'db lookup_env \<Rightarrow> bool \<Rightarrow> op_body \<Rightarrow> row option \<Rightarrow> nat \<Rightarrow> (pointer \<times> expected) list \<Rightarrow> ('b, 'db) exec_state
    \<Rightarrow> ('b, 'db) exec_state \<times> (cs_error + nat option)" where
  "choose_rule E force b res n [] st = (st, Inr None)"
| "choose_rule E force b res n ((q, ex) # rules) st = (case resolve_col_val E force b res (snd q) st of
       (st1, Inl e) \<Rightarrow> (st1, Inl e)
     | (st1, Inr v) \<Rightarrow>
         if v \<noteq> CNone \<and> rule_matches v ex then (st1, Inr (Some n)) else choose_rule E force b res (Suc n) rules st1)"

text \<open>The items of a rule: a column that has no value yet becomes a reference to the position of its operation.\<close>

fun rule_items :: "'db lookup_env \<Rightarrow> bool \<Rightarrow> op_body \<Rightarrow> row option \<Rightarrow> nat \<Rightarrow> item list \<Rightarrow> int \<Rightarrow> ('b, 'db) exec_state
    \<Rightarrow> ('b, 'db) exec_state \<times> (cs_error + ucell list \<times> int)" where
  "rule_items E force b res p [] rank st = (st, Inr ([], rank))"
| "rule_items E force b res p (it # its) rank st =
     (let cont = (\<lambda>u rank st1. case rule_items E force b res p its rank st1 of
          (st2, Inl e) \<Rightarrow> (st2, Inl e)
        | (st2, Inr (us, rank')) \<Rightarrow> (st2, Inr (u # us, rank')))
      in case it of
           Item_rank \<Rightarrow> cont (UVal (CInt rank)) (rank + 1) st
         | Item_value u \<Rightarrow> cont u rank st
         | Item_column q \<Rightarrow> (case resolve_col_val E force b res (snd q) st of
               (st1, Inl e) \<Rightarrow> (st1, Inl e)
             | (st1, Inr v) \<Rightarrow> cont (if v = CNone then URef q [REF_POS, LInt (int p)] else UVal v) rank st1))"

fun add_joins :: "join list \<Rightarrow> join_triple list \<Rightarrow> cs_error + join list" where
  "add_joins js [] = Inr js"
| "add_joins js (t # ts) = (case add_join js t of
       None \<Rightarrow> Inl (if js = [] then cs_error.Index_error else Shutdown)
     | Some js1 \<Rightarrow> add_joins js1 ts)"

text \<open>One stored operation after the other adds its columns and joins.\<close>

fun unpack_data :: "'db lookup_env \<Rightarrow> bool \<Rightarrow> schema \<Rightarrow> (op_body \<times> row option \<times> nat) list \<Rightarrow> int \<Rightarrow> join list \<Rightarrow> ('b, 'db) exec_state
    \<Rightarrow> ('b, 'db) exec_state \<times> (cs_error + ucell list \<times> join list \<times> int)" where
  "unpack_data E force sch [] rank js st = (st, Inr ([], js, rank))"
| "unpack_data E force sch ((b, res, p) # ds) rank js st =
     (case choose_rule E force b res 0 (schema_ifs sch) st of
        (st1, Inl e) \<Rightarrow> (st1, Inl e)
      | (st1, Inr ch) \<Rightarrow>
          (let n = (case ch of Some i \<Rightarrow> i | None \<Rightarrow> length (schema_thens sch) - 1)
           in if n \<ge> length (schema_thens sch) then (st1, Inl cs_error.Index_error)
              else (case rule_items E force b res p (snd (schema_thens sch ! n)) rank st1 of
                  (st2, Inl e) \<Rightarrow> (st2, Inl e)
                | (st2, Inr (us, rank1)) \<Rightarrow> (case add_joins js (fst (schema_thens sch ! n)) of
                      Inl e \<Rightarrow> (st2, Inl e)
                    | Inr js1 \<Rightarrow> (case unpack_data E force sch ds rank1 js1 st2 of
                          (st3, Inl e) \<Rightarrow> (st3, Inl e)
                        | (st3, Inr (vs, js2, rank2)) \<Rightarrow> (st3, Inr (us @ vs, js2, rank2)))))))"

text \<open>The trailing items; a column among them has no operation to come from.\<close>

fun trailing_items :: "item list \<Rightarrow> int \<Rightarrow> cs_error + ucell list \<times> int" where
  "trailing_items [] rank = Inr ([], rank)"
| "trailing_items (Item_rank # its) rank = map_sum id (\<lambda>(us, r). (UVal (CInt rank) # us, r)) (trailing_items its (rank + 1))"
| "trailing_items (Item_value u # its) rank = map_sum id (\<lambda>(us, r). (u # us, r)) (trailing_items its rank)"
| "trailing_items (Item_column q # its) rank = Inl Schema_value"

fun unpack_trailing :: "(join_triple list \<times> item list) list \<Rightarrow> int \<Rightarrow> join list \<Rightarrow> cs_error + ucell list \<times> join list" where
  "unpack_trailing [] rank js = Inr ([], js)"
| "unpack_trailing ((ts, its) # rest) rank js = (case trailing_items its rank of
       Inl e \<Rightarrow> Inl e
     | Inr (us, rank1) \<Rightarrow> (case add_joins js ts of
           Inl e \<Rightarrow> Inl e
         | Inr js1 \<Rightarrow> map_sum id (\<lambda>(vs, js2). (us @ vs, js2)) (unpack_trailing rest rank1 js1)))"

text \<open>\<open>_unpack_ref_view\<close>: the concrete view of an operation with a schema.\<close>

definition unpack_ref_view :: "'db lookup_env \<Rightarrow> bool \<Rightarrow> joins \<Rightarrow> ucell list \<Rightarrow> schema \<Rightarrow> ('b, 'db) exec_state
    \<Rightarrow> ('b, 'db) exec_state \<times> (cs_error + operation)" where
  "unpack_ref_view E force jo ds sch st = (case jo of
       JTable _ \<Rightarrow> (st, Inl Type_error)
     | JGraph js \<Rightarrow>
         (case (case schema_route sch of
              [] \<Rightarrow> Inr []
            | l # _ \<Rightarrow> (case schema_ifs sch of
                  [] \<Rightarrow> Inl cs_error.Index_error
                | rule # _ \<Rightarrow>
                    if link_is l REF_FILE then Inl Legacy_ref
                    else (case get_available_data (fst st) (schema_route sch) (fst (fst rule)) of
                        None \<Rightarrow> Inl cs_error.Index_error
                      | Some xs \<Rightarrow> Inr xs))) of
            Inl e \<Rightarrow> (st, Inl e)
          | Inr xs \<Rightarrow> (case unpack_data E force sch xs (schema_rank sch) js st of
                (st1, Inl e) \<Rightarrow> (st1, Inl e)
              | (st1, Inr (us, js1, rank)) \<Rightarrow> (st1,
                  map_sum id (\<lambda>(vs, js2). (JGraph js2, Op_view_set (ds @ us @ vs))) (unpack_trailing (schema_trailing sch) rank js1)))))"

subsection \<open>Execution\<close>

definition set_result :: "nat \<Rightarrow> row \<Rightarrow> changeset \<Rightarrow> changeset" where
  "set_result i r c = c\<lparr>cs_result := (cs_result c)[i := Some r]\<rparr>"

text \<open>An engine call of an operation, its row recorded.\<close>

definition run_engine :: "nat \<Rightarrow> ('db te \<Rightarrow> 'db te \<times> (te_error + row)) \<Rightarrow> ('b, 'db) exec_state \<Rightarrow> ('b, 'db) exec_state \<times> (failure + unit)" where
  "run_engine i f st = (case st of (c, (g, te)) \<Rightarrow> (case f te of
       (te1, Inl e) \<Rightarrow> ((c, (g, te1)), Inl (Crash Engine_error))
     | (te1, Inr r) \<Rightarrow> ((set_result i r c, (g, te1)), Inr ())))"

definition submit :: "'db lookup_env \<Rightarrow> nat \<Rightarrow> joins \<Rightarrow> op_body \<Rightarrow> row \<Rightarrow> ('b, 'db) exec_state \<Rightarrow> ('b, 'db) exec_state \<times> (failure + unit)" where
  "submit E i jo b row st = (case (b, jo) of
       (Op_set _, JTable tid) \<Rightarrow> run_engine i (\<lambda>te. te_set (env_driver E) te tid row) st
     | (Op_update _, JTable tid) \<Rightarrow> run_engine i (\<lambda>te. te_update te tid row) st
     | (Op_view_set _, _) \<Rightarrow> run_engine i (\<lambda>te. view_set (env_driver E) (env_digest E) te jo row) st
     | _ \<Rightarrow> (st, Inl (Crash Engine_error)))"

definition op_cells :: "op_body \<Rightarrow> ucell list" where
  "op_cells b = (case b of Op_set ds \<Rightarrow> ds | Op_update ds \<Rightarrow> ds | Op_view_set ds \<Rightarrow> ds
     | Op_done r \<Rightarrow> map UVal r | Op_view_done r \<Rightarrow> map UVal r | Op_ref_view ds s \<Rightarrow> ds)"

definition exec_concrete :: "'db lookup_env \<Rightarrow> bool \<Rightarrow> nat \<Rightarrow> operation \<Rightarrow> ('b, 'db) exec_state \<Rightarrow> ('b, 'db) exec_state \<times> (failure + unit)" where
  "exec_concrete E force i oper st = (case oper of (jo, b) \<Rightarrow> (case b of
       Op_done r \<Rightarrow> ((set_result i r (fst st), snd st), Inr ())
     | Op_view_done r \<Rightarrow> ((set_result i r (fst st), snd st), Inr ())
     | _ \<Rightarrow> (case resolve_cells E force (op_cells b) st of
           (st1, Inl f) \<Rightarrow> (st1, Inl f)
         | (st1, Inr row) \<Rightarrow> submit E i jo b row st1)))"

definition exec_op :: "'db lookup_env \<Rightarrow> bool \<Rightarrow> nat \<Rightarrow> ('b, 'db) exec_state \<Rightarrow> ('b, 'db) exec_state \<times> (failure + unit)" where
  "exec_op E force i st =
     (if i \<ge> length (cs_ops (fst st)) then (st, Inl (Crash cs_error.Index_error))
      else (case cs_ops (fst st) ! i of
          (jo, Op_ref_view ds sch) \<Rightarrow> (case unpack_ref_view E force jo ds sch st of
              (st1, Inl e) \<Rightarrow> (st1, Inl (Crash e))
            | (st1, Inr oper) \<Rightarrow> exec_concrete E force i oper st1)
        | oper \<Rightarrow> exec_concrete E force i oper st))"

text \<open>The pending operations in order; the positions that were executed.\<close>

fun exec_ops :: "'db lookup_env \<Rightarrow> bool \<Rightarrow> nat list \<Rightarrow> ('b, 'db) exec_state \<Rightarrow> ('b, 'db) exec_state \<times> (cs_error + nat list)" where
  "exec_ops E force [] st = (st, Inr [])"
| "exec_ops E force (i # is) st = (case exec_op E force i st of
       (st1, Inl (Crash e)) \<Rightarrow> (st1, Inl e)
     | (st1, Inl Unresolvable) \<Rightarrow> exec_ops E force is st1
     | (st1, Inr ()) \<Rightarrow> map_prod id (map_sum id (\<lambda>js. i # js)) (exec_ops E force is st1))"

text \<open>Results and pending positions for the operations stored since the last call.\<close>

definition extend_results :: "changeset \<Rightarrow> changeset" where
  "extend_results c0 =
     (let n = length (cs_ops c0); m = length (cs_result c0);
          c = (if cs_result c0 = [] then c0\<lparr>cs_result := replicate n None, unresolved_indices := Some [0..<n]\<rparr>
               else if m < n then c0\<lparr>cs_result := cs_result c0 @ replicate (n - m) None,
                 unresolved_indices := Some (case unresolved_indices c0 of
                     None \<Rightarrow> [m..<n] | Some u \<Rightarrow> foldl append_new u [m..<n])\<rparr>
               else c0)
      in case unresolved_indices c of
           None \<Rightarrow> c\<lparr>unresolved_indices := Some (filter (\<lambda>i. cs_result c ! i = None) [0..<length (cs_result c)])\<rparr>
         | Some _ \<Rightarrow> c)"

definition pending_ops :: "changeset \<Rightarrow> nat list" where
  "pending_ops c = (case unresolved_indices c of Some u \<Rightarrow> u | None \<Rightarrow> [])"

text \<open>One pass over the pending operations and its bookkeeping.\<close>

definition run_pending :: "'db lookup_env \<Rightarrow> bool \<Rightarrow> ('b, 'db) exec_state \<Rightarrow> ('b, 'db) exec_state \<times> (cs_error + bool)" where
  "run_pending E force st =
     (let pending = pending_ops (fst st);
          order = (if length pending = length (cs_ops (fst st)) then [0..<length (cs_ops (fst st))] else sort pending)
      in case exec_ops E force order st of
           ((c2, s1), Inl e) \<Rightarrow> ((c2\<lparr>executing := False\<rparr>, s1), Inl e)
         | ((c2, s1), Inr dn) \<Rightarrow>
             (let left = filter (\<lambda>i. i \<notin> set dn) pending;
                  c3 = c2\<lparr>unresolved_indices := Some left, executing := False\<rparr>
              in if left = [] then ((c3\<lparr>cs_processed := True, blocked_on := None\<rparr>, s1), Inr True)
                 else ((c3, s1), Inr False)))"

definition cs_finished :: "changeset \<Rightarrow> bool" where
  "cs_finished c \<longleftrightarrow> cs_processed c \<and> length (cs_result c) = length (cs_ops c) \<and> unresolved_indices c \<in> {None, Some []}"

definition execute :: "'db lookup_env \<Rightarrow> bool \<Rightarrow> ('b, 'db) exec_state \<Rightarrow> ('b, 'db) exec_state \<times> (cs_error + bool)" where
  "execute E force st = (case st of (c, s) \<Rightarrow>
     if cs_finished c \<or> executing c then (st, Inr True)
     else run_pending E force ((extend_results (c\<lparr>executing := True\<rparr>))\<lparr>blocked_on := None\<rparr>, s))"

subsection \<open>What an operation changes of its change set\<close>

text \<open>Resolving only ever notes the file it waits for.\<close>

definition only_blocks :: "changeset \<Rightarrow> changeset \<Rightarrow> bool" where
  "only_blocks c c' \<longleftrightarrow> (\<exists>b. c' = c\<lparr>blocked_on := b\<rparr>)"

lemma only_blocks_refl [simp]: "only_blocks c c"
  unfolding only_blocks_def by (rule exI[of _ "blocked_on c"]) simp

lemma only_blocks_trans: "only_blocks a b \<Longrightarrow> only_blocks b c \<Longrightarrow> only_blocks a c"
  by (auto simp: only_blocks_def)

lemma only_blocks_set [simp]: "only_blocks c (c\<lparr>blocked_on := b\<rparr>)"
  by (auto simp: only_blocks_def)

lemma resolve_ref_blocks: "resolve_ref E force q r st = (st', x) \<Longrightarrow> only_blocks (fst st) (fst st')"
  by (cases st) (auto simp: resolve_ref_def split: list.splits link.splits if_splits prod.splits sum.splits option.splits)

text \<open>
  A relation between states that every resolution keeps holds over everything an operation resolves before it reaches the
  engine.
\<close>

locale exec_steps =
  fixes R :: "('b, 'db) exec_state \<Rightarrow> ('b, 'db) exec_state \<Rightarrow> bool"
  assumes refl_R: "R st st"
    and trans_R: "R a b \<Longrightarrow> R b c \<Longrightarrow> R a c"
    and resolve_ref_R: "resolve_ref E force q r st = (st', x) \<Longrightarrow> R st st'"
begin

lemma resolve_cell_R: "resolve_cell E force u st = (st', x) \<Longrightarrow> R st st'"
  by (auto simp: resolve_cell_def refl_R dest: resolve_ref_R
      split: ucell.splits option.splits prod.splits sum.splits resolved.splits if_splits)

lemma resolve_cells_R: "resolve_cells E force us st = (st', x) \<Longrightarrow> R st st'"
proof (induction us arbitrary: st st' x)
  case (Cons u us)
  obtain st1 y where u: "resolve_cell E force u st = (st1, y)" by (metis prod.exhaust)
  obtain st2 z where us: "resolve_cells E force us st1 = (st2, z)" by (metis prod.exhaust)
  have "R st st1" "R st1 st2"
    using resolve_cell_R[OF u] Cons.IH[OF us] by blast+
  then show ?case using Cons.prems u us trans_R by (cases y; cases z) auto
qed (simp add: refl_R)

lemma resolve_col_val_R: "resolve_col_val E force b res i st = (st', x) \<Longrightarrow> R st st'"
  by (auto simp: resolve_col_val_def Let_def refl_R dest: resolve_ref_R
      split: ucell.splits option.splits prod.splits sum.splits resolved.splits if_splits)

lemma choose_rule_R: "choose_rule E force b res n rules st = (st', x) \<Longrightarrow> R st st'"
proof (induction rules arbitrary: n st st' x)
  case (Cons rule rules)
  obtain q ex where rule: "rule = (q, ex)" by (cases rule)
  obtain st1 y where v: "resolve_col_val E force b res (snd q) st = (st1, y)" by (metis prod.exhaust)
  note b1 = resolve_col_val_R[OF v]
  show ?case
  proof (cases "\<exists>w. y = Inr w \<and> \<not> (w \<noteq> CNone \<and> rule_matches w ex)")
    case True
    then have "choose_rule E force b res (Suc n) rules st1 = (st', x)" using Cons.prems rule v by auto
    then show ?thesis using trans_R[OF b1] Cons.IH by blast
  next
    case False
    then show ?thesis using Cons.prems rule v b1 by (cases y) auto
  qed
qed (simp add: refl_R)

lemma rule_items_R: "rule_items E force b res p its rank st = (st', x) \<Longrightarrow> R st st'"
proof (induction its arbitrary: rank st st' x)
  case (Cons it its)
  have rest: "R st1 st'"
    if c: "(case rule_items E force b res p its r1 st1 of (st2, Inl e) \<Rightarrow> (st2, Inl e) | (st2, Inr (us, rank')) \<Rightarrow> (st2, Inr (u # us, rank'))) = (st', x)"
    for u r1 st1
  proof -
    obtain st2 y where y: "rule_items E force b res p its r1 st1 = (st2, y)" by (metis prod.exhaust)
    then have "st' = st2" using c by (cases y) auto
    then show ?thesis using Cons.IH[OF y] by simp
  qed
  show ?case
  proof (cases it)
    case (Item_column q)
    obtain st1 y where v: "resolve_col_val E force b res (snd q) st = (st1, y)" by (metis prod.exhaust)
    note b1 = resolve_col_val_R[OF v]
    show ?thesis
    proof (cases y)
      case (Inl e)
      then show ?thesis using Cons.prems Item_column v b1 by (simp add: Let_def)
    next
      case (Inr w)
      then show ?thesis using Cons.prems Item_column v rest trans_R[OF b1] by (simp add: Let_def)
    qed
  next
    case Item_rank
    then show ?thesis using Cons.prems rest by (simp add: Let_def)
  next
    case (Item_value u)
    then show ?thesis using Cons.prems rest by (simp add: Let_def)
  qed
qed (simp add: refl_R)

lemma unpack_data_R: "unpack_data E force sch ds rank js st = (st', x) \<Longrightarrow> R st st'"
proof (induction ds arbitrary: rank js st st' x)
  case (Cons d ds)
  obtain b res p where d: "d = (b, res, p)" by (cases d)
  obtain st1 ch where r: "choose_rule E force b res 0 (schema_ifs sch) st = (st1, ch)" by (metis prod.exhaust)
  note b1 = choose_rule_R[OF r]
  show ?case
  proof (cases ch)
    case (Inl e)
    then show ?thesis using Cons.prems d r b1 by simp
  next
    case (Inr ch0)
    let ?n = "case ch0 of Some i \<Rightarrow> i | None \<Rightarrow> length (schema_thens sch) - 1"
    show ?thesis
    proof (cases "?n \<ge> length (schema_thens sch)")
      case True
      then show ?thesis using Cons.prems d r b1 Inr by (simp add: Let_def)
    next
      case False
      obtain st2 y where i: "rule_items E force b res p (snd (schema_thens sch ! ?n)) rank st1 = (st2, y)" by (metis prod.exhaust)
      note b2 = trans_R[OF b1 rule_items_R[OF i]]
      have step: "unpack_data E force sch (d # ds) rank js st = (case (st2, y) of
                  (st2, Inl e) \<Rightarrow> (st2, Inl e)
                | (st2, Inr (us, rank1)) \<Rightarrow> (case add_joins js (fst (schema_thens sch ! ?n)) of
                      Inl e \<Rightarrow> (st2, Inl e)
                    | Inr js1 \<Rightarrow> (case unpack_data E force sch ds rank1 js1 st2 of
                          (st3, Inl e) \<Rightarrow> (st3, Inl e)
                        | (st3, Inr (vs, js2, rank2)) \<Rightarrow> (st3, Inr (us @ vs, js2, rank2)))))"
        using False by (simp add: d r Inr Let_def flip: i)
      show ?thesis
      proof (cases "\<exists>us rank1 js1. y = Inr (us, rank1) \<and> add_joins js (fst (schema_thens sch ! ?n)) = Inr js1")
        case True
        then obtain us rank1 js1 where y: "y = Inr (us, rank1)" "add_joins js (fst (schema_thens sch ! ?n)) = Inr js1" by blast
        obtain st3 z where z: "unpack_data E force sch ds rank1 js1 st2 = (st3, z)" by (metis prod.exhaust)
        have "st' = st3" using Cons.prems unfolding step using y z by (cases z) auto
        then show ?thesis using trans_R[OF b2 Cons.IH[OF z]] by simp
      next
        case False
        then have "st' = st2" using Cons.prems unfolding step by (auto split: sum.splits)
        then show ?thesis using b2 by simp
      qed
    qed
  qed
qed (simp add: refl_R)

lemma unpack_ref_view_R: "unpack_ref_view E force jo ds sch st = (st', x) \<Longrightarrow> R st st'"
  by (auto simp: unpack_ref_view_def refl_R dest: unpack_data_R split: joins.splits sum.splits prod.splits)

end

interpretation blocks: exec_steps "\<lambda>st st'. only_blocks (fst st) (fst st')"
  by unfold_locales (auto intro: only_blocks_trans resolve_ref_blocks)

end
