(* ===== verification/ChangeSet_Progress.thy ===== *)
theory ChangeSet_Progress
  imports ChangeSet_Execute
begin

section \<open>Progress of the execution of a change set\<close>

text \<open>
  What \<open>execute\<close> keeps: an operation with a result is never run again, the pending positions are those without a
  result, and references to earlier operations never defer.
\<close>

subsection \<open>One operation\<close>

lemma submit_effect:
  "submit E i jo b row (c, s) = (st', Inr x) \<Longrightarrow> \<exists>r. fst st' = set_result i r c"
  "submit E i jo b row (c, s) = (st', Inl f) \<Longrightarrow> fst st' = c \<and> f \<noteq> Unresolvable"
  by (auto simp: submit_def run_engine_def split: op_body.splits joins.splits prod.splits sum.splits)

lemma exec_concrete_effect:
  assumes "exec_concrete E force i oper st = (st', x)"
  shows "case x of Inl f \<Rightarrow> only_blocks (fst st) (fst st') | Inr _ \<Rightarrow> \<exists>r c. only_blocks (fst st) c \<and> fst st' = set_result i r c"
proof -
  obtain jo b where o: "oper = (jo, b)" by (cases oper)
  show ?thesis
  proof (cases "\<exists>r. b = Op_done r \<or> b = Op_view_done r")
    case True
    then obtain r where "b = Op_done r \<or> b = Op_view_done r" by blast
    then have "x = Inr () \<and> fst st' = set_result i r (fst st)" using assms o by (auto simp: exec_concrete_def)
    then show ?thesis using only_blocks_refl[of "fst st"] by (auto simp del: only_blocks_refl)
  next
    case False
    obtain st1 y where y: "resolve_cells E force (op_cells b) st = (st1, y)" by (metis prod.exhaust)
    note b1 = blocks.resolve_cells_R[OF y]
    have e: "exec_concrete E force i oper st = (case y of Inl f \<Rightarrow> (st1, Inl f) | Inr row \<Rightarrow> submit E i jo b row st1)"
      using False y o by (cases b) (simp_all add: exec_concrete_def cong: sum.case_cong)
    show ?thesis
    proof (cases y)
      case (Inl f)
      then show ?thesis using assms e b1 by auto
    next
      case (Inr row)
      then have "submit E i jo b row (fst st1, snd st1) = (st', x)" using assms e by simp
      then show ?thesis using submit_effect[of E i jo b row "fst st1" "snd st1"] b1 by (cases x) auto
    qed
  qed
qed

lemma exec_op_effect:
  assumes "exec_op E force i st = (st', x)"
  shows "case x of Inl f \<Rightarrow> only_blocks (fst st) (fst st') | Inr _ \<Rightarrow> \<exists>r c. only_blocks (fst st) c \<and> fst st' = set_result i r c"
proof (cases "i \<ge> length (cs_ops (fst st))")
  case True
  then show ?thesis using assms by (auto simp: exec_op_def)
next
  case False
  obtain jo b where o: "cs_ops (fst st) ! i = (jo, b)" by (metis prod.exhaust)
  show ?thesis
  proof (cases "\<exists>ds sch. b = Op_ref_view ds sch")
    case True
    then obtain ds sch where b: "b = Op_ref_view ds sch" by blast
    obtain st1 y where u: "unpack_ref_view E force jo ds sch st = (st1, y)" by (metis prod.exhaust)
    note b1 = blocks.unpack_ref_view_R[OF u]
    show ?thesis
    proof (cases y)
      case (Inl e)
      then show ?thesis using assms False o b u b1 by (auto simp: exec_op_def)
    next
      case (Inr oper)
      then have "exec_concrete E force i oper st1 = (st', x)" using assms False o b u by (simp add: exec_op_def)
      from exec_concrete_effect[OF this] show ?thesis using only_blocks_trans[OF b1] by (cases x) auto
    qed
  next
    case nv: False
    then have "exec_concrete E force i (jo, b) st = (st', x)" using assms False o by (cases b) (auto simp: exec_op_def)
    from exec_concrete_effect[OF this] show ?thesis .
  qed
qed

text \<open>Everything but the results and the file waited for stays.\<close>

definition only_runs :: "changeset \<Rightarrow> changeset \<Rightarrow> bool" where
  "only_runs c c' \<longleftrightarrow> (\<exists>b rs. c' = c\<lparr>blocked_on := b, cs_result := rs\<rparr> \<and> length rs = length (cs_result c))"

lemma only_runs_refl: "only_runs c c"
  unfolding only_runs_def by (rule exI[of _ "blocked_on c"], rule exI[of _ "cs_result c"]) simp

lemma only_runsI: "c' = c\<lparr>blocked_on := b, cs_result := rs\<rparr> \<Longrightarrow> length rs = length (cs_result c) \<Longrightarrow> only_runs c c'"
  unfolding only_runs_def by blast

lemma only_runs_trans:
  assumes "only_runs a b" "only_runs b c"
  shows "only_runs a c"
proof -
  obtain x rs y rt where "b = a\<lparr>blocked_on := x, cs_result := rs\<rparr>" "length rs = length (cs_result a)"
    "c = b\<lparr>blocked_on := y, cs_result := rt\<rparr>" "length rt = length (cs_result b)"
    using assms unfolding only_runs_def by blast
  then show ?thesis by (intro only_runsI[where b = y and rs = rt]) simp_all
qed

lemma only_runs_fields:
  assumes "only_runs c c'"
  shows "cs_ops c' = cs_ops c" "length (cs_result c') = length (cs_result c)" "executing c' = executing c"
    "cs_processed c' = cs_processed c" "unresolved_indices c' = unresolved_indices c"
  using assms by (auto simp: only_runs_def)

lemma only_blocks_runs: "only_blocks c c' \<Longrightarrow> only_runs c c' \<and> cs_result c' = cs_result c"
proof -
  assume "only_blocks c c'"
  then obtain b where b: "c' = c\<lparr>blocked_on := b\<rparr>" by (auto simp: only_blocks_def)
  have "c' = c\<lparr>blocked_on := b, cs_result := cs_result c\<rparr>" by (simp add: b)
  then show ?thesis using b unfolding only_runs_def by fastforce
qed

lemma set_result_runs: "only_runs c (set_result i r c)"
proof -
  have "set_result i r c = c\<lparr>blocked_on := blocked_on c, cs_result := (cs_result c)[i := Some r]\<rparr>" by (simp add: set_result_def)
  then show ?thesis unfolding only_runs_def by fastforce
qed

lemma exec_op_runs:
  assumes "exec_op E force i st = (st', x)"
  shows "only_runs (fst st) (fst st') \<and> (\<forall>j. j \<noteq> i \<longrightarrow> result_at (fst st') j = result_at (fst st) j)
    \<and> (i < length (cs_result (fst st)) \<longrightarrow>
        (case x of Inl _ \<Rightarrow> result_at (fst st') i = result_at (fst st) i | Inr _ \<Rightarrow> result_at (fst st') i \<noteq> None))"
proof (cases x)
  case (Inl f)
  then have "only_blocks (fst st) (fst st')" using exec_op_effect[OF assms] by simp
  from only_blocks_runs[OF this] show ?thesis using Inl by (simp add: result_at_def)
next
  case (Inr u)
  then obtain r c where c: "only_blocks (fst st) c" "fst st' = set_result i r c" using exec_op_effect[OF assms] by auto
  note b = only_blocks_runs[OF c(1)]
  have "only_runs (fst st) (fst st')" using b set_result_runs[of c i r] c(2) only_runs_trans by auto
  then show ?thesis using Inr b c(2) by (simp add: set_result_def result_at_def)
qed

subsection \<open>One pass\<close>

text \<open>What a pass over pending positions leaves: results stay, and exactly the positions it reports gained one.\<close>

lemma exec_ops_runs:
  assumes "exec_ops E force is st = (st', x)" "distinct is" "\<forall>i\<in>set is. i < length (cs_result (fst st)) \<and> result_at (fst st) i = None"
  shows "only_runs (fst st) (fst st') \<and> (\<forall>j. j \<notin> set is \<longrightarrow> result_at (fst st') j = result_at (fst st) j)
    \<and> (\<forall>dn. x = Inr dn \<longrightarrow> set dn = {i \<in> set is. result_at (fst st') i \<noteq> None})"
  using assms
proof (induction "is" arbitrary: st st' x)
  case Nil
  then show ?case by (auto simp: only_runs_refl)
next
  case (Cons i "is")
  obtain st1 y where o: "exec_op E force i st = (st1, y)" by (metis prod.exhaust)
  note r = exec_op_runs[OF o]
  have i: "i < length (cs_result (fst st))" "i \<notin> set is" "distinct is" using Cons.prems(2,3) by auto
  have pre: "\<forall>j\<in>set is. j < length (cs_result (fst st1)) \<and> result_at (fst st1) j = None"
  proof
    fix j assume j: "j \<in> set is"
    then have "j \<noteq> i" using i(2) by blast
    then show "j < length (cs_result (fst st1)) \<and> result_at (fst st1) j = None"
      using r j Cons.prems(3) only_runs_fields(2)[of "fst st" "fst st1"] by auto
  qed
  show ?case
  proof (cases "\<exists>e. y = Inl (Crash e)")
    case True
    then show ?thesis using Cons.prems(1) o r by auto
  next
    case False
    obtain st2 z where z: "exec_ops E force is st1 = (st2, z)" by (metis prod.exhaust)
    note ih = Cons.IH[OF z i(3) pre]
    have step: "exec_ops E force (i # is) st = (st2, case y of Inl _ \<Rightarrow> z | Inr _ \<Rightarrow> map_sum id (\<lambda>js. i # js) z)"
    proof (cases y)
      case (Inl f)
      then have "f = Unresolvable" using False by (cases f) simp_all
      then show ?thesis using o z Inl by simp
    qed (use o z in \<open>simp split: unit.splits\<close>)
    have st2: "st' = st2" and x: "x = (case y of Inl _ \<Rightarrow> z | Inr _ \<Rightarrow> map_sum id (\<lambda>js. i # js) z)"
      using Cons.prems(1) unfolding step by simp_all
    have same: "result_at (fst st2) i = result_at (fst st1) i" using ih i(2) by simp
    have runs: "only_runs (fst st) (fst st2)" using r ih only_runs_trans by blast
    have others: "\<forall>j. j \<notin> set (i # is) \<longrightarrow> result_at (fst st2) j = result_at (fst st) j" using ih r by auto
    have dn: "set dn = {j \<in> set (i # is). result_at (fst st2) j \<noteq> None}" if xr: "x = Inr dn" for dn
    proof (cases y)
      case (Inl f)
      then have "set dn = {j \<in> set is. result_at (fst st2) j \<noteq> None}" using xr x ih by simp
      moreover have "result_at (fst st2) i = None" using same r i(1) Inl Cons.prems(3) by simp
      ultimately show ?thesis by auto
    next
      case (Inr u)
      then obtain js where "z = Inr js" "dn = i # js" using xr x by (cases z) auto
      moreover have "result_at (fst st2) i \<noteq> None" using same r i(1) Inr by simp
      ultimately show ?thesis using ih by auto
    qed
    show ?thesis using runs others dn st2 by simp
  qed
qed


subsection \<open>Calls of execute\<close>

text \<open>
  Between calls: results for a prefix of the operations, and the pending positions are those of the prefix without one.
\<close>

definition exec_ok :: "changeset \<Rightarrow> bool" where
  "exec_ok c \<longleftrightarrow> length (cs_result c) \<le> length (cs_ops c) \<and> \<not> executing c \<and>
     (case unresolved_indices c of
        None \<Rightarrow> cs_result c = [] \<and> \<not> cs_processed c
      | Some u \<Rightarrow> distinct u \<and> set u = {i. i < length (cs_result c) \<and> result_at c i = None})"

lemma append_new_list:
  "distinct u \<Longrightarrow> distinct (foldl append_new u xs) \<and> set (foldl append_new u xs) = set u \<union> set xs"
proof (induction xs arbitrary: u)
  case (Cons x xs)
  have "distinct (append_new u x)" "set (append_new u x) = insert x (set u)" using Cons.prems by (auto simp: append_new_def)
  then show ?case using Cons.IH[of "append_new u x"] by simp
qed simp

text \<open>After \<open>extend_results\<close> every operation has a place, and exactly the places without a result are pending.\<close>

lemma extend_results_ok:
  assumes "exec_ok c" and c': "c' = extend_results (c\<lparr>executing := True\<rparr>)"
  shows "cs_ops c' = cs_ops c" "length (cs_result c') = length (cs_ops c)" "\<forall>i. result_at c' i = result_at c i"
    "distinct (pending_ops c')" "set (pending_ops c') = {i. i < length (cs_ops c) \<and> result_at c i = None}"
proof -
  let ?n = "length (cs_ops c)" and ?m = "length (cs_result c)"
  have len: "?m \<le> ?n" using assms(1) by (simp add: exec_ok_def)
  have c'': "cs_ops c' = cs_ops c \<and> cs_result c' = cs_result c @ replicate (?n - ?m) None \<and>
    distinct (pending_ops c') \<and> set (pending_ops c') = {i. i < ?n \<and> result_at c i = None}"
  proof (cases "cs_result c = []")
    case True
    then show ?thesis unfolding c' by (auto simp: extend_results_def Let_def pending_ops_def result_at_def)
  next
    case nonempty: False
    then obtain u where u: "unresolved_indices c = Some u" "distinct u" "set u = {i. i < ?m \<and> result_at c i = None}"
      using assms(1) by (auto simp: exec_ok_def split: option.splits)
    show ?thesis
    proof (cases "?m < ?n")
      case True
      have "set u \<union> {?m..<?n} = {i. i < ?n \<and> result_at c i = None}" unfolding u(3) result_at_def using True by auto
      then show ?thesis unfolding c' using nonempty True u append_new_list[OF u(2), of "[?m..<?n]"]
        by (simp add: extend_results_def Let_def pending_ops_def)
    next
      case False
      then have "?m = ?n" using len by simp
      then show ?thesis unfolding c' using nonempty u by (simp add: extend_results_def Let_def pending_ops_def)
    qed
  qed
  then show "cs_ops c' = cs_ops c" "length (cs_result c') = ?n" "distinct (pending_ops c')"
    "set (pending_ops c') = {i. i < ?n \<and> result_at c i = None}" using len by simp_all
  show "\<forall>i. result_at c' i = result_at c i" using c'' len by (auto simp: result_at_def nth_append)
qed

text \<open>The order of a pass is the pending positions, ascending.\<close>

lemma pass_order:
  assumes "distinct u" "set u \<subseteq> {0..<n}" and o: "order = (if length u = n then [0..<n] else sort u)"
  shows "sorted order" "distinct order" "set order = set u"
proof -
  have "set u = {0..<n}" if "length u = n"
    by (rule card_subset_eq) (use assms(1,2) that distinct_card[OF assms(1)] in auto)
  then show "sorted order" "distinct order" "set order = set u" using assms(1) by (auto simp: o)
qed

lemma result_at_fields: "cs_result c' = cs_result c \<Longrightarrow> result_at c' i = result_at c i"
  by (simp add: result_at_def)

text \<open>A pass that returned.\<close>

lemma run_pending_pass:
  assumes "run_pending E f (c1, s) = ((c', s'), Inr b)" "distinct (pending_ops c1)" "set (pending_ops c1) \<subseteq> {0..<length (cs_ops c1)}"
  obtains order c2 dn where "sorted order" "distinct order" "set order = set (pending_ops c1)"
    "exec_ops E f order (c1, s) = ((c2, s'), Inr dn)" "cs_ops c' = cs_ops c2" "cs_result c' = cs_result c2" "\<not> executing c'"
    "unresolved_indices c' = Some (filter (\<lambda>i. i \<notin> set dn) (pending_ops c1))" "b \<longleftrightarrow> unresolved_indices c' = Some []" "b \<longrightarrow> cs_processed c'"
proof -
  define order where o: "order = (if length (pending_ops c1) = length (cs_ops c1) then [0..<length (cs_ops c1)] else sort (pending_ops c1))"
  obtain c2 s2 x where x: "exec_ops E f order (c1, s) = ((c2, s2), x)" by (metis prod.exhaust)
  have r: "run_pending E f (c1, s) = (case x of Inl e \<Rightarrow> ((c2\<lparr>executing := False\<rparr>, s2), Inl e)
      | Inr dn \<Rightarrow> (let left = filter (\<lambda>i. i \<notin> set dn) (pending_ops c1);
                  c3 = c2\<lparr>unresolved_indices := Some left, executing := False\<rparr>
              in if left = [] then ((c3\<lparr>cs_processed := True, blocked_on := None\<rparr>, s2), Inr True) else ((c3, s2), Inr False)))"
    unfolding run_pending_def fst_conv by (simp only: Let_def o[symmetric] x prod.case)
  then obtain dn where dn: "x = Inr dn" using assms(1) by (cases x) simp_all
  note r2 = r[unfolded assms(1) dn sum.case Let_def]
  show thesis
  proof (rule that[OF pass_order[OF assms(2,3) o]])
    show "exec_ops E f order (c1, s) = ((c2, s'), Inr dn)" using x dn r2 by (auto split: if_splits)
  qed (use r2 in \<open>auto split: if_splits\<close>)
qed

lemma started_ok:
  assumes "exec_ok c" and c1: "c1 = (extend_results (c\<lparr>executing := True\<rparr>))\<lparr>blocked_on := None\<rparr>"
  shows "cs_ops c1 = cs_ops c" "length (cs_result c1) = length (cs_ops c)" "result_at c1 i = result_at c i"
    "distinct (pending_ops c1)" "set (pending_ops c1) = {i. i < length (cs_ops c) \<and> result_at c i = None}"
proof -
  note e = extend_results_ok[OF assms(1) refl]
  have q: "pending_ops c1 = pending_ops (extend_results (c\<lparr>executing := True\<rparr>))" "cs_result c1 = cs_result (extend_results (c\<lparr>executing := True\<rparr>))"
    by (simp_all add: c1 pending_ops_def)
  show "cs_ops c1 = cs_ops c" using e(1) c1 by simp
  show "length (cs_result c1) = length (cs_ops c)" "distinct (pending_ops c1)" "set (pending_ops c1) = {i. i < length (cs_ops c) \<and> result_at c i = None}"
    unfolding q by (fact e(2), fact e(4), fact e(5))
  show "result_at c1 i = result_at c i" using e(3) result_at_fields[OF q(2)] by metis
qed

text \<open>A call that found something to do, as its pass.\<close>

lemma execute_pass:
  assumes ok: "exec_ok c" and ex: "execute E f (c, s) = ((c', s'), Inr b)" and idle: "\<not> cs_finished c"
    and c1: "c1 = (extend_results (c\<lparr>executing := True\<rparr>))\<lparr>blocked_on := None\<rparr>"
  obtains order c2 dn where "sorted order" "distinct order" "set order = {i. i < length (cs_ops c) \<and> result_at c i = None}"
    "exec_ops E f order (c1, s) = ((c2, s'), Inr dn)" "cs_ops c' = cs_ops c2" "cs_result c' = cs_result c2" "\<not> executing c'"
    "unresolved_indices c' = Some (filter (\<lambda>i. i \<notin> set dn) (pending_ops c1))" "b \<longleftrightarrow> unresolved_indices c' = Some []" "b \<longrightarrow> cs_processed c'"
proof -
  note s = started_ok[OF ok c1]
  have rp: "run_pending E f (c1, s) = ((c', s'), Inr b)" using ex idle ok by (simp add: execute_def c1 exec_ok_def)
  have sub: "set (pending_ops c1) \<subseteq> {0..<length (cs_ops c1)}" unfolding s(1,5) by auto
  show thesis by (rule run_pending_pass[OF rp s(4) sub, unfolded s(5)]) (rule that)
qed

text \<open>
  C5: The execution of a file makes progress and never goes back.  A call that returns keeps every result, adds results
  for the operations that ran, leaves as pending exactly the operations without a result, and answers true exactly when
  there is none; a later call then changes nothing, so that no operation reaches the engine twice.
\<close>

theorem execute_keeps_progress:
  assumes "exec_ok c" "execute E f (c, s) = ((c', s'), Inr b)"
  shows "exec_ok c' \<and> cs_ops c' = cs_ops c \<and> (\<forall>i r. result_at c i = Some r \<longrightarrow> result_at c' i = Some r)
    \<and> (b \<longleftrightarrow> (\<forall>i < length (cs_ops c). result_at c' i \<noteq> None)) \<and> (b \<longrightarrow> execute E g (c', t) = ((c', t), Inr True))"
proof (cases "cs_finished c")
  case True
  then have "c' = c" "b" using assms(2) by (auto simp: execute_def)
  moreover have "\<forall>i < length (cs_ops c). result_at c i \<noteq> None"
    using assms(1) True by (auto simp: exec_ok_def cs_finished_def split: option.splits)
  ultimately show ?thesis using assms(1) True by (auto simp: execute_def)
next
  case False
  define c1 where c1: "c1 = (extend_results (c\<lparr>executing := True\<rparr>))\<lparr>blocked_on := None\<rparr>"
  obtain order c2 dn where p: "sorted order" "distinct order" "set order = {i. i < length (cs_ops c) \<and> result_at c i = None}"
    "exec_ops E f order (c1, s) = ((c2, s'), Inr dn)" "cs_ops c' = cs_ops c2" "cs_result c' = cs_result c2" "\<not> executing c'"
    "unresolved_indices c' = Some (filter (\<lambda>i. i \<notin> set dn) (pending_ops c1))" "b \<longleftrightarrow> unresolved_indices c' = Some []" "b \<longrightarrow> cs_processed c'"
    using execute_pass[OF assms False c1] by blast
  note c1 = started_ok[OF assms(1) c1]
  have "\<forall>i\<in>set order. i < length (cs_result (fst (c1, s))) \<and> result_at (fst (c1, s)) i = None" using p(3) c1(2,3) by simp
  note r = exec_ops_runs[OF p(4,2) this, unfolded fst_conv]
  note f = only_runs_fields[OF r[THEN conjunct1]]
  have dn: "set dn = {i \<in> set order. result_at c2 i \<noteq> None}" using r by blast
  have res: "result_at c' i = result_at c2 i" for i using p(6) by (rule result_at_fields)
  have kept: "result_at c' i = result_at c i" if "i \<notin> set order" for i using that r res c1(3) by simp
  have kept_Some: "result_at c' i = Some x" if "result_at c i = Some x" for i x
    using that kept[of i] p(3) by simp
  have left: "set (filter (\<lambda>i. i \<notin> set dn) (pending_ops c1)) = {i. i < length (cs_ops c) \<and> result_at c' i = None}"
  proof (rule set_eqI)
    fix i
    show "i \<in> set (filter (\<lambda>i. i \<notin> set dn) (pending_ops c1)) \<longleftrightarrow> i \<in> {i. i < length (cs_ops c) \<and> result_at c' i = None}"
      using kept[of i] by (cases "i \<in> set order") (auto simp: dn res p(3) c1(5))
  qed
  have ok: "exec_ok c'" using p(5-8) f(1,2) c1(1,2,4) left by (simp add: exec_ok_def)
  have b: "b \<longleftrightarrow> (\<forall>i < length (cs_ops c). result_at c' i \<noteq> None)"
  proof -
    have "b \<longleftrightarrow> set (filter (\<lambda>i. i \<notin> set dn) (pending_ops c1)) = {}" using p(8,9) by (simp only: set_empty option.inject)
    then show ?thesis unfolding left by auto
  qed
  have "execute E g (c', t) = ((c', t), Inr True)" if "b"
    using that p(5-10) f(1,2) c1(1,2) by (simp add: execute_def cs_finished_def)
  then show ?thesis using ok b kept_Some p(5) f(1) c1(1) by auto
qed


subsection \<open>References to earlier operations\<close>

text \<open>
  An operation is settled when it has no schema and each of its columns is a value or a reference to the position of an
  earlier operation that is settled itself.
\<close>

definition is_schema_op :: "op_body \<Rightarrow> bool" where
  "is_schema_op b \<longleftrightarrow> (case b of Op_ref_view _ _ \<Rightarrow> True | _ \<Rightarrow> False)"

function settled :: "operation list \<Rightarrow> nat \<Rightarrow> bool" where
  "settled ops i \<longleftrightarrow> i < length ops \<and> \<not> is_schema_op (snd (ops ! i)) \<and>
     list_all (\<lambda>u. case u of
         UVal _ \<Rightarrow> True
       | URef q r \<Rightarrow> length r = 2 \<and> link_is (hd r) REF_POS \<and>
           (case route_index r of None \<Rightarrow> False | Some j \<Rightarrow> if j < i then settled ops j else False)) (op_cells (snd (ops ! i)))"
  by pat_completeness auto
termination by (relation "measure snd") auto

declare settled.simps [simp del]

lemma settled_cell:
  assumes "settled ops i" "URef q r \<in> set (op_cells (snd (ops ! i)))"
  shows "\<exists>j. length r = 2 \<and> link_is (hd r) REF_POS \<and> route_index r = Some j \<and> j < i \<and> settled ops j"
proof -
  have "length r = 2 \<and> link_is (hd r) REF_POS \<and> (case route_index r of None \<Rightarrow> False | Some j \<Rightarrow> if j < i then settled ops j else False)"
    using bspec[OF settled.simps[of ops i, THEN iffD1, OF assms(1), THEN conjunct2, THEN conjunct2, unfolded list_all_iff] assms(2)]
    by (simp only: ucell.case)
  then show ?thesis by (auto split: option.splits if_splits)
qed

text \<open>A reference to an operation with a result is answered or refused (when its row lacks the column), but never waits.\<close>

definition refers_to_result :: "changeset \<Rightarrow> ucell \<Rightarrow> bool" where
  "refers_to_result c u \<longleftrightarrow> (case u of
       UVal _ \<Rightarrow> True
     | URef q r \<Rightarrow> length r = 2 \<and> link_is (hd r) REF_POS \<and>
         (case route_index r of None \<Rightarrow> False | Some j \<Rightarrow> j < length (cs_ops c) \<and> result_at c j \<noteq> None))"

lemma resolve_cell_settled:
  assumes "refers_to_result (fst st) u"
  shows "fst (resolve_cell E force u st) = st \<and> snd (resolve_cell E force u st) \<noteq> Inl Unresolvable"
proof (cases u)
  case (URef q r)
  obtain c s where st: "st = (c, s)" by (cases st)
  obtain l k where r: "r = [l, k]" using assms URef by (auto simp: refers_to_result_def length_Suc_conv eval_nat_numeral)
  obtain j row where j: "route_index r = Some j" "j < length (cs_ops c)" "result_at c j = Some row" "link_is l REF_POS"
    using assms URef st r by (auto simp: refers_to_result_def split: option.splits)
  show ?thesis
  proof (cases "snd q < length row")
    case True
    then show ?thesis using URef r j st by (simp add: resolve_cell_def known_result_def)
  next
    case False
    have "resolve_local c q r = Inl cs_error.Index_error"
      using r j False by (auto simp: resolve_local_def get_value_at_def link_is_def split: link.splits)
    then have "resolve_ref E force q r st = (st, Inl cs_error.Index_error)"
      using r j(4) st by (auto simp: resolve_ref_def link_is_def split: link.splits)
    then show ?thesis using URef r j st False by (simp add: resolve_cell_def known_result_def)
  qed
qed (simp add: resolve_cell_def)

lemma resolve_cells_settled:
  "\<forall>u\<in>set us. refers_to_result (fst st) u \<Longrightarrow> snd (resolve_cells E force us st) \<noteq> Inl Unresolvable"
proof (induction us)
  case (Cons u us)
  obtain y where "resolve_cell E force u st = (st, y)" "y \<noteq> Inl Unresolvable"
    using resolve_cell_settled[of st u E force] Cons.prems by (cases "resolve_cell E force u st") auto
  moreover have "snd (resolve_cells E force us st) \<noteq> Inl Unresolvable" using Cons by simp
  ultimately show ?case by (auto split: sum.splits prod.splits)
qed simp

text \<open>An operation whose references lead to results runs, or is refused.\<close>

lemma settled_op_runs:
  assumes "i < length (cs_ops (fst st))" "\<not> is_schema_op (snd (cs_ops (fst st) ! i))"
    and "\<forall>u\<in>set (op_cells (snd (cs_ops (fst st) ! i))). refers_to_result (fst st) u"
    and "exec_op E force i st = (st', Inl x)"
  shows "x \<noteq> Unresolvable"
proof -
  obtain jo b where o: "cs_ops (fst st) ! i = (jo, b)" by (metis prod.exhaust)
  obtain st1 y where y: "resolve_cells E force (op_cells b) st = (st1, y)" by (metis prod.exhaust)
  have ny: "y \<noteq> Inl Unresolvable" using resolve_cells_settled[of "op_cells b" st E force] assms(3) o y by simp
  have e: "exec_concrete E force i (jo, b) st = (st', Inl x)"
    using assms(1,2,4) o by (cases b) (simp_all add: exec_op_def is_schema_op_def)
  show ?thesis
  proof (cases y)
    case (Inl z)
    then show ?thesis using e y ny assms(2) o by (cases b) (auto simp: exec_concrete_def is_schema_op_def)
  next
    case (Inr row)
    then have "submit E i jo b row (fst st1, snd st1) = (st', Inl x)"
      using e y assms(2) o by (cases b) (simp_all add: exec_concrete_def is_schema_op_def)
    then show ?thesis by (rule submit_effect(2)[THEN conjunct2])
  qed
qed

lemma settled_pass:
  assumes "exec_ops E f is st = (st', Inr dn)" "sorted is" "distinct is"
    and "\<forall>j\<in>set is. j < length (cs_result (fst st)) \<and> result_at (fst st) j = None"
    and "i \<in> set is" "i < length (cs_ops (fst st))" "\<not> is_schema_op (snd (cs_ops (fst st) ! i))"
    and "\<forall>u\<in>set (op_cells (snd (cs_ops (fst st) ! i))). refers_to_result (fst st') u
      \<and> (case u of UVal _ \<Rightarrow> True | URef q r \<Rightarrow> \<forall>j. route_index r = Some j \<longrightarrow> j < i)"
  shows "result_at (fst st') i \<noteq> None"
  using assms
proof (induction "is" arbitrary: st dn)
  case (Cons k "is")
  obtain st1 y where o: "exec_op E f k st = (st1, y)" by (metis prod.exhaust)
  note r = exec_op_runs[OF o]
  note fs = only_runs_fields[OF r[THEN conjunct1]]
  have k: "k \<notin> set is" "sorted is" "distinct is" "\<forall>j\<in>set is. k \<le> j" "k < length (cs_result (fst st))" using Cons.prems(2-4) by auto
  have "\<forall>e. y \<noteq> Inl (Crash e)" using Cons.prems(1) o by (cases y) auto
  moreover obtain st2 z where z: "exec_ops E f is st1 = (st2, z)" by (metis prod.exhaust)
  ultimately have "st2 = st'" "\<exists>js. z = Inr js"
    using Cons.prems(1) o by (cases y; cases "projl y"; cases z; force split: unit.splits)+
  then obtain js where js: "exec_ops E f is st1 = (st', Inr js)" using z by blast
  have pre: "\<forall>j\<in>set is. j < length (cs_result (fst st1)) \<and> result_at (fst st1) j = None"
    using r Cons.prems(4) k(1) fs(2) by auto
  note rest = exec_ops_runs[OF js k(3) pre]
  note all = exec_ops_runs[OF Cons.prems(1,3,4)]
  show ?case
  proof (cases "i = k")
    case True
    have "\<forall>u\<in>set (op_cells (snd (cs_ops (fst st) ! i))). refers_to_result (fst st) u"
    proof
      fix u assume "u \<in> set (op_cells (snd (cs_ops (fst st) ! i)))"
      then have u: "refers_to_result (fst st') u" "case u of UVal _ \<Rightarrow> True | URef q r \<Rightarrow> \<forall>j. route_index r = Some j \<longrightarrow> j < i"
        using Cons.prems(8) by blast+
      have "result_at (fst st') j = result_at (fst st) j" if "j < i" for j using all that k(4) True by force
      moreover have "cs_ops (fst st') = cs_ops (fst st)" using only_runs_fields(1)[OF all[THEN conjunct1]] .
      ultimately show "refers_to_result (fst st) u" using u by (auto simp: refers_to_result_def split: ucell.splits option.splits)
    qed
    then have "y \<noteq> Inl Unresolvable" using settled_op_runs[OF Cons.prems(6,7), of E f] o True by blast
    then obtain v where "y = Inr v" using \<open>\<forall>e. y \<noteq> Inl (Crash e)\<close> by (metis failure.exhaust sum.exhaust)
    then have "result_at (fst st1) i \<noteq> None" using r k(5) True by simp
    moreover have "result_at (fst st') i = result_at (fst st1) i" using rest k(1) True by blast
    ultimately show ?thesis by simp
  next
    case False
    then have "i \<in> set is" using Cons.prems(5) by simp
    then show ?thesis using Cons.IH[OF js k(2,3) pre] Cons.prems(6-8) fs(1) by simp
  qed
qed simp

text \<open>A file of two operations: a row of a table with generated ids, and a row that names its id.\<close>

definition two_rows :: changeset where
  "two_rows = (new_changeset (Some ''M'') (Some ''a.c'') None)\<lparr>cs_ops :=
     [(JTable 6, Op_set [UVal CNone, UVal (CStr ''f''), UVal (CInt 20)]),
      (JTable 6, Op_set [UVal CNone, UVal (CStr ''g''), URef (6, 0) [REF_POS, LInt 0]])]\<rparr>"

lemma two_rows_ok: "exec_ok two_rows"
  by (simp add: exec_ok_def two_rows_def new_changeset_def split_status_def)

lemma call_parts: "snd x = r \<Longrightarrow> x = ((fst (fst x), snd (fst x)), r)"
  by (cases x) simp

theorem execute_keeps_progress_witness:
  "execute some_lookup_env True (fst (fst (execute some_lookup_env False (two_rows, (some_gproc, some_ast_engine)))), (some_gproc, some_ast_engine))
   = ((fst (fst (execute some_lookup_env False (two_rows, (some_gproc, some_ast_engine)))), (some_gproc, some_ast_engine)), Inr True)"
proof -
  let ?x = "execute some_lookup_env False (two_rows, (some_gproc, some_ast_engine))"
  have "snd ?x = Inr True" by code_simp
  from execute_keeps_progress[OF two_rows_ok call_parts[OF this]] show ?thesis by blast
qed


text \<open>Two rows and between them one that waits for a file in flight.\<close>

definition waiting_row :: changeset where
  "waiting_row = (new_changeset (Some ''M'') (Some ''a.c'') None)\<lparr>cs_ops :=
     [(JTable 6, Op_set [UVal CNone, UVal (CStr ''f''), UVal (CInt 20)]),
      (JTable 6, Op_set [UVal CNone, UVal (CStr ''g''), URef (6, 0) [REF_FILE, LStr ''a.h'', LStr ''f'', LInt 20]]),
      (JTable 6, Op_set [UVal CNone, UVal (CStr ''h''), URef (6, 0) [REF_POS, LInt 0]])]\<rparr>"


end
