(* ===== verification/ChangeSet_Evacuate.thy ===== *)
theory ChangeSet_Evacuate
  imports ChangeSet_Progress
begin

section \<open>Evacuating an executed file (extract\_tags\_and\_evacuate\_cs, main.py)\<close>

text \<open>
  After a file has executed, its symbols are published under its path, its tag rows are extracted, and the buffers of
  its change set are emptied.  The module globals \<open>file_fnid_cache\<close> and \<open>file_fid_cache\<close> are fields of the processor's
  state.
\<close>

record 'db run_env =
  lookup :: "'db lookup_env"
  file_name_table :: nat
  bridge_file_table :: nat
  bridge_tag_table :: nat

subsection \<open>The id of a file\<close>

definition truthy :: "cell \<Rightarrow> bool" where
  "truthy v \<longleftrightarrow> (case v of CNone \<Rightarrow> False | CInt i \<Rightarrow> i \<noteq> 0 | CStr s \<Rightarrow> s \<noteq> [] | CBytes b \<Rightarrow> b \<noteq> [])"

definition table_row :: "'db run_env \<Rightarrow> nat \<Rightarrow> row \<Rightarrow> 'db te \<Rightarrow> 'db te \<times> (cs_error + row option)" where
  "table_row R tid columns te = (case get (env_driver (lookup R)) te tid columns of
       (te1, Inl _) \<Rightarrow> (te1, Inl Engine_error)
     | (te1, Inr (Some [])) \<Rightarrow> (te1, Inr None)
     | (te1, Inr r) \<Rightarrow> (te1, Inr r))"

definition get_fnid_for_path :: "'db run_env \<Rightarrow> string \<Rightarrow> ('b, 'db) lookup_state \<Rightarrow> ('b, 'db) lookup_state \<times> (cs_error + cell option)" where
  "get_fnid_for_path R p s = (case s of (g, te) \<Rightarrow>
     (case dict_get (file_fnid_cache g) p of
        Some v \<Rightarrow> (s, Inr v)
      | None \<Rightarrow>
          if dict_get (te_tables te) (file_name_table R) = None then (s, Inr None)
          else (case table_row R (file_name_table R) [CNone, CStr p] te of
              (te1, Inl e) \<Rightarrow> ((g, te1), Inl e)
            | (te1, Inr None) \<Rightarrow> ((g\<lparr>file_fnid_cache := dict_set p None (file_fnid_cache g)\<rparr>, te1), Inr None)
            | (te1, Inr (Some r)) \<Rightarrow>
                (let v = (if hd r = CNone then None else Some (hd r))
                 in ((g\<lparr>file_fnid_cache := dict_set p v (file_fnid_cache g)\<rparr>, te1), Inr v)))))"

text \<open>The row of this version, else that of the previous one.\<close>

definition bridge_row :: "'db run_env \<Rightarrow> int \<Rightarrow> int \<Rightarrow> cell \<Rightarrow> 'db te \<Rightarrow> 'db te \<times> (cs_error + row option)" where
  "bridge_row R v old n te = (case table_row R (bridge_file_table R) [CInt v, n, CNone] te of
       (te1, Inr None) \<Rightarrow> if old > 0 then table_row R (bridge_file_table R) [CInt old, n, CNone] te1 else (te1, Inr None)
     | r \<Rightarrow> r)"

definition get_fid_for_path :: "'db run_env \<Rightarrow> string \<Rightarrow> ('b, 'db) lookup_state \<Rightarrow> ('b, 'db) lookup_state \<times> (cs_error + cell option)" where
  "get_fid_for_path R p s = (case s of (g, te) \<Rightarrow>
     (case dict_get (file_fid_cache g) p of
        Some v \<Rightarrow> (s, Inr v)
      | None \<Rightarrow> (case dict_get (file_blob_ids g) p of
            Some b \<Rightarrow> ((g\<lparr>file_fid_cache := dict_set p (Some b) (file_fid_cache g)\<rparr>, te), Inr (Some b))
          | None \<Rightarrow>
              if dict_get (te_tables te) (bridge_file_table R) = None then (s, Inr None)
              else (case get_fnid_for_path R p s of
                  (s1, Inl e) \<Rightarrow> (s1, Inl e)
                | ((g1, te1), Inr None) \<Rightarrow> ((g1\<lparr>file_fid_cache := dict_set p None (file_fid_cache g1)\<rparr>, te1), Inr None)
                | ((g1, te1), Inr (Some n)) \<Rightarrow> (case bridge_row R (vid g1) (old_vid g1) n te1 of
                      (te2, Inl e) \<Rightarrow> ((g1, te2), Inl e)
                    | (te2, Inr None) \<Rightarrow> ((g1\<lparr>file_fid_cache := dict_set p None (file_fid_cache g1)\<rparr>, te2), Inr None)
                    | (te2, Inr (Some r)) \<Rightarrow>
                        if length r \<le> 2 then ((g1, te2), Inl cs_error.Index_error)
                        else (let v = (if r ! 2 = CNone then None else Some (r ! 2))
                              in ((g1\<lparr>file_fid_cache := dict_set p v (file_fid_cache g1)\<rparr>, te2), Inr v)))))))"

subsection \<open>Symbols and tags\<close>

definition int_cell :: "cell \<Rightarrow> bool" where
  "int_cell v \<longleftrightarrow> (case v of CInt _ \<Rightarrow> True | _ \<Rightarrow> False)"

text \<open>The id of a symbol: the first column of the row its operation got, else of the operation itself.\<close>

definition symbol_id :: "changeset \<Rightarrow> nat \<Rightarrow> cell option" where
  "symbol_id c p = (case result_at c p of
       Some r \<Rightarrow> if r \<noteq> [] \<and> int_cell (hd r) then Some (hd r) else None
     | None \<Rightarrow> if p < length (cs_ops c)
         then (case op_cells (snd (cs_ops c ! p)) of UVal v # _ \<Rightarrow> if int_cell v then Some v else None | _ \<Rightarrow> None)
         else None)"

definition resolved_map :: "changeset \<Rightarrow> (symkey, cell) dict" where
  "resolved_map c = foldl (\<lambda>m (k, p). case symbol_id c p of Some v \<Rightarrow> dict_set k v m | None \<Rightarrow> m) [] (symbol_dict c)"

definition set_default_name :: "(string, cell) dict \<Rightarrow> symkey \<times> cell \<Rightarrow> (string, cell) dict" where
  "set_default_name m e = (case e of ((n, _), v) \<Rightarrow> if dict_get m n = None then dict_set n v m else m)"

definition publish_symbols :: "string \<Rightarrow> (symkey, cell) dict \<Rightarrow> 'b gproc \<Rightarrow> 'b gproc" where
  "publish_symbols p m g = g\<lparr>file_symbols := dict_set p m (file_symbols g), file_names := dict_set p (names_of m) (file_names g),
     ast_staged_symbols := foldl (\<lambda>d (k, v). dict_set k v d) (ast_staged_symbols g) m,
     ast_staged_names := foldl set_default_name (ast_staged_names g) m,
     ast_negative_cache := filter (\<lambda>k. k \<notin> fst ` set m) (ast_negative_cache g)\<rparr>"

text \<open>A tag row: the tag, the file, the lines (1 when they are not known, the end like the start).\<close>

definition tag_row :: "'db run_env \<Rightarrow> changeset \<Rightarrow> cell \<Rightarrow> nat \<Rightarrow> row option" where
  "tag_row R c fid i = (case cs_ops c ! i of (jo, b) \<Rightarrow>
     (let cols = op_cells b;
          cell = (\<lambda>u. case u of UVal v \<Rightarrow> Some v | URef _ _ \<Rightarrow> None);
          from_result = (case result_at c i of
              Some r \<Rightarrow> if 2 \<le> length r \<and> int_cell (r ! 1) then Some (r ! 1) else None
            | None \<Rightarrow> None);
          tag = (case from_result of Some v \<Rightarrow> Some v | None \<Rightarrow> cell (cols ! 1));
          line = (\<lambda>u dflt. case cell u of Some v \<Rightarrow> if int_cell v then v else dflt | None \<Rightarrow> dflt);
          line_s = line (cols ! 2) (CInt 1)
      in if jo = JTable (bridge_tag_table R) \<and> 4 \<le> length cols
         then (case tag of
             Some v \<Rightarrow> if v = CNone then None else Some [v, fid, line_s, line (cols ! 3) line_s]
           | None \<Rightarrow> None)
         else None))"

definition file_tags :: "'db run_env \<Rightarrow> changeset \<Rightarrow> cell \<Rightarrow> row list" where
  "file_tags R c fid = List.map_filter (tag_row R c fid) [0..<length (cs_ops c)]"

subsection \<open>Evacuation\<close>

text \<open>\<open>clear_bloat\<close>, on the fields of the model.\<close>

definition clear_bloat :: "changeset \<Rightarrow> changeset" where
  "clear_bloat c = c\<lparr>blocked_on := None, cs_route := [REF_ROOT], route_count := [], multi_stack := [], cached_route := Some [REF_ROOT]\<rparr>"

definition clear_buffers :: "changeset \<Rightarrow> changeset" where
  "clear_buffers c = clear_bloat (c\<lparr>cs_ops := [], store_dict := [], multi_store := [], store_cleared := True, cs_result := [],
     symbol_dict := [], foreign_deps := [], unresolved_indices := map_option (\<lambda>_. []) (unresolved_indices c)\<rparr>)"

definition note_symbols :: "string \<Rightarrow> changeset \<Rightarrow> 'b gproc \<Rightarrow> changeset \<times> 'b gproc" where
  "note_symbols p c g = (if symbol_dict c = [] then (c, g)
     else (c\<lparr>resolved_symbols := resolved_map c\<rparr>, publish_symbols p (resolved_map c) g))"

definition note_tags :: "'db run_env \<Rightarrow> cell option \<Rightarrow> changeset \<Rightarrow> changeset" where
  "note_tags R fid c = (case fid of
       Some f \<Rightarrow> if pre_extracted_tags c = None then c\<lparr>pre_extracted_tags := Some (file_tags R c f)\<rparr> else c
     | None \<Rightarrow> c)"

definition note_blob :: "string \<Rightarrow> cell option \<Rightarrow> changeset \<Rightarrow> 'b gproc \<Rightarrow> changeset \<times> 'b gproc" where
  "note_blob p fid c g =
     (let blob = (if truthy (blob_id c) then blob_id c else case fid of Some f \<Rightarrow> f | None \<Rightarrow> CInt 0)
      in if truthy blob then (c\<lparr>blob_id := blob\<rparr>, g\<lparr>file_blob_ids := dict_set p blob (file_blob_ids g)\<rparr>) else (c, g))"

definition keep_tags :: "string \<Rightarrow> changeset \<Rightarrow> 'b gproc \<Rightarrow> 'b gproc" where
  "keep_tags p c g = (case pre_extracted_tags c of
       Some (t # ts) \<Rightarrow> g\<lparr>file_pre_extracted_tags := dict_set p (t # ts) (file_pre_extracted_tags g)\<rparr>
     | _ \<Rightarrow> g)"

definition extract_and_evacuate :: "'db run_env \<Rightarrow> ('b, 'db) exec_state \<Rightarrow> ('b, 'db) exec_state \<times> cs_error option" where
  "extract_and_evacuate R st = (case st of (c, s0) \<Rightarrow> (case current_path c of
       None \<Rightarrow> (st, None)
     | Some p \<Rightarrow> (case get_fid_for_path R p s0 of
           (s1, Inl e) \<Rightarrow> ((c, s1), Some e)
         | ((g0, te), Inr fid) \<Rightarrow>
             (let (c1, g1) = note_symbols p c (g0\<lparr>completed_paths := append_new (completed_paths g0) p\<rparr>);
                  (c2, g2) = note_blob p fid (note_tags R fid c1) g1
              in ((clear_buffers c2, (keep_tags p c2 g2, te)), None)))))"

subsection \<open>What evacuation publishes\<close>

lemma resolved_map_get:
  assumes "distinct (map fst (symbol_dict c))"
  shows "dict_get (resolved_map c) k = dict_get (symbol_dict c) k \<bind> symbol_id c"
proof -
  have "dict_get (foldl (\<lambda>m (k, p). case symbol_id c p of Some v \<Rightarrow> dict_set k v m | None \<Rightarrow> m) m0 d) k
      = (case dict_get d k \<bind> symbol_id c of Some v \<Rightarrow> Some v | None \<Rightarrow> dict_get m0 k)" if "distinct (map fst d)" for d m0
    using that
  proof (induction d arbitrary: m0)
    case (Cons e d)
    obtain k' p where e: "e = (k', p)" by (cases e)
    have "dict_get d k' = None" using Cons.prems e by (simp add: map_of_eq_None_iff)
    then show ?case using Cons.IH[of "case symbol_id c p of Some v \<Rightarrow> dict_set k' v m0 | None \<Rightarrow> m0"] Cons.prems e
      by (cases "symbol_id c p") (auto split: option.splits)
  qed simp
  then show ?thesis using assms by (simp add: resolved_map_def split: option.splits)
qed

lemma get_fid_keeps_symbols:
  "get_fid_for_path R p (g, te) = ((g', te'), x) \<Longrightarrow> file_symbols g' = file_symbols g \<and> completed_paths g' = completed_paths g"
  by (auto simp: get_fid_for_path_def get_fnid_for_path_def Let_def split: option.splits prod.splits sum.splits if_splits)

text \<open>
  C22: What a file's operations got is what other files find.  Once a file has been evacuated, it is no longer in flight,
  its buffers are empty, and a reference to one of its symbols resolves, first of all sources, to the id in the row that
  the symbol's own operation got from the engine.
\<close>

theorem evacuated_symbols_found:
  assumes "extract_and_evacuate R (c, (g, te)) = ((c', (g', te')), None)" "current_path c = Some p"
    and "distinct (map fst (symbol_dict c))" "dict_get (symbol_dict c) key = Some i" "symbol_id c i = Some v"
  shows "resolve_foreign E force q p key (g', te2) = ((g', te2), Inr (Some v)) \<and> \<not> in_flight p g' \<and> (cs_processed c \<longrightarrow> is_evacuated c')"
proof -
  have ne: "symbol_dict c \<noteq> []" using assms(4) by auto
  obtain g0 te0 fid where f: "get_fid_for_path R p (g, te) = ((g0, te0), Inr fid)"
    using assms(1,2) by (auto simp: extract_and_evacuate_def split: sum.splits prod.splits)
  have m: "dict_get (resolved_map c) key = Some v" using resolved_map_get[OF assms(3), of key] assms(4,5) by simp
  then have mn: "resolved_map c \<noteq> []" by auto
  let ?m = "resolved_map c" and ?g = "g0\<lparr>completed_paths := append_new (completed_paths g0) p\<rparr>"
  obtain c2 g2 where b: "note_blob p fid (note_tags R fid (c\<lparr>resolved_symbols := ?m\<rparr>)) (publish_symbols p ?m ?g) = (c2, g2)"
    by (metis prod.exhaust)
  then have c2: "cs_processed c2 = cs_processed c" and g2: "file_symbols g2 = dict_set p ?m (file_symbols g0)"
    by (auto simp: note_blob_def note_tags_def publish_symbols_def Let_def split: if_splits option.splits)
  have "c' = clear_buffers c2" "g' = keep_tags p c2 g2"
    using assms(1,2) ne f b by (simp_all add: extract_and_evacuate_def note_symbols_def)
  then have fs: "file_symbols g' = dict_set p ?m (file_symbols g0)" and c': "cs_processed c \<Longrightarrow> is_evacuated c'"
    using c2 g2 by (auto simp: keep_tags_def clear_buffers_def clear_bloat_def is_evacuated_def split: option.splits list.splits)
  have "published p key g' = (g', Some v)" using fs m mn by (simp add: published_def)
  then show ?thesis using fs c' by (simp add: resolve_foreign_def in_flight_def)
qed

text \<open>The two rows of \<open>two_rows\<close>, the first of them the symbol \<open>f\<close>.\<close>

definition some_run_env :: "unit run_env" where
  "some_run_env = \<lparr>lookup = some_lookup_env, file_name_table = 11, bridge_file_table = 12, bridge_tag_table = 13\<rparr>"

theorem evacuated_symbols_found_witness:
  "\<exists>c' g' te'. extract_and_evacuate some_run_env
       ((fst (fst (execute some_lookup_env False (two_rows, (some_gproc, some_ast_engine)))))\<lparr>symbol_dict := [((''f'', 20), 0)]\<rparr>, (some_gproc, some_ast_engine))
       = ((c', (g', te')), None)
     \<and> resolve_foreign some_lookup_env False (6, 0) ''a.c'' (''f'', 20) (g', some_ast_engine) = ((g', some_ast_engine), Inr (Some (CInt 1)))"
proof -
  let ?c = "(fst (fst (execute some_lookup_env False (two_rows, (some_gproc, some_ast_engine)))))\<lparr>symbol_dict := [((''f'', 20), 0)]\<rparr>"
  let ?x = "extract_and_evacuate some_run_env (?c, (some_gproc, some_ast_engine))"
  have "snd ?x = None" by code_simp
  then obtain c' g' te' where x: "?x = ((c', (g', te')), None)" by (metis prod.collapse)
  have p: "current_path ?c = Some ''a.c''" and v: "symbol_id ?c 0 = Some (CInt 1)" by code_simp+
  from evacuated_symbols_found[OF x p _ _ v, of "(''f'', 20)"] show ?thesis using x by (simp; blast)
qed

end
