(* ===== verification/Sched_Run.thy ===== *)
theory Sched_Run
  imports Sched_Waves Sched_Stream ChangeSet_Evacuate
begin

section \<open>The schedulers on change sets (main.py)\<close>

text \<open>
  The parameters of \<open>Sched_Waves\<close> and \<open>Sched_Stream\<close>, given by the change sets in the processor's dictionary.  The change
  set that is executed is held apart from the dictionary, so a reference of a file to itself by \<open>REF_FILE\<close> sees the state in
  which it was fetched.
\<close>

record ('b, 'db) stage_env =
  run_env :: "'db run_env"
  cs_codec :: "'b codec"
  no_foreign :: "string \<Rightarrow> bool"      \<comment> \<open>\<open>type_check(path) in T_NO_FOREIGN\<close>\<close>
  past_deadline :: "nat \<Rightarrow> bool"
  low_memory :: bool
  very_low_memory :: bool
  chunk_size :: nat

definition fetch_cs :: "'b codec \<Rightarrow> string \<Rightarrow> 'b gproc \<Rightarrow> 'b gproc \<times> changeset option" where
  "fetch_cs C p g = (case get_item C p None (cs_dict g) of (d, v) \<Rightarrow> (g\<lparr>cs_dict := d\<rparr>, v))"

definition put_cs :: "'b codec \<Rightarrow> string \<Rightarrow> changeset \<Rightarrow> 'b gproc \<Rightarrow> 'b gproc" where
  "put_cs C p c g = g\<lparr>cs_dict := set_item C p (Some c) (cs_dict g)\<rparr>"

text \<open>An exception leaves the change set as far as it got, in the object the dictionary handed out.\<close>

definition leave_cs :: "string \<Rightarrow> changeset \<Rightarrow> 'b gproc \<Rightarrow> 'b gproc" where
  "leave_cs p c g = g\<lparr>cs_dict := mutate_entry p (\<lambda>_. c) (cs_dict g)\<rparr>"

definition plain_env :: "'db run_env \<Rightarrow> (string, changeset) dict \<Rightarrow> 'db lookup_env" where
  "plain_env R batch = (lookup R)\<lparr>batch_cs := batch, phase2 := None\<rparr>"

subsection \<open>The wave pass\<close>

definition evacuate_and_put :: "('b, 'db) stage_env \<Rightarrow> string \<Rightarrow> ('b, 'db) exec_state \<Rightarrow> ('b, 'db) lookup_state \<times> cs_error option" where
  "evacuate_and_put Z p st = (case extract_and_evacuate (run_env Z) st of
       ((c, (g, te)), Some e) \<Rightarrow> ((leave_cs p c g, te), Some e)
     | ((c, (g, te)), None) \<Rightarrow> ((put_cs (cs_codec Z) p c g, te), None))"

text \<open>A file of a wave: what does not resolve is resolved with stubs, and dropped if that does not help either.\<close>

definition run_wave_file :: "('b, 'db) stage_env \<Rightarrow> string \<Rightarrow> ('b, 'db) lookup_state \<Rightarrow> ('b, 'db) lookup_state \<times> cs_error option" where
  "run_wave_file Z p s = (case s of (g0, te) \<Rightarrow> (case fetch_cs (cs_codec Z) p g0 of
       (g, None) \<Rightarrow> ((g, te), Some Key_error)
     | (g, Some c) \<Rightarrow> (case execute (plain_env (run_env Z) []) False (c, (g, te)) of
           ((c1, (g1, te1)), Inl e) \<Rightarrow> ((leave_cs p c1 g1, te1), Some e)
         | (st1, Inr True) \<Rightarrow> evacuate_and_put Z p st1
         | (st1, Inr False) \<Rightarrow> (case execute (plain_env (run_env Z) []) True st1 of
               ((c2, (g2, te2)), Inl e) \<Rightarrow> ((leave_cs p c2 g2, te2), Some e)
             | (st2, Inr _) \<Rightarrow> evacuate_and_put Z p st2))))"

definition run_stub_file :: "('b, 'db) stage_env \<Rightarrow> string \<Rightarrow> ('b, 'db) lookup_state \<Rightarrow> ('b, 'db) lookup_state \<times> cs_error option" where
  "run_stub_file Z p s = (case s of (g0, te) \<Rightarrow> (case fetch_cs (cs_codec Z) p g0 of
       (g, None) \<Rightarrow> ((g, te), Some Key_error)
     | (g, Some c) \<Rightarrow> (case execute (plain_env (run_env Z) []) True (c, (g, te)) of
           ((c1, (g1, te1)), Inl e) \<Rightarrow> ((leave_cs p c1 g1, te1), Some e)
         | (st1, Inr _) \<Rightarrow> evacuate_and_put Z p st1)))"

definition commit_staged :: "('b, 'db) stage_env \<Rightarrow> ('b, 'db) lookup_state \<Rightarrow> ('b, 'db) lookup_state \<times> cs_error option" where
  "commit_staged Z s = (case s of (g, te) \<Rightarrow> (case commit_all (env_driver (lookup (run_env Z))) True te of
       (te1, e) \<Rightarrow> ((g, te1), map_option (\<lambda>_. Engine_error) e)))"

definition commit_last :: "('b, 'db) stage_env \<Rightarrow> ('b, 'db) lookup_state \<Rightarrow> ('b, 'db) lookup_state \<times> cs_error option" where
  "commit_last Z s = (case commit_staged Z s of
       (s1, Some e) \<Rightarrow> (s1, Some e)
     | ((g, te), None) \<Rightarrow> ((g\<lparr>ast_negative_cache := []\<rparr>, te), None))"

definition wave_interval :: "('b, 'db) stage_env \<Rightarrow> nat" where
  "wave_interval Z = (if chunk_size Z > 0 then chunk_size Z else if very_low_memory Z then 150 else if low_memory Z then 250 else 400)"

definition changeset_waves :: "('b, 'db) stage_env \<Rightarrow> 'b gproc \<Rightarrow> ('b, 'db) lookup_state wave_env" where
  "changeset_waves Z g = \<lparr>wave_file = run_wave_file Z, stub_file = run_stub_file Z, wave_commit = commit_staged Z, last_commit = commit_last Z,
     deadline = past_deadline Z, op_count = (\<lambda>p. case dict_get (cs_op_counts g) p of Some n \<Rightarrow> n | None \<Rightarrow> 0), chunk_interval = wave_interval Z\<rparr>"

text \<open>\<open>_stored_changeset_executed\<close>\<close>

definition stored_executed :: "'b cs_dict \<Rightarrow> string \<Rightarrow> bool option" where
  "stored_executed d p = (if dict_get (evacuated_store d) p \<noteq> None then Some True
     else (case dict_get (lru_cache d) p of
         Some c \<Rightarrow> Some (cs_processed c \<and> unresolved_indices c \<in> {None, Some []})
       | None \<Rightarrow> (case dict_get (compressed_store d) p of Some (Some _) \<Rightarrow> Some False | _ \<Rightarrow> None)))"

text \<open>When no dependencies were recorded, they are those of the stored change sets.\<close>

definition note_deps :: "'b gproc \<times> string list \<Rightarrow> string \<times> changeset option option \<Rightarrow> 'b gproc \<times> string list" where
  "note_deps s e = (case s of (g, done_set) \<Rightarrow> (case e of
       (p, Some (Some c)) \<Rightarrow> (g\<lparr>file_deps := dict_set p (remdups (foreign_deps c)) (file_deps g)\<rparr>,
         if cs_processed c then append_new done_set p else done_set)
     | _ \<Rightarrow> s))"

definition fill_file_deps :: "'b codec \<Rightarrow> 'b gproc \<Rightarrow> string list \<Rightarrow> 'b gproc \<times> string list" where
  "fill_file_deps C g done_set = (if file_deps g = [] \<and> all_keys (cs_dict g) \<noteq> []
     then (case dict_items C (cs_dict g) of (d, its) \<Rightarrow> foldl note_deps (g\<lparr>cs_dict := d\<rparr>, done_set) its)
     else (g, done_set))"

definition execute_phase2 :: "('b, 'db) stage_env \<Rightarrow> string list \<Rightarrow> ('b, 'db) lookup_state
    \<Rightarrow> (('b, 'db) lookup_state wave_state \<times> cs_error option) option" where
  "execute_phase2 Z done_set s = (case s of (g0, te) \<Rightarrow> (case fill_file_deps (cs_codec Z) g0 done_set of
       (g, dn) \<Rightarrow> execute_waves (changeset_waves Z g) (file_deps g) (stored_executed (cs_dict g)) dn (g, te)))"

subsection \<open>The streaming scheduler\<close>

type_synonym ('b, 'db) stream_state = "('b, 'db) lookup_state \<times> (string, changeset) dict"

text \<open>After \<open>execute\<close>: evacuated and stored, or stripped and stored with the file it waits for.\<close>

definition settle_cs :: "('b, 'db) stage_env \<Rightarrow> string \<Rightarrow> ('b, 'db) exec_state \<times> (cs_error + bool) \<Rightarrow> ('b, 'db) exec_state \<times> (cs_error + tried)" where
  "settle_cs Z p r = (case r of
       (st, Inl e) \<Rightarrow> (st, Inl e)
     | (st, Inr True) \<Rightarrow> (case extract_and_evacuate (run_env Z) st of
           (st1, Some e) \<Rightarrow> (st1, Inl e)
         | ((c, (g, te)), None) \<Rightarrow> ((c, (put_cs (cs_codec Z) p c g, te)), Inr Executed))
     | ((c, (g, te)), Inr False) \<Rightarrow>
         ((clear_bloat c, (put_cs (cs_codec Z) p (clear_bloat c) g, te)), Inr (Parked (blocked_on c))))"

text \<open>A file of the batch: the change set is the object the batch holds.\<close>

definition try_batch_cs :: "('b, 'db) stage_env \<Rightarrow> string \<Rightarrow> ('b, 'db) stream_state \<Rightarrow> ('b, 'db) stream_state \<times> (cs_error + tried)" where
  "try_batch_cs Z p x = (case x of (s, b) \<Rightarrow> (case dict_get b p of
       None \<Rightarrow> (x, Inl Key_error)
     | Some c \<Rightarrow> (case settle_cs Z p (execute (plain_env (run_env Z) b) False (c, s)) of
           ((c1, s1), t) \<Rightarrow> ((s1, dict_set p c1 b), t))))"

text \<open>A file of the dictionary; the scheduler is done with the batch when it calls this.\<close>

definition try_stored_cs :: "('b, 'db) stage_env \<Rightarrow> string \<Rightarrow> ('b, 'db) stream_state \<Rightarrow> ('b, 'db) stream_state \<times> (cs_error + tried) option" where
  "try_stored_cs Z p x = (case x of ((g0, te), b) \<Rightarrow> (case fetch_cs (cs_codec Z) p g0 of
       (g, None) \<Rightarrow> (((g, te), b), None)
     | (g, Some c) \<Rightarrow> (case settle_cs Z p (execute (plain_env (run_env Z) []) False (c, (g, te))) of
           ((c1, (g1, te1)), Inl e) \<Rightarrow> (((leave_cs p c1 g1, te1), b), Some (Inl e))
         | ((c1, s1), Inr t) \<Rightarrow> ((s1, b), Some (Inr t)))))"

definition store_batch_cs :: "('b, 'db) stage_env \<Rightarrow> string \<Rightarrow> ('b, 'db) stream_state \<Rightarrow> ('b, 'db) stream_state" where
  "store_batch_cs Z p x = (case x of ((g, te), b) \<Rightarrow> (case dict_get b p of
       None \<Rightarrow> x
     | Some c \<Rightarrow> ((put_cs (cs_codec Z) p c g, te), b)))"

text \<open>\<open>_maybe_chunk_commit\<close>, with \<open>_commit_all_with_retry\<close>.\<close>

definition commit_with_retry :: "('b, 'db) stage_env \<Rightarrow> ('b, 'db) lookup_state \<Rightarrow> ('b, 'db) lookup_state \<times> cs_error option" where
  "commit_with_retry Z s = (case commit_staged Z s of (s1, None) \<Rightarrow> (s1, None) | (s1, Some _) \<Rightarrow> commit_staged Z s1)"

definition chunk_commit_cs :: "('b, 'db) stage_env \<Rightarrow> nat \<Rightarrow> ('b, 'db) stream_state \<Rightarrow> ('b, 'db) stream_state \<times> cs_error option" where
  "chunk_commit_cs Z n x = (let k = (if chunk_size Z > 0 then chunk_size Z else 1000); te = snd (fst x)
     in if n mod k \<noteq> 0 then (x, None)
        else if async_commits te \<and> pending_commit_rows te > 0 \<and> \<not> low_memory Z \<and> n mod (2 * k) \<noteq> 0 then (x, None)
        else (case commit_with_retry Z (fst x) of (s1, e) \<Rightarrow> ((s1, snd x), e)))"

text \<open>The batch is noted, and its files of a kind without references run (\<open>execute_and_purge\<close>).\<close>

definition note_batch :: "(string, changeset) dict \<Rightarrow> 'b gproc \<Rightarrow> 'b gproc" where
  "note_batch b g = foldl (\<lambda>g (p, c). g\<lparr>file_deps := dict_set p (remdups (foreign_deps c)) (file_deps g),
     cs_op_counts := dict_set p (length (cs_ops c)) (cs_op_counts g)\<rparr>) g b"

fun purge_batch :: "('b, 'db) stage_env \<Rightarrow> string list \<Rightarrow> ('b, 'db) stream_state \<Rightarrow> ('b, 'db) stream_state \<times> cs_error option" where
  "purge_batch Z [] x = (x, None)"
| "purge_batch Z (p # ps) (s, b) = (case dict_get b p of
       None \<Rightarrow> purge_batch Z ps (s, b)
     | Some c \<Rightarrow>
         if (case current_path c of Some q \<Rightarrow> no_foreign Z q | None \<Rightarrow> False)
         then (case execute (plain_env (run_env Z) []) False (c, s) of
             ((c1, s1), Inl e) \<Rightarrow> ((s1, dict_set p c1 b), Some e)
           | ((c1, s1), Inr False) \<Rightarrow> purge_batch Z ps (s1, dict_set p c1 b)
           | ((c1, s1), Inr True) \<Rightarrow> (case extract_and_evacuate (run_env Z) (c1, s1) of
                 ((c2, s2), Some e) \<Rightarrow> ((s2, dict_set p c2 b), Some e)
               | ((c2, s2), None) \<Rightarrow> purge_batch Z ps (s2, dict_set p c2 b)))
         else purge_batch Z ps (s, b))"

definition open_batch_cs :: "('b, 'db) stage_env \<Rightarrow> ('b, 'db) stream_state \<Rightarrow> ('b, 'db) stream_state \<times> cs_error option" where
  "open_batch_cs Z x = (case x of ((g, te), b) \<Rightarrow> purge_batch Z (map fst b) ((note_batch b g, te), b))"

definition wave_pass_cs :: "('b, 'db) stage_env \<Rightarrow> string list \<Rightarrow> ('b, 'db) stream_state \<Rightarrow> (('b, 'db) stream_state \<times> string list) \<times> cs_error option" where
  "wave_pass_cs Z done_set x = (case x of (s, b) \<Rightarrow> (case execute_phase2 Z done_set s of
       Some ((w, s1, _), e) \<Rightarrow> (((s1, b), w_completed w), e)
     | None \<Rightarrow> ((x, done_set), None)))"

definition close_stage :: "('b, 'db) stage_env \<Rightarrow> ('b, 'db) stream_state \<Rightarrow> ('b, 'db) stream_state \<times> cs_error option" where
  "close_stage Z x = (case x of ((g, te), b) \<Rightarrow> (case commit_staged Z (g\<lparr>ast_negative_cache := []\<rparr>, te) of
       (s1, Some e) \<Rightarrow> ((s1, b), Some e)
     | ((g1, te1), None) \<Rightarrow> (((g1\<lparr>shared_symbols := None\<rparr>, te1), b), None)))"

definition changeset_stream :: "('b, 'db) stage_env \<Rightarrow> ('b, 'db) stream_state sched_env" where
  "changeset_stream Z = \<lparr>try_batch = try_batch_cs Z, try_stored = try_stored_cs Z, store_batch = store_batch_cs Z,
     batch_processed = (\<lambda>x p. case dict_get (snd x) p of Some c \<Rightarrow> cs_processed c | None \<Rightarrow> False),
     batch_deps = (\<lambda>x p. case dict_get (snd x) p of Some c \<Rightarrow> foreign_deps c | None \<Rightarrow> []),
     known_path = (\<lambda>x p. p \<in> set (changed_paths (fst (fst x))) \<or> has_key p (cs_dict (fst (fst x)))),
     chunk_commit = chunk_commit_cs Z, open_batch = open_batch_cs Z, wave_pass = wave_pass_cs Z,
     all_paths = (\<lambda>x. all_keys (cs_dict (fst (fst x)))),
     end_headers = (\<lambda>x. case x of ((g, te), b) \<Rightarrow> ((g\<lparr>ast_negative_cache := []\<rparr>, te), b)), end_stage = close_stage Z\<rparr>"


subsection \<open>Execution leaves the dictionary alone\<close>

abbreviation held :: "('b, 'db) exec_state \<Rightarrow> 'b cs_dict" where
  "held st \<equiv> cs_dict (fst (snd st))"

lemma db_lookup_dict [simp]: "cs_dict (fst (db_lookup E rel key g)) = cs_dict g"
  by (simp add: db_lookup_def split: option.splits)

lemma cache_found_dict [simp]: "cs_dict (cache_found k b v g) = cs_dict g"
  by (simp add: cache_found_def)

lemma engine_lookup_dict [simp]: "cs_dict (fst (fst (engine_lookup E q name tys s))) = cs_dict (fst s)"
proof (induction tys arbitrary: s)
  case (Cons ty tys)
  obtain a cty g te where ty: "ty = (a, cty)" "s = (g, te)" by (cases ty, cases s)
  let ?get = "get (env_driver E) te (ast_table E) [CNone, CStr name, case a of Some t \<Rightarrow> CInt t | None \<Rightarrow> CNone]"
  obtain te1 r where r: "?get = (te1, r)" by (cases ?get)
  show ?case
  proof (cases r)
    case (Inl e)
    then show ?thesis using r ty by simp
  next
    case (Inr row)
    then show ?thesis using Cons.IH[of "(g, te1)"] r ty by (cases "value_in row (snd q)") simp_all
  qed
qed simp

lemma stage_stub_dict [simp]: "cs_dict (fst (fst (stage_stub E q k s))) = cs_dict (fst s)"
  by (cases s) (auto simp: stage_stub_def Let_def split: prod.splits sum.splits option.splits)

lemma ask_engine_dict [simp]: "cs_dict (fst (fst (ask_engine E force active q k s))) = cs_dict (fst s)"
proof -
  obtain g te where s: "s = (g, te)" by (cases s)
  let ?tys = "[(Some (snd k), snd k), (Some (get_notbind_type (snd k)), get_notbind_type (snd k)), (None, snd k)]"
  define sr where "sr = (if k \<in> set (ast_negative_cache g) \<or> is_worker g then ((g, te), Inr None)
      else (case engine_lookup E q (fst k) ?tys (g, te) of
          ((g1, te1), Inr None) \<Rightarrow> ((g1\<lparr>ast_negative_cache := append_new (ast_negative_cache g1) k\<rparr>, te1), Inr None) | r \<Rightarrow> r))"
  obtain g1 te1 y where l: "engine_lookup E q (fst k) ?tys (g, te) = ((g1, te1), y)" by (metis prod.exhaust)
  have "cs_dict g1 = cs_dict g" using engine_lookup_dict[of E q "fst k" ?tys "(g, te)"] unfolding l by simp
  then have d: "cs_dict (fst (fst sr)) = cs_dict g"
    unfolding sr_def l by (cases y) (auto split: option.split)
  obtain s1 r1 where sr: "sr = (s1, r1)" by (cases sr)
  have "ask_engine E force active q k s = (case r1 of
      Inr None \<Rightarrow> if (force \<or> \<not> active) \<and> \<not> is_worker g then stage_stub E q k s1 else (s1, Inr None)
    | _ \<Rightarrow> (s1, r1))"
    by (simp only: ask_engine_def s prod.case Let_def sr_def[symmetric] sr)
  then show ?thesis using d by (auto simp: s sr split: sum.splits option.splits)
qed

lemma resolve_ast_dict [simp]: "cs_dict (fst (fst (resolve_ast E force act q key s))) = cs_dict (fst s)"
  by (cases s) (simp add: resolve_ast_def Let_def split: option.split)

lemma resolve_foreign_dict [simp]: "cs_dict (fst (fst (resolve_foreign E force q rel key s))) = cs_dict (fst s)"
proof -
  obtain g te where s: "s = (g, te)" by (cases s)
  obtain g1 r1 where p: "published rel key g = (g1, r1)" by (metis prod.exhaust)
  then have d1: "cs_dict g1 = cs_dict g" using published_fields(1)[of rel key g] by simp
  obtain g2 r2 where l: "db_lookup E rel key g1 = (g2, r2)" by (metis prod.exhaust)
  then have d2: "cs_dict g2 = cs_dict g" using db_lookup_dict[of E rel key g1] d1 by simp
  show ?thesis using p l d1 d2 by (simp add: s resolve_foreign_def split: option.split sum.split)
qed

lemma resolve_ref_dict: "held (fst (resolve_ref E force q r st)) = held st"
proof -
  obtain c s where st: "st = (c, s)" by (cases st)
  show ?thesis
  proof (cases "\<exists>rel name ty rest. r = LInt 3 # LStr rel # LStr name # LInt ty # rest")
    case True
    then obtain rel name ty rest where r: "r = LInt 3 # LStr rel # LStr name # LInt ty # rest" by blast
    obtain s1 y where y: "resolve_foreign E force q rel (name, ty) s = (s1, y)" by (metis prod.exhaust)
    then have "cs_dict (fst s1) = cs_dict (fst s)" using resolve_foreign_dict[of E force q rel "(name, ty)" s] by simp
    then show ?thesis using y by (simp add: st r resolve_ref_def split: sum.split option.split)
  next
    case False
    then have "snd (fst (resolve_ref E force q r st)) = snd st" by (auto simp: st resolve_ref_def split: list.splits link.splits)
    then show ?thesis by simp
  qed
qed

interpretation dicts: exec_steps "\<lambda>st st'. held st' = held st"
proof
  fix E :: "'b lookup_env" and force q r and st st' :: "('a, 'b) exec_state" and x
  assume "resolve_ref E force q r st = (st', x)"
  then show "held st' = held st" using resolve_ref_dict[of E force q r st] by simp
qed auto

lemma cells_dict: "held (fst (resolve_cells E force us st)) = held st"
  by (rule dicts.resolve_cells_R[OF surjective_pairing])

lemma unpack_dict: "held (fst (unpack_ref_view E force jo ds sch st)) = held st"
  by (rule dicts.unpack_ref_view_R[OF surjective_pairing])

lemma run_engine_dict [simp]: "held (fst (run_engine i f st)) = held st"
  by (cases st) (simp add: run_engine_def case_prod_beta split: sum.split)

lemma submit_dict [simp]: "held (fst (submit E i jo b row st)) = held st"
  by (simp add: submit_def split: op_body.split joins.split)

lemma exec_concrete_dict [simp]: "held (fst (exec_concrete E force i oper st)) = held st"
  by (cases oper) (simp add: exec_concrete_def case_prod_beta cells_dict split: op_body.split sum.split)

lemma exec_op_dict [simp]: "held (fst (exec_op E force i st)) = held st"
proof -
  obtain jo b where o: "cs_ops (fst st) ! i = (jo, b)" by (metis prod.exhaust)
  show ?thesis by (simp add: exec_op_def o case_prod_beta unpack_dict split: op_body.split sum.split)
qed

lemma exec_ops_dict [simp]: "held (fst (exec_ops E force is st)) = held st"
proof (induction "is" arbitrary: st)
  case (Cons i "is")
  obtain st1 y where o: "exec_op E force i st = (st1, y)" by (metis prod.exhaust)
  then have "held st1 = held st" using exec_op_dict[of E force i st] by simp
  then show ?case using o Cons.IH[of st1] by (simp split: sum.split failure.split unit.split)
qed simp

lemma run_pending_dict [simp]: "held (fst (run_pending E force st)) = held st"
proof -
  define order where "order = (if length (pending_ops (fst st)) = length (cs_ops (fst st)) then [0..<length (cs_ops (fst st))] else sort (pending_ops (fst st)))"
  obtain c2 s2 z where z: "exec_ops E force order st = ((c2, s2), z)" by (metis prod.exhaust)
  then have "cs_dict (fst s2) = held st" using exec_ops_dict[of E force order st] by simp
  then show ?thesis using z unfolding run_pending_def order_def by (simp add: Let_def split: sum.split)
qed

lemma execute_dict [simp]: "held (fst (execute E force st)) = held st"
  by (cases st) (simp add: execute_def)

lemma get_fid_dict [simp]: "cs_dict (fst (fst (get_fid_for_path R p s))) = cs_dict (fst s)"
  by (cases s) (auto simp: get_fid_for_path_def get_fnid_for_path_def Let_def split: option.splits prod.splits sum.splits if_splits)

lemma evacuate_dict [simp]: "held (fst (extract_and_evacuate R st)) = held st"
proof -
  obtain c s where st: "st = (c, s)" by (cases st)
  show ?thesis
  proof (cases "current_path c")
    case (Some p)
    obtain g0 te0 y where f: "get_fid_for_path R p s = ((g0, te0), y)" by (metis prod.exhaust)
    then have d: "cs_dict g0 = cs_dict (fst s)" using get_fid_dict[of R p s] by simp
    show ?thesis
    proof (cases y)
      case (Inr fid)
      obtain c1 g1 where n: "note_symbols p c (g0\<lparr>completed_paths := append_new (completed_paths g0) p\<rparr>) = (c1, g1)" by (metis prod.exhaust)
      obtain c2 g2 where b: "note_blob p fid (note_tags R fid c1) g1 = (c2, g2)" by (metis prod.exhaust)
      have "cs_dict g1 = cs_dict g0" using n by (auto simp: note_symbols_def publish_symbols_def split: if_splits)
      moreover have "cs_dict g2 = cs_dict g1" using b by (auto simp: note_blob_def Let_def split: if_splits)
      ultimately have "cs_dict (keep_tags p c2 g2) = cs_dict (fst s)" using d by (simp add: keep_tags_def split: option.split list.split)
      then show ?thesis using st Some f Inr n b by (simp add: extract_and_evacuate_def)
    qed (use st Some f d in \<open>simp add: extract_and_evacuate_def\<close>)
  qed (simp add: st extract_and_evacuate_def)
qed


subsection \<open>The streaming scheduler never loses a file\<close>

text \<open>
  The processor's dictionary in the streaming state: what its invariant is, which files it holds, which files the batch
  holds.
\<close>

definition dict_good :: "'b codec \<Rightarrow> ('b, 'db) stream_state \<Rightarrow> bool" where
  "dict_good C x \<longleftrightarrow> faithful_codec C \<and> dict_ok C (cs_dict (fst (fst x)))"

definition dict_holds :: "'b codec \<Rightarrow> ('b, 'db) stream_state \<Rightarrow> string \<Rightarrow> bool" where
  "dict_holds C x p \<longleftrightarrow> (\<exists>c. content_of C (cs_dict (fst (fst x))) p = Some (Some c))"

definition batch_holds :: "('b, 'db) stream_state \<Rightarrow> string \<Rightarrow> bool" where
  "batch_holds x p \<longleftrightarrow> dict_get (snd x) p \<noteq> None"

text \<open>The steps keep the dictionary's invariant and its files.\<close>

definition dict_grows :: "'b codec \<Rightarrow> 'b cs_dict \<Rightarrow> 'b cs_dict \<Rightarrow> bool" where
  "dict_grows C d d' \<longleftrightarrow> dict_ok C d' \<and> (\<forall>q c. content_of C d q = Some (Some c) \<longrightarrow> (\<exists>c'. content_of C d' q = Some (Some c')))"

lemma dict_grows_refl: "dict_ok C d \<Longrightarrow> dict_grows C d d"
  by (simp add: dict_grows_def)

lemma put_cs_grows:
  assumes "faithful_codec C" "dict_ok C (cs_dict g)"
  shows "dict_grows C (cs_dict g) (cs_dict (put_cs C p c g)) \<and> content_of C (cs_dict (put_cs C p c g)) p = Some (Some c)"
  using set_item_content[OF assms, of p "Some c"] by (simp add: put_cs_def dict_grows_def)

lemma fetch_cs_content:
  assumes "faithful_codec C" "dict_ok C (cs_dict g)" "fetch_cs C p g = (g', v)"
  shows "dict_ok C (cs_dict g') \<and> content_of C (cs_dict g') = content_of C (cs_dict g)
    \<and> (v = None \<longrightarrow> (\<forall>c. content_of C (cs_dict g) p \<noteq> Some (Some c)))"
proof -
  obtain d r where l: "load_entry C p (cs_dict g) = (d, r)" by (metis prod.exhaust)
  have "cs_dict g' = d" "v = None \<Longrightarrow> r = None \<or> r = Some None"
    using assms(3) l by (auto simp: fetch_cs_def get_item_def split: option.splits)
  then show ?thesis using load_entry_content[OF assms(1,2) l] by auto
qed

text \<open>What \<open>settle_cs\<close> does to the dictionary after an execution that did not fail.\<close>

lemma settle_cs_grows:
  assumes C: "faithful_codec (cs_codec Z)" "dict_ok (cs_codec Z) (cs_dict (fst (snd st)))"
    and s: "settle_cs Z p (execute E force st) = (st', Inr t)"
  shows "dict_grows (cs_codec Z) (cs_dict (fst (snd st))) (cs_dict (fst (snd st')))
    \<and> (\<exists>c. content_of (cs_codec Z) (cs_dict (fst (snd st'))) p = Some (Some c))"
proof -
  obtain c1 g1 te1 y where x: "execute E force st = ((c1, (g1, te1)), y)" by (metis prod.exhaust)
  have d1: "cs_dict g1 = cs_dict (fst (snd st))" using execute_dict[of E force st] x by simp
  show ?thesis
  proof (cases "y = Inr True")
    case True
    obtain c2 g2 te2 e where v: "extract_and_evacuate (run_env Z) (c1, (g1, te1)) = ((c2, (g2, te2)), e)" by (metis prod.exhaust)
    have d2: "cs_dict g2 = cs_dict g1" using evacuate_dict[of "run_env Z" "(c1, (g1, te1))"] v by simp
    have "st' = (c2, (put_cs (cs_codec Z) p c2 g2, te2))" using s x v True by (cases e) (simp_all add: settle_cs_def)
    then show ?thesis using put_cs_grows[OF C(1), of g2 p c2] C(2) d1 d2 by simp
  next
    case False
    then have "st' = (clear_bloat c1, (put_cs (cs_codec Z) p (clear_bloat c1) g1, te1))"
      using s x by (auto simp: settle_cs_def split: sum.splits bool.splits)
    then show ?thesis using put_cs_grows[OF C(1), of g1 p "clear_bloat c1"] C(2) d1 by simp
  qed
qed


lemma dict_grows_trans: "dict_grows C a b \<Longrightarrow> dict_grows C b c \<Longrightarrow> dict_grows C a c"
  unfolding dict_grows_def by blast

definition keeps_files :: "'b codec \<Rightarrow> ('b, 'db) stream_state \<Rightarrow> ('b, 'db) stream_state \<Rightarrow> bool" where
  "keeps_files C x x' \<longleftrightarrow> dict_good C x' \<and> (\<forall>q. dict_holds C x q \<longrightarrow> dict_holds C x' q) \<and> batch_holds x' = batch_holds x"

lemma keeps_files_refl: "dict_good C x \<Longrightarrow> keeps_files C x x"
  by (simp add: keeps_files_def)

lemma keeps_files_trans: "keeps_files C a b \<Longrightarrow> keeps_files C b c \<Longrightarrow> keeps_files C a c"
  by (simp add: keeps_files_def)

lemma keeps_files_of_dict:
  assumes "faithful_codec C" "dict_grows C (cs_dict (fst (fst x))) (cs_dict (fst (fst x')))" "batch_holds x' = batch_holds x"
  shows "keeps_files C x x'"
  using assms by (auto simp: keeps_files_def dict_good_def dict_grows_def dict_holds_def)

lemma batch_holds_set [simp]: "dict_get b p \<noteq> None \<Longrightarrow> batch_holds (s', dict_set p c b) = batch_holds (s, b)"
  by (auto simp: batch_holds_def fun_eq_iff)

lemma batch_holds_state: "batch_holds (s', b) = batch_holds (s, b)"
  by (simp add: batch_holds_def fun_eq_iff)

lemma try_batch_cs_keeps:
  assumes good: "dict_good (cs_codec Z) x" and t: "try_batch_cs Z p x = (x', Inr t)"
  shows "keeps_files (cs_codec Z) x x' \<and> dict_holds (cs_codec Z) x' p"
proof -
  obtain s b where x: "x = (s, b)" by (cases x)
  obtain c where c: "dict_get b p = Some c" using t by (auto simp: try_batch_cs_def x split: option.splits)
  obtain c1 s1 y where y: "settle_cs Z p (execute (plain_env (run_env Z) b) False (c, s)) = ((c1, s1), y)" by (metis prod.exhaust)
  then have r: "x' = (s1, dict_set p c1 b)" "y = Inr t" using t by (auto simp: try_batch_cs_def x c)
  have "dict_grows (cs_codec Z) (cs_dict (fst s)) (cs_dict (fst s1)) \<and> (\<exists>c. content_of (cs_codec Z) (cs_dict (fst s1)) p = Some (Some c))"
    using settle_cs_grows[of Z "(c, s)" p _ False "(c1, s1)" t] good y r by (simp add: x dict_good_def)
  then show ?thesis using keeps_files_of_dict[of "cs_codec Z" x x'] good c
    by (simp add: r x dict_good_def dict_holds_def)
qed

lemma try_stored_cs_keeps:
  assumes good: "dict_good (cs_codec Z) x" and t: "try_stored_cs Z p x = (x', Some (Inr t))"
  shows "keeps_files (cs_codec Z) x x'"
proof -
  obtain g0 te b where x: "x = ((g0, te), b)" by (metis prod.exhaust)
  obtain g c where f: "fetch_cs (cs_codec Z) p g0 = (g, Some c)" using t by (auto simp: try_stored_cs_def x split: prod.splits option.splits)
  note fc = fetch_cs_content[OF _ _ f]
  obtain c1 g1 te1 y where y: "settle_cs Z p (execute (plain_env (run_env Z) []) False (c, (g, te))) = ((c1, (g1, te1)), y)" by (metis prod.exhaust)
  then have r: "x' = ((g1, te1), b)" "y = Inr t" using t by (auto simp: try_stored_cs_def x f split: sum.splits)
  have "dict_grows (cs_codec Z) (cs_dict g) (cs_dict g1)"
    using settle_cs_grows[of Z "(c, (g, te))" p _ False "(c1, (g1, te1))" t] fc good y r by (simp add: x dict_good_def)
  then have "dict_grows (cs_codec Z) (cs_dict g0) (cs_dict g1)" using fc good by (simp add: x dict_good_def dict_grows_def)
  then show ?thesis using keeps_files_of_dict[of "cs_codec Z" x x'] good by (simp add: r x dict_good_def batch_holds_state)
qed

lemma try_stored_cs_absent:
  assumes good: "dict_good (cs_codec Z) x" and t: "try_stored_cs Z p x = (x', None)"
  shows "keeps_files (cs_codec Z) x x' \<and> \<not> dict_holds (cs_codec Z) x p"
proof -
  obtain g0 te b where x: "x = ((g0, te), b)" by (metis prod.exhaust)
  obtain g v where f: "fetch_cs (cs_codec Z) p g0 = (g, v)" by (metis prod.exhaust)
  then have r: "v = None" "x' = ((g, te), b)" using t by (auto simp: try_stored_cs_def x split: option.splits prod.splits sum.splits)
  note fc = fetch_cs_content[OF _ _ f]
  have "dict_grows (cs_codec Z) (cs_dict g0) (cs_dict g)" using fc good by (simp add: x dict_good_def dict_grows_def)
  then show ?thesis using keeps_files_of_dict[of "cs_codec Z" x x'] fc good r by (auto simp: x dict_good_def dict_holds_def batch_holds_state)
qed

lemma store_batch_cs_keeps:
  assumes "dict_good (cs_codec Z) x" "batch_holds x p"
  shows "keeps_files (cs_codec Z) x (store_batch_cs Z p x) \<and> dict_holds (cs_codec Z) (store_batch_cs Z p x) p"
proof -
  obtain g te b where x: "x = ((g, te), b)" by (metis prod.exhaust)
  obtain c where c: "dict_get b p = Some c" using assms(2) by (auto simp: x batch_holds_def)
  have "dict_grows (cs_codec Z) (cs_dict g) (cs_dict (put_cs (cs_codec Z) p c g))
      \<and> content_of (cs_codec Z) (cs_dict (put_cs (cs_codec Z) p c g)) p = Some (Some c)"
    using put_cs_grows[of "cs_codec Z" g p c] assms(1) by (simp add: x dict_good_def)
  then show ?thesis using keeps_files_of_dict[of "cs_codec Z" x "((put_cs (cs_codec Z) p c g, te), b)"] assms(1)
    by (simp add: x c store_batch_cs_def dict_good_def dict_holds_def batch_holds_state)
qed

lemma commit_staged_dict: "cs_dict (fst (fst (commit_staged Z s))) = cs_dict (fst s)"
  by (cases s) (simp add: commit_staged_def split: prod.split)

lemma chunk_commit_cs_keeps:
  assumes "dict_good (cs_codec Z) x" "chunk_commit_cs Z n x = (x', e)"
  shows "keeps_files (cs_codec Z) x x'"
proof -
  have "cs_dict (fst (fst x')) = cs_dict (fst (fst x)) \<and> snd x' = snd x"
    using assms(2) commit_staged_dict[of Z "fst x"] commit_staged_dict[of Z "fst (commit_staged Z (fst x))"]
    by (auto simp: chunk_commit_cs_def commit_with_retry_def Let_def split: if_splits prod.splits option.splits)
  then show ?thesis using assms(1)
    by (auto simp: keeps_files_def dict_good_def dict_holds_def batch_holds_def fun_eq_iff)
qed

lemma purge_batch_keeps:
  "purge_batch Z ps x = (x', None) \<Longrightarrow> cs_dict (fst (fst x')) = cs_dict (fst (fst x)) \<and> batch_holds x' = batch_holds x"
proof (induction ps arbitrary: x)
  case (Cons p ps)
  obtain s b where x: "x = (s, b)" by (cases x)
  have skip: ?case if "purge_batch Z (p # ps) x = purge_batch Z ps x"
    using Cons.IH[of x] Cons.prems that by simp
  show ?case
  proof (cases "\<exists>c q. dict_get b p = Some c \<and> current_path c = Some q \<and> no_foreign Z q")
    case True
    then obtain c q where c: "dict_get b p = Some c" "current_path c = Some q" "no_foreign Z q" by blast
    obtain c1 s1 y where e: "execute (plain_env (run_env Z) []) False (c, s) = ((c1, s1), y)" by (metis prod.exhaust)
    have d1: "cs_dict (fst s1) = cs_dict (fst s)" using execute_dict[of "plain_env (run_env Z) []" False "(c, s)"] e by simp
    obtain c2 s2 z where v: "extract_and_evacuate (run_env Z) (c1, s1) = ((c2, s2), z)" by (metis prod.exhaust)
    have d2: "cs_dict (fst s2) = cs_dict (fst s1)" using evacuate_dict[of "run_env Z" "(c1, s1)"] v by simp
    obtain b' where y: "y = Inr b'" using Cons.prems c e by (cases y) (auto simp: x)
    show ?thesis
    proof (cases b')
      case True
      then have "purge_batch Z ps (s2, dict_set p c2 b) = (x', None)" using Cons.prems c e v y by (cases z) (auto simp: x)
      from Cons.IH[OF this] show ?thesis using c d1 d2 by (simp add: x)
    next
      case False
      then have "purge_batch Z ps (s1, dict_set p c1 b) = (x', None)" using Cons.prems c e y by (auto simp: x)
      from Cons.IH[OF this] show ?thesis using c d1 by (simp add: x)
    qed
  next
    case False
    then have "purge_batch Z (p # ps) x = purge_batch Z ps x" by (auto simp: x split: option.splits)
    then show ?thesis by (rule skip)
  qed
qed simp

lemma note_batch_dict: "cs_dict (note_batch b g) = cs_dict g"
  unfolding note_batch_def by (induction b arbitrary: g) (auto simp: case_prod_beta)

lemma open_batch_cs_keeps:
  assumes "dict_good (cs_codec Z) x" "open_batch_cs Z x = (x', None)"
  shows "keeps_files (cs_codec Z) x x'"
proof -
  obtain g te b where x: "x = ((g, te), b)" by (metis prod.exhaust)
  have "cs_dict (fst (fst x')) = cs_dict g \<and> batch_holds x' = batch_holds x"
    using purge_batch_keeps[of Z "map fst b" "((note_batch b g, te), b)" x'] assms(2) note_batch_dict[of b g]
    by (simp add: x open_batch_cs_def batch_holds_state)
  then show ?thesis using assms(1) by (auto simp: x keeps_files_def dict_good_def dict_holds_def)
qed


interpretation stream: stored_files "changeset_stream Z" "dict_good (cs_codec Z)" "dict_holds (cs_codec Z)" batch_holds
  for Z :: "('b, 'db) stage_env"
proof
  note keeps = try_batch_cs_keeps try_stored_cs_keeps try_stored_cs_absent store_batch_cs_keeps chunk_commit_cs_keeps open_batch_cs_keeps
  fix x x' :: "('b, 'db) stream_state" and p t
  assume good: "dict_good (cs_codec Z) x"
  show "try_batch (changeset_stream Z) p x = (x', Inr t) \<Longrightarrow> batch_holds x p \<Longrightarrow>
      dict_good (cs_codec Z) x' \<and> dict_holds (cs_codec Z) x' p \<and> (\<forall>q. dict_holds (cs_codec Z) x q \<longrightarrow> dict_holds (cs_codec Z) x' q) \<and> batch_holds x' = batch_holds x"
    using keeps(1)[OF good] by (simp add: changeset_stream_def keeps_files_def)
  show "try_stored (changeset_stream Z) p x = (x', Some (Inr t)) \<Longrightarrow>
      dict_good (cs_codec Z) x' \<and> (\<forall>q. dict_holds (cs_codec Z) x q \<longrightarrow> dict_holds (cs_codec Z) x' q) \<and> batch_holds x' = batch_holds x"
    using keeps(2)[OF good] by (simp add: changeset_stream_def keeps_files_def)
  show "try_stored (changeset_stream Z) p x = (x', None) \<Longrightarrow>
      dict_good (cs_codec Z) x' \<and> \<not> dict_holds (cs_codec Z) x p \<and> (\<forall>q. dict_holds (cs_codec Z) x q \<longrightarrow> dict_holds (cs_codec Z) x' q) \<and> batch_holds x' = batch_holds x"
    using keeps(3)[OF good] by (simp add: changeset_stream_def keeps_files_def)
  show "batch_holds x p \<Longrightarrow> dict_good (cs_codec Z) (store_batch (changeset_stream Z) p x)
      \<and> dict_holds (cs_codec Z) (store_batch (changeset_stream Z) p x) p
      \<and> (\<forall>q. dict_holds (cs_codec Z) x q \<longrightarrow> dict_holds (cs_codec Z) (store_batch (changeset_stream Z) p x) q)
      \<and> batch_holds (store_batch (changeset_stream Z) p x) = batch_holds x"
    using keeps(4)[OF good] by (simp add: changeset_stream_def keeps_files_def)
  show "chunk_commit (changeset_stream Z) n x = (x', None) \<Longrightarrow>
      dict_good (cs_codec Z) x' \<and> (\<forall>q. dict_holds (cs_codec Z) x q \<longrightarrow> dict_holds (cs_codec Z) x' q) \<and> batch_holds x' = batch_holds x" for n
    using keeps(5)[OF good] by (simp add: changeset_stream_def keeps_files_def)
  show "open_batch (changeset_stream Z) x = (x', None) \<Longrightarrow>
      dict_good (cs_codec Z) x' \<and> (\<forall>q. dict_holds (cs_codec Z) x q \<longrightarrow> dict_holds (cs_codec Z) x' q) \<and> batch_holds x' = batch_holds x"
    using keeps(6)[OF good] by (simp add: changeset_stream_def keeps_files_def)
qed

text \<open>A batch of files, ingested by a scheduler and a processor as they are between batches.\<close>

definition ingest_changesets :: "('b, 'db) stage_env \<Rightarrow> bool \<Rightarrow> (string, changeset) dict \<Rightarrow> sched \<times> ('b, 'db) lookup_state
    \<Rightarrow> (sched \<times> ('b, 'db) lookup_state) \<times> cs_error option" where
  "ingest_changesets Z header b st = (case ingest_batch (changeset_stream Z) header (map fst b) (fst st, (snd st, b)) of
       ((s, x), e) \<Rightarrow> ((s, fst x), e))"

text \<open>
  C4: the streaming scheduler loses no file.  Let every file seen so far be completed, ready, deferred or waiting for a
  file that has not completed, and have a change set in the compressed dictionary.  After a batch of source files that
  raises nothing the same holds for the files seen and those of the batch, and no file that was woken is left unrun.
\<close>

theorem no_file_lost:
  assumes "ingest_changesets Z False b (s, l) = ((s', l'), None)"
    and "faithful_codec (cs_codec Z)" "dict_ok (cs_codec Z) (cs_dict (fst l))"
    and "sched_ok P s" "\<forall>p\<in>P. \<exists>c. content_of (cs_codec Z) (cs_dict (fst l)) p = Some (Some c)"
  shows "sched_ok (P \<union> fst ` set b) s' \<and> sched_ready s' = []
    \<and> (\<forall>p\<in>P \<union> fst ` set b. \<exists>c. content_of (cs_codec Z) (cs_dict (fst l')) p = Some (Some c))"
proof -
  obtain x' where i: "ingest_batch (changeset_stream Z) False (map fst b) (s, (l, b)) = ((s', x'), None)" "l' = fst x'"
    using assms(1) by (auto simp: ingest_changesets_def split: prod.splits)
  have "stream.all_ok Z P s (l, b)"
    using assms(2-5) by (simp add: stream.all_ok_def dict_good_def dict_holds_def)
  moreover have "\<forall>p\<in>set (map fst b). batch_holds (l, b) p"
    by (auto simp: batch_holds_def map_of_eq_None_iff)
  ultimately show ?thesis
    using stream.ingest_batch_ok[OF i(1), of P] i(2) by (simp add: stream.all_ok_def dict_holds_def)
qed


text \<open>A stage over a processor in which \<open>a.h\<close> is being changed: of two files one needs a symbol of \<open>a.h\<close>.\<close>

definition some_stage_env :: "(changeset, unit) stage_env" where
  "some_stage_env = \<lparr>run_env = some_run_env, cs_codec = demo_codec, no_foreign = (\<lambda>_. False), past_deadline = (\<lambda>_. False),
     low_memory = False, very_low_memory = False, chunk_size = 0\<rparr>"

definition idle_gproc :: "changeset gproc" where
  "idle_gproc = \<lparr>changed_paths = [''a.h'', ''b.c'', ''a.c''], completed_paths = [], file_symbols = [], file_names = [], shared_symbols = None,
     cs_dict = new_cs_dict 2, ast_staged_symbols = [], ast_staged_names = [], ast_negative_cache = [], is_worker = False,
     file_deps = [], cs_op_counts = [], file_pre_extracted_tags = [], file_blob_ids = [], file_fnid_cache = [], file_fid_cache = [],
     vid = 2, old_vid = 1\<rparr>"

definition uses_header :: changeset where
  "uses_header = (new_changeset (Some ''M'') (Some ''b.c'') None)\<lparr>cs_ops :=
     [(JTable 6, Op_set [UVal CNone, UVal (CStr ''g''), URef (6, 0) [REF_FILE, LStr ''a.h'', LStr ''f'', LInt 20]])],
     foreign_deps := [''a.h'']\<rparr>"

definition some_batch :: "(string, changeset) dict" where
  "some_batch = [(''b.c'', uses_header), (''a.c'', two_rows)]"

abbreviation ingested :: "(sched \<times> (changeset, unit) lookup_state) \<times> cs_error option" where
  "ingested \<equiv> ingest_changesets some_stage_env False some_batch (new_sched, (idle_gproc, some_ast_engine))"

theorem no_file_lost_witness:
  "sched_ok {''b.c'', ''a.c''} (fst (fst ingested)) \<and> sched_ready (fst (fst ingested)) = []
   \<and> (\<exists>c. content_of demo_codec (cs_dict (fst (snd (fst ingested)))) ''b.c'' = Some (Some c))
   \<and> waiters (fst (fst ingested)) = [(''a.h'', [''b.c''])]"
proof -
  have "snd ingested = None" by code_simp
  then have i: "ingest_changesets some_stage_env False some_batch (new_sched, (idle_gproc, some_ast_engine))
      = ((fst (fst ingested), snd (fst ingested)), None)" by (metis prod.collapse)
  have "waiters (fst (fst ingested)) = [(''a.h'', [''b.c''])]" by code_simp
  moreover have "faithful_codec (cs_codec some_stage_env)" "dict_ok (cs_codec some_stage_env) (cs_dict (fst (idle_gproc, some_ast_engine)))"
    by (simp_all add: some_stage_env_def faithful_demo idle_gproc_def new_cs_dict_def dict_ok_def content_of_def)
  moreover have "sched_ok {} new_sched" by (simp add: sched_ok_def new_sched_def dict_list_def)
  ultimately show ?thesis using no_file_lost[OF i, of "{}"] by (simp add: some_batch_def some_stage_env_def)
qed

end
