(* ===== verification/Kconfig_Numbers.thy ===== *)
theory Kconfig_Numbers
  imports Prelude_KI "HOL-Library.Word"
begin

section \<open>Numbers in configuration values (parser/kconfig_ast/kconfig_eval.py)\<close>

text \<open>
  The values of \<open>int\<close> and \<open>hex\<close> symbols are texts; they are compared and clamped through the C functions \<open>strtoll\<close> and
  \<open>strtoull\<close>, which saturate at the ends of 64 bits.  Shown here: how the texts the evaluator writes are read back, and
  that the limits are those of a 64-bit word.
\<close>

datatype ktype = Ty_bool | Ty_tristate | Ty_string | Ty_int | Ty_hex | Ty_unknown

subsection \<open>Digits\<close>

definition dec_digit :: "char \<Rightarrow> bool" where
  "dec_digit c \<longleftrightarrow> (48::nat) \<le> of_char c \<and> of_char c \<le> (57::nat)"

definition oct_digit :: "char \<Rightarrow> bool" where
  "oct_digit c \<longleftrightarrow> (48::nat) \<le> of_char c \<and> of_char c \<le> (55::nat)"

definition hex_digit :: "char \<Rightarrow> bool" where
  "hex_digit c \<longleftrightarrow> dec_digit c \<or> (65::nat) \<le> of_char c \<and> of_char c \<le> (70::nat) \<or> (97::nat) \<le> of_char c \<and> of_char c \<le> (102::nat)"

definition digit_val :: "char \<Rightarrow> int" where
  "digit_val c = (let n = (of_char c :: nat) in int (if n \<le> 57 then n - 48 else if n \<le> 70 then n - 55 else n - 87))"

text \<open>\<open>int(digits, base)\<close>\<close>

definition digits_val :: "int \<Rightarrow> string \<Rightarrow> int" where
  "digits_val base s = foldl (\<lambda>v c. base * v + digit_val c) 0 s"

definition hex_prefix :: "string \<Rightarrow> bool" where
  "hex_prefix s \<longleftrightarrow> startswith s ''0x'' \<or> startswith s ''0X''"

definition read_sign :: "string \<Rightarrow> bool \<times> string" where
  "read_sign s = (case s of
       c # cs \<Rightarrow> if c = CHR ''-'' then (True, cs) else if c = CHR ''+'' then (False, cs) else (False, s)
     | [] \<Rightarrow> (False, []))"

text \<open>\<open>_c_number\<close>\<close>

definition c_number :: "string \<Rightarrow> int \<Rightarrow> int" where
  "c_number text base = (case read_sign (dropWhile py_space text) of (neg, s) \<Rightarrow>
     (let digits = (if base = 16 then takeWhile hex_digit (if hex_prefix s then drop 2 s else s) else takeWhile dec_digit s);
          v = (if digits = [] then 0 else digits_val base digits)
      in if neg then - v else v))"

definition strtoll :: "string \<Rightarrow> int \<Rightarrow> int" where
  "strtoll text base = max (- (2 ^ 63)) (min (2 ^ 63 - 1) (c_number text base))"

definition strtoull :: "string \<Rightarrow> int \<Rightarrow> int" where
  "strtoull text base = (let v = c_number text base in if \<bar>v\<bar> > 2 ^ 64 - 1 then 2 ^ 64 - 1 else v mod 2 ^ 64)"

text \<open>\<open>_parse_number\<close>: the whole text is one number in range.\<close>

definition c_blank :: "char \<Rightarrow> bool" where
  "c_blank c \<longleftrightarrow> c \<in> set [CHR 0x20, CHR 0x09, CHR 0x0A, CHR 0x0B, CHR 0x0C, CHR 0x0D]"

definition parse_number :: "string \<Rightarrow> int \<Rightarrow> bool \<Rightarrow> int option" where
  "parse_number text base0 uns = (case read_sign (dropWhile c_blank text) of (neg, body0) \<Rightarrow>
     (let is_hex = base0 \<in> {0, 16} \<and> hex_prefix body0 \<and> (case drop 2 body0 of c # _ \<Rightarrow> hex_digit c | [] \<Rightarrow> False);
          body = (if is_hex then drop 2 body0 else body0);
          base = (if is_hex then 16 else if base0 = 0 then (if startswith body0 ''0'' then 8 else 10) else base0);
          ok = (if base = 8 then oct_digit else if base = 10 then dec_digit else hex_digit)
      in if body = [] \<or> \<not> list_all ok body then None
         else (let v = (if neg then - digits_val base body else digits_val base body)
               in if uns then (if \<bar>v\<bar> \<le> 2 ^ 64 - 1 then Some (v mod 2 ^ 64) else None)
                  else if - (2 ^ 63) \<le> v \<and> v \<le> 2 ^ 63 - 1 then Some v else None)))"

definition numeric_in_bounds :: "ktype \<Rightarrow> string \<Rightarrow> bool" where
  "numeric_in_bounds t text = (case t of
       Ty_int \<Rightarrow> - (2 ^ 63) \<le> c_number text 10 \<and> c_number text 10 \<le> 2 ^ 63 - 1
     | Ty_hex \<Rightarrow> \<bar>c_number text 16\<bar> \<le> 2 ^ 64 - 1
     | _ \<Rightarrow> True)"

definition int_text :: "string \<Rightarrow> bool" where
  "int_text s \<longleftrightarrow> s = ''0'' \<or> (case s of [] \<Rightarrow> False | c # cs \<Rightarrow> dec_digit c \<and> c \<noteq> CHR ''0'' \<and> list_all dec_digit cs)"

definition hex_text :: "string \<Rightarrow> bool" where
  "hex_text s \<longleftrightarrow> s \<noteq> [] \<and> list_all hex_digit s"

definition string_valid :: "ktype \<Rightarrow> string \<Rightarrow> bool" where
  "string_valid t text = (case t of
       Ty_string \<Rightarrow> True
     | Ty_int \<Rightarrow> int_text (if startswith text ''-'' then drop 1 text else text)
     | Ty_hex \<Rightarrow> hex_text text \<or> hex_prefix text \<and> hex_text (drop 2 text)
     | Ty_unknown \<Rightarrow> False
     | _ \<Rightarrow> (case text of [] \<Rightarrow> False | c # _ \<Rightarrow> c \<in> set ''yYmMnN''))"

subsection \<open>Writing\<close>

definition hex_char :: "nat \<Rightarrow> char" where
  "hex_char d = char_of (if d < 10 then 48 + d else 87 + d)"

text \<open>Positional numerals, most significant digit first; \<open>show_int\<close> is \<open>str(n)\<close>, \<open>show_hex\<close> is \<open>f"0x{n:x}"\<close>.\<close>

fun show_base :: "nat \<Rightarrow> nat \<Rightarrow> string" where
  "show_base b n = (if n < b \<or> b < 2 then [hex_char n] else show_base b (n div b) @ [hex_char (n mod b)])"

declare show_base.simps [simp del]

definition show_int :: "int \<Rightarrow> string" where
  "show_int n = (if n < 0 then ''-'' @ show_base 10 (nat (- n)) else show_base 10 (nat n))"

definition show_hex :: "int \<Rightarrow> string" where
  "show_hex n = ''0x'' @ show_base 16 (nat n)"

definition py_replace :: "char \<Rightarrow> string \<Rightarrow> string \<Rightarrow> string" where
  "py_replace c r s = concat (map (\<lambda>x. if x = c then r else [x]) s)"

definition escape_string :: "string \<Rightarrow> string" where
  "escape_string s = py_replace (CHR 0x22) [CHR 0x5C, CHR 0x22] (py_replace (CHR 0x5C) [CHR 0x5C, CHR 0x5C] s)"


subsection \<open>Reading back what was written\<close>

lemma of_hex_char: "d < 16 \<Longrightarrow> (of_char (hex_char d) :: nat) = (if d < 10 then 48 + d else 87 + d)"
  by (simp add: hex_char_def)

lemma char_neqI: "(of_char c :: nat) \<noteq> of_char c' \<Longrightarrow> c \<noteq> c'"
  by auto

lemma hex_char_facts:
  assumes "d < 16"
  shows "digit_val (hex_char d) = int d" "hex_digit (hex_char d)" "d < 10 \<Longrightarrow> dec_digit (hex_char d)" "\<not> py_space (hex_char d)"
    "hex_char d \<noteq> CHR ''-''" "hex_char d \<noteq> CHR ''+''" "hex_char d = CHR ''0'' \<longleftrightarrow> d = 0"
proof -
  note o = of_hex_char[OF assms]
  show "digit_val (hex_char d) = int d" "hex_digit (hex_char d)" "d < 10 \<Longrightarrow> dec_digit (hex_char d)"
    using assms by (auto simp: digit_val_def hex_digit_def dec_digit_def o Let_def)
  have n: "hex_char d \<noteq> c" if "(of_char c :: nat) < 48 \<or> 57 < (of_char c :: nat) \<and> (of_char c :: nat) < 97 \<or> 102 < (of_char c :: nat)" for c
    by (rule char_neqI) (use o assms that in \<open>auto split: if_splits\<close>)
  show "\<not> py_space (hex_char d)" by (auto simp: py_space_def n)
  show "hex_char d \<noteq> CHR ''-''" "hex_char d \<noteq> CHR ''+''" by (simp_all add: n)
  show "hex_char d = CHR ''0'' \<longleftrightarrow> d = 0"
  proof
    assume "hex_char d = CHR ''0''"
    then have "(of_char (hex_char d) :: nat) = 48" by simp
    then show "d = 0" using o assms by (auto split: if_splits)
  next
    have "hex_char 0 = CHR ''0''" by code_simp
    then show "d = 0 \<Longrightarrow> hex_char d = CHR ''0''" by simp
  qed
qed

lemma show_base_digits: "2 \<le> b \<Longrightarrow> b \<le> 16 \<Longrightarrow> set (show_base b n) \<subseteq> hex_char ` {..<b}"
proof (induction b n rule: show_base.induct)
  case (1 b n)
  have "n mod b < b" using 1(2) by simp
  then show ?case using 1 by (subst show_base.simps) auto
qed

lemma show_base_nonempty [simp]: "show_base b n \<noteq> []"
  by (subst show_base.simps) simp

lemma digits_val_snoc: "digits_val b (s @ [c]) = b * digits_val b s + digit_val c"
  by (simp add: digits_val_def)

lemma digits_val_show: "2 \<le> b \<Longrightarrow> b \<le> 16 \<Longrightarrow> digits_val (int b) (show_base b n) = int n"
proof (induction b n rule: show_base.induct)
  case (1 b n)
  show ?case
  proof (cases "n < b")
    case True
    then show ?thesis using 1(2,3) hex_char_facts(1)[of n] by (simp add: show_base.simps[of b n] digits_val_def)
  next
    case False
    have "digit_val (hex_char (n mod b)) = int (n mod b)" using hex_char_facts(1)[of "n mod b"] 1(2,3) mod_less_divisor[of b n] by linarith
    moreover have "int b * int (n div b) + int (n mod b) = int n" by (simp flip: of_nat_mult of_nat_add)
    ultimately show ?thesis using False 1 by (simp add: show_base.simps[of b n] digits_val_snoc)
  qed
qed

lemma show_base_head:
  assumes "2 \<le> b" "b \<le> 16"
  shows "\<exists>d ds. show_base b n = hex_char d # ds \<and> d < b \<and> (d = 0 \<longrightarrow> n = 0 \<and> ds = [])"
  using assms
proof (induction b n rule: show_base.induct)
  case (1 b n)
  show ?case
  proof (cases "n < b")
    case True
    then show ?thesis by (simp add: show_base.simps[of b n]) (rule exI[of _ n], simp)
  next
    case False
    then obtain d ds where d: "show_base b (n div b) = hex_char d # ds" "d < b" "d = 0 \<longrightarrow> n div b = 0" using 1 by auto
    have "n div b \<noteq> 0" using False 1(2) by (simp add: div_eq_0_iff)
    then show ?thesis using d False 1(2) by (simp add: show_base.simps[of b n]) (rule exI[of _ d], simp)
  qed
qed

lemma show_dec: "list_all dec_digit (show_base 10 n)"
  using show_base_digits[of 10 n] hex_char_facts(3) by (force simp: list_all_iff)

lemma show_hexits: "list_all hex_digit (show_base 16 n)"
  using show_base_digits[of 16 n] hex_char_facts(2) by (force simp: list_all_iff)

lemma takeWhile_all: "list_all P s \<Longrightarrow> takeWhile P s = s"
  by (induction s) simp_all

lemma c_number_show_int [simp]: "c_number (show_int n) 10 = n"
proof -
  obtain d ds where h: "show_base 10 (nat \<bar>n\<bar>) = hex_char d # ds" "d < 10" using show_base_head[of 10 "nat \<bar>n\<bar>"] by auto
  note f = hex_char_facts[of d]
  have dw: "dropWhile py_space (show_base 10 (nat \<bar>n\<bar>)) = show_base 10 (nat \<bar>n\<bar>)" using h f by simp
  have rs: "read_sign (show_base 10 (nat \<bar>n\<bar>)) = (False, show_base 10 (nat \<bar>n\<bar>))" using h f by (simp add: read_sign_def)
  have v: "digits_val 10 (takeWhile dec_digit (show_base 10 (nat \<bar>n\<bar>))) = \<bar>n\<bar>"
    using digits_val_show[of 10 "nat \<bar>n\<bar>"] by (simp add: takeWhile_all[OF show_dec])
  have t: "takeWhile dec_digit (show_base 10 (nat \<bar>n\<bar>)) \<noteq> []" by (simp add: takeWhile_all[OF show_dec])
  show ?thesis
  proof (cases "n < 0")
    case True
    have "\<not> py_space (CHR ''-'')" by code_simp
    then have "read_sign (dropWhile py_space (show_int n)) = (True, show_base 10 (nat \<bar>n\<bar>))"
      using True by (simp add: show_int_def read_sign_def)
    then show ?thesis using v t True by (simp add: c_number_def)
  next
    case False
    then have "read_sign (dropWhile py_space (show_int n)) = (False, show_base 10 (nat \<bar>n\<bar>))"
      using dw rs by (simp add: show_int_def)
    then show ?thesis using v t False by (simp add: c_number_def)
  qed
qed

lemma c_number_show_hex [simp]:
  assumes "0 \<le> n"
  shows "c_number (show_hex n) 16 = n"
proof -
  have "digits_val 16 (show_base 16 (nat n)) = n" using digits_val_show[of 16 "nat n"] assms by simp
  moreover have "read_sign (dropWhile py_space (show_hex n)) = (False, show_hex n)" "hex_prefix (show_hex n)" "drop 2 (show_hex n) = show_base 16 (nat n)"
    by (simp_all add: show_hex_def read_sign_def py_space_def hex_prefix_def startswith_def)
  ultimately show ?thesis by (simp add: c_number_def takeWhile_all[OF show_hexits])
qed

lemma string_valid_show_int: "string_valid Ty_int (show_int n)"
proof -
  obtain d ds where h: "show_base 10 (nat \<bar>n\<bar>) = hex_char d # ds" "d < 10" "d = 0 \<longrightarrow> ds = []" using show_base_head[of 10 "nat \<bar>n\<bar>"] by auto
  have "int_text (show_base 10 (nat \<bar>n\<bar>))"
    using h show_dec[of "nat \<bar>n\<bar>"] hex_char_facts(3,7)[of d] by (cases "d = 0") (auto simp: int_text_def)
  then show ?thesis using h hex_char_facts(5)[of d] by (auto simp: show_int_def string_valid_def startswith_def)
qed

lemma string_valid_show_hex: "string_valid Ty_hex (show_hex n)"
  using show_hexits[of "nat n"] by (simp add: string_valid_def show_hex_def hex_prefix_def hex_text_def startswith_def)

subsection \<open>Sixty-four bits\<close>

lemma strtoll_range: "- (2 ^ 63) \<le> strtoll text b" "strtoll text b < 2 ^ 63"
  by (auto simp: strtoll_def)

lemma strtoll_exact: "- (2 ^ 63) \<le> c_number text b \<Longrightarrow> c_number text b < 2 ^ 63 \<Longrightarrow> strtoll text b = c_number text b"
  by (simp add: strtoll_def)

lemma strtoull_word: "\<bar>c_number text b\<bar> < 2 ^ 64 \<Longrightarrow> strtoull text b = uint (word_of_int (c_number text b) :: 64 word)"
  by (simp add: strtoull_def unsigned_of_int take_bit_eq_mod Let_def)

lemma strtoull_range: "0 \<le> strtoull text b" "strtoull text b < 2 ^ 64"
  by (simp_all add: strtoull_def Let_def)

lemma in_bounds_exact:
  "numeric_in_bounds Ty_int text \<Longrightarrow> strtoll text 10 = c_number text 10"
  "numeric_in_bounds Ty_hex text \<Longrightarrow> strtoull text 16 = uint (word_of_int (c_number text 16) :: 64 word)"
  by (simp_all add: numeric_in_bounds_def strtoll_exact strtoull_word)

end
