(* ===== verification/Kconfig_Eval.thy ===== *)
theory Kconfig_Eval
  imports Kconfig_Numbers "HOL-Library.Char_ord" "HOL-Library.List_Lexorder"
begin

section \<open>Values of configuration symbols (KconfigEvaluator, parser/kconfig_ast/kconfig_eval.py)\<close>

text \<open>
  The evaluator computes values lazily and memoises them; a symbol that is asked for while it is being computed reads a
  provisional value.  Four functions call each other: expressions, visibilities, values and (since Linux 6.11) the
  selections of choices.  Each is a step over an unspecified \<open>call\<close> of the four, and \<open>run\<close> ties the knot with fuel.  An
  outcome is a value with the new state, a \<open>KeyError\<close>, or the end of the fuel; \<open>Kconfig_Eval_Facts\<close> shows how much fuel is
  enough.
\<close>

subsection \<open>The model\<close>

datatype rel_op = R_eq | R_ne | R_lt | R_le | R_gt | R_ge

text \<open>An expression node, its children by number.\<close>

datatype enode = E_sym string | E_const string | E_and nat nat | E_or nat nat | E_not nat | E_rel rel_op nat nat

text \<open>A condition is a node's number, negative where there is none.\<close>

record symbol =
  s_type :: ktype
  prompts :: "int list"
  defaults :: "(nat \<times> int) list"
  ranges :: "(nat \<times> nat \<times> int) list"
  rev_dep :: int
  implied :: int
  dir_dep :: int
  s_choice :: "string option"
  is_choice :: bool
  members :: "string list"
  s_auto :: bool
  s_optional :: bool
  allnoconfig_y :: bool
  transitional :: bool

record semantics =
  compare_fallback_strcmp :: bool
  typed_comparisons :: bool
  const_tristate_type :: bool
  int_hex_zero_default :: bool
  write_on_nonzero_default :: bool
  tristate_choice_mod_hidden :: bool
  implied_needs_dir_dep :: bool
  implied_y_forces_y :: bool
  imply_obeys_dir_dep :: bool
  hex_range_unsigned :: bool
  range_bound_text :: bool
  numeric_bounds_check :: bool
  conf_read_keeps_invisible :: bool
  conf_read_keeps_out_of_range :: bool
  default_range_clamp :: bool
  choice_priority :: bool

record kmodel =
  exprs :: "enode list"
  syms :: "(string, symbol) dict"
  modules_sym :: string
  sem :: semantics

datatype kvalue = V_tri nat | V_str string

text \<open>The user's values and the caches; \<open>raw_write\<close> is the part of \<open>_write\<close> under the keys of choices.\<close>

record kstate =
  user :: "(string, string) dict"
  choice_user :: "(string, string) dict"
  choice_order :: "(string, string list) dict"
  cur :: "(string, kvalue) dict"
  write_of :: "(string, bool) dict"
  raw_write :: "(string, bool) dict"
  vis_of :: "(string, nat) dict"
  rev_of :: "(string, nat) dict"
  implied_of :: "(string, nat) dict"
  dir_of :: "(string, nat) dict"
  sel_of :: "(string, string option) dict"
  expr_memo :: "(nat, nat) dict"

definition clear_caches :: "kstate \<Rightarrow> kstate" where
  "clear_caches s = s\<lparr>cur := [], write_of := [], raw_write := [], vis_of := [], rev_of := [], implied_of := [], dir_of := [],
     sel_of := [], expr_memo := []\<rparr>"

subsection \<open>Outcomes\<close>

datatype 'a outcome = Out_of_fuel | Key_missing | Ret 'a kstate

type_synonym 'a kev = "kstate \<Rightarrow> 'a outcome"

definition ret :: "'a \<Rightarrow> 'a kev" where
  "ret v s = Ret v s"

text \<open>\<open>after m k\<close> runs \<open>m\<close> and passes its value on.\<close>

definition after :: "'a kev \<Rightarrow> ('a \<Rightarrow> 'b kev) \<Rightarrow> 'b kev" where
  "after m k s = (case m s of Out_of_fuel \<Rightarrow> Out_of_fuel | Key_missing \<Rightarrow> Key_missing | Ret v s1 \<Rightarrow> k v s1)"

definition asks :: "(kstate \<Rightarrow> 'a) \<Rightarrow> 'a kev" where
  "asks f s = Ret (f s) s"

definition modify :: "(kstate \<Rightarrow> kstate) \<Rightarrow> unit kev" where
  "modify f s = Ret () (f s)"

definition key :: "'a option \<Rightarrow> 'a kev" where
  "key x s = (case x of Some v \<Rightarrow> Ret v s | None \<Rightarrow> Key_missing)"

definition read_key :: "(kstate \<Rightarrow> ('k, 'v) dict) \<Rightarrow> 'k \<Rightarrow> 'v kev" where
  "read_key f k = after (asks (\<lambda>s. dict_get (f s) k)) key"

datatype query = Q_expr nat | Q_vis string | Q_calc string | Q_sel string

type_synonym call = "query \<Rightarrow> nat kev"

subsection \<open>Leaves and comparisons\<close>

definition tri_of :: "string \<Rightarrow> nat option" where
  "tri_of t = (if t = ''n'' then Some 0 else if t = ''m'' then Some 1 else if t = ''y'' then Some 2 else None)"

definition tri_char :: "nat \<Rightarrow> string" where
  "tri_char n = (if n = 0 then ''n'' else if n = 1 then ''m'' else ''y'')"

definition string_type :: "ktype \<Rightarrow> bool" where
  "string_type t \<longleftrightarrow> t \<in> {Ty_string, Ty_int, Ty_hex}"

definition node :: "kmodel \<Rightarrow> nat \<Rightarrow> enode kev" where
  "node M e = key (if e < length (exprs M) then Some (exprs M ! e) else None)"

definition sym :: "kmodel \<Rightarrow> string \<Rightarrow> symbol kev" where
  "sym M n = key (dict_get (syms M) n)"

definition is_defined :: "kmodel \<Rightarrow> string \<Rightarrow> bool" where
  "is_defined M n \<longleftrightarrow> (case dict_get (syms M) n of Some y \<Rightarrow> s_type y \<noteq> Ty_unknown | None \<Rightarrow> False)"

definition expr_tri :: "call \<Rightarrow> int \<Rightarrow> nat kev" where
  "expr_tri f e = (if e < 0 then ret 2 else f (Q_expr (nat e)))"

definition sym_tri :: "kmodel \<Rightarrow> call \<Rightarrow> string \<Rightarrow> nat kev" where
  "sym_tri M f n = (case tri_of n of
       Some t \<Rightarrow> ret t
     | None \<Rightarrow> if \<not> is_defined M n then ret 0
         else after (f (Q_calc n)) (\<lambda>_. after (read_key cur n) (\<lambda>v. ret (case v of V_tri t \<Rightarrow> t | V_str _ \<Rightarrow> 0))))"

definition sym_str :: "kmodel \<Rightarrow> call \<Rightarrow> string \<Rightarrow> string kev" where
  "sym_str M f n = (if tri_of n \<noteq> None \<or> \<not> is_defined M n then ret n
     else after (f (Q_calc n)) (\<lambda>_. after (read_key cur n) (\<lambda>v. ret (case v of V_tri t \<Rightarrow> tri_char t | V_str t \<Rightarrow> t))))"

text \<open>A leaf is a constant or a symbol; the model builder puts nothing else where a leaf is read.\<close>

definition leaf_str :: "kmodel \<Rightarrow> call \<Rightarrow> nat \<Rightarrow> string kev" where
  "leaf_str M f e = after (node M e) (\<lambda>n. case n of E_const t \<Rightarrow> ret t | E_sym x \<Rightarrow> sym_str M f x | _ \<Rightarrow> key None)"

definition leaf_text :: "enode \<Rightarrow> string option" where
  "leaf_text n = (case n of E_const t \<Rightarrow> Some t | E_sym t \<Rightarrow> Some t | _ \<Rightarrow> None)"

definition leaf_type :: "kmodel \<Rightarrow> nat \<Rightarrow> ktype kev" where
  "leaf_type M e = after (node M e) (\<lambda>n.
     ret (case (case n of E_sym x \<Rightarrow> dict_get (syms M) x | _ \<Rightarrow> None) of
         Some y \<Rightarrow> s_type y
       | None \<Rightarrow> (case leaf_text n of
             Some t \<Rightarrow> if tri_of t \<noteq> None \<and> const_tristate_type (sem M) then Ty_tristate else Ty_unknown
           | None \<Rightarrow> Ty_unknown)))"

datatype leaf_value = L_signed int | L_unsigned int | L_string | L_invalid

definition parse_leaf :: "semantics \<Rightarrow> string \<Rightarrow> ktype \<Rightarrow> leaf_value" where
  "parse_leaf S text t =
     (if t = Ty_bool \<or> t = Ty_tristate then L_signed (case tri_of text of Some n \<Rightarrow> int n | None \<Rightarrow> - 1)
      else (case (if t = Ty_int then map_option L_signed (parse_number text 10 False)
                  else if t = Ty_hex then map_option L_unsigned (parse_number text 16 True)
                  else map_option L_signed (parse_number text 0 False)) of
          Some v \<Rightarrow> v
        | None \<Rightarrow> if compare_fallback_strcmp S then L_string else L_invalid))"

definition ordered :: "('a::linorder) \<Rightarrow> 'a \<Rightarrow> int" where
  "ordered a b = (if a > b then 1 else if a < b then - 1 else 0)"

definition leaf_number :: "leaf_value \<Rightarrow> int" where
  "leaf_number v = (case v of L_signed n \<Rightarrow> n | L_unsigned n \<Rightarrow> n | _ \<Rightarrow> 0)"

definition rel_holds :: "rel_op \<Rightarrow> int \<Rightarrow> bool" where
  "rel_holds r d = (case r of R_eq \<Rightarrow> d = 0 | R_ne \<Rightarrow> d \<noteq> 0 | R_lt \<Rightarrow> d < 0 | R_le \<Rightarrow> d \<le> 0 | R_gt \<Rightarrow> d > 0 | R_ge \<Rightarrow> d \<ge> 0)"

definition compare_texts :: "semantics \<Rightarrow> rel_op \<Rightarrow> string \<Rightarrow> ktype \<Rightarrow> string \<Rightarrow> ktype \<Rightarrow> nat" where
  "compare_texts S r s1 t1 s2 t2 =
     (let typed = typed_comparisons S \<and> (t1 \<noteq> Ty_string \<or> t2 \<noteq> Ty_string);
          v1 = (if typed then parse_leaf S s1 t1 else L_string);
          v2 = (if typed then parse_leaf S s2 t2 else L_string);
          is_unsigned = (\<lambda>v. case v of L_unsigned _ \<Rightarrow> True | _ \<Rightarrow> False)
      in if v1 = L_string \<or> v2 = L_string then (if rel_holds r (ordered s1 s2) then 2 else 0)
         else if v1 = L_invalid \<or> v2 = L_invalid then
           (if r \<noteq> R_eq \<and> r \<noteq> R_ne then 0 else if rel_holds r (ordered s1 s2) then 2 else 0)
         else if is_unsigned v1 \<or> is_unsigned v2 then
           (if rel_holds r (ordered (leaf_number v1 mod 2 ^ 64) (leaf_number v2 mod 2 ^ 64)) then 2 else 0)
         else (if rel_holds r (ordered (leaf_number v1) (leaf_number v2)) then 2 else 0))"

definition compare :: "kmodel \<Rightarrow> call \<Rightarrow> rel_op \<Rightarrow> nat \<Rightarrow> nat \<Rightarrow> nat kev" where
  "compare M f r a b = after (leaf_str M f a) (\<lambda>s1. after (leaf_str M f b) (\<lambda>s2.
     after (leaf_type M a) (\<lambda>t1. after (leaf_type M b) (\<lambda>t2. ret (compare_texts (sem M) r s1 t1 s2 t2)))))"

text \<open>\<open>expr_tri\<close> of a node\<close>

definition expr_node :: "kmodel \<Rightarrow> call \<Rightarrow> enode \<Rightarrow> nat kev" where
  "expr_node M f n = (case n of
       E_sym x \<Rightarrow> sym_tri M f x
     | E_const t \<Rightarrow> ret (if length t = 1 then (case tri_of t of Some v \<Rightarrow> v | None \<Rightarrow> 0) else 0)
     | E_and a b \<Rightarrow> after (f (Q_expr a)) (\<lambda>x. after (f (Q_expr b)) (\<lambda>y. ret (min x y)))
     | E_or a b \<Rightarrow> after (f (Q_expr a)) (\<lambda>x. after (f (Q_expr b)) (\<lambda>y. ret (max x y)))
     | E_not a \<Rightarrow> after (f (Q_expr a)) (\<lambda>x. ret (2 - x))
     | E_rel r a b \<Rightarrow> compare M f r a b)"

definition expr_step :: "kmodel \<Rightarrow> call \<Rightarrow> nat \<Rightarrow> nat kev" where
  "expr_step M f e = after (asks (\<lambda>s. dict_get (expr_memo s) e)) (\<lambda>m. case m of
       Some v \<Rightarrow> ret v
     | None \<Rightarrow> after (node M e) (\<lambda>n. after (expr_node M f n) (\<lambda>v.
         after (modify (\<lambda>s. s\<lparr>expr_memo := dict_set e v (expr_memo s)\<rparr>)) (\<lambda>_. ret v))))"


subsection \<open>Visibility\<close>

definition modules_val :: "kmodel \<Rightarrow> call \<Rightarrow> nat kev" where
  "modules_val M f = sym_tri M f (modules_sym M)"

definition get_type :: "kmodel \<Rightarrow> call \<Rightarrow> string \<Rightarrow> ktype kev" where
  "get_type M f n = after (sym M n) (\<lambda>y.
     if s_type y \<noteq> Ty_tristate then ret (s_type y)
     else after (if s_choice y \<noteq> None then f (Q_vis n) else ret 0) (\<lambda>v.
       if v = 2 then ret Ty_bool
       else if n = modules_sym M then ret Ty_tristate
       else after (modules_val M f) (\<lambda>m. ret (if m = 0 then Ty_bool else Ty_tristate))))"

text \<open>The most visible prompt; \<open>hide\<close>: m-visible values of a y choice do not count.\<close>

fun prompts_vis :: "call \<Rightarrow> bool \<Rightarrow> int list \<Rightarrow> nat \<Rightarrow> nat kev" where
  "prompts_vis f hide [] vis = ret vis"
| "prompts_vis f hide (p # ps) vis = after (expr_tri f p) (\<lambda>t. prompts_vis f hide ps (max vis (if hide \<and> t = 1 then 0 else t)))"

text \<open>A value of m counts as y for a symbol that is boolean now.\<close>

definition y_if_bool :: "kmodel \<Rightarrow> call \<Rightarrow> string \<Rightarrow> nat \<Rightarrow> nat kev" where
  "y_if_bool M f n v = (if v = 1 then after (get_type M f n) (\<lambda>t. ret (if t = Ty_bool then 2 else v)) else ret v)"

definition set_deps :: "string \<Rightarrow> nat \<Rightarrow> nat \<Rightarrow> nat \<Rightarrow> unit kev" where
  "set_deps n d r i = modify (\<lambda>s. s\<lparr>dir_of := dict_set n d (dir_of s), rev_of := dict_set n r (rev_of s), implied_of := dict_set n i (implied_of s)\<rparr>)"

text \<open>Direct, reverse and implied dependencies, each stored as soon as it is known.\<close>

definition calc_deps :: "kmodel \<Rightarrow> call \<Rightarrow> string \<Rightarrow> symbol \<Rightarrow> unit kev" where
  "calc_deps M f n y =
     after (expr_tri f (dir_dep y)) (\<lambda>d0. after (y_if_bool M f n d0) (\<lambda>d.
     after (modify (\<lambda>s. s\<lparr>dir_of := dict_set n d (dir_of s)\<rparr>)) (\<lambda>_.
     after (if rev_dep y \<ge> 0 then expr_tri f (rev_dep y) else ret 0) (\<lambda>r0. after (y_if_bool M f n r0) (\<lambda>r.
     after (modify (\<lambda>s. s\<lparr>rev_of := dict_set n r (rev_of s)\<rparr>)) (\<lambda>_.
     after (if implied y \<ge> 0 then expr_tri f (implied y) else ret 0) (\<lambda>i0.
     after (y_if_bool M f n (if implied_needs_dir_dep (sem M) \<and> d = 0 then 0 else i0)) (\<lambda>i.
     modify (\<lambda>s. s\<lparr>implied_of := dict_set n i (implied_of s)\<rparr>)))))))))"

definition vis_step :: "kmodel \<Rightarrow> call \<Rightarrow> string \<Rightarrow> nat kev" where
  "vis_step M f n = after (asks (\<lambda>s. dict_get (vis_of s) n)) (\<lambda>m. case m of
       Some v \<Rightarrow> ret v
     | None \<Rightarrow> after (sym M n) (\<lambda>y.
         if transitional y then
           after (modify (\<lambda>s. s\<lparr>vis_of := dict_set n 2 (vis_of s)\<rparr>)) (\<lambda>_. after (set_deps n 0 0 0) (\<lambda>_. ret 2))
         else
           after (case s_choice y of
               Some c \<Rightarrow> if tristate_choice_mod_hidden (sem M) \<and> s_type y = Ty_tristate
                 then after (sym_tri M f c) (\<lambda>t. ret (t = 2)) else ret False
             | None \<Rightarrow> ret False) (\<lambda>hide.
           after (prompts_vis f hide (prompts y) 0) (\<lambda>v0.
           after (if v0 = 1 \<and> s_type y = Ty_tristate then after (modules_val M f) (\<lambda>m. ret (m = 0)) else ret (v0 = 1)) (\<lambda>up.
           (let v = (if up then 2 else v0)
            in after (modify (\<lambda>s. s\<lparr>vis_of := dict_set n v (vis_of s)\<rparr>)) (\<lambda>_.
               after (if s_choice y \<noteq> None then set_deps n 2 0 0 else calc_deps M f n y) (\<lambda>_. ret v))))))))"

subsection \<open>Defaults and choices\<close>

text \<open>\<open>_default_prop\<close>: the first default whose condition is not n.\<close>

fun default_prop :: "call \<Rightarrow> (nat \<times> int) list \<Rightarrow> (nat \<times> nat) option kev" where
  "default_prop f [] = ret None"
| "default_prop f ((v, c) # ds) = after (expr_tri f c) (\<lambda>t. if t \<noteq> 0 then ret (Some (v, t)) else default_prop f ds)"

text \<open>The first of the members that is visible and satisfies a condition on the user's values.\<close>

fun find_member :: "call \<Rightarrow> (kstate \<Rightarrow> string \<Rightarrow> bool) \<Rightarrow> string list \<Rightarrow> string option kev" where
  "find_member f P [] = ret None"
| "find_member f P (m # ms) = after (f (Q_vis m)) (\<lambda>v. after (asks (\<lambda>s. v \<noteq> 0 \<and> P s m)) (\<lambda>ok.
     if ok then ret (Some m) else find_member f P ms))"

fun default_member :: "kmodel \<Rightarrow> call \<Rightarrow> (nat \<times> int) list \<Rightarrow> string option kev" where
  "default_member M f [] = ret None"
| "default_member M f ((v, c) # ds) = after (expr_tri f c) (\<lambda>t.
     if t = 0 then default_member M f ds
     else after (node M v) (\<lambda>n. case n of
         E_sym x \<Rightarrow> if dict_get (syms M) x \<noteq> None
           then after (f (Q_vis x)) (\<lambda>w. if w \<noteq> 0 then ret (Some x) else default_member M f ds)
           else default_member M f ds
       | _ \<Rightarrow> default_member M f ds))"

definition choice_default :: "kmodel \<Rightarrow> call \<Rightarrow> symbol \<Rightarrow> string option kev" where
  "choice_default M f y = after (default_member M f (defaults y)) (\<lambda>d. case d of
       Some x \<Rightarrow> ret (Some x) | None \<Rightarrow> find_member f (\<lambda>_ _. True) (members y))"

fun visit_all :: "call \<Rightarrow> string list \<Rightarrow> unit kev" where
  "visit_all f [] = ret ()"
| "visit_all f (m # ms) = after (f (Q_vis m)) (\<lambda>_. visit_all f ms)"

text \<open>\<open>_calc_choice\<close>\<close>

definition calc_choice :: "kmodel \<Rightarrow> call \<Rightarrow> string \<Rightarrow> symbol \<Rightarrow> string option kev" where
  "calc_choice M f c y = after (visit_all f (members y)) (\<lambda>_.
     after (asks (\<lambda>s. dict_get (choice_user s) c)) (\<lambda>u.
     after (case u of
         Some x \<Rightarrow> if x \<noteq> [] \<and> dict_get (syms M) x \<noteq> None then f (Q_vis x) else ret 0
       | None \<Rightarrow> ret 0) (\<lambda>v.
     if v \<noteq> 0 then ret u
     else after (choice_default M f y) (\<lambda>d. case d of
         Some x \<Rightarrow> ret (Some x)
       | None \<Rightarrow> after (modify (\<lambda>s. s\<lparr>cur := dict_set c (V_tri 0) (cur s)\<rparr>)) (\<lambda>_. ret None)))))"

text \<open>\<open>_calc_choice_modern\<close>: by priority, then the default, then declaration order.\<close>

definition or_member :: "string option \<Rightarrow> string option kev \<Rightarrow> string option kev" where
  "or_member r m = (case r of Some x \<Rightarrow> ret (Some x) | None \<Rightarrow> m)"

definition calc_choice_modern :: "kmodel \<Rightarrow> call \<Rightarrow> string \<Rightarrow> symbol \<Rightarrow> string option kev" where
  "calc_choice_modern M f c y =
     after (asks (\<lambda>s. case dict_get (choice_order s) c of Some (m # ms) \<Rightarrow> m # ms | _ \<Rightarrow> members y)) (\<lambda>order.
     after (find_member f (\<lambda>s m. dict_get (user s) m = Some ''y'') order) (\<lambda>r1.
     after (or_member r1 (after (choice_default M f y) (\<lambda>d. case d of
         None \<Rightarrow> ret None
       | Some x \<Rightarrow> asks (\<lambda>s. if dict_get (user s) x = Some ''n'' then None else Some x)))) (\<lambda>r2.
     after (or_member r2 (find_member f (\<lambda>s m. dict_get (user s) m = None) (members y))) (\<lambda>r3.
     or_member r3 (find_member f (\<lambda>_ _. True) (rev order))))))"

definition sel_step :: "kmodel \<Rightarrow> call \<Rightarrow> string \<Rightarrow> nat kev" where
  "sel_step M f c = after (asks (\<lambda>s. dict_get (sel_of s) c)) (\<lambda>m. case m of
       Some _ \<Rightarrow> ret 0
     | None \<Rightarrow> after (modify (\<lambda>s. s\<lparr>sel_of := dict_set c None (sel_of s)\<rparr>)) (\<lambda>_.
         after (sym M c) (\<lambda>y. after (calc_choice_modern M f c y) (\<lambda>r.
         after (modify (\<lambda>s. s\<lparr>sel_of := dict_set c r (sel_of s)\<rparr>)) (\<lambda>_. ret 0)))))"

definition choice_selection :: "kmodel \<Rightarrow> call \<Rightarrow> string \<Rightarrow> string option kev" where
  "choice_selection M f c =
     (if choice_priority (sem M) then after (f (Q_sel c)) (\<lambda>_. read_key sel_of c)
      else after (f (Q_calc c)) (\<lambda>_. after (read_key cur c) (\<lambda>v.
        asks (\<lambda>s. if v = V_tri 2 then (case dict_get (sel_of s) c of Some r \<Rightarrow> r | None \<Rightarrow> None) else None))))"


subsection \<open>Values\<close>

definition empty_value :: "semantics \<Rightarrow> ktype \<Rightarrow> string" where
  "empty_value S t = (if int_hex_zero_default S then (if t = Ty_int then ''0'' else if t = Ty_hex then ''0x0'' else []) else [])"

text \<open>\<open>_inherit_transitional\<close>\<close>

definition inherit_transitional :: "kmodel \<Rightarrow> string \<Rightarrow> (nat \<times> nat) option \<Rightarrow> string \<Rightarrow> unit kev" where
  "inherit_transitional M n prop v = after (asks (\<lambda>s. dict_get (user s) n)) (\<lambda>u. case (prop, u) of
       (Some (e, _), None) \<Rightarrow> after (node M e) (\<lambda>nd. modify (\<lambda>s. case nd of
           E_sym x \<Rightarrow> if (case dict_get (syms M) x of Some y \<Rightarrow> transitional y | None \<Rightarrow> False) \<and> dict_get (user s) x \<noteq> None
             then s\<lparr>user := dict_set n v (user s)\<rparr> else s
         | _ \<Rightarrow> s))
     | _ \<Rightarrow> ret ())"

text \<open>The value of a bool or tristate by prompt, defaults, implies and selects, with what it says about writing.\<close>

definition plain_tri :: "kmodel \<Rightarrow> call \<Rightarrow> string \<Rightarrow> symbol \<Rightarrow> nat \<Rightarrow> nat \<Rightarrow> bool \<Rightarrow> (nat \<times> bool \<times> (nat \<times> nat) option) kev" where
  "plain_tri M f n y vis rv write0 =
     after (asks (\<lambda>s. if vis \<noteq> 0 then dict_get (user s) n else None)) (\<lambda>u. case u of
         Some t \<Rightarrow> after (key (tri_of t)) (\<lambda>x. ret (max (min x vis) rv, True, None))
       | None \<Rightarrow>
           (let write1 = (write0 \<or> vis \<noteq> 0 \<or> rv \<noteq> 0)
            in if is_choice y then ret (rv, write1, None)
               else after (default_prop f (defaults y)) (\<lambda>prop.
                 after (case prop of
                     None \<Rightarrow> ret (0, write1)
                   | Some (e, t) \<Rightarrow> after (f (Q_expr e)) (\<lambda>x.
                       ret (min x t, write1 \<or> min x t \<noteq> 0 \<or> \<not> write_on_nonzero_default (sem M)))) (\<lambda>(v, write2).
                 after (asks (\<lambda>s. case dict_get (implied_of s) n of Some i \<Rightarrow> i | None \<Rightarrow> 0)) (\<lambda>i.
                 after (if i \<noteq> 0 \<and> imply_obeys_dir_dep (sem M) then read_key dir_of n else ret (max v i)) (\<lambda>d.
                   ret (max (if i \<noteq> 0 then min (max v i) d else v) rv, write2 \<or> i \<noteq> 0, prop)))))))"

definition tri_value :: "kmodel \<Rightarrow> call \<Rightarrow> string \<Rightarrow> symbol \<Rightarrow> nat \<Rightarrow> nat \<Rightarrow> bool \<Rightarrow> (nat \<times> bool \<times> (nat \<times> nat) option) kev" where
  "tri_value M f n y vis rv write0 = (case s_choice y of
       Some c \<Rightarrow>
         if choice_priority (sem M) \<or> vis = 2
         then after (if vis \<noteq> 0 then choice_selection M f c else ret None) (\<lambda>r. ret (if r = Some n then 2 else 0, write0, None))
         else plain_tri M f n y vis rv write0
     | None \<Rightarrow> plain_tri M f n y vis rv write0)"

text \<open>m where m cannot be\<close>

definition settle_tri :: "kmodel \<Rightarrow> string \<Rightarrow> ktype \<Rightarrow> nat \<Rightarrow> nat kev" where
  "settle_tri M n t v = asks (\<lambda>s.
     if v = 1 \<and> (t = Ty_bool \<or> implied_y_forces_y (sem M) \<and> dict_get (implied_of s) n = Some 2) then 2 else v)"

subsection \<open>Ranges\<close>

text \<open>\<open>_active_range\<close>\<close>

fun active_range :: "call \<Rightarrow> (nat \<times> nat \<times> int) list \<Rightarrow> (nat \<times> nat) option kev" where
  "active_range f [] = ret None"
| "active_range f ((lo, hi, c) # rs) = after (expr_tri f c) (\<lambda>t. if t \<noteq> 0 then ret (Some (lo, hi)) else active_range f rs)"

text \<open>\<open>_range_val\<close>: a bound that names a number symbol is read in that symbol's base.\<close>

definition bound_base :: "kmodel \<Rightarrow> enode \<Rightarrow> int \<Rightarrow> int" where
  "bound_base M nd b = (case nd of
       E_sym x \<Rightarrow> (case dict_get (syms M) x of
           Some y \<Rightarrow> if s_type y = Ty_int then 10 else if s_type y = Ty_hex then 16 else b
         | None \<Rightarrow> b)
     | _ \<Rightarrow> b)"

definition range_val :: "kmodel \<Rightarrow> call \<Rightarrow> nat \<Rightarrow> int \<Rightarrow> bool \<Rightarrow> int kev" where
  "range_val M f e b uns = after (node M e) (\<lambda>nd. let b1 = bound_base M nd b
     in after (leaf_str M f e) (\<lambda>t. ret (if uns \<and> b1 = 16 then strtoull t b1 else strtoll t b1)))"

definition number_base :: "ktype \<Rightarrow> int" where
  "number_base t = (if t = Ty_hex then 16 else 10)"

definition reads_unsigned :: "semantics \<Rightarrow> ktype \<Rightarrow> bool" where
  "reads_unsigned S t \<longleftrightarrow> t = Ty_hex \<and> hex_range_unsigned S"

definition read_number :: "semantics \<Rightarrow> ktype \<Rightarrow> string \<Rightarrow> int" where
  "read_number S t text = (if reads_unsigned S t then strtoull text (number_base t) else strtoll text (number_base t))"

text \<open>\<open>_near_range_bound\<close>: the bound an out-of-range value is moved to.\<close>

definition near_range_bound :: "kmodel \<Rightarrow> call \<Rightarrow> symbol \<Rightarrow> string \<Rightarrow> nat option kev" where
  "near_range_bound M f y text = after (active_range f (ranges y)) (\<lambda>r. case r of
       None \<Rightarrow> ret None
     | Some (lo, hi) \<Rightarrow>
         if s_type y \<noteq> Ty_int \<and> s_type y \<noteq> Ty_hex then ret None
         else (let v = read_number (sem M) (s_type y) text; b = number_base (s_type y); u = reads_unsigned (sem M) (s_type y)
           in after (range_val M f lo b u) (\<lambda>l.
                if v < l then ret (Some lo)
                else after (range_val M f hi b u) (\<lambda>h. ret (if v \<le> h then None else Some hi)))))"

definition bound_text :: "kmodel \<Rightarrow> call \<Rightarrow> symbol \<Rightarrow> nat \<Rightarrow> string kev" where
  "bound_text M f y e = (if range_bound_text (sem M) then leaf_str M f e
     else after (range_val M f e (number_base (s_type y)) False) (\<lambda>b.
       ret (if s_type y = Ty_int then show_int b else show_hex (b mod 2 ^ 64))))"

definition validate_range :: "kmodel \<Rightarrow> call \<Rightarrow> string \<Rightarrow> symbol \<Rightarrow> string \<Rightarrow> unit kev" where
  "validate_range M f n y text = after (near_range_bound M f y text) (\<lambda>b. case b of
       None \<Rightarrow> ret ()
     | Some e \<Rightarrow> after (bound_text M f y e) (\<lambda>t. modify (\<lambda>s. s\<lparr>cur := dict_set n (V_str t) (cur s)\<rparr>)))"

subsection \<open>Computing a symbol\<close>

definition calc_tri :: "kmodel \<Rightarrow> call \<Rightarrow> string \<Rightarrow> symbol \<Rightarrow> ktype \<Rightarrow> nat \<Rightarrow> nat \<Rightarrow> bool \<Rightarrow> bool kev" where
  "calc_tri M f n y t vis rv write0 =
     after (tri_value M f n y vis rv write0) (\<lambda>(v0, write, prop). after (settle_tri M n t v0) (\<lambda>v.
     after (inherit_transitional M n prop (tri_char v)) (\<lambda>_.
     after (modify (\<lambda>s. s\<lparr>cur := dict_set n (V_tri v) (cur s)\<rparr>)) (\<lambda>_. ret write))))"

definition calc_string :: "kmodel \<Rightarrow> call \<Rightarrow> string \<Rightarrow> symbol \<Rightarrow> nat \<Rightarrow> bool \<Rightarrow> bool kev" where
  "calc_string M f n y vis write0 =
     after (asks (\<lambda>s. if vis \<noteq> 0 then dict_get (user s) n else None)) (\<lambda>u.
     after (case u of Some _ \<Rightarrow> ret None | None \<Rightarrow> default_prop f (defaults y)) (\<lambda>prop.
     after (case u of
         Some t \<Rightarrow> ret t
       | None \<Rightarrow> (case prop of Some (e, _) \<Rightarrow> leaf_str M f e | None \<Rightarrow> ret (empty_value (sem M) (s_type y)))) (\<lambda>v.
     after (inherit_transitional M n prop v) (\<lambda>_.
     after (modify (\<lambda>s. s\<lparr>cur := dict_set n (V_str v) (cur s)\<rparr>)) (\<lambda>_.
     after (if s_type y = Ty_int \<or> s_type y = Ty_hex then validate_range M f n y v else ret ()) (\<lambda>_.
     ret (write0 \<or> vis \<noteq> 0 \<or> prop \<noteq> None)))))))"

text \<open>The selection of a choice that is y, and whether a choice or a member of one is written.\<close>

definition calc_selection :: "kmodel \<Rightarrow> call \<Rightarrow> string \<Rightarrow> symbol \<Rightarrow> unit kev" where
  "calc_selection M f n y = (if is_choice y \<and> \<not> choice_priority (sem M)
     then after (read_key cur n) (\<lambda>v. if v = V_tri 2
       then after (calc_choice M f n y) (\<lambda>r. modify (\<lambda>s. s\<lparr>sel_of := dict_set n r (sel_of s)\<rparr>)) else ret ())
     else ret ())"

definition choice_raw_write :: "call \<Rightarrow> string \<Rightarrow> bool kev" where
  "choice_raw_write f c = after (f (Q_calc c)) (\<lambda>_. asks (\<lambda>s. dict_get (raw_write s) c = Some True))"

definition note_writing :: "kmodel \<Rightarrow> call \<Rightarrow> string \<Rightarrow> symbol \<Rightarrow> nat \<Rightarrow> bool \<Rightarrow> unit kev" where
  "note_writing M f n y vis write0 =
     after (case s_choice y of Some c \<Rightarrow> choice_raw_write f c | None \<Rightarrow> ret False) (\<lambda>w.
     (let write = (write0 \<or> w \<and> vis \<noteq> 0)
      in modify (\<lambda>s. s\<lparr>raw_write := (if is_choice y then dict_set n write (raw_write s) else raw_write s),
           write_of := dict_set n (write \<and> \<not> s_auto y \<and> \<not> transitional y) (write_of s)\<rparr>)))"

definition calc_inner :: "kmodel \<Rightarrow> call \<Rightarrow> string \<Rightarrow> symbol \<Rightarrow> unit kev" where
  "calc_inner M f n y =
     after (f (Q_vis n)) (\<lambda>vis. after (read_key rev_of n) (\<lambda>rv. after (get_type M f n) (\<lambda>t.
     (let write0 = (write_on_nonzero_default (sem M) \<and> vis \<noteq> 0)
      in after (if string_type (s_type y) then calc_string M f n y vis write0 else calc_tri M f n y t vis rv write0) (\<lambda>write.
         after (calc_selection M f n y) (\<lambda>_. note_writing M f n y vis write))))))"

text \<open>\<open>_calc\<close>: the provisional value is there before anything else is asked.\<close>

definition provisional :: "kmodel \<Rightarrow> symbol \<Rightarrow> kvalue" where
  "provisional M y = (if string_type (s_type y) then V_str (empty_value (sem M) (s_type y)) else V_tri 0)"

definition calc_step :: "kmodel \<Rightarrow> call \<Rightarrow> string \<Rightarrow> nat kev" where
  "calc_step M f n = after (asks (\<lambda>s. dict_get (cur s) n)) (\<lambda>m. case m of
       Some _ \<Rightarrow> ret 0
     | None \<Rightarrow> after (sym M n) (\<lambda>y.
         after (modify (\<lambda>s. s\<lparr>cur := dict_set n (provisional M y) (cur s)\<rparr>)) (\<lambda>_.
         after (calc_inner M f n y) (\<lambda>_. ret 0))))"

subsection \<open>The evaluator\<close>

definition step :: "kmodel \<Rightarrow> call \<Rightarrow> query \<Rightarrow> nat kev" where
  "step M f q = (case q of Q_expr e \<Rightarrow> expr_step M f e | Q_vis n \<Rightarrow> vis_step M f n | Q_calc n \<Rightarrow> calc_step M f n | Q_sel c \<Rightarrow> sel_step M f c)"

fun run :: "kmodel \<Rightarrow> nat \<Rightarrow> query \<Rightarrow> nat kev" where
  "run M 0 q s = Out_of_fuel"
| "run M (Suc n) q s = step M (run M n) q s"

end
