(* ===== verification/Kconfig_Eval_Facts.thy ===== *)
theory Kconfig_Eval_Facts
  imports Kconfig_Eval
begin

section \<open>The evaluator ends, and its values have their types\<close>

text \<open>
  A run is bounded by two things: expression nodes only refer to earlier nodes, and a symbol or choice that is being
  computed is marked before anything is asked on its behalf.  The judgement \<open>valid\<close> carries the bound together with the
  invariant on the caches through the steps; a missing key is an outcome it allows.
\<close>

definition model_ok :: "kmodel \<Rightarrow> bool" where
  "model_ok M \<longleftrightarrow> (\<forall>e < length (exprs M). case exprs M ! e of
       E_and a b \<Rightarrow> a < e \<and> b < e | E_or a b \<Rightarrow> a < e \<and> b < e | E_not a \<Rightarrow> a < e | _ \<Rightarrow> True)"

text \<open>Symbols that have no value yet and symbols that have no selection yet.\<close>

definition open_count :: "'k list \<Rightarrow> ('k, 'v) dict \<Rightarrow> nat" where
  "open_count ns d = length (filter (\<lambda>n. dict_get d n = None) ns)"

definition rank :: "kmodel \<Rightarrow> kstate \<Rightarrow> nat" where
  "rank M s = open_count (map fst (syms M)) (cur s) + open_count (map fst (syms M)) (sel_of s)"

definition level :: "kmodel \<Rightarrow> query \<Rightarrow> nat" where
  "level M q = (case q of Q_expr e \<Rightarrow> Suc (min e (length (exprs M))) | Q_vis _ \<Rightarrow> length (exprs M) + 2 | _ \<Rightarrow> 0)"

definition enough :: "kmodel \<Rightarrow> nat \<Rightarrow> query \<Rightarrow> nat" where
  "enough M r q = r * (length (exprs M) + 3) + level M q + 1"

subsection \<open>The invariant of the caches\<close>

definition value_ok :: "ktype \<Rightarrow> kvalue \<Rightarrow> bool" where
  "value_ok t v \<longleftrightarrow> (case v of V_str _ \<Rightarrow> string_type t | V_tri n \<Rightarrow> \<not> string_type t \<and> n \<le> 2 \<and> (t = Ty_bool \<longrightarrow> n \<noteq> 1))"

definition all_tri :: "('k, nat) dict \<Rightarrow> bool" where
  "all_tri d \<longleftrightarrow> (\<forall>k v. dict_get d k = Some v \<longrightarrow> v \<le> 2)"

definition values_ok :: "kmodel \<Rightarrow> (string, kvalue) dict \<Rightarrow> bool" where
  "values_ok M d \<longleftrightarrow> (\<forall>n v. dict_get d n = Some v \<longrightarrow> (\<exists>y. dict_get (syms M) n = Some y \<and> value_ok (s_type y) v))"

text \<open>Since Linux 6.11 a member of a choice is y only as the choice's selection.\<close>

definition selected_ok :: "kmodel \<Rightarrow> (string, kvalue) dict \<Rightarrow> (string, string option) dict \<Rightarrow> bool" where
  "selected_ok M d sel \<longleftrightarrow> (\<forall>m y c. choice_priority (sem M) \<longrightarrow> dict_get (syms M) m = Some y \<longrightarrow> s_choice y = Some c
     \<longrightarrow> \<not> string_type (s_type y) \<longrightarrow> dict_get d m = Some (V_tri 2) \<longrightarrow> dict_get sel c = Some (Some m))"

definition cache_ok :: "kmodel \<Rightarrow> kstate \<Rightarrow> bool" where
  "cache_ok M s \<longleftrightarrow> values_ok M (cur s) \<and> selected_ok M (cur s) (sel_of s) \<and> all_tri (expr_memo s) \<and> all_tri (vis_of s)
     \<and> all_tri (rev_of s) \<and> all_tri (implied_of s) \<and> all_tri (dir_of s)"

text \<open>Later steps leave the values and selections alone, except those of the computations at hand.\<close>

definition dict_keeps :: "'k set \<Rightarrow> ('k, 'v) dict \<Rightarrow> ('k, 'v) dict \<Rightarrow> bool" where
  "dict_keeps X d d' \<longleftrightarrow> (\<forall>k. dict_get d k \<noteq> None \<longrightarrow> dict_get d' k \<noteq> None \<and> (k \<notin> X \<longrightarrow> dict_get d' k = dict_get d k))"

definition keeps :: "kmodel \<Rightarrow> string set \<Rightarrow> string set \<Rightarrow> kstate \<Rightarrow> kstate \<Rightarrow> bool" where
  "keeps M X Y s s' \<longleftrightarrow> dict_keeps X (cur s) (cur s') \<and> dict_keeps (if choice_priority (sem M) then Y else UNIV) (sel_of s) (sel_of s')"

lemma dict_keeps_refl [simp]: "dict_keeps X d d"
  by (simp add: dict_keeps_def)

lemma dict_keeps_trans: "dict_keeps X a b \<Longrightarrow> dict_keeps X b c \<Longrightarrow> dict_keeps X a c"
  by (simp add: dict_keeps_def)

lemma dict_keeps_mono: "dict_keeps X a b \<Longrightarrow> X \<subseteq> Y \<Longrightarrow> dict_keeps Y a b"
  by (auto simp: dict_keeps_def)

lemma dict_keeps_set: "k \<in> X \<or> dict_get d k = None \<Longrightarrow> dict_keeps X d (dict_set k v d)"
  by (auto simp: dict_keeps_def)

lemma keeps_refl [simp]: "keeps M X Y s s"
  by (simp add: keeps_def)

lemma keeps_trans: "keeps M X Y a b \<Longrightarrow> keeps M X Y b c \<Longrightarrow> keeps M X Y a c"
  unfolding keeps_def by (intro conjI; elim conjE; rule dict_keeps_trans; assumption)

lemma keeps_mono: "keeps M {} {} a b \<Longrightarrow> keeps M X Y a b"
  unfolding keeps_def by (intro conjI; erule conjE; erule dict_keeps_mono; simp)

lemma open_mono: "dict_keeps X d d' \<Longrightarrow> open_count ns d' \<le> open_count ns d"
  by (induction ns) (auto simp: dict_keeps_def open_count_def)

lemma rank_mono: "keeps M X Y s s' \<Longrightarrow> rank M s' \<le> rank M s"
  unfolding keeps_def rank_def by (intro add_mono; erule conjE; rule open_mono; assumption)

lemma all_tri_get: "all_tri d \<Longrightarrow> dict_get d k = Some v \<Longrightarrow> v \<le> 2"
  by (simp add: all_tri_def)

lemma all_tri_set [simp]: "all_tri d \<Longrightarrow> v \<le> 2 \<Longrightarrow> all_tri (dict_set k v d)"
  by (simp add: all_tri_def)

subsection \<open>The judgement\<close>

definition valid :: "kmodel \<Rightarrow> string set \<Rightarrow> string set \<Rightarrow> nat \<Rightarrow> 'a kev \<Rightarrow> ('a \<Rightarrow> bool) \<Rightarrow> bool" where
  "valid M X Y r m Q \<longleftrightarrow> (\<forall>s. cache_ok M s \<and> rank M s \<le> r \<longrightarrow> (case m s of
       Out_of_fuel \<Rightarrow> False | Key_missing \<Rightarrow> True | Ret v s' \<Rightarrow> cache_ok M s' \<and> keeps M X Y s s' \<and> Q v))"

lemma valid_Ret: "valid M X Y r m Q \<Longrightarrow> cache_ok M s \<Longrightarrow> rank M s \<le> r \<Longrightarrow> m s = Ret v s' \<Longrightarrow> cache_ok M s' \<and> keeps M X Y s s' \<and> Q v"
  by (drule valid_def[THEN iffD1], drule spec[of _ s]) simp

lemma valid_fuel: "valid M X Y r m Q \<Longrightarrow> cache_ok M s \<Longrightarrow> rank M s \<le> r \<Longrightarrow> m s \<noteq> Out_of_fuel"
  by (drule valid_def[THEN iffD1], drule spec[of _ s]) auto

lemma validI:
  assumes "\<And>s. cache_ok M s \<Longrightarrow> rank M s \<le> r \<Longrightarrow> m s \<noteq> Out_of_fuel"
    and "\<And>s v s'. cache_ok M s \<Longrightarrow> rank M s \<le> r \<Longrightarrow> m s = Ret v s' \<Longrightarrow> cache_ok M s' \<and> keeps M X Y s s' \<and> Q v"
  shows "valid M X Y r m Q"
  unfolding valid_def
proof (intro allI impI)
  fix s
  assume "cache_ok M s \<and> rank M s \<le> r"
  then show "case m s of Out_of_fuel \<Rightarrow> False | Key_missing \<Rightarrow> True | Ret v s' \<Rightarrow> cache_ok M s' \<and> keeps M X Y s s' \<and> Q v"
    using assms[of s] by (cases "m s") simp_all
qed

lemma valid_after:
  assumes m: "valid M X Y r m Q" and k: "\<And>v. Q v \<Longrightarrow> valid M X Y r (k v) R"
  shows "valid M X Y r (after m k) R"
proof (rule validI)
  fix s
  assume s: "cache_ok M s" "rank M s \<le> r"
  show "after m k s \<noteq> Out_of_fuel"
  proof (cases "m s")
    case Out_of_fuel
    then show ?thesis using valid_fuel[OF m s] by simp
  next
    case Key_missing
    then show ?thesis by (simp add: after_def)
  next
    case (Ret v s1)
    note a = valid_Ret[OF m s Ret]
    then have "rank M s1 \<le> r" using rank_mono s(2) le_trans by blast
    then show ?thesis using valid_fuel[OF k, of v s1] a Ret by (simp add: after_def)
  qed
next
  fix s w s2
  assume s: "cache_ok M s" "rank M s \<le> r" and e: "after m k s = Ret w s2"
  obtain v s1 where Ret: "m s = Ret v s1" "k v s1 = Ret w s2" using e by (cases "m s") (simp_all add: after_def)
  note a = valid_Ret[OF m s Ret(1)]
  then have "rank M s1 \<le> r" using rank_mono s(2) le_trans by blast
  then have "cache_ok M s2 \<and> keeps M X Y s1 s2 \<and> R w" using valid_Ret[OF k, of v s1] a Ret(2) by simp
  then show "cache_ok M s2 \<and> keeps M X Y s s2 \<and> R w" using a keeps_trans by blast
qed

lemma valid_ret: "Q v \<Longrightarrow> valid M X Y r (ret v) Q"
  by (simp add: valid_def ret_def)

lemma valid_asks: "(\<And>s. cache_ok M s \<Longrightarrow> Q (f s)) \<Longrightarrow> valid M X Y r (asks f) Q"
  by (simp add: valid_def asks_def)

lemma valid_key: "(\<And>v. x = Some v \<Longrightarrow> Q v) \<Longrightarrow> valid M X Y r (key x) Q"
  by (simp add: valid_def key_def split: option.split)

lemma valid_modify: "(\<And>s. cache_ok M s \<Longrightarrow> cache_ok M (g s) \<and> keeps M X Y s (g s)) \<Longrightarrow> Q () \<Longrightarrow> valid M X Y r (modify g) Q"
  by (simp add: valid_def modify_def)

lemma valid_conseq: "valid M X Y r m Q \<Longrightarrow> (\<And>v. Q v \<Longrightarrow> R v) \<Longrightarrow> valid M X Y r m R"
  by (rule validI) (blast dest: valid_Ret valid_fuel)+

lemma valid_mono: "valid M {} {} r m Q \<Longrightarrow> valid M X Y r m Q"
  by (rule validI) (blast dest: valid_Ret valid_fuel intro: keeps_mono)+

lemma valid_read: "(\<And>s v. cache_ok M s \<Longrightarrow> dict_get (f s) k = Some v \<Longrightarrow> Q v) \<Longrightarrow> valid M X Y r (read_key f k) Q"
  unfolding read_key_def
  by (rule valid_after[where Q = "\<lambda>x. \<forall>v. x = Some v \<longrightarrow> Q v"]) (auto intro: valid_asks valid_key)

lemma valid_if: "(b \<Longrightarrow> valid M X Y r m Q) \<Longrightarrow> (\<not> b \<Longrightarrow> valid M X Y r m' Q) \<Longrightarrow> valid M X Y r (if b then m else m') Q"
  by simp

lemma valid_ret_eq: "valid M X Y r (ret v) (\<lambda>w. w = v)"
  by (simp add: valid_ret)

lemma valid_key_eq: "valid M X Y r (key x) (\<lambda>v. x = Some v)"
  by (rule valid_key)

lemma valid_asks_any: "valid M X Y r (asks f) (\<lambda>_. True)"
  by (rule valid_asks) simp

lemma valid_read_any: "valid M X Y r (read_key f k) (\<lambda>_. True)"
  by (rule valid_read) simp

abbreviation tri :: "nat \<Rightarrow> bool" where
  "tri v \<equiv> v \<le> 2"

text \<open>Updates of the caches that only hold tristates, and of what does not matter here.\<close>

lemma valid_note:
  "tri v \<Longrightarrow> valid M X Y r (modify (\<lambda>s. s\<lparr>expr_memo := dict_set e v (expr_memo s)\<rparr>)) (\<lambda>_. True)"
  "tri v \<Longrightarrow> valid M X Y r (modify (\<lambda>s. s\<lparr>vis_of := dict_set n v (vis_of s)\<rparr>)) (\<lambda>_. True)"
  "tri v \<Longrightarrow> valid M X Y r (modify (\<lambda>s. s\<lparr>dir_of := dict_set n v (dir_of s)\<rparr>)) (\<lambda>_. True)"
  "tri v \<Longrightarrow> valid M X Y r (modify (\<lambda>s. s\<lparr>rev_of := dict_set n v (rev_of s)\<rparr>)) (\<lambda>_. True)"
  "tri v \<Longrightarrow> valid M X Y r (modify (\<lambda>s. s\<lparr>implied_of := dict_set n v (implied_of s)\<rparr>)) (\<lambda>_. True)"
  by (rule valid_modify; simp add: cache_ok_def keeps_def)+

lemma valid_set_deps: "tri d \<Longrightarrow> tri v \<Longrightarrow> tri i \<Longrightarrow> valid M X Y r (set_deps n d v i) (\<lambda>_. True)"
  unfolding set_deps_def by (rule valid_modify; simp add: cache_ok_def keeps_def)

subsection \<open>The parts of a step\<close>

definition supports :: "kmodel \<Rightarrow> call \<Rightarrow> nat \<Rightarrow> nat \<Rightarrow> bool" where
  "supports M f r l \<longleftrightarrow> (\<forall>q. level M q < l \<longrightarrow> valid M {} {} r (f q) tri)"

text \<open>\<open>full\<close>: every query is supported.\<close>

abbreviation full :: "kmodel \<Rightarrow> nat" where
  "full M \<equiv> length (exprs M) + 3"

lemma supports_call: "supports M f r l \<Longrightarrow> level M q < l \<Longrightarrow> valid M X Y r (f q) tri"
  by (simp add: supports_def valid_mono)

lemma supports_mono: "supports M f r l \<Longrightarrow> l' \<le> l \<Longrightarrow> supports M f r l'"
  by (simp add: supports_def)

lemma level_simps [simp]:
  "level M (Q_calc n) = 0" "level M (Q_sel c) = 0" "level M (Q_vis n) = Suc (Suc (length (exprs M)))" "level M (Q_expr e) < Suc (Suc (length (exprs M)))"
  by (simp_all add: level_def)

lemma valid_expr_tri:
  assumes "supports M f r (length (exprs M) + 2)"
  shows "valid M X Y r (expr_tri f e) tri"
  unfolding expr_tri_def using assms by (auto intro!: valid_ret supports_call)

lemma valid_sym_tri:
  assumes "supports M f r l" "0 < l"
  shows "valid M X Y r (sym_tri M f n) tri"
proof -
  have "valid M X Y r (read_key cur n) (\<lambda>v. case v of V_tri t \<Rightarrow> tri t | V_str _ \<Rightarrow> True)"
    by (rule valid_read) (auto simp: cache_ok_def values_ok_def value_ok_def split: kvalue.splits)
  then have "valid M X Y r (after (f (Q_calc n)) (\<lambda>_. after (read_key cur n) (\<lambda>v. ret (case v of V_tri t \<Rightarrow> t | V_str _ \<Rightarrow> 0)))) tri"
    using assms by (intro valid_after[OF supports_call] valid_after[where Q = "\<lambda>v. case v of V_tri t \<Rightarrow> tri t | V_str _ \<Rightarrow> True"] valid_ret)
      (auto split: kvalue.splits)
  then show ?thesis unfolding sym_tri_def by (auto intro: valid_ret simp: tri_of_def split: option.split)
qed

lemma valid_sym_str:
  assumes "supports M f r l" "0 < l"
  shows "valid M X Y r (sym_str M f n) (\<lambda>_. True)"
  unfolding sym_str_def using assms
  by (intro valid_if valid_ret valid_after[OF supports_call] valid_after[OF valid_read_any]) auto

lemma valid_leaf_str:
  assumes "supports M f r l" "0 < l"
  shows "valid M X Y r (leaf_str M f e) (\<lambda>_. True)"
  unfolding leaf_str_def node_def
  by (rule valid_after[OF valid_key_eq]) (auto intro: valid_ret valid_sym_str[OF assms] valid_key split: enode.split)

lemma valid_compare:
  assumes "supports M f r l" "0 < l"
  shows "valid M X Y r (compare M f o1 a b) tri"
proof -
  have t: "valid M X Y r (leaf_type M e) (\<lambda>_. True)" for e
    unfolding leaf_type_def node_def by (rule valid_after[OF valid_key_eq]) (simp add: valid_ret)
  have c: "tri (compare_texts S o1 s1 t1 s2 t2)" for S s1 t1 s2 t2
    by (simp add: compare_texts_def Let_def)
  show ?thesis unfolding compare_def
    by (intro valid_after[OF valid_leaf_str[OF assms]] valid_after[OF t] valid_ret c)
qed

lemma valid_expr_step:
  assumes m: "model_ok M" and f: "supports M f r (level M (Q_expr e))"
  shows "valid M X Y r (expr_step M f e) tri"
proof -
  have n: "valid M X Y r (expr_node M f (exprs M ! e)) tri" if e: "e < length (exprs M)"
  proof -
    have l: "level M (Q_expr e) = Suc e" using e by (simp add: level_def)
    then have f1: "supports M f r (Suc e)" using f by simp
    have ch: "valid M X Y r (f (Q_expr a)) tri" if "a < e" for a
      using that e by (intro supports_call[OF f1]) (simp add: level_def)
    have mo: "case exprs M ! e of E_and a b \<Rightarrow> a < e \<and> b < e | E_or a b \<Rightarrow> a < e \<and> b < e | E_not a \<Rightarrow> a < e | _ \<Rightarrow> True"
      using m e by (simp add: model_ok_def)
    show ?thesis
      using mo valid_sym_tri[OF f1] valid_compare[OF f1]
      by (cases "exprs M ! e") (auto simp: expr_node_def tri_of_def intro!: valid_ret valid_after[OF ch])
  qed
  show ?thesis unfolding expr_step_def
  proof (rule valid_after[where Q = "\<lambda>m. \<forall>v. m = Some v \<longrightarrow> tri v"])
    show "valid M X Y r (asks (\<lambda>s. dict_get (expr_memo s) e)) (\<lambda>m. \<forall>v. m = Some v \<longrightarrow> tri v)"
      by (rule valid_asks) (auto simp: cache_ok_def all_tri_def)
    fix mm :: "nat option"
    assume mm: "\<forall>v. mm = Some v \<longrightarrow> tri v"
    have "valid M X Y r (after (node M e) (\<lambda>n. after (expr_node M f n) (\<lambda>v.
         after (modify (\<lambda>s. s\<lparr>expr_memo := dict_set e v (expr_memo s)\<rparr>)) (\<lambda>_. ret v)))) tri"
      unfolding node_def
      by (rule valid_after[OF valid_key_eq])
        (auto intro!: valid_after[OF n] valid_after[OF valid_note(1)] valid_ret split: if_splits)
    then show "valid M X Y r (case mm of None \<Rightarrow> after (node M e) (\<lambda>n. after (expr_node M f n) (\<lambda>v.
         after (modify (\<lambda>s. s\<lparr>expr_memo := dict_set e v (expr_memo s)\<rparr>)) (\<lambda>_. ret v))) | Some v \<Rightarrow> ret v) tri"
      using mm by (cases mm) (simp_all add: valid_ret)
  qed
qed

lemma valid_get_type:
  assumes f: "supports M f r l" "0 < l" and c: "\<And>y. dict_get (syms M) n = Some y \<Longrightarrow> s_choice y \<noteq> None \<Longrightarrow> full M \<le> l"
  shows "valid M X Y r (get_type M f n) (\<lambda>t. \<forall>y. dict_get (syms M) n = Some y \<longrightarrow> s_type y = Ty_bool \<longrightarrow> t = Ty_bool)"
  unfolding get_type_def sym_def
proof (rule valid_after[OF valid_key_eq])
  fix y
  assume y: "dict_get (syms M) n = Some y"
  let ?Q = "\<lambda>t. \<forall>y. dict_get (syms M) n = Some y \<longrightarrow> s_type y = Ty_bool \<longrightarrow> t = Ty_bool"
  have v: "valid M X Y r (if s_choice y \<noteq> None then f (Q_vis n) else ret 0) (\<lambda>_. True)"
    using c[OF y] by (auto intro: valid_ret valid_conseq[OF supports_call[OF f(1)]])
  have rest: "valid M X Y r (if v = 2 then ret Ty_bool else if n = modules_sym M then ret Ty_tristate
      else after (modules_val M f) (\<lambda>m. ret (if m = 0 then Ty_bool else Ty_tristate))) ?Q" if "s_type y = Ty_tristate" for v :: nat
    unfolding modules_val_def using y that by (auto intro!: valid_ret valid_after[OF valid_sym_tri[OF f]])
  show "valid M X Y r (if s_type y \<noteq> Ty_tristate then ret (s_type y)
      else after (if s_choice y \<noteq> None then f (Q_vis n) else ret 0) (\<lambda>v. if v = 2 then ret Ty_bool
        else if n = modules_sym M then ret Ty_tristate else after (modules_val M f) (\<lambda>m. ret (if m = 0 then Ty_bool else Ty_tristate)))) ?Q"
    using y by (intro valid_if valid_ret valid_after[OF v] rest) auto
qed

lemma valid_prompts_vis:
  assumes "supports M f r (length (exprs M) + 2)"
  shows "tri v \<Longrightarrow> valid M X Y r (prompts_vis f hide ps v) tri"
proof (induction ps arbitrary: v)
  case (Cons p ps)
  then show ?case by (auto intro!: valid_after[OF valid_expr_tri[OF assms]])
qed (simp add: valid_ret)

lemma valid_y_if_bool:
  assumes f: "supports M f r l" "0 < l" and c: "\<And>y. dict_get (syms M) n = Some y \<Longrightarrow> s_choice y \<noteq> None \<Longrightarrow> full M \<le> l" and "tri v"
  shows "valid M X Y r (y_if_bool M f n v) tri"
  unfolding y_if_bool_def using assms(4)
  by (auto intro!: valid_ret valid_after[OF valid_get_type[OF f c]])

lemma valid_calc_deps:
  assumes f: "supports M f r (length (exprs M) + 2)" and y: "dict_get (syms M) n = Some y" "s_choice y = None"
  shows "valid M X Y r (calc_deps M f n y) (\<lambda>_. True)"
proof -
  have b: "valid M X Y r (y_if_bool M f n v) tri" if "tri v" for v
    by (rule valid_y_if_bool[OF f]) (use y that in auto)
  have e: "valid M X Y r (if 0 \<le> i then expr_tri f i else ret 0) tri" for i
    by (simp add: valid_ret valid_expr_tri[OF f])
  show ?thesis unfolding calc_deps_def
    by (intro valid_after[OF valid_expr_tri[OF f]] valid_after[OF b] valid_after[OF valid_note(3)] valid_after[OF valid_note(4)] valid_note(5) valid_after[OF e])
      auto
qed

lemma valid_vis_step:
  assumes f: "supports M f r (length (exprs M) + 2)"
  shows "valid M X Y r (vis_step M f n) tri"
proof -
  let ?rest = "after (sym M n) (\<lambda>y.
         if transitional y then
           after (modify (\<lambda>s. s\<lparr>vis_of := dict_set n 2 (vis_of s)\<rparr>)) (\<lambda>_. after (set_deps n 0 0 0) (\<lambda>_. ret 2))
         else
           after (case s_choice y of
               Some c \<Rightarrow> if tristate_choice_mod_hidden (sem M) \<and> s_type y = Ty_tristate
                 then after (sym_tri M f c) (\<lambda>t. ret (t = 2)) else ret False
             | None \<Rightarrow> ret False) (\<lambda>hide.
           after (prompts_vis f hide (prompts y) 0) (\<lambda>v0.
           after (if v0 = 1 \<and> s_type y = Ty_tristate then after (modules_val M f) (\<lambda>m. ret (m = 0)) else ret (v0 = 1)) (\<lambda>up.
           (let v = (if up then 2 else v0)
            in after (modify (\<lambda>s. s\<lparr>vis_of := dict_set n v (vis_of s)\<rparr>)) (\<lambda>_.
               after (if s_choice y \<noteq> None then set_deps n 2 0 0 else calc_deps M f n y) (\<lambda>_. ret v)))))))"
  have l: "0 < length (exprs M) + 2" by simp
  have hide: "valid M X Y r (case s_choice y of
               Some c \<Rightarrow> if tristate_choice_mod_hidden (sem M) \<and> s_type y = Ty_tristate
                 then after (sym_tri M f c) (\<lambda>t. ret (t = 2)) else ret False
             | None \<Rightarrow> ret False) (\<lambda>_. True)" for y
    by (auto intro!: valid_ret valid_after[OF valid_sym_tri[OF f l]] split: option.split)
  have up: "valid M X Y r (if v0 = 1 \<and> s_type y = Ty_tristate then after (modules_val M f) (\<lambda>m. ret (m = 0)) else ret (v0 = 1)) (\<lambda>_. True)" for v0 :: nat and y
    unfolding modules_val_def by (intro valid_if valid_ret valid_after[OF valid_sym_tri[OF f l]]) simp_all
  have deps: "valid M X Y r (if s_choice y \<noteq> None then set_deps n 2 0 0 else calc_deps M f n y) (\<lambda>_. True)" if "dict_get (syms M) n = Some y" for y
    using that valid_calc_deps[OF f] by (auto intro: valid_set_deps)
  have rest: "valid M X Y r ?rest tri"
    unfolding sym_def Let_def
    by (intro valid_after[OF valid_key_eq] valid_if valid_after[OF valid_note(2)] valid_after[OF valid_set_deps] valid_after[OF hide]
          valid_after[OF valid_prompts_vis[OF f]] valid_after[OF up] valid_after[OF deps] valid_ret) auto
  show ?thesis unfolding vis_step_def
  proof (rule valid_after[where Q = "\<lambda>m. \<forall>v. m = Some v \<longrightarrow> tri v"])
    show "valid M X Y r (asks (\<lambda>s. dict_get (vis_of s) n)) (\<lambda>m. \<forall>v. m = Some v \<longrightarrow> tri v)"
      by (rule valid_asks) (auto simp: cache_ok_def all_tri_def)
    fix m :: "nat option"
    assume "\<forall>v. m = Some v \<longrightarrow> tri v"
    then show "valid M X Y r (case m of None \<Rightarrow> ?rest | Some v \<Rightarrow> ret v) tri"
      using rest by (cases m) (simp_all add: valid_ret)
  qed
qed

text \<open>From here on every query is supported, at the rank the step has left.\<close>

lemma valid_default_prop:
  assumes f: "supports M f r (full M)"
  shows "valid M X Y r (default_prop f ds) (\<lambda>p. \<forall>e t. p = Some (e, t) \<longrightarrow> tri t)"
proof (induction ds)
  case (Cons d ds)
  have "supports M f r (length (exprs M) + 2)" by (rule supports_mono[OF f]) simp
  then show ?case using Cons by (cases d) (auto intro!: valid_after[OF valid_expr_tri] valid_ret)
qed (simp add: valid_ret)

lemma valid_find_member:
  assumes f: "supports M f r (full M)"
  shows "valid M X Y r (find_member f P ms) (\<lambda>_. True)"
proof (induction ms)
  case (Cons m ms)
  then show ?case by (auto intro!: valid_after[OF supports_call[OF f]] valid_after[OF valid_asks_any] valid_ret)
qed (simp add: valid_ret)

lemma valid_default_member:
  assumes f: "supports M f r (full M)"
  shows "valid M X Y r (default_member M f ds) (\<lambda>_. True)"
proof (induction ds)
  case (Cons d ds)
  obtain v c where d: "d = (v, c)" by (cases d)
  have f2: "supports M f r (length (exprs M) + 2)" by (rule supports_mono[OF f]) simp
  have n: "valid M X Y r (case n of
         E_sym x \<Rightarrow> if dict_get (syms M) x \<noteq> None
           then after (f (Q_vis x)) (\<lambda>w. if w \<noteq> 0 then ret (Some x) else default_member M f ds)
           else default_member M f ds
       | _ \<Rightarrow> default_member M f ds) (\<lambda>_. True)" for n
    using Cons by (cases n) (auto intro!: valid_after[OF supports_call[OF f]] valid_ret)
  show ?case using Cons unfolding d default_member.simps node_def
    by (intro valid_after[OF valid_expr_tri[OF f2]] valid_if valid_after[OF valid_key_eq] n)
qed (simp add: valid_ret)

lemma valid_choice_default:
  assumes f: "supports M f r (full M)"
  shows "valid M X Y r (choice_default M f y) (\<lambda>_. True)"
  unfolding choice_default_def
  by (rule valid_after[OF valid_default_member[OF f]]) (auto intro: valid_ret valid_find_member[OF f] split: option.split)

lemma valid_visit_all:
  assumes f: "supports M f r (full M)"
  shows "valid M X Y r (visit_all f ms) (\<lambda>_. True)"
  by (induction ms) (auto intro!: valid_after[OF supports_call[OF f]] valid_ret)

lemma valid_calc_choice_modern:
  assumes f: "supports M f r (full M)"
  shows "valid M X Y r (calc_choice_modern M f c y) (\<lambda>_. True)"
proof -
  have o: "valid M X Y r m (\<lambda>_. True) \<Longrightarrow> valid M X Y r (or_member z m) (\<lambda>_. True)" for z m
    by (simp add: or_member_def valid_ret split: option.split)
  have d: "valid M X Y r (after (choice_default M f y) (\<lambda>d. case d of
         None \<Rightarrow> ret None
       | Some x \<Rightarrow> asks (\<lambda>s. if dict_get (user s) x = Some ''n'' then None else Some x))) (\<lambda>_. True)"
    by (rule valid_after[OF valid_choice_default[OF f]]) (simp add: valid_ret valid_asks_any split: option.split)
  show ?thesis unfolding calc_choice_modern_def
    by (intro valid_after[OF valid_asks_any] valid_after[OF valid_find_member[OF f]] valid_after[OF o[OF d]]
          valid_after[OF o[OF valid_find_member[OF f]]] o valid_find_member[OF f])
qed

subsection \<open>Computing a symbol\<close>

lemma valid_choice_selection:
  assumes f: "supports M f r (full M)"
  shows "valid M X Y r (choice_selection M f c) (\<lambda>_. True)"
  unfolding choice_selection_def
  by (intro valid_if valid_after[OF supports_call[OF f]] valid_read_any valid_after[OF valid_read_any] valid_asks_any) simp_all

lemma valid_plain_tri:
  assumes f: "supports M f r (full M)" and t: "tri vis" "tri rv"
  shows "valid M X Y r (plain_tri M f n y vis rv w0) (\<lambda>x. tri (fst x))"
proof -
  have k: "valid M X Y r (key (tri_of t)) tri" for t
    by (rule valid_key) (auto simp: tri_of_def split: if_splits)
  have q: "valid M X Y r (f (Q_expr e)) tri" for e
    by (rule supports_call[OF f], rule less_trans[OF level_simps(4)]) simp
  have p: "valid M X Y r (case p of None \<Rightarrow> ret (0, w1)
       | Some (e, t) \<Rightarrow> after (f (Q_expr e)) (\<lambda>x. ret (min x t, w1 \<or> min x t \<noteq> 0 \<or> \<not> write_on_nonzero_default (sem M)))) (\<lambda>x. tri (fst x))" for p w1
    by (cases p) (auto intro!: valid_ret valid_after[OF q])
  have i: "valid M X Y r (asks (\<lambda>s. case dict_get (implied_of s) n of Some i \<Rightarrow> i | None \<Rightarrow> 0)) tri"
    by (rule valid_asks) (auto simp: cache_ok_def dest: all_tri_get split: option.split)
  have d: "valid M X Y r (if b then read_key dir_of n else ret v) tri" if "tri v" for b v
    using that by (auto intro!: valid_ret valid_read simp: cache_ok_def dest: all_tri_get)
  show ?thesis unfolding plain_tri_def
  proof (rule valid_after[OF valid_asks_any])
    fix u
    let ?none = "let write1 = (w0 \<or> vis \<noteq> 0 \<or> rv \<noteq> 0)
            in if is_choice y then ret (rv, write1, None)
               else after (default_prop f (defaults y)) (\<lambda>prop.
                 after (case prop of
                     None \<Rightarrow> ret (0, write1)
                   | Some (e, t) \<Rightarrow> after (f (Q_expr e)) (\<lambda>x.
                       ret (min x t, write1 \<or> min x t \<noteq> 0 \<or> \<not> write_on_nonzero_default (sem M)))) (\<lambda>(v, write2).
                 after (asks (\<lambda>s. case dict_get (implied_of s) n of Some i \<Rightarrow> i | None \<Rightarrow> 0)) (\<lambda>i.
                 after (if i \<noteq> 0 \<and> imply_obeys_dir_dep (sem M) then read_key dir_of n else ret (max v i)) (\<lambda>d.
                   ret (max (if i \<noteq> 0 then min (max v i) d else v) rv, write2 \<or> i \<noteq> 0, prop)))))"
    have "valid M X Y r ?none (\<lambda>x. tri (fst x))"
      unfolding Let_def case_prod_beta using t
      by (intro valid_if valid_ret valid_after[OF valid_default_prop[OF f]] valid_after[OF p[unfolded case_prod_beta]] valid_after[OF i] valid_after[OF d]) auto
    then show "valid M X Y r (case u of Some t \<Rightarrow> after (key (tri_of t)) (\<lambda>x. ret (max (min x vis) rv, True, None)) | None \<Rightarrow> ?none) (\<lambda>x. tri (fst x))"
      using t by (cases u) (auto intro!: valid_after[OF k] valid_ret)
  qed
qed

lemma valid_tri_value:
  assumes f: "supports M f r (full M)" and t: "tri vis" "tri rv"
  shows "valid M X Y r (tri_value M f n y vis rv w0) (\<lambda>x. tri (fst x))"
proof -
  have c: "valid M X Y r (if vis \<noteq> 0 then choice_selection M f c else ret None) (\<lambda>_. True)" for c
    by (simp add: valid_ret valid_choice_selection[OF f])
  have g: "valid M X Y r (after (if vis \<noteq> 0 then choice_selection M f c else ret None) (\<lambda>r. ret (if r = Some n then 2 else 0, w0, None))) (\<lambda>x. tri (fst x))" for c
    by (rule valid_after[OF c]) (simp add: valid_ret)
  show ?thesis unfolding tri_value_def
    by (cases "s_choice y"; simp only: option.case) (intro valid_if g valid_plain_tri[OF f t])+
qed

lemma valid_inherit: "valid M X Y r (inherit_transitional M n prop v) (\<lambda>_. True)"
proof -
  have m: "valid M X Y r (modify (\<lambda>s. case nd of
           E_sym x \<Rightarrow> if (case dict_get (syms M) x of Some y \<Rightarrow> transitional y | None \<Rightarrow> False) \<and> dict_get (user s) x \<noteq> None
             then s\<lparr>user := dict_set n v (user s)\<rparr> else s
         | _ \<Rightarrow> s)) (\<lambda>_. True)" for nd
    by (rule valid_modify) (auto simp: cache_ok_def keeps_def split: enode.split)
  show ?thesis unfolding inherit_transitional_def node_def
    by (rule valid_after[OF valid_asks_any]) (auto intro!: valid_after[OF valid_key_eq] m valid_ret split: option.split)
qed

text \<open>In a choice with priorities a member is y only after the selection was made.\<close>

lemma tri_value_selected:
  assumes "tri_value M f n y vis rv w0 s = Ret (v, w, p) s'" "choice_priority (sem M)" "s_choice y = Some c"
  shows "v \<noteq> 1 \<and> (v = 2 \<longrightarrow> dict_get (sel_of s') c = Some (Some n))"
proof -
  have "after (if vis \<noteq> 0 then choice_selection M f c else ret None) (\<lambda>r. ret (if r = Some n then 2 else 0, w0, None)) s = Ret (v, w, p) s'"
    using assms by (simp add: tri_value_def)
  then obtain r where r: "(if vis \<noteq> 0 then choice_selection M f c else ret None) s = Ret r s'" "v = (if r = Some n then 2 else 0)"
    by (auto simp: after_def ret_def split: outcome.splits)
  have "r = Some n \<Longrightarrow> dict_get (sel_of s') c = Some (Some n)"
    using r(1) assms(2) by (auto simp: choice_selection_def after_def read_key_def asks_def key_def ret_def split: if_splits outcome.splits option.splits)
  then show ?thesis using r(2) by simp
qed

lemma settle_tri_value:
  assumes "settle_tri M n t v0 s = Ret v s'" "tri v0" "b = Ty_bool \<longrightarrow> t = Ty_bool"
  shows "s' = s \<and> tri v \<and> (b = Ty_bool \<longrightarrow> v \<noteq> 1) \<and> (v0 \<noteq> 1 \<longrightarrow> v = v0)"
  using assms by (auto simp: settle_tri_def asks_def split: if_splits)

lemma inherit_fields:
  assumes "inherit_transitional M n prop v s = Ret u s'"
  shows "cur s' = cur s \<and> sel_of s' = sel_of s"
  using assms by (auto simp: inherit_transitional_def after_def asks_def ret_def node_def key_def modify_def split: option.splits outcome.splits enode.splits if_splits)

lemma cache_ok_cur:
  assumes "cache_ok M s" "dict_get (syms M) n = Some y" "value_ok (s_type y) v"
    and "\<And>c. choice_priority (sem M) \<Longrightarrow> s_choice y = Some c \<Longrightarrow> v = V_tri 2 \<Longrightarrow> dict_get (sel_of s) c = Some (Some n)"
  shows "cache_ok M (s\<lparr>cur := dict_set n v (cur s)\<rparr>)"
  using assms by (auto simp: cache_ok_def values_ok_def selected_ok_def)

lemma valid_calc_tri:
  assumes f: "supports M f r (full M)" and y: "dict_get (syms M) n = Some y" "\<not> string_type (s_type y)"
    and t: "tri vis" "tri rv" "s_type y = Ty_bool \<longrightarrow> t = Ty_bool"
  shows "valid M {n} Y r (calc_tri M f n y t vis rv w0) (\<lambda>_. True)"
proof (rule validI)
  fix s
  assume s: "cache_ok M s" "rank M s \<le> r"
  have "valid M {n} Y r (after (tri_value M f n y vis rv w0) (\<lambda>(v0, write, prop). after (settle_tri M n t v0) (\<lambda>v.
     after (inherit_transitional M n prop (tri_char v)) (\<lambda>_. ret ())))) (\<lambda>_. True)"
    unfolding settle_tri_def
    by (rule valid_after[OF valid_tri_value[OF f t(1,2)]]) (auto intro!: valid_after[OF valid_asks_any] valid_after[OF valid_inherit] valid_ret)
  from valid_fuel[OF this s] show "calc_tri M f n y t vis rv w0 s \<noteq> Out_of_fuel"
    by (auto simp: calc_tri_def after_def modify_def ret_def split: outcome.splits)
next
  fix s x s'
  assume s: "cache_ok M s" "rank M s \<le> r" and e: "calc_tri M f n y t vis rv w0 s = Ret x s'"
  obtain v0 w p s1 where v0: "tri_value M f n y vis rv w0 s = Ret (v0, w, p) s1"
    using e by (auto simp: calc_tri_def after_def split: outcome.splits)
  note k1 = valid_Ret[OF valid_tri_value[OF f t(1,2)] s v0, of "{n}" Y]
  obtain v where v: "settle_tri M n t v0 s1 = Ret v s1" by (simp add: settle_tri_def asks_def)
  obtain u s2 where u: "inherit_transitional M n p (tri_char v) s1 = Ret u s2" and s': "s' = s2\<lparr>cur := dict_set n (V_tri v) (cur s2)\<rparr>"
    using e v0 v by (auto simp: calc_tri_def after_def modify_def ret_def split: outcome.splits)
  note sv = settle_tri_value[OF v _ t(3)]
  have "rank M s1 \<le> r" using k1 rank_mono s(2) le_trans by blast
  note k2 = valid_Ret[OF valid_inherit _ this u, of "{n}" Y]
  have tv: "tri v" "s_type y = Ty_bool \<longrightarrow> v \<noteq> 1" using sv k1 by auto
  have "dict_get (sel_of s2) c = Some (Some n)" if "choice_priority (sem M)" "s_choice y = Some c" "V_tri v = V_tri 2" for c
    using tri_value_selected[OF v0 that(1,2)] sv k1 inherit_fields[OF u] that(3) by auto
  then have "cache_ok M s'"
    unfolding s' using k1 k2 y tv by (intro cache_ok_cur[OF _ y(1)]) (auto simp: value_ok_def)
  moreover have "keeps M {n} Y s2 s'" by (simp add: s' keeps_def dict_keeps_set)
  ultimately show "cache_ok M s' \<and> keeps M {n} Y s s' \<and> True" using k1 k2 keeps_trans by blast
qed

lemma valid_range_val:
  assumes f: "supports M f r (full M)"
  shows "valid M X Y r (range_val M f e b uns) (\<lambda>_. True)"
  unfolding range_val_def node_def Let_def
  by (intro valid_after[OF valid_key_eq] valid_after[OF valid_leaf_str[OF f]] valid_ret) simp_all

lemma valid_active_range:
  assumes f: "supports M f r (full M)"
  shows "valid M X Y r (active_range f rs) (\<lambda>_. True)"
proof (induction rs)
  case (Cons x rs)
  obtain lo hi c where x: "x = (lo, hi, c)" by (cases x)
  have "supports M f r (length (exprs M) + 2)" by (rule supports_mono[OF f]) simp
  from valid_expr_tri[OF this] show ?case using Cons by (auto simp: x intro!: valid_after[where Q = tri] valid_ret)
qed (simp add: valid_ret)

lemma valid_near_range_bound:
  assumes f: "supports M f r (full M)"
  shows "valid M X Y r (near_range_bound M f y text) (\<lambda>_. True)"
  unfolding near_range_bound_def Let_def
  by (rule valid_after[OF valid_active_range[OF f]]) (auto intro!: valid_after[OF valid_range_val[OF f]] valid_ret split: option.split)

lemma valid_bound_text:
  assumes f: "supports M f r (full M)"
  shows "valid M X Y r (bound_text M f y e) (\<lambda>_. True)"
  unfolding bound_text_def
  by (intro valid_if valid_leaf_str[OF f] valid_after[OF valid_range_val[OF f]] valid_ret) simp_all

lemma valid_set_string:
  assumes "dict_get (syms M) n = Some y" "string_type (s_type y)"
  shows "valid M {n} Y r (modify (\<lambda>s. s\<lparr>cur := dict_set n (V_str t) (cur s)\<rparr>)) (\<lambda>_. True)"
  by (rule valid_modify) (use assms in \<open>auto intro!: cache_ok_cur[OF _ assms(1)] simp: value_ok_def keeps_def dict_keeps_set\<close>)

lemma valid_validate_range:
  assumes f: "supports M f r (full M)" and y: "dict_get (syms M) n = Some y" "string_type (s_type y)"
  shows "valid M {n} Y r (validate_range M f n y text) (\<lambda>_. True)"
  unfolding validate_range_def
  by (rule valid_after[OF valid_near_range_bound[OF f]]) (auto intro!: valid_ret valid_after[OF valid_bound_text[OF f]] valid_set_string[OF y] split: option.split)

lemma valid_calc_string:
  assumes f: "supports M f r (full M)" and y: "dict_get (syms M) n = Some y" "string_type (s_type y)"
  shows "valid M {n} Y r (calc_string M f n y vis w0) (\<lambda>_. True)"
proof -
  have p: "valid M {n} Y r (case u of Some _ \<Rightarrow> ret None | None \<Rightarrow> default_prop f (defaults y)) (\<lambda>_. True)" for u :: "string option"
    by (cases u) (auto intro: valid_ret valid_conseq[OF valid_default_prop[OF f]])
  have v: "valid M {n} Y r (case u of
         Some t \<Rightarrow> ret t
       | None \<Rightarrow> (case pr of Some (e, _) \<Rightarrow> leaf_str M f e | None \<Rightarrow> ret (empty_value (sem M) (s_type y)))) (\<lambda>_. True)" for u and pr :: "(nat \<times> nat) option"
    by (auto intro: valid_ret valid_leaf_str[OF f] split: option.split)
  have w: "valid M {n} Y r (if s_type y = Ty_int \<or> s_type y = Ty_hex then validate_range M f n y t else ret ()) (\<lambda>_. True)" for t
    by (simp add: valid_ret valid_validate_range[OF f y])
  show ?thesis unfolding calc_string_def
    by (intro valid_after[OF valid_asks_any] valid_after[OF p] valid_after[OF v] valid_after[OF valid_inherit] valid_after[OF valid_set_string[OF y]]
        valid_after[OF w] valid_ret) simp
qed

lemma valid_calc_choice:
  assumes f: "supports M f r (full M)" and y: "dict_get (syms M) n = Some y" "\<not> string_type (s_type y)"
  shows "valid M {n} Y r (calc_choice M f n y) (\<lambda>_. True)"
proof -
  have u: "valid M {n} Y r (case u of Some x \<Rightarrow> if x \<noteq> [] \<and> dict_get (syms M) x \<noteq> None then f (Q_vis x) else ret 0 | None \<Rightarrow> ret 0) (\<lambda>_. True)" for u
    using valid_conseq[OF supports_call[OF f], of _ "\<lambda>_. True"] by (auto intro: valid_ret split: option.split)
  have m: "valid M {n} Y r (modify (\<lambda>s. s\<lparr>cur := dict_set n (V_tri 0) (cur s)\<rparr>)) (\<lambda>_. True)"
    by (rule valid_modify) (use y in \<open>auto intro!: cache_ok_cur[OF _ y(1)] simp: value_ok_def keeps_def dict_keeps_set\<close>)
  have d: "valid M {n} Y r (case d of Some x \<Rightarrow> ret (Some x)
       | None \<Rightarrow> after (modify (\<lambda>s. s\<lparr>cur := dict_set n (V_tri 0) (cur s)\<rparr>)) (\<lambda>_. ret None)) (\<lambda>_. True)" for d :: "string option"
    by (auto intro!: valid_ret valid_after[OF m] split: option.split)
  show ?thesis unfolding calc_choice_def
    by (intro valid_after[OF valid_visit_all[OF f]] valid_after[OF valid_asks_any] valid_after[OF u] valid_if valid_ret
        valid_after[OF valid_choice_default[OF f]] d) simp
qed

lemma valid_calc_selection:
  assumes f: "supports M f r (full M)" and y: "dict_get (syms M) n = Some y"
  shows "valid M {n} Y r (calc_selection M f n y) (\<lambda>_. True)"
proof -
  have s: "valid M {n} Y r (modify (\<lambda>s. s\<lparr>sel_of := dict_set n z (sel_of s)\<rparr>)) (\<lambda>_. True)" if "\<not> choice_priority (sem M)" for z
    by (rule valid_modify) (use that in \<open>auto simp: cache_ok_def selected_ok_def keeps_def dict_keeps_set\<close>)
  have c: "valid M {n} Y r (read_key cur n) (\<lambda>v. v = V_tri 2 \<longrightarrow> \<not> string_type (s_type y))"
    by (rule valid_read) (use y in \<open>fastforce simp: cache_ok_def values_ok_def value_ok_def\<close>)
  have "valid M {n} Y r (after (read_key cur n) (\<lambda>v. if v = V_tri 2
       then after (calc_choice M f n y) (\<lambda>z. modify (\<lambda>s. s\<lparr>sel_of := dict_set n z (sel_of s)\<rparr>)) else ret ())) (\<lambda>_. True)" if "\<not> choice_priority (sem M)"
    by (rule valid_after[OF c]) (auto intro!: valid_ret valid_after[OF valid_calc_choice[OF f y]] s that)
  then show ?thesis by (simp add: calc_selection_def valid_ret)
qed

lemma valid_note_writing:
  assumes f: "supports M f r (full M)"
  shows "valid M X Y r (note_writing M f n y vis w0) (\<lambda>_. True)"
proof -
  have c: "valid M X Y r (case s_choice y of Some c \<Rightarrow> choice_raw_write f c | None \<Rightarrow> ret False) (\<lambda>_. True)"
    by (auto intro!: valid_ret valid_after[OF supports_call[OF f]] valid_asks_any simp: choice_raw_write_def split: option.split)
  show ?thesis unfolding note_writing_def Let_def
    by (rule valid_after[OF c]) (rule valid_modify; simp add: cache_ok_def keeps_def)
qed

lemma valid_calc_inner:
  assumes f: "supports M f r (full M)" and y: "dict_get (syms M) n = Some y"
  shows "valid M {n} Y r (calc_inner M f n y) (\<lambda>_. True)"
proof -
  have rv: "valid M {n} Y r (read_key rev_of n) tri"
    by (rule valid_read) (auto simp: cache_ok_def dest: all_tri_get)
  have c: "valid M {n} Y r (if string_type (s_type y) then calc_string M f n y vis w0 else calc_tri M f n y t vis v w0) (\<lambda>_. True)"
    if "tri vis" "tri v" "\<forall>y. dict_get (syms M) n = Some y \<longrightarrow> s_type y = Ty_bool \<longrightarrow> t = Ty_bool" for vis v t w0
    using valid_calc_string[OF f y] valid_calc_tri[OF f y _ that(1,2)] that(3) y by simp
  show ?thesis unfolding calc_inner_def Let_def
    by (intro valid_after[OF supports_call[OF f]] valid_after[OF rv] valid_after[OF valid_get_type[OF f]] valid_after[OF c]
        valid_after[OF valid_calc_selection[OF f y]] valid_note_writing[OF f]) simp_all
qed

subsection \<open>The four functions\<close>

lemma filter_set_less:
  assumes "n \<in> set ns" "dict_get d n = None"
  shows "open_count ns (dict_set n v d) < open_count ns d"
  using assms(1)
proof (induction ns)
  case (Cons m ns)
  show ?case
  proof (cases "m = n")
    case True
    then show ?thesis using assms(2) open_mono[of UNIV d "dict_set n v d" ns] by (simp add: dict_keeps_set le_imp_less_Suc open_count_def)
  qed (use Cons in \<open>auto simp: open_count_def\<close>)
qed simp

lemma sym_in_names: "dict_get (syms M) n = Some y \<Longrightarrow> n \<in> set (map fst (syms M))"
  using map_of_SomeD[of "syms M" n y] by force

lemma dict_keeps_started: "dict_get d n = None \<Longrightarrow> dict_keeps {n} (dict_set n v d) d' \<Longrightarrow> dict_keeps X d d'"
  unfolding dict_keeps_def by (metis dict_get_set singletonD)

lemma rank_set_cur:
  "dict_get (syms M) n = Some y \<Longrightarrow> dict_get (cur s) n = None \<Longrightarrow> rank M (s\<lparr>cur := dict_set n v (cur s)\<rparr>) < rank M s"
  unfolding rank_def using filter_set_less[OF sym_in_names] by (simp del: dict_get_set)

lemma rank_set_sel:
  "dict_get (syms M) n = Some y \<Longrightarrow> dict_get (sel_of s) n = None \<Longrightarrow> rank M (s\<lparr>sel_of := dict_set n v (sel_of s)\<rparr>) < rank M s"
  unfolding rank_def using filter_set_less[OF sym_in_names] by (simp del: dict_get_set)

text \<open>A step that starts a computation leaves its calls a smaller rank.\<close>

lemma valid_calc_step:
  assumes f: "\<And>r'. r' < r \<Longrightarrow> supports M f r' (full M)"
  shows "valid M {} {} r (calc_step M f n) tri"
proof (rule validI)
  fix s
  assume s: "cache_ok M s" "rank M s \<le> r"
  let ?s1 = "\<lambda>y. s\<lparr>cur := dict_set n (provisional M y) (cur s)\<rparr>"
  have start: "cache_ok M (?s1 y)" "supports M f (rank M (?s1 y)) (full M)"
    if "dict_get (syms M) n = Some y" "dict_get (cur s) n = None" for y
  proof -
    show "cache_ok M (?s1 y)" by (rule cache_ok_cur[OF s(1) that(1)]) (auto simp: value_ok_def provisional_def split: if_splits)
    show "supports M f (rank M (?s1 y)) (full M)" using rank_set_cur[OF that, of "provisional M y"] s(2) by (intro f) linarith
  qed
  have unf: "calc_step M f n s = (case dict_get (syms M) n of None \<Rightarrow> Key_missing
      | Some y \<Rightarrow> (case calc_inner M f n y (?s1 y) of Out_of_fuel \<Rightarrow> Out_of_fuel | Key_missing \<Rightarrow> Key_missing | Ret _ s2 \<Rightarrow> Ret 0 s2))"
    if "dict_get (cur s) n = None"
    using that by (auto simp: calc_step_def after_def asks_def sym_def key_def modify_def ret_def split: option.splits outcome.splits)
  have old: "calc_step M f n s = Ret 0 s" if "dict_get (cur s) n \<noteq> None"
    using that by (auto simp: calc_step_def after_def asks_def ret_def)
  show "calc_step M f n s \<noteq> Out_of_fuel"
  proof (cases "dict_get (cur s) n = None")
    case True
    show ?thesis
    proof (cases "dict_get (syms M) n")
      case (Some y)
      note st = start[OF Some True]
      from valid_fuel[OF valid_calc_inner[OF st(2) Some] st(1)] show ?thesis
        using unf[OF True] Some by (auto split: outcome.splits)
    qed (simp add: unf[OF True])
  qed (simp add: old)
  fix v s'
  assume e: "calc_step M f n s = Ret v s'"
  show "cache_ok M s' \<and> keeps M {} {} s s' \<and> tri v"
  proof (cases "dict_get (cur s) n = None")
    case True
    then obtain y u where y: "dict_get (syms M) n = Some y" and c: "calc_inner M f n y (?s1 y) = Ret u s'" and v: "v = 0"
      using e unf by (auto split: option.splits outcome.splits)
    note st = start[OF y True]
    note k = valid_Ret[OF valid_calc_inner[OF st(2) y] st(1) _ c, of "{}"]
    have "keeps M {} {} s s'"
      using k dict_keeps_started[OF True] by (auto simp: keeps_def)
    then show ?thesis using k v by simp
  next
    case False
    then show ?thesis using old e s by simp
  qed
qed

lemma cache_ok_sel:
  assumes "cache_ok M s" "choice_priority (sem M) \<Longrightarrow> dict_get (sel_of s) c = None \<or> dict_get (sel_of s) c = Some None"
  shows "cache_ok M (s\<lparr>sel_of := dict_set c z (sel_of s)\<rparr>)"
  using assms by (auto simp: cache_ok_def selected_ok_def)

lemma valid_sel_step:
  assumes f: "\<And>r'. r' < r \<Longrightarrow> supports M f r' (full M)"
  shows "valid M {} {} r (sel_step M f c) tri"
proof (rule validI)
  fix s
  assume s: "cache_ok M s" "rank M s \<le> r"
  let ?s1 = "s\<lparr>sel_of := dict_set c None (sel_of s)\<rparr>"
  have start: "cache_ok M ?s1" "supports M f (rank M ?s1) (full M)"
    if "dict_get (syms M) c = Some y" "dict_get (sel_of s) c = None" for y
  proof -
    show "cache_ok M ?s1" using s(1) that(2) by (intro cache_ok_sel) simp_all
    show "supports M f (rank M ?s1) (full M)" using rank_set_sel[OF that, of None] s(2) by (intro f) linarith
  qed
  have unf: "sel_step M f c s = (case dict_get (syms M) c of None \<Rightarrow> Key_missing
      | Some y \<Rightarrow> (case calc_choice_modern M f c y ?s1 of Out_of_fuel \<Rightarrow> Out_of_fuel | Key_missing \<Rightarrow> Key_missing
          | Ret z s2 \<Rightarrow> Ret 0 (s2\<lparr>sel_of := dict_set c z (sel_of s2)\<rparr>)))"
    if "dict_get (sel_of s) c = None"
    using that by (auto simp: sel_step_def after_def asks_def sym_def key_def modify_def ret_def split: option.splits outcome.splits)
  have old: "sel_step M f c s = Ret 0 s" if "dict_get (sel_of s) c \<noteq> None"
    using that by (auto simp: sel_step_def after_def asks_def ret_def)
  show "sel_step M f c s \<noteq> Out_of_fuel"
  proof (cases "dict_get (sel_of s) c = None")
    case True
    show ?thesis
    proof (cases "dict_get (syms M) c")
      case (Some y)
      note st = start[OF Some True]
      from valid_fuel[OF valid_calc_choice_modern[OF st(2)] st(1)] show ?thesis
        using unf[OF True] Some by (auto split: outcome.splits)
    qed (simp add: unf[OF True])
  qed (simp add: old)
  fix v s'
  assume e: "sel_step M f c s = Ret v s'"
  show "cache_ok M s' \<and> keeps M {} {} s s' \<and> tri v"
  proof (cases "dict_get (sel_of s) c = None")
    case True
    then obtain y z s2 where y: "dict_get (syms M) c = Some y" and m: "calc_choice_modern M f c y ?s1 = Ret z s2"
      and s': "s' = s2\<lparr>sel_of := dict_set c z (sel_of s2)\<rparr>" and v: "v = 0"
      using e unf by (auto split: option.splits outcome.splits)
    note st = start[OF y True]
    note k = valid_Ret[OF valid_calc_choice_modern[OF st(2)] st(1) _ m, of "{}" "{}"]
    have "dict_get (sel_of s2) c = Some None" if "choice_priority (sem M)"
      using k that by (auto simp: keeps_def dict_keeps_def)
    then have "cache_ok M s'" unfolding s' using k by (intro cache_ok_sel) simp_all
    moreover have "keeps M {} {} s s'" using k True by (auto simp: s' keeps_def dict_keeps_def)
    ultimately show ?thesis using v by simp
  next
    case False
    then show ?thesis using old e s by simp
  qed
qed

lemma run_valid:
  assumes m: "model_ok M"
  shows "enough M r q \<le> fuel \<Longrightarrow> valid M {} {} r (run M fuel q) tri"
proof (induction fuel arbitrary: r q)
  case (Suc fuel)
  have sup: "supports M (run M fuel) r l" if "r * full M + l \<le> fuel" for r l
    unfolding supports_def using Suc.IH that by (auto simp: enough_def)
  have less: "supports M (run M fuel) r' (full M)" if "r' < r" for r'
  proof (rule sup)
    have "Suc r' * full M \<le> r * full M" using that by (intro mult_le_mono1) simp
    then show "r' * full M + full M \<le> fuel" using Suc.prems by (simp add: enough_def)
  qed
  have lv: "supports M (run M fuel) r (level M q)" using Suc.prems by (intro sup) (simp add: enough_def)
  have "run M (Suc fuel) q = step M (run M fuel) q" by (rule ext) simp
  moreover have "valid M {} {} r (step M (run M fuel) q) tri"
  proof (cases q)
    case (Q_expr e)
    then show ?thesis using valid_expr_step[OF m] lv by (simp add: step_def)
  next
    case (Q_vis n)
    then show ?thesis using valid_vis_step lv by (simp add: step_def)
  next
    case (Q_calc n)
    then show ?thesis using valid_calc_step[OF less] by (simp add: step_def)
  next
    case (Q_sel c)
    then show ?thesis using valid_sel_step[OF less] by (simp add: step_def)
  qed
  ultimately show ?case by simp
qed (simp add: enough_def)

subsection \<open>Sequences of queries\<close>

text \<open>The evaluator between two changes of the user's values: any queries, in any order, on cleared caches.\<close>

fun ask_all :: "kmodel \<Rightarrow> nat \<Rightarrow> query list \<Rightarrow> unit kev" where
  "ask_all M fuel [] = ret ()"
| "ask_all M fuel (q # qs) = after (run M fuel q) (\<lambda>_. ask_all M fuel qs)"

definition eval_fuel :: "kmodel \<Rightarrow> nat" where
  "eval_fuel M = (2 * length (syms M) + 1) * full M"

lemma rank_bound: "rank M s \<le> 2 * length (syms M)"
proof -
  have "open_count ns d \<le> length ns" for ns :: "string list" and d :: "(string, 'v) dict"
    by (simp add: open_count_def)
  from this[of "map fst (syms M)" "cur s"] this[of "map fst (syms M)" "sel_of s"] show ?thesis by (simp add: rank_def)
qed

lemma eval_fuel_enough:
  assumes "r \<le> 2 * length (syms M)"
  shows "enough M r q \<le> eval_fuel M"
proof -
  have "r * full M \<le> 2 * length (syms M) * full M" using assms by (rule mult_le_mono1)
  moreover have "level M q + 1 \<le> full M" by (cases q) (simp_all add: level_def)
  ultimately have "r * full M + (level M q + 1) \<le> 2 * length (syms M) * full M + full M" by (rule add_mono)
  then show ?thesis by (simp only: enough_def eval_fuel_def add_mult_distrib mult_1 add.assoc)
qed

lemma valid_ask_all:
  assumes "model_ok M" "eval_fuel M \<le> fuel"
  shows "valid M {} {} (2 * length (syms M)) (ask_all M fuel qs) (\<lambda>_. True)"
proof (induction qs)
  case (Cons q qs)
  have "enough M (2 * length (syms M)) q \<le> fuel" using eval_fuel_enough[of "2 * length (syms M)" M q] assms(2) by simp
  from run_valid[OF assms(1) this] show ?case using Cons by (auto intro: valid_after)
qed (simp add: valid_ret)

lemma cache_ok_cleared [simp]: "cache_ok M (clear_caches s)"
  by (simp add: cache_ok_def clear_caches_def values_ok_def selected_ok_def all_tri_def)

lemmas ask_all_Ret = valid_Ret[OF valid_ask_all _ rank_bound]

text \<open>
  C9: Evaluating a configuration ends.  After a change of the user's values every sequence of queries, for values,
  visibilities, expressions and selections, ends within the fuel \<open>eval_fuel\<close>, with recursive dependencies between the
  symbols too; all that is asked of the model is that the nodes of an expression come after their operands.
\<close>

theorem kconfig_eval_ends:
  assumes "model_ok M" "eval_fuel M \<le> fuel"
  shows "ask_all M fuel qs (clear_caches s) \<noteq> Out_of_fuel"
  by (rule valid_fuel[OF valid_ask_all[OF assms] cache_ok_cleared rank_bound])

text \<open>
  C20: Values have the types of their symbols: a bool is n or y, a tristate n, m or y, every other symbol has a text.  A
  value stays as it is for all later queries, until the user's values change.
\<close>

theorem kconfig_values_typed:
  assumes "model_ok M" "eval_fuel M \<le> fuel" "ask_all M fuel qs (clear_caches s) = Ret () s1"
    and "dict_get (syms M) n = Some y" "dict_get (cur s1) n = Some v"
  shows "value_ok (s_type y) v \<and> (\<forall>qs' s2. ask_all M fuel qs' s1 = Ret () s2 \<longrightarrow> dict_get (cur s2) n = Some v)"
proof -
  note k = ask_all_Ret[OF assms(1,2) cache_ok_cleared assms(3)]
  then have "value_ok (s_type y) v" using assms(4,5) by (force simp: cache_ok_def values_ok_def)
  moreover have "dict_get (cur s2) n = Some v" if "ask_all M fuel qs' s1 = Ret () s2" for qs' s2
    using ask_all_Ret[OF assms(1,2) _ that] k assms(5) by (auto simp: keeps_def dict_keeps_def)
  ultimately show ?thesis by blast
qed

text \<open>
  C8: A choice has one selection.  In the semantics of Linux 6.11 and later no two members of a choice are y, whatever
  the user set, whatever was asked before, and also where dependencies are recursive.
\<close>

theorem choice_has_one_selection:
  assumes "model_ok M" "eval_fuel M \<le> fuel" "ask_all M fuel qs (clear_caches s) = Ret () s1" "choice_priority (sem M)"
    and "dict_get (syms M) m1 = Some y1" "s_choice y1 = Some c" "dict_get (cur s1) m1 = Some (V_tri 2)"
    and "dict_get (syms M) m2 = Some y2" "s_choice y2 = Some c" "dict_get (cur s1) m2 = Some (V_tri 2)"
  shows "m1 = m2"
proof -
  note k = ask_all_Ret[OF assms(1,2) cache_ok_cleared assms(3)]
  then have "\<not> string_type (s_type y1)" "\<not> string_type (s_type y2)" using assms(5,7,8,10) by (force simp: cache_ok_def values_ok_def value_ok_def)+
  then have "dict_get (sel_of s1) c = Some (Some m1)" "dict_get (sel_of s1) c = Some (Some m2)"
    using k assms(4-10) unfolding cache_ok_def selected_ok_def by blast+
  then show ?thesis by simp
qed

subsection \<open>Ranges\<close>

lemma strtoll_64: "- (2 ^ 63) \<le> n \<Longrightarrow> n < 2 ^ 63 \<Longrightarrow> strtoll (show_int n) 10 = n"
  by (simp add: strtoll_def)

lemma strtoull_64: "strtoull (show_hex (n mod 2 ^ 64)) 16 = uint (word_of_int n :: 64 word)"
  using strtoull_word[of "show_hex (n mod 2 ^ 64)" 16] by (simp add: unsigned_of_int take_bit_eq_mod)

lemma range_val_bounds:
  assumes "range_val M f e b False s = Ret v s'"
  shows "- (2 ^ 63) \<le> v \<and> v < 2 ^ 63"
proof -
  obtain t b1 where "v = strtoll t b1" using assms by (auto simp: range_val_def after_def ret_def Let_def split: outcome.splits)
  then show ?thesis using strtoll_range[of t b1] by blast
qed

lemma leaf_str_node: "leaf_str M f e s = Ret t s' \<Longrightarrow> e < length (exprs M)"
  by (auto simp: leaf_str_def node_def after_def key_def split: if_splits)

lemma range_val_of_leaf:
  assumes "leaf_str M f e s = Ret t s'"
  shows "range_val M f e b False s = Ret (strtoll t (bound_base M (exprs M ! e) b)) s'"
  using assms leaf_str_node[OF assms] by (simp add: range_val_def after_def node_def key_def ret_def Let_def)


subsection \<open>An example\<close>

text \<open>
  The semantics of 7.4 and later as its sources are detected; a choice of \<open>X\<close> and \<open>Y\<close> of which the user set both, a number out of its range, and
  \<open>A\<close> without a prompt that depends on \<open>B\<close>, which depends on \<open>A\<close>.
\<close>

definition recent_semantics :: semantics where
  "recent_semantics = \<lparr>compare_fallback_strcmp = True, typed_comparisons = True, const_tristate_type = True,
     int_hex_zero_default = True, write_on_nonzero_default = True, tristate_choice_mod_hidden = False,
     implied_needs_dir_dep = False, implied_y_forces_y = False, imply_obeys_dir_dep = True, hex_range_unsigned = True,
     range_bound_text = True, numeric_bounds_check = True, conf_read_keeps_invisible = True,
     conf_read_keeps_out_of_range = True, default_range_clamp = True, choice_priority = True\<rparr>"

text \<open>Before 6.7: bounds reformatted, choices without priorities.\<close>

definition earlier_semantics :: semantics where
  "earlier_semantics = \<lparr>compare_fallback_strcmp = True, typed_comparisons = True, const_tristate_type = False,
     int_hex_zero_default = False, write_on_nonzero_default = True, tristate_choice_mod_hidden = True,
     implied_needs_dir_dep = False, implied_y_forces_y = False, imply_obeys_dir_dep = True, hex_range_unsigned = False,
     range_bound_text = False, numeric_bounds_check = False, conf_read_keeps_invisible = False,
     conf_read_keeps_out_of_range = False, default_range_clamp = False, choice_priority = False\<rparr>"

definition plain_symbol :: symbol where
  "plain_symbol = \<lparr>s_type = Ty_bool, prompts = [], defaults = [], ranges = [], rev_dep = -1, implied = -1, dir_dep = -1,
     s_choice = None, is_choice = False, members = [], s_auto = False, s_optional = True, allnoconfig_y = False, transitional = False\<rparr>"

definition some_model :: kmodel where
  "some_model = \<lparr>exprs = [E_sym ''B'', E_sym ''A'', E_const ''20'', E_const ''5'', E_const ''10''],
     syms = [(''A'', plain_symbol\<lparr>dir_dep := 0\<rparr>), (''B'', plain_symbol\<lparr>prompts := [1]\<rparr>),
       (''C'', plain_symbol\<lparr>is_choice := True, prompts := [-1], members := [''X'', ''Y'']\<rparr>),
       (''X'', plain_symbol\<lparr>s_choice := Some ''C'', prompts := [-1]\<rparr>), (''Y'', plain_symbol\<lparr>s_choice := Some ''C'', prompts := [-1]\<rparr>),
       (''N'', plain_symbol\<lparr>s_type := Ty_int, prompts := [-1], defaults := [(2, -1)], ranges := [(3, 4, -1)]\<rparr>)],
     modules_sym = ''MODULES'', sem = recent_semantics\<rparr>"

definition some_user :: kstate where
  "some_user = \<lparr>user = [(''X'', ''y''), (''Y'', ''y'')], choice_user = [], choice_order = [(''C'', [''Y'', ''X''])], cur = [], write_of = [],
     raw_write = [], vis_of = [], rev_of = [], implied_of = [], dir_of = [], sel_of = [], expr_memo = []\<rparr>"

lemma some_model_ok: "model_ok some_model" "eval_fuel some_model = 104"
  by code_simp+

abbreviation asked :: "query list \<Rightarrow> unit outcome" where
  "asked qs \<equiv> ask_all some_model 104 qs (clear_caches some_user)"

theorem kconfig_eval_ends_witness: "asked [Q_calc ''A'', Q_calc ''Y'', Q_calc ''X'', Q_calc ''N''] \<noteq> Out_of_fuel"
  by (rule kconfig_eval_ends) (simp_all add: some_model_ok)

text \<open>
  A symbol that is asked for while it is being computed reads a provisional value, as the comments promise, when it is
  reached through its value; asked for its visibility alone, a recursive dependency finds the visibility but not yet the
  reverse dependencies, and a \<open>KeyError\<close> escapes.
\<close>

lemma recursive_dependency:
  "asked [Q_vis ''A''] = Key_missing"
  "case asked [Q_calc ''A''] of Ret _ s \<Rightarrow> dict_get (cur s) ''A'' = Some (V_tri 0) | _ \<Rightarrow> False"
  by code_simp+

definition asked_state :: "unit outcome \<Rightarrow> kstate" where
  "asked_state r = (case r of Ret _ s \<Rightarrow> s | _ \<Rightarrow> some_user)"

lemma asked_Ret: "(case asked qs of Ret _ _ \<Rightarrow> True | _ \<Rightarrow> False) \<Longrightarrow> asked qs = Ret () (asked_state (asked qs))"
  by (cases "asked qs") (simp_all add: asked_state_def)

theorem kconfig_values_typed_witness:
  "dict_get (cur (asked_state (asked [Q_calc ''N'']))) ''N'' = Some (V_str ''10'')
   \<and> (case ask_all some_model 104 [Q_calc ''A'', Q_calc ''Y'', Q_calc ''N''] (asked_state (asked [Q_calc ''N''])) of
        Ret _ s2 \<Rightarrow> dict_get (cur s2) ''N'' = Some (V_str ''10'') | _ \<Rightarrow> False)"
proof -
  let ?more = "ask_all some_model 104 [Q_calc ''A'', Q_calc ''Y'', Q_calc ''N''] (asked_state (asked [Q_calc ''N'']))"
  have "case asked [Q_calc ''N''] of Ret _ _ \<Rightarrow> True | _ \<Rightarrow> False" by code_simp
  note r = asked_Ret[OF this]
  have v: "dict_get (cur (asked_state (asked [Q_calc ''N'']))) ''N'' = Some (V_str ''10'')" by code_simp
  have "dict_get (syms some_model) ''N'' \<noteq> None" by code_simp
  then obtain y where y: "dict_get (syms some_model) ''N'' = Some y" by blast
  have "case ?more of Ret _ _ \<Rightarrow> True | _ \<Rightarrow> False" by code_simp
  then obtain s2 where m: "?more = Ret () s2" by (cases ?more) simp_all
  have f: "eval_fuel some_model \<le> 104" using some_model_ok(2) by simp
  have "dict_get (cur s2) ''N'' = Some (V_str ''10'')" using kconfig_values_typed[OF some_model_ok(1) f r y v] m by blast
  then show ?thesis using v m by simp
qed

theorem choice_has_one_selection_witness:
  "dict_get (cur (asked_state (asked [Q_calc ''X'', Q_calc ''Y'']))) ''Y'' = Some (V_tri 2)
   \<and> dict_get (cur (asked_state (asked [Q_calc ''X'', Q_calc ''Y'']))) ''X'' \<noteq> Some (V_tri 2)"
proof -
  let ?s = "asked_state (asked [Q_calc ''X'', Q_calc ''Y''])"
  have "case asked [Q_calc ''X'', Q_calc ''Y''] of Ret _ _ \<Rightarrow> True | _ \<Rightarrow> False" by code_simp
  note r = asked_Ret[OF this]
  have y: "dict_get (cur ?s) ''Y'' = Some (V_tri 2)" by code_simp
  have s: "choice_priority (sem some_model)" by code_simp
  have ys: "dict_get (syms some_model) ''Y'' = Some (plain_symbol\<lparr>s_choice := Some ''C'', prompts := [-1]\<rparr>)"
    "dict_get (syms some_model) ''X'' = Some (plain_symbol\<lparr>s_choice := Some ''C'', prompts := [-1]\<rparr>)"
    by (simp_all add: some_model_def)
  have "dict_get (cur ?s) ''X'' \<noteq> Some (V_tri 2)"
  proof
    assume x: "dict_get (cur ?s) ''X'' = Some (V_tri 2)"
    from choice_has_one_selection[OF some_model_ok(1) _ r s ys(1) _ y ys(2) _ x] some_model_ok(2) show False by simp
  qed
  then show ?thesis using y by simp
qed

text \<open>A bound written \<open>010\<close> replaces the value as it is written, or reformatted.\<close>

definition bound_model :: "semantics \<Rightarrow> kmodel" where
  "bound_model S = some_model\<lparr>exprs := [E_const ''010''], sem := S\<rparr>"


end
