(* ===== verification/Kconfig_Config.thy ===== *)
theory Kconfig_Config
  imports Kconfig_Eval_Facts
begin

section \<open>Changing and exchanging configurations (parser/kconfig_ast/kconfig_eval.py)\<close>

text \<open>
  What a user or a \<open>.config\<close> file sets, and what is written back.  Here \<open>f\<close> is the evaluator with enough fuel.  The menu
  tree, its comments in the written file and the prerequisite solver are left out, and with them \<open>choice_def_tri\<close>, which only
  \<open>set_all_new_symbols\<close> reads.
\<close>

subsection \<open>Setting values\<close>

text \<open>\<open>_promote\<close>: the member gets the highest priority.\<close>

definition promote :: "kmodel \<Rightarrow> string \<Rightarrow> string \<Rightarrow> (string, string list) dict \<Rightarrow> (string, string list) dict" where
  "promote M c m orders =
     (let ms = (case dict_get orders c of Some ms \<Rightarrow> ms | None \<Rightarrow> (case dict_get (syms M) c of Some y \<Rightarrow> members y | None \<Rightarrow> []))
      in dict_set c (m # remove1 m ms) orders)"

definition rev_dep_val :: "call \<Rightarrow> string \<Rightarrow> nat kev" where
  "rev_dep_val f n = after (f (Q_vis n)) (\<lambda>_. read_key rev_of n)"

definition is_changeable :: "kmodel \<Rightarrow> call \<Rightarrow> string \<Rightarrow> bool kev" where
  "is_changeable M f n = after (sym M n) (\<lambda>y. if choice_priority (sem M) \<and> is_choice y then ret False
     else after (f (Q_vis n)) (\<lambda>v. after (rev_dep_val f n) (\<lambda>rv. ret (v > rv))))"

definition tristate_within_range :: "kmodel \<Rightarrow> call \<Rightarrow> string \<Rightarrow> int \<Rightarrow> bool kev" where
  "tristate_within_range M f n val = after (sym M n) (\<lambda>y. after (f (Q_vis n)) (\<lambda>vis. after (get_type M f n) (\<lambda>t.
     if vis = 0 \<or> t \<noteq> Ty_bool \<and> t \<noteq> Ty_tristate then ret False
     else if t = Ty_bool \<and> val = 1 then ret False
     else after (rev_dep_val f n) (\<lambda>rv.
       if vis \<le> rv then ret False
       else after (asks (\<lambda>s. dict_get (implied_of s) n = Some 2)) (\<lambda>iy.
         if val = 1 \<and> implied_y_forces_y (sem M) \<and> iy then ret False
         else if s_choice y \<noteq> None \<and> vis = 2 \<and> \<not> choice_priority (sem M) then ret (val = 2)
         else ret (int rv \<le> val \<and> val \<le> int vis))))))"

definition user_default :: "string \<Rightarrow> string \<Rightarrow> (string, string) dict \<Rightarrow> (string, string) dict" where
  "user_default n v u = (if dict_get u n = None then dict_set n v u else u)"

text \<open>\<open>choice_set_value\<close> (6.11+): the member y, the other visible ones n, each promoted in turn.\<close>

fun set_members :: "kmodel \<Rightarrow> call \<Rightarrow> string \<Rightarrow> string \<Rightarrow> string list \<Rightarrow> unit kev" where
  "set_members M f c n [] = ret ()"
| "set_members M f c n (m # ms) = after (f (Q_vis m)) (\<lambda>v.
     if v = 0 then set_members M f c n ms
     else after (modify (\<lambda>s. s\<lparr>user := dict_set m (if m = n then ''y'' else ''n'') (user s), choice_order := promote M c m (choice_order s)\<rparr>))
       (\<lambda>_. set_members M f c n ms))"

definition choice_set_value :: "kmodel \<Rightarrow> call \<Rightarrow> string \<Rightarrow> string \<Rightarrow> unit kev" where
  "choice_set_value M f c n = after (sym M c) (\<lambda>y. after (set_members M f c n (members y)) (\<lambda>_. modify clear_caches))"

fun default_members :: "call \<Rightarrow> string list \<Rightarrow> unit kev" where
  "default_members f [] = ret ()"
| "default_members f (m # ms) = after (f (Q_vis m)) (\<lambda>v.
     after (if v = 0 then ret () else modify (\<lambda>s. s\<lparr>user := user_default m ''n'' (user s)\<rparr>)) (\<lambda>_. default_members f ms))"

definition set_tristate :: "kmodel \<Rightarrow> call \<Rightarrow> string \<Rightarrow> nat \<Rightarrow> bool kev" where
  "set_tristate M f n val = after (sym_tri M f n) (\<lambda>old.
     after (if old = val then ret True else tristate_within_range M f n (int val)) (\<lambda>ok.
     if \<not> ok then ret False
     else after (sym M n) (\<lambda>y. case s_choice y of
         Some c \<Rightarrow>
           if val = 2 \<and> choice_priority (sem M) then after (choice_set_value M f c n) (\<lambda>_. ret True)
           else after (if val = 2 then after (modify (\<lambda>s. s\<lparr>choice_user := dict_set c n (choice_user s), user := user_default c ''n'' (user s)\<rparr>))
               (\<lambda>_. after (sym M c) (\<lambda>z. default_members f (members z))) else ret ()) (\<lambda>_.
             after (modify (\<lambda>s. clear_caches (s\<lparr>user := dict_set n (tri_char val) (user s)\<rparr>))) (\<lambda>_. ret True))
       | None \<Rightarrow> after (modify (\<lambda>s. clear_caches (s\<lparr>user := dict_set n (tri_char val) (user s)\<rparr>))) (\<lambda>_. ret True))))"

definition lower_char :: "char \<Rightarrow> char" where
  "lower_char c = (if c = CHR ''Y'' then CHR ''y'' else if c = CHR ''M'' then CHR ''m'' else if c = CHR ''N'' then CHR ''n'' else c)"

text \<open>The tristate a text starts with; only the letters \<open>n\<close>, \<open>m\<close>, \<open>y\<close> matter, so other cases need not be lowered.\<close>

definition first_tri :: "string \<Rightarrow> nat option" where
  "first_tri text = (case text of [] \<Rightarrow> None | c # _ \<Rightarrow> tri_of [lower_char c])"

definition string_within_range :: "kmodel \<Rightarrow> call \<Rightarrow> string \<Rightarrow> string \<Rightarrow> bool kev" where
  "string_within_range M f n text = after (sym M n) (\<lambda>y.
     let t = s_type y
     in if t = Ty_string then ret True
        else if t = Ty_int \<or> t = Ty_hex then
          (if \<not> string_valid t text \<or> numeric_bounds_check (sem M) \<and> \<not> numeric_in_bounds t text then ret False
           else after (active_range f (ranges y)) (\<lambda>r. case r of
               None \<Rightarrow> ret True
             | Some (lo, hi) \<Rightarrow> (let v = read_number (sem M) t text; b = number_base t; u = reads_unsigned (sem M) t
                 in after (range_val M f lo b u) (\<lambda>l. if l \<le> v then after (range_val M f hi b u) (\<lambda>h. ret (v \<le> h)) else ret False))))
        else if (t = Ty_bool \<or> t = Ty_tristate) \<and> text \<noteq> [] then
          tristate_within_range M f n (case first_tri text of Some v \<Rightarrow> int v | None \<Rightarrow> - 1)
        else ret False)"

definition with_hex_prefix :: "ktype \<Rightarrow> string \<Rightarrow> string" where
  "with_hex_prefix t text = (if t = Ty_hex \<and> \<not> hex_prefix text then ''0x'' @ text else text)"

definition set_value :: "kmodel \<Rightarrow> call \<Rightarrow> string \<Rightarrow> string \<Rightarrow> bool kev" where
  "set_value M f n text = (case dict_get (syms M) n of
       None \<Rightarrow> ret False
     | Some y \<Rightarrow>
         if s_type y = Ty_bool \<or> s_type y = Ty_tristate
         then (case first_tri text of None \<Rightarrow> ret False | Some v \<Rightarrow> set_tristate M f n v)
         else after (string_within_range M f n text) (\<lambda>ok.
           if \<not> ok then ret False
           else after (modify (\<lambda>s. clear_caches (s\<lparr>user := dict_set n (with_hex_prefix (s_type y) text) (user s)\<rparr>))) (\<lambda>_. ret True)))"

text \<open>\<open>toggle\<close>: at most three tries, the last of which is the old value.\<close>

fun toggle_from :: "kmodel \<Rightarrow> call \<Rightarrow> string \<Rightarrow> nat \<Rightarrow> nat \<Rightarrow> unit kev" where
  "toggle_from M f n v 0 = ret ()"
| "toggle_from M f n v (Suc k) = after (set_tristate M f n ((v + 1) mod 3)) (\<lambda>ok. if ok then ret () else toggle_from M f n ((v + 1) mod 3) k)"

definition toggle :: "kmodel \<Rightarrow> call \<Rightarrow> string \<Rightarrow> nat kev" where
  "toggle M f n = after (sym M n) (\<lambda>y. case s_choice y of
       Some c \<Rightarrow> if choice_priority (sem M) then after (choice_set_value M f c n) (\<lambda>_. sym_tri M f n)
         else after (sym_tri M f n) (\<lambda>old. after (toggle_from M f n old 3) (\<lambda>_. sym_tri M f n))
     | None \<Rightarrow> after (sym_tri M f n) (\<lambda>old. after (toggle_from M f n old 3) (\<lambda>_. sym_tri M f n)))"

subsection \<open>Writing\<close>

definition writes :: "call \<Rightarrow> string \<Rightarrow> bool kev" where
  "writes f n = after (f (Q_calc n)) (\<lambda>_. asks (\<lambda>s. dict_get (write_of s) n = Some True))"

text \<open>\<open>_symbol_line\<close>, given the symbol's value.\<close>

definition line_of :: "ktype \<Rightarrow> string \<Rightarrow> kvalue \<Rightarrow> string option" where
  "line_of t n v = (let text = (case v of V_tri k \<Rightarrow> tri_char k | V_str x \<Rightarrow> x)
     in if t = Ty_bool \<or> t = Ty_tristate
        then (case v of
            V_tri k \<Rightarrow> Some (if k = 0 then ''# CONFIG_'' @ n @ '' is not set'' else ''CONFIG_'' @ n @ ''='' @ tri_char k)
          | V_str _ \<Rightarrow> Some (''# CONFIG_'' @ n @ '' is not set''))
        else if t = Ty_string then Some (''CONFIG_'' @ n @ ''='' @ [CHR 0x22] @ escape_string text @ [CHR 0x22])
        else if t = Ty_int \<or> t = Ty_hex then Some (''CONFIG_'' @ n @ ''='' @ text)
        else None)"

definition symbol_line :: "kmodel \<Rightarrow> call \<Rightarrow> string \<Rightarrow> string option kev" where
  "symbol_line M f n = after (sym M n) (\<lambda>y.
     if s_type y = Ty_bool \<or> s_type y = Ty_tristate then after (sym_tri M f n) (\<lambda>v. ret (line_of (s_type y) n (V_tri v)))
     else if string_type (s_type y) then after (sym_str M f n) (\<lambda>x. ret (line_of (s_type y) n (V_str x)))
     else ret None)"

text \<open>\<open>config_values\<close>\<close>

fun values_from :: "kmodel \<Rightarrow> call \<Rightarrow> (string \<times> symbol) list \<Rightarrow> (string, string) dict kev" where
  "values_from M f [] = ret []"
| "values_from M f ((n, y) # ys) =
     (if s_type y = Ty_unknown \<or> is_choice y then values_from M f ys
      else after (writes f n) (\<lambda>w. if w then after (sym_str M f n) (\<lambda>x. after (values_from M f ys) (\<lambda>d. ret ((n, x) # d))) else values_from M f ys))"

definition config_values :: "kmodel \<Rightarrow> call \<Rightarrow> (string, string) dict kev" where
  "config_values M f = values_from M f (syms M)"

text \<open>\<open>string_default\<close> and \<open>write_defconfig\<close>, over the symbols of the menu nodes in order.\<close>

definition string_default :: "kmodel \<Rightarrow> call \<Rightarrow> string \<Rightarrow> string kev" where
  "string_default M f n = after (sym M n) (\<lambda>y. let tri = (s_type y = Ty_bool \<or> s_type y = Ty_tristate)
     in after (default_prop f (defaults y)) (\<lambda>prop.
        after (case prop of Some (e, t) \<Rightarrow> if tri then after (f (Q_expr e)) (\<lambda>x. ret (min x t)) else ret 0 | None \<Rightarrow> ret 0) (\<lambda>v0.
        after (case prop of Some (e, _) \<Rightarrow> if tri then ret [] else leaf_str M f e | None \<Rightarrow> ret []) (\<lambda>text0.
        after (rev_dep_val f n) (\<lambda>rv.
        after (if max v0 rv = 1 \<and> s_choice y = None then after (modules_val M f) (\<lambda>m. ret (if m = 0 then 2 else 1)) else ret (max v0 rv)) (\<lambda>v1.
        after (asks (\<lambda>s. case dict_get (implied_of s) n of Some i \<Rightarrow> i | None \<Rightarrow> 0)) (\<lambda>i.
        let v2 = max (if s_type y = Ty_bool \<and> v1 = 1 then 2 else v1) i;
            text1 = (if text0 = [] then empty_value (sem M) (s_type y) else text0)
        in if tri then ret (tri_char v2)
           else if default_range_clamp (sem M)
           then after (near_range_bound M f y text1) (\<lambda>b. case b of Some e \<Rightarrow> leaf_str M f e | None \<Rightarrow> ret text1)
           else ret text1)))))))"

definition defconfig_line :: "kmodel \<Rightarrow> call \<Rightarrow> string \<Rightarrow> string option kev" where
  "defconfig_line M f n = after (sym M n) (\<lambda>y.
     after (is_changeable M f n) (\<lambda>ch. if \<not> ch then ret None
     else after (sym_str M f n) (\<lambda>x. after (string_default M f n) (\<lambda>d. if x = d then ret None
     else after (case s_choice y of
         None \<Rightarrow> ret False
       | Some c \<Rightarrow> after (sym M c) (\<lambda>z. if s_optional z then ret False
           else after (choice_default M f z) (\<lambda>m. if m = Some n \<and> s_type y = Ty_bool then after (sym_tri M f n) (\<lambda>v. ret (v = 2)) else ret False))) (\<lambda>skip.
       if skip then ret None else symbol_line M f n)))))"

fun defconfig_lines :: "kmodel \<Rightarrow> call \<Rightarrow> string option list \<Rightarrow> string list \<Rightarrow> string list kev" where
  "defconfig_lines M f [] written = ret []"
| "defconfig_lines M f (None # ns) written = defconfig_lines M f ns written"
| "defconfig_lines M f (Some n # ns) written = after (sym M n) (\<lambda>y.
     if is_choice y \<or> n \<in> set written then defconfig_lines M f ns written
     else after (writes f n) (\<lambda>w. if \<not> w then defconfig_lines M f ns written
       else after (defconfig_line M f n) (\<lambda>l. after (defconfig_lines M f ns (n # written)) (\<lambda>ls.
         ret (case l of Some x \<Rightarrow> x # ls | None \<Rightarrow> ls)))))"

definition write_defconfig :: "kmodel \<Rightarrow> call \<Rightarrow> string option list \<Rightarrow> string kev" where
  "write_defconfig M f menu_symbols = after (defconfig_lines M f menu_symbols [])
     (\<lambda>ls. ret (join_with [CHR 0x0A] ls @ (if ls = [] then [] else [CHR 0x0A])))"

subsection \<open>Reading a configuration file (\<open>conf_read\<close>)\<close>

text \<open>The state of the first pass: values, the choices' selections and flags, and the report.\<close>

record loader =
  l_user :: "(string, string) dict"
  l_choice_user :: "(string, string) dict"
  l_order :: "(string, string list) dict"
  choice_flag :: "(string, bool) dict"
  choice_tri :: "(string, nat) dict"
  unknown_names :: "string list"
  invalid_values :: "(string \<times> string) list"
  load_warnings :: nat

definition choices :: "kmodel \<Rightarrow> string list" where
  "choices M = map fst (filter (\<lambda>(n, y). is_choice y) (syms M))"

definition start_orders :: "kmodel \<Rightarrow> (string, string list) dict" where
  "start_orders M = map (\<lambda>(n, y). (n, members y)) (filter (\<lambda>(n, y). is_choice y) (syms M))"

definition start_load :: "kmodel \<Rightarrow> loader" where
  "start_load M = \<lparr>l_user = [], l_choice_user = [], l_order = start_orders M, choice_flag = map (\<lambda>c. (c, True)) (choices M),
     choice_tri = map (\<lambda>c. (c, 0)) (choices M), unknown_names = [], invalid_values = [], load_warnings = 0\<rparr>"

text \<open>\<open>set_sym\<close>; the choice of a member has a tristate of its own, 0 where the code has no entry.\<close>

definition set_sym :: "kmodel \<Rightarrow> string \<Rightarrow> string \<Rightarrow> loader \<Rightarrow> loader" where
  "set_sym M n v l0 =
     (let l = l0\<lparr>l_user := dict_set n v (l_user l0)\<rparr>
      in case (case dict_get (syms M) n of Some y \<Rightarrow> s_choice y | None \<Rightarrow> None) of
           None \<Rightarrow> l
         | Some c \<Rightarrow>
             if choice_priority (sem M) then l\<lparr>l_order := promote M c n (l_order l)\<rparr>
             else (let tv = (case tri_of v of Some k \<Rightarrow> k | None \<Rightarrow> 0);
                       ct = (case dict_get (choice_tri l) c of Some k \<Rightarrow> k | None \<Rightarrow> 0);
                       l1 = (if tv = 1 \<and> ct = 2 then l\<lparr>load_warnings := load_warnings l + 1, choice_flag := dict_set c False (choice_flag l)\<rparr>
                         else if tv = 2 then l\<lparr>load_warnings := load_warnings l + (if ct \<noteq> 0 then 1 else 0), l_choice_user := dict_set c n (l_choice_user l)\<rparr>
                         else l)
                   in l1\<lparr>choice_tri := dict_set c (max ct tv) (choice_tri l1)\<rparr>))"

text \<open>The text between quotes, a backslash taking the next character as it is; \<open>None\<close> when the closing quote is missing.\<close>

fun read_quoted :: "string \<Rightarrow> string option" where
  "read_quoted [] = None"
| "read_quoted (c # cs) =
     (if c = CHR 0x22 then Some []
      else if c = CHR 0x5C then (case cs of [] \<Rightarrow> None | d # ds \<Rightarrow> map_option (\<lambda>t. d # t) (read_quoted ds))
      else map_option (\<lambda>t. c # t) (read_quoted cs))"

text \<open>\<open># CONFIG_NAME is not set\<close>: the name of such a comment.\<close>

definition not_set_name :: "string \<Rightarrow> string option" where
  "not_set_name line = (if startswith line ''# CONFIG_''
     then (let rest = drop 9 line; n = takeWhile (\<lambda>c. \<not> py_space c) rest
           in if n \<noteq> [] \<and> startswith (drop (length n) rest) '' is not set'' then Some n else None)
     else None)"

definition add_invalid :: "string \<Rightarrow> string \<Rightarrow> loader \<Rightarrow> loader" where
  "add_invalid n v l = l\<lparr>invalid_values := invalid_values l @ [(n, v)]\<rparr>"

definition assign_value :: "kmodel \<Rightarrow> symbol \<Rightarrow> string \<Rightarrow> string \<Rightarrow> loader \<Rightarrow> loader" where
  "assign_value M y n v l =
     (let t = s_type y
      in if t = Ty_bool \<or> t = Ty_tristate then
           (if t = Ty_tristate \<and> take 1 v = ''m'' then set_sym M n ''m'' l
            else if take 1 v = ''y'' \<or> take 1 v = ''n'' then set_sym M n (take 1 v) l
            else add_invalid n v l)
         else if t = Ty_string then
           (case v of
              c # cs \<Rightarrow> if c \<noteq> CHR 0x22 then l
                else (case read_quoted cs of Some x \<Rightarrow> l\<lparr>l_user := dict_set n x (l_user l)\<rparr> | None \<Rightarrow> add_invalid n v l)
            | [] \<Rightarrow> l)
         else if t = Ty_int \<or> t = Ty_hex then
           (if string_valid t v then l\<lparr>l_user := dict_set n v (l_user l)\<rparr> else add_invalid n v l)
         else l)"

definition load_line :: "kmodel \<Rightarrow> loader \<Rightarrow> string \<Rightarrow> loader" where
  "load_line M l raw =
     (let line = rstrip_by (\<lambda>c. c = CHR 0x0D \<or> c = CHR 0x0A) raw
      in if startswith line ''#'' then
           (case not_set_name line of
              None \<Rightarrow> l
            | Some n \<Rightarrow> (case dict_get (syms M) n of
                  None \<Rightarrow> l\<lparr>unknown_names := unknown_names l @ [n]\<rparr>
                | Some y \<Rightarrow> if s_type y = Ty_bool \<or> s_type y = Ty_tristate then set_sym M n ''n'' l else l))
         else if \<not> startswith line ''CONFIG_'' then
           (if py_strip line \<noteq> [] then l\<lparr>load_warnings := load_warnings l + 1\<rparr> else l)
         else if CHR ''='' \<notin> set line then l
         else (let rest = drop 7 line; n = takeWhile (\<lambda>c. c \<noteq> CHR ''='') rest; v = drop (length n + 1) rest
               in case dict_get (syms M) n of
                    None \<Rightarrow> l\<lparr>unknown_names := unknown_names l @ [n]\<rparr>
                  | Some y \<Rightarrow> if is_choice y then l\<lparr>unknown_names := unknown_names l @ [n]\<rparr> else assign_value M y n v l))"

text \<open>The first pass over a file, and the state it leaves for the second.\<close>

definition load_lines :: "kmodel \<Rightarrow> string \<Rightarrow> loader" where
  "load_lines M text = foldl (load_line M) (start_load M) (splitlines False text)"

definition choice_values :: "kmodel \<Rightarrow> loader \<Rightarrow> (string, string) dict" where
  "choice_values M l = (if choice_priority (sem M) then l_user l
     else foldl (\<lambda>u c. dict_set c (tri_char (case dict_get (choice_tri l) c of Some k \<Rightarrow> k | None \<Rightarrow> 0)) u) (l_user l) (choices M))"

text \<open>What is left of the choices' flags, and how many values differ from what would be saved.\<close>

fun drop_flags :: "call \<Rightarrow> string list \<Rightarrow> bool kev" where
  "drop_flags f [] = ret True"
| "drop_flags f (m # ms) = after (f (Q_vis m)) (\<lambda>v. after (asks (\<lambda>s. v \<noteq> 0 \<and> dict_get (user s) m = None)) (\<lambda>b.
     after (drop_flags f ms) (\<lambda>ok. ret (ok \<and> \<not> b))))"

fun count_unsaved :: "kmodel \<Rightarrow> call \<Rightarrow> (string \<times> symbol) list \<Rightarrow> (string, bool) dict \<Rightarrow> nat \<Rightarrow> ((string, bool) dict \<times> nat) kev" where
  "count_unsaved M f [] flags k = ret (flags, k)"
| "count_unsaved M f ((n, y) # ys) flags k =
     (if s_type y = Ty_unknown then count_unsaved M f ys flags k
      else if is_choice y then
        (if choice_priority (sem M) then count_unsaved M f ys flags k
         else after (drop_flags f (members y)) (\<lambda>ok. count_unsaved M f ys (if ok then flags else dict_set n False flags) k))
      else if s_auto y then count_unsaved M f ys flags k
      else after (writes f n) (\<lambda>w. after (asks (\<lambda>s. dict_get (user s) n)) (\<lambda>u.
        after (if w \<and> u \<noteq> None then after (sym_str M f n) (\<lambda>x. ret (if u = Some x then 0 else 1)) else ret (if w \<or> u \<noteq> None then 1 else 0)) (\<lambda>d.
        count_unsaved M f ys flags (k + d)))))"

definition drop_user :: "string \<Rightarrow> unit kev" where
  "drop_user n = modify (\<lambda>s. s\<lparr>user := AList.delete n (user s)\<rparr>)"

text \<open>Values without a prompt are dropped when nothing was unsaved, texts out of range always.\<close>

fun settle_user :: "kmodel \<Rightarrow> call \<Rightarrow> string list \<Rightarrow> nat \<Rightarrow> nat kev" where
  "settle_user M f [] k = ret k"
| "settle_user M f (n # ns) k = (case dict_get (syms M) n of
       None \<Rightarrow> settle_user M f ns k
     | Some y \<Rightarrow>
         if s_choice y \<noteq> None then settle_user M f ns k
         else after (f (Q_vis n)) (\<lambda>v.
           if v = 0 \<and> k = 0 \<and> \<not> conf_read_keeps_invisible (sem M) then after (drop_user n) (\<lambda>_. settle_user M f ns k)
           else if string_type (s_type y) \<and> \<not> conf_read_keeps_out_of_range (sem M)
           then after (read_key user n) (\<lambda>t. after (string_within_range M f n t) (\<lambda>ok.
             if ok then settle_user M f ns k else after (drop_user n) (\<lambda>_. settle_user M f ns (k + 1))))
           else settle_user M f ns k))"

definition load_config :: "kmodel \<Rightarrow> call \<Rightarrow> string \<Rightarrow> (loader \<times> nat) kev" where
  "load_config M f text =
     (let l = load_lines M text
      in after (modify (\<lambda>s. clear_caches (s\<lparr>user := choice_values M l, choice_user := l_choice_user l, choice_order := l_order l\<rparr>))) (\<lambda>_.
         after (count_unsaved M f (syms M) (choice_flag l) 0) (\<lambda>(flags, k).
         after (modify (\<lambda>s. if choice_priority (sem M) then s
           else s\<lparr>user := foldl (\<lambda>u (c, keep). if keep then u else AList.delete c u) (user s) flags\<rparr>)) (\<lambda>_.
         after (asks (\<lambda>s. map fst (user s))) (\<lambda>ns.
         after (settle_user M f ns k) (\<lambda>k2. after (modify clear_caches) (\<lambda>_. ret (l, k2))))))))"

subsection \<open>A written line is read back\<close>

lemma rstrip_last: "s \<noteq> [] \<Longrightarrow> \<not> p (last s) \<Longrightarrow> rstrip_by p s = s"
  by (cases s rule: rev_cases) (simp_all add: rstrip_by_def)

lemma set_sym_user [simp]: "l_user (set_sym M n v l) = dict_set n v (l_user l)"
  by (simp add: set_sym_def Let_def split: option.split)

lemma escape_string_simps [simp]:
  "escape_string [] = []"
  "escape_string (c # s) = (if c = CHR 0x5C \<or> c = CHR 0x22 then CHR 0x5C # c # escape_string s else c # escape_string s)"
  by (simp_all add: escape_string_def py_replace_def)

lemma read_escaped: "read_quoted (escape_string s @ CHR 0x22 # rest) = Some s"
  by (induction s) auto

lemma digits_no_line_end: "hex_digit c \<Longrightarrow> c \<noteq> CHR 0x0D \<and> c \<noteq> CHR 0x0A"
  by (auto simp: hex_digit_def dec_digit_def)

lemma valid_number_last:
  assumes "string_valid t x" "t = Ty_int \<or> t = Ty_hex"
  shows "x \<noteq> [] \<and> hex_digit (last x)"
proof (cases "t = Ty_int")
  case True
  define z where "z = (if startswith x ''-'' then drop 1 x else x)"
  have z: "int_text z" using assms True by (simp add: string_valid_def z_def)
  have dz: "hex_digit CHR ''0''" by (simp add: hex_digit_def dec_digit_def)
  have "z \<noteq> [] \<and> list_all hex_digit z"
    using z dz by (cases z) (auto simp: int_text_def hex_digit_def list_all_iff)
  moreover have "\<exists>p. x = p @ z" 
  proof (cases "startswith x ''-''")
    case True
    then have "x = ''-'' @ z" using startswith_drop[of x "''-''"] by (simp add: z_def)
    then show ?thesis by blast
  qed (simp add: z_def)
  ultimately show ?thesis by (auto simp: list_all_iff)
next
  case False
  have "\<exists>p z. x = p @ z \<and> hex_text z"
  proof (cases "hex_text x")
    case True
    then have "x = [] @ x \<and> hex_text x" by simp
    then show ?thesis by blast
  next
    case prefixed: False
    then have "hex_text (drop 2 x)" using False assms by (auto simp: string_valid_def split: if_splits)
    then show ?thesis using append_take_drop_id[of 2 x] by metis
  qed
  then show ?thesis by (auto simp: hex_text_def list_all_iff)
qed

definition plain_name :: "string \<Rightarrow> bool" where
  "plain_name n \<longleftrightarrow> n \<noteq> [] \<and> list_all (\<lambda>c. \<not> py_space c \<and> c \<noteq> CHR ''='') n"

abbreviation without_line_end :: "string \<Rightarrow> string" where
  "without_line_end \<equiv> rstrip_by (\<lambda>c. c = CHR 0x0D \<or> c = CHR 0x0A)"

lemma rstrip_after:
  assumes "p \<noteq> []" "\<not> P (last p)"
  shows "rstrip_by P (p @ v) = p @ rstrip_by P v"
proof -
  obtain q c where "p = q @ [c]" "\<not> P c" using assms by (cases p rule: rev_cases) auto
  moreover have "dropWhile P (rev v @ c # rev q) = dropWhile P (rev v) @ c # rev q" if "\<not> P c" for c q
    using that by (induction "rev v" arbitrary: v) (simp_all add: dropWhile_append)
  ultimately show ?thesis by (simp add: rstrip_by_def)
qed

lemma load_assignment:
  assumes n: "plain_name n" and y: "dict_get (syms M) n = Some y" "\<not> is_choice y"
  shows "load_line M l (''CONFIG_'' @ n @ ''='' @ v) = assign_value M y n (without_line_end v) l"
proof -
  let ?v = "without_line_end v" let ?line = "''CONFIG_'' @ n @ ''='' @ ?v"
  have r: "without_line_end (''CONFIG_'' @ n @ ''='' @ v) = ?line"
    using rstrip_after[of "''CONFIG_'' @ n @ ''=''" "\<lambda>c. c = CHR 0x0D \<or> c = CHR 0x0A" v] by simp
  have t: "takeWhile (\<lambda>c. c \<noteq> CHR ''='') (n @ ''='' @ ?v) = n"
    using n by (subst takeWhile_append2) (auto simp: plain_name_def list_all_iff)
  have d: "drop 7 ?line = n @ ''='' @ ?v" by simp
  have s: "\<not> startswith ?line ''#''" "startswith ?line ''CONFIG_''" "CHR ''='' \<in> set ?line" by (simp_all add: startswith_def)
  show ?thesis unfolding load_line_def Let_def r d t using s y by simp
qed

lemma load_not_set:
  assumes n: "plain_name n" and y: "dict_get (syms M) n = Some y" "s_type y = Ty_bool \<or> s_type y = Ty_tristate"
  shows "load_line M l (''# CONFIG_'' @ n @ '' is not set'') = set_sym M n ''n'' l"
proof -
  let ?line = "''# CONFIG_'' @ n @ '' is not set''"
  have r: "rstrip_by (\<lambda>c. c = CHR 0x0D \<or> c = CHR 0x0A) ?line = ?line" by (intro rstrip_last) auto
  have sp: "py_space (CHR '' '')" by (simp add: py_space_def)
  have t: "takeWhile (\<lambda>c. \<not> py_space c) (n @ '' is not set'') = n"
    using n sp by (subst takeWhile_append2) (auto simp: plain_name_def list_all_iff)
  have d: "drop 9 ?line = n @ '' is not set''" by simp
  have s: "startswith ?line ''#''" "startswith ?line ''# CONFIG_''" by (simp_all add: startswith_def)
  have "not_set_name ?line = Some n"
    unfolding not_set_name_def Let_def d t using s n by (simp add: plain_name_def startswith_def)
  then show ?thesis unfolding load_line_def Let_def r using s y by simp
qed

text \<open>
  C39: A written line is read back, one line at a time.  The line written for the value of a symbol whose name has no
  blank and no \<open>=\<close>, read into any configuration, sets the symbol to that value when it is a tristate (n as a comment), a
  text (quotes and backslashes included) or a valid number.  The empty text of a number without a value, and any other
  invalid number, leaves the configuration as it was and is reported; only line ends behind a number are dropped.
  A value that holds a line break or a form feed is not one line of a file: see \<open>form_feed_cuts_value\<close>.
\<close>

theorem config_line_round_trip:
  assumes "dict_get (syms M) n = Some y" "\<not> is_choice y" "plain_name n" "value_ok (s_type y) v" "line_of (s_type y) n v = Some line"
  shows "case v of
      V_tri k \<Rightarrow> dict_get (l_user (load_line M l line)) n = Some (tri_char k)
    | V_str x \<Rightarrow> if string_valid (s_type y) x then dict_get (l_user (load_line M l line)) n = Some x
        else if string_valid (s_type y) (without_line_end x) then dict_get (l_user (load_line M l line)) n = Some (without_line_end x)
        else load_line M l line = add_invalid n (without_line_end x) l"
proof (cases v)
  case (V_tri k)
  have k: "k \<le> 2" "s_type y = Ty_bool \<longrightarrow> k \<noteq> 1" "s_type y = Ty_bool \<or> s_type y = Ty_tristate"
    using assms(4,5) by (auto simp: V_tri value_ok_def line_of_def string_type_def Let_def split: if_splits)
  show ?thesis
  proof (cases "k = 0")
    case True
    then have "line = ''# CONFIG_'' @ n @ '' is not set''" using assms(5) k(3) by (simp add: V_tri line_of_def)
    then show ?thesis using load_not_set[OF assms(3,1) k(3)] True by (simp add: V_tri tri_char_def)
  next
    case False
    then have "line = ''CONFIG_'' @ n @ ''='' @ tri_char k" using assms(5) k(3) by (simp add: V_tri line_of_def)
    moreover have "without_line_end (tri_char k) = tri_char k" by (rule rstrip_last) (simp_all add: tri_char_def)
    ultimately show ?thesis using load_assignment[OF assms(3,1,2), of l "tri_char k"] False k
      by (auto simp: V_tri tri_char_def assign_value_def)
  qed
next
  case (V_str x)
  have t: "s_type y = Ty_string \<or> s_type y = Ty_int \<or> s_type y = Ty_hex" using assms(4) by (simp add: V_str value_ok_def string_type_def)
  show ?thesis
  proof (cases "s_type y = Ty_string")
    case True
    let ?q = "[CHR 0x22] @ escape_string x @ [CHR 0x22]"
    have "line = ''CONFIG_'' @ n @ ''='' @ ?q" using assms(5) True by (simp add: V_str line_of_def)
    moreover have "without_line_end ?q = ?q" by (rule rstrip_last) simp_all
    ultimately show ?thesis using load_assignment[OF assms(3,1,2), of l ?q] True
      by (simp add: V_str assign_value_def read_escaped string_valid_def)
  next
    case False
    then have l: "line = ''CONFIG_'' @ n @ ''='' @ x" using assms(5) t by (auto simp: V_str line_of_def)
    have "without_line_end x = x" if "string_valid (s_type y) x"
      using valid_number_last[OF that] digits_no_line_end[of "last x"] False t by (intro rstrip_last) auto
    then show ?thesis unfolding l load_assignment[OF assms(3,1,2)] using False t by (auto simp: V_str assign_value_def)
  qed
qed

definition named_model :: kmodel where
  "named_model = some_model\<lparr>syms := [(''NAME'', plain_symbol\<lparr>s_type := Ty_string\<rparr>), (''N'', plain_symbol\<lparr>s_type := Ty_int\<rparr>)], sem := earlier_semantics\<rparr>"

text \<open>A quote in a text, and an int without a value, which is written as \<open>CONFIG_N=\<close>.\<close>

theorem config_line_round_trip_witness:
  "dict_get (l_user (load_line named_model (start_load named_model)
     (''CONFIG_NAME='' @ [CHR 0x22, CHR ''a'', CHR 0x5C, CHR 0x22, CHR ''b'', CHR 0x22]))) ''NAME'' = Some [CHR ''a'', CHR 0x22, CHR ''b'']
   \<and> load_line named_model (start_load named_model) ''CONFIG_N='' = add_invalid ''N'' [] (start_load named_model)"
  using config_line_round_trip[of named_model "''NAME''" "plain_symbol\<lparr>s_type := Ty_string\<rparr>" "V_str [CHR ''a'', CHR 0x22, CHR ''b'']"
      "''CONFIG_NAME='' @ [CHR 0x22, CHR ''a'', CHR 0x5C, CHR 0x22, CHR ''b'', CHR 0x22]" "start_load named_model"]
    config_line_round_trip[of named_model "''N''" "plain_symbol\<lparr>s_type := Ty_int\<rparr>" "V_str []" "''CONFIG_N=''" "start_load named_model"]
  by (simp add: named_model_def plain_name_def py_space_def value_ok_def plain_symbol_def string_type_def string_valid_def line_of_def
      rstrip_by_def startswith_def int_text_def)

text \<open>A whole file may be cut into other lines: \<open>splitlines\<close> also cuts at a form feed, which a quoted text may contain.\<close>

lemma form_feed_cuts_value:
  "line_of Ty_string ''NAME'' (V_str [CHR ''a'', CHR 0x0C, CHR ''b'']) = Some (''CONFIG_NAME='' @ [CHR 0x22, CHR ''a'', CHR 0x0C, CHR ''b'', CHR 0x22])"
  "dict_get (l_user (load_lines named_model (''CONFIG_NAME='' @ [CHR 0x22, CHR ''a'', CHR 0x0C, CHR ''b'', CHR 0x22]))) ''NAME'' = None"
  by code_simp+

end
