(* ===== verification/Ingest_State.thy ===== *)
theory Ingest_State
  imports Db_Layout
begin

section \<open>Recovery of interrupted runs (core/ingest_state.py)\<close>

text \<open>
  A run of a version records the highest id of every table that allocates ids; when it is interrupted, the rows above these
  marks, the rows derived from older blobs it parsed and the rows of its version are deleted.  The database is a function
  from table names to rows; a statement the module sends is the operation on the rows that SQL gives it.  Time, logging,
  progress reports and the scratch directories on disk are left out.
\<close>

subsection \<open>The database seen through SQL\<close>

type_synonym sql_db = "string \<Rightarrow> row list"

text \<open>The value of a column, \<open>NULL\<close> where there is none.\<close>

definition sql_value :: "table list \<Rightarrow> string \<Rightarrow> string \<Rightarrow> row \<Rightarrow> cell" where
  "sql_value ts n c r = (case find (\<lambda>t. table_name t = n) ts of
       None \<Rightarrow> CNone
     | Some t \<Rightarrow> (case col_index c (init_columns t) of
           None \<Rightarrow> CNone
         | Some i \<Rightarrow> if i < length r then r ! i else CNone))"

definition sql_among :: "cell \<Rightarrow> int list \<Rightarrow> bool" where
  "sql_among v ns = (case v of CInt k \<Rightarrow> k \<in> set ns | _ \<Rightarrow> False)"

definition sql_above :: "cell \<Rightarrow> int \<Rightarrow> bool" where
  "sql_above v m = (case v of CInt k \<Rightarrow> k > m | _ \<Rightarrow> False)"

text \<open>The conditions of \<open>Delete.where\<close>, with their parameters: \<open>col = %s\<close>, \<open>col > %s\<close>, \<open>col IN (...)\<close>, and
  \<open>child_col IN (SELECT pk FROM t WHERE col IN (...))\<close>.\<close>

datatype where_cond =
    Equals string int
  | Above string int
  | Among string "int list"
  | Hangs_off string string string string "int list"

fun holds :: "table list \<Rightarrow> sql_db \<Rightarrow> string \<Rightarrow> where_cond \<Rightarrow> row \<Rightarrow> bool" where
  "holds ts db n (Equals c k) r \<longleftrightarrow> sql_value ts n c r = CInt k"
| "holds ts db n (Above c m) r \<longleftrightarrow> sql_above (sql_value ts n c r) m"
| "holds ts db n (Among c ns) r \<longleftrightarrow> sql_among (sql_value ts n c r) ns"
| "holds ts db n (Hangs_off c pk t col ns) r \<longleftrightarrow> sql_value ts n c r \<noteq> CNone \<and>
     list_ex (\<lambda>p. sql_among (sql_value ts t col p) ns \<and> sql_value ts t pk p = sql_value ts n c r) (db t)"

type_synonym delete = "string \<times> where_cond"

text \<open>\<open>DELETE ... LIMIT k\<close>: the first k matching rows go; the second result is \<open>rowcount\<close>.\<close>

fun drop_matching :: "nat \<Rightarrow> ('a \<Rightarrow> bool) \<Rightarrow> 'a list \<Rightarrow> 'a list \<times> nat" where
  "drop_matching k p [] = ([], 0)"
| "drop_matching k p (r # rs) =
     (if p r \<and> k > 0 then (case drop_matching (k - 1) p rs of (rs', d) \<Rightarrow> (rs', Suc d))
      else (case drop_matching k p rs of (rs', d) \<Rightarrow> (r # rs', d)))"

lemma drop_matching_length: "length (fst (drop_matching k p rs)) + snd (drop_matching k p rs) = length rs"
  by (induction k p rs rule: drop_matching.induct) (auto split: prod.splits)

definition DELETE_CHUNK :: nat where
  "DELETE_CHUNK = 50000"

text \<open>The loop over chunks ends with the first one that is not full.\<close>

function delete_all :: "('a \<Rightarrow> bool) \<Rightarrow> 'a list \<Rightarrow> 'a list" where
  "delete_all p rs = (case drop_matching DELETE_CHUNK p rs of (rs', d) \<Rightarrow> if d < DELETE_CHUNK then rs' else delete_all p rs')"
  by pat_completeness auto

termination
  apply (relation "measure (\<lambda>(p, rs). length rs)")
   apply simp
  subgoal for p rs
    using drop_matching_length[of DELETE_CHUNK p rs] by (auto simp: DELETE_CHUNK_def dest!: sym[of "(_, _)"])
  done

declare delete_all.simps [simp del]

text \<open>One step of the plan: probe, then delete in chunks.\<close>

definition run_delete :: "table list \<Rightarrow> sql_db \<Rightarrow> delete \<Rightarrow> sql_db" where
  "run_delete ts db d = (case d of (n, w) \<Rightarrow>
     if list_ex (holds ts db n w) (db n) then db(n := delete_all (holds ts db n w) (db n)) else db)"

subsection \<open>What the schema says\<close>

definition STATIC_TABLES :: "string list" where
  "STATIC_TABLES = [''m_type_descriptor'', ''m_project'', ''m_git_network'', ''m_repository'', ''m_git_ref'']"

definition COMMIT_SCOPED :: "string list" where
  "COMMIT_SCOPED = [''m_bridge_checkpoint'', ''m_commit_file'', ''m_bridge_commit_tag'', ''m_blob_transition'']"

definition VERSION_ROWS :: "string list" where
  "VERSION_ROWS = [''m_bridge_checkpoint'', ''m_arch_root'']"

definition upper :: "string \<Rightarrow> string" where
  "upper = map (\<lambda>c. if py_lower_letter c then char_of ((of_char c :: nat) - 32) else c)"

text \<open>\<open>dict(_columns(table)).get(col, "")\<close>\<close>

definition type_text :: "table \<Rightarrow> string \<Rightarrow> string" where
  "type_text t c = (case find (\<lambda>col. col_name col = c) (rev (init_columns t)) of Some (_ # ty # _) \<Rightarrow> upper ty | _ \<Rightarrow> [])"

definition id_column :: "table \<Rightarrow> string option" where
  "id_column t = (case init_primary t of
       [c] \<Rightarrow> if table_name t \<in> set STATIC_TABLES then None
              else if \<not> contains_sub ''INT'' (type_text t c) \<or> list_ex (\<lambda>(fc, _, _). fc = c) (init_foreign t) then None
              else Some c
     | _ \<Rightarrow> None)"

definition marked_tables :: "table list \<Rightarrow> (table \<times> string) list" where
  "marked_tables ts = concat (map (\<lambda>t. case id_column t of Some c \<Rightarrow> [(t, c)] | None \<Rightarrow> []) ts)"

text \<open>\<open>_children\<close>, read at one parent.\<close>

definition children :: "table list \<Rightarrow> string \<Rightarrow> (table \<times> string) list" where
  "children ts parent = concat (map (\<lambda>t. map (\<lambda>(c, _, _). (t, c)) (filter (\<lambda>(_, p, _). p = parent) (init_foreign t))) ts)"

definition blob_derived_tables :: "table list \<Rightarrow> (table \<times> string) list" where
  "blob_derived_tables ts = concat (map (\<lambda>t. if table_name t \<in> set COMMIT_SCOPED then []
     else map (\<lambda>(c, _, _). (t, c)) (filter (\<lambda>(_, p, _). p = ''m_file_blob'') (init_foreign t))) ts)"

text \<open>\<open>_child_first_order\<close>: in every round the tables no pending table references.\<close>

definition marked_refs :: "string list \<Rightarrow> table \<Rightarrow> string list" where
  "marked_refs names t = filter (\<lambda>p. p \<in> set names \<and> p \<noteq> table_name t) (map (\<lambda>(_, p, _). p) (init_foreign t))"

definition ready_tables :: "string list \<Rightarrow> (table \<times> string) list \<Rightarrow> (table \<times> string) list" where
  "ready_tables names pending = filter (\<lambda>(t, _). \<not> list_ex (\<lambda>(u, _). table_name t \<in> set (marked_refs names u)) pending) pending"

function order_from :: "string list \<Rightarrow> (table \<times> string) list \<Rightarrow> (table \<times> string) list \<Rightarrow> (table \<times> string) list" where
  "order_from names order pending = (if pending = [] then order
     else let ready = (if ready_tables names pending = [] then take 1 pending else ready_tables names pending);
              order' = order @ ready
          in order_from names order' (filter (\<lambda>(t, _). table_name t \<notin> set (map (table_name \<circ> fst) order')) pending))"
  by pat_completeness auto

termination
proof (relation "measure (\<lambda>(names, order, pending). length pending)")
  fix names order and pending :: "(table \<times> string) list" and ready order'
  assume p: "pending \<noteq> []" and r: "ready = (if ready_tables names pending = [] then take 1 pending else ready_tables names pending)"
    and o: "order' = order @ ready"
  have "ready \<noteq> [] \<and> set ready \<subseteq> set pending"
    using p by (auto simp: r ready_tables_def dest: in_set_takeD)
  then obtain x where x: "x \<in> set ready" "x \<in> set pending" by (cases ready) auto
  then have "length (filter (\<lambda>(t, _). table_name t \<notin> set (map (table_name \<circ> fst) order')) pending) < length pending"
    by (intro length_filter_less[of x]) (force simp: o)+
  then show "((names, order', filter (\<lambda>(t, _). table_name t \<notin> set (map (table_name \<circ> fst) order')) pending), names, order, pending)
      \<in> measure (\<lambda>(names, order, pending). length pending)" by simp
qed simp

declare order_from.simps [simp del]

definition child_first_order :: "(table \<times> string) list \<Rightarrow> (table \<times> string) list" where
  "child_first_order marked = order_from (map (table_name \<circ> fst) marked) [] marked"


subsection \<open>Plans\<close>

fun in_chunks :: "'a list \<Rightarrow> 'a list list" where
  "in_chunks xs = (if xs = [] then [] else take 1000 xs # in_chunks (drop 1000 xs))"

declare in_chunks.simps [simp del]

text \<open>\<open>precheck_queries\<close>: table, its id column and mark, the referencing column and the parent's mark.\<close>

definition precheck_queries :: "table list \<Rightarrow> (string, int) dict \<Rightarrow> (string \<times> string \<times> int \<times> string \<times> int) list" where
  "precheck_queries ts marks = concat (map (\<lambda>(t, col). case dict_get marks (table_name t) of
       None \<Rightarrow> []
     | Some m \<Rightarrow> concat (map (\<lambda>(fc, p, _). case dict_get marks p of
           Some pm \<Rightarrow> if p \<noteq> table_name t then [(table_name t, col, m, fc, pm)] else []
         | None \<Rightarrow> []) (init_foreign t))) (marked_tables ts))"

definition blob_deletes :: "table list \<Rightarrow> int list \<Rightarrow> table \<times> string \<Rightarrow> delete list" where
  "blob_deletes ts ns tc = (case tc of (t, col) \<Rightarrow>
     (case id_column t of
        Some pk \<Rightarrow> map (\<lambda>(child, cc). (table_name child, Hangs_off cc pk (table_name t) col ns)) (children ts (table_name t))
      | None \<Rightarrow> []) @ [(table_name t, Among col ns)])"

definition mark_deletes :: "table list \<Rightarrow> (string, int) dict \<Rightarrow> table \<times> string \<Rightarrow> delete list" where
  "mark_deletes ts marks tc = (case tc of (t, col) \<Rightarrow>
     (let mark = (case dict_get marks (table_name t) of Some m \<Rightarrow> m | None \<Rightarrow> 0)
      in map (\<lambda>(child, cc). (table_name child, Above cc mark))
           (filter (\<lambda>(child, _). \<not> (dict_get marks (table_name child) \<noteq> None \<and> id_column child \<noteq> None)) (children ts (table_name t)))
         @ [(table_name t, Above col mark)]))"

fun unique_deletes :: "delete list \<Rightarrow> string list \<Rightarrow> delete list \<Rightarrow> delete list" where
  "unique_deletes seen known [] = []"
| "unique_deletes seen known (d # ds) =
     (if d \<notin> set seen \<and> fst d \<in> set known then d # unique_deletes (d # seen) known ds else unique_deletes seen known ds)"

definition all_deletes :: "table list \<Rightarrow> (string, int) dict \<Rightarrow> int \<Rightarrow> int list \<Rightarrow> delete list" where
  "all_deletes ts marks c blobs =
     map (\<lambda>n. (n, Equals ''commit_id'' c)) VERSION_ROWS
     @ concat (map (\<lambda>ns. concat (map (blob_deletes ts ns) (blob_derived_tables ts))) (in_chunks (sort (remdups blobs))))
     @ concat (map (mark_deletes ts marks)
         (child_first_order (filter (\<lambda>(t, _). dict_get marks (table_name t) \<noteq> None) (marked_tables ts))))"

definition rollback_plan :: "table list \<Rightarrow> (string, int) dict \<Rightarrow> int \<Rightarrow> int list \<Rightarrow> delete list" where
  "rollback_plan ts marks c blobs = unique_deletes [] (map table_name ts) (all_deletes ts marks c blobs)"

subsection \<open>The bookkeeping of runs\<close>

definition INGEST_PARSING :: int where "INGEST_PARSING = 1"
definition INGEST_DONE :: int where "INGEST_DONE = 2"

definition delete_where :: "table list \<Rightarrow> string \<Rightarrow> string \<Rightarrow> int \<Rightarrow> sql_db \<Rightarrow> sql_db" where
  "delete_where ts n c k db = db(n := filter (\<lambda>r. sql_value ts n c r \<noteq> CInt k) (db n))"

definition discard_marks :: "table list \<Rightarrow> int \<Rightarrow> sql_db \<Rightarrow> sql_db" where
  "discard_marks ts c db = delete_where ts ''m_ingest_blob'' ''commit_id'' c (delete_where ts ''m_ingest_watermark'' ''commit_id'' c db)"

text \<open>\<open>INSERT ... ON DUPLICATE KEY UPDATE\<close> of \<open>m_ingest_state\<close>, whose key is the network and the commit.\<close>

definition upsert_state :: "int \<Rightarrow> int \<Rightarrow> int \<Rightarrow> int \<Rightarrow> row list \<Rightarrow> row list" where
  "upsert_state network c status now rs =
     (if list_ex (\<lambda>r. take 2 r = [CInt network, CInt c]) rs
      then map (\<lambda>r. if take 2 r = [CInt network, CInt c] then [CInt network, CInt c, CInt status, CInt now] else r) rs
      else rs @ [[CInt network, CInt c, CInt status, CInt now]])"

definition set_status :: "table list \<Rightarrow> int \<Rightarrow> int \<Rightarrow> int \<Rightarrow> int \<Rightarrow> sql_db \<Rightarrow> sql_db" where
  "set_status ts network c status now db =
     (if c = 0 then db
      else let db1 = db(''m_ingest_state'' := upsert_state network c status now (db ''m_ingest_state''))
           in if status = INGEST_DONE then discard_marks ts c db1 else db1)"

definition get_status :: "table list \<Rightarrow> int \<Rightarrow> int \<Rightarrow> sql_db \<Rightarrow> int option" where
  "get_status ts network c db =
     (case find (\<lambda>r. sql_value ts ''m_ingest_state'' ''network_id'' r = CInt network \<and> sql_value ts ''m_ingest_state'' ''commit_id'' r = CInt c)
        (db ''m_ingest_state'') of
        Some r \<Rightarrow> (case sql_value ts ''m_ingest_state'' ''status'' r of CInt k \<Rightarrow> Some k | _ \<Rightarrow> None)
      | None \<Rightarrow> None)"

text \<open>\<open>COALESCE(MAX(col), 0)\<close>\<close>

definition column_ints :: "table list \<Rightarrow> string \<Rightarrow> string \<Rightarrow> row list \<Rightarrow> int list" where
  "column_ints ts n c rs = concat (map (\<lambda>r. case sql_value ts n c r of CInt k \<Rightarrow> [k] | _ \<Rightarrow> []) rs)"

definition max_id :: "table list \<Rightarrow> string \<Rightarrow> string \<Rightarrow> sql_db \<Rightarrow> int" where
  "max_id ts n c db = (case column_ints ts n c (db n) of [] \<Rightarrow> 0 | k # ks \<Rightarrow> foldl max k ks)"

definition mark_of :: "table list \<Rightarrow> sql_db \<Rightarrow> table \<times> string \<Rightarrow> int" where
  "mark_of ts db tc = (case tc of (t, c) \<Rightarrow> max_id ts (table_name t) c db)"

definition begin_run :: "table list \<Rightarrow> int \<Rightarrow> int \<Rightarrow> int \<Rightarrow> sql_db \<Rightarrow> (string, int) dict \<times> sql_db" where
  "begin_run ts network c now db =
     (if c = 0 then ([], db)
      else let db1 = discard_marks ts c db;
               rows = map (\<lambda>tc. [CInt c, CInt (int (table_id (fst tc))), CInt (mark_of ts db1 tc)]) (marked_tables ts);
               marks = foldl (\<lambda>d tc. dict_set (table_name (fst tc)) (mark_of ts db1 tc) d) [] (marked_tables ts)
           in (marks, set_status ts network c INGEST_PARSING now
                (db1(''m_ingest_watermark'' := db1 ''m_ingest_watermark'' @ rows))))"

definition record_blobs :: "int \<Rightarrow> int list \<Rightarrow> sql_db \<Rightarrow> sql_db" where
  "record_blobs c blobs db =
     (if c = 0 then db
      else db(''m_ingest_blob'' := foldl append_new (db ''m_ingest_blob'') (map (\<lambda>b. [CInt c, CInt b]) (sort (remdups blobs)))))"

definition fetch_marks :: "table list \<Rightarrow> int \<Rightarrow> sql_db \<Rightarrow> (string, int) dict" where
  "fetch_marks ts c db = foldl (\<lambda>d r.
       (case (sql_value ts ''m_ingest_watermark'' ''commit_id'' r, sql_value ts ''m_ingest_watermark'' ''marked_table_id'' r, sql_value ts ''m_ingest_watermark'' ''max_id'' r) of
          (CInt c', CInt tid, CInt m) \<Rightarrow>
            (case find (\<lambda>t. int (table_id t) = tid) ts of
               Some t \<Rightarrow> if c' = c then dict_set (table_name t) m d else d
             | None \<Rightarrow> d)
        | _ \<Rightarrow> d)) [] (db ''m_ingest_watermark'')"

text \<open>\<open>_completed_after\<close>: a finished version above the commit mark, the smallest one.\<close>

definition completed_after :: "table list \<Rightarrow> (string, int) dict \<Rightarrow> sql_db \<Rightarrow> int option" where
  "completed_after ts marks db = (case dict_get marks ''m_commit'' of
       None \<Rightarrow> None
     | Some m \<Rightarrow> (let cs = column_ints ts ''m_ingest_state'' ''commit_id'' (filter (\<lambda>r.
           sql_value ts ''m_ingest_state'' ''status'' r = CInt INGEST_DONE \<and> sql_above (sql_value ts ''m_ingest_state'' ''commit_id'' r) m) (db ''m_ingest_state''))
         in case cs of [] \<Rightarrow> None | k # ks \<Rightarrow> Some (foldl min k ks)))"

datatype recovery = Older_row_refers string string | Rolled_back bool sql_db

definition failed_precheck :: "table list \<Rightarrow> sql_db \<Rightarrow> string \<times> string \<times> int \<times> string \<times> int \<Rightarrow> bool" where
  "failed_precheck ts db q = (case q of (n, col, m, fc, pm) \<Rightarrow>
     list_ex (\<lambda>r. (case sql_value ts n col r of CInt k \<Rightarrow> k \<le> m | _ \<Rightarrow> False) \<and> sql_above (sql_value ts n fc r) pm) (db n))"

definition parsed_blobs :: "table list \<Rightarrow> int \<Rightarrow> sql_db \<Rightarrow> int list" where
  "parsed_blobs ts c db = column_ints ts ''m_ingest_blob'' ''blob_id''
     (filter (\<lambda>r. sql_value ts ''m_ingest_blob'' ''commit_id'' r = CInt c) (db ''m_ingest_blob''))"

definition rollback_version :: "table list \<Rightarrow> int \<Rightarrow> sql_db \<Rightarrow> recovery" where
  "rollback_version ts c db =
     (let marks = fetch_marks ts c db
      in if marks = [] then Rolled_back False db
         else if completed_after ts marks db \<noteq> None then Rolled_back False (discard_marks ts c db)
         else case find (failed_precheck ts db) (precheck_queries ts marks) of
             Some (n, col, m, fc, pm) \<Rightarrow> Older_row_refers n fc
           | None \<Rightarrow> Rolled_back True (discard_marks ts c
               (foldl (run_delete ts) db (rollback_plan ts marks c (parsed_blobs ts c db)))))"

end
