(* ===== verification/Ingest_Recovery.thy ===== *)
theory Ingest_Recovery
  imports Ingest_State
begin

section \<open>What a rollback does (core/ingest_state.py)\<close>

text \<open>
  The steps of a plan together delete the rows that the conditions describe in the database before the first step, so a
  rollback can be interrupted and repeated; run after an interrupted run it leaves the rows from before that run.
\<close>

subsection \<open>One step\<close>

lemma drop_matching_keeps:
  "drop_matching k p rs = (rs', d) \<Longrightarrow> filter (\<lambda>r. \<not> p r) rs' = filter (\<lambda>r. \<not> p r) rs \<and> (d < k \<longrightarrow> rs' = filter (\<lambda>r. \<not> p r) rs)"
proof (induction k p rs arbitrary: rs' d rule: drop_matching.induct)
  case (2 k p r rs)
  show ?case
  proof (cases "p r \<and> k > 0")
    case True
    obtain ys e where e: "drop_matching (k - 1) p rs = (ys, e)" by fastforce
    then show ?thesis using 2(1)[OF True e] 2(3) True by auto
  next
    case False
    obtain ys e where e: "drop_matching k p rs = (ys, e)" by fastforce
    then have "rs' = r # ys" "d = e" using 2(3) False by auto
    then show ?thesis using 2(2)[OF False e] False by (cases "k = 0") auto
  qed
qed simp

lemma delete_all_filter: "delete_all p rs = filter (\<lambda>r. \<not> p r) rs"
proof (induction p rs rule: delete_all.induct)
  case (1 p rs)
  obtain rs' d where e: "drop_matching DELETE_CHUNK p rs = (rs', d)" by fastforce
  show ?case
  proof (cases "d < DELETE_CHUNK")
    case True
    then show ?thesis using drop_matching_keeps[OF e] e by (simp add: delete_all.simps[of p rs])
  next
    case False
    have "delete_all p rs' = filter (\<lambda>r. \<not> p r) rs'" using 1[OF e[symmetric] False] .
    then show ?thesis using drop_matching_keeps[OF e] e False by (simp add: delete_all.simps[of p rs])
  qed
qed

lemma run_delete_rows: "run_delete ts db (n, w) m = (if m = n then filter (\<lambda>r. \<not> holds ts db n w r) (db n) else db m)"
  by (auto simp: run_delete_def delete_all_filter list_ex_iff filter_id_conv)

subsection \<open>Plans whose steps do not disturb each other\<close>

definition doomed :: "table list \<Rightarrow> sql_db \<Rightarrow> delete list \<Rightarrow> string \<Rightarrow> row \<Rightarrow> bool" where
  "doomed ts db plan n r \<longleftrightarrow> (\<exists>w. (n, w) \<in> set plan \<and> holds ts db n w r)"

text \<open>The step \<open>e\<close> deletes none of the rows that the step \<open>d\<close> looks up.\<close>

definition undisturbed :: "table list \<Rightarrow> sql_db \<Rightarrow> delete \<Rightarrow> delete \<Rightarrow> bool" where
  "undisturbed ts db e d \<longleftrightarrow> (case snd d of
     Hangs_off c pk t col ns \<Rightarrow> fst e = t \<longrightarrow> (\<forall>r \<in> set (db t). holds ts db t (snd e) r \<longrightarrow> \<not> sql_among (sql_value ts t col r) ns)
   | _ \<Rightarrow> True)"

lemma undisturbed_plain [simp]:
  "undisturbed ts db e (n, Equals c k)" "undisturbed ts db e (n, Above c k)" "undisturbed ts db e (n, Among c ns)"
  by (simp_all add: undisturbed_def)

lemma holds_shrinks:
  assumes "\<And>t. set (db' t) \<subseteq> set (db t)" "holds ts db' n w r"
  shows "holds ts db n w r"
proof (cases w)
  case (Hangs_off c pk t col ns)
  show ?thesis using assms(1)[of t] assms(2) by (auto simp: Hangs_off list_ex_iff)
qed (use assms(2) in simp_all)

lemma holds_undisturbed:
  assumes "\<And>e. e \<in> set plan \<Longrightarrow> undisturbed ts db e (n, w)" "\<And>t. db' t = filter (\<lambda>r. \<not> doomed ts db plan t r) (db t)"
  shows "holds ts db' n w r = holds ts db n w r"
proof (cases w)
  case (Hangs_off c pk t col ns)
  have "p \<in> set (db' t)" if "p \<in> set (db t)" "sql_among (sql_value ts t col p) ns" for p
    using that assms(1) by (fastforce simp: assms(2) doomed_def undisturbed_def Hangs_off)
  moreover have "set (db' t) \<subseteq> set (db t)" by (auto simp: assms(2))
  ultimately show ?thesis by (auto simp: Hangs_off list_ex_iff)
qed simp_all

lemma run_plan_rows:
  assumes "sorted_wrt (undisturbed ts db) plan"
  shows "foldl (run_delete ts) db plan n = filter (\<lambda>r. \<not> doomed ts db plan n r) (db n)"
  using assms
proof (induction plan arbitrary: n rule: rev_induct)
  case Nil
  then show ?case by (simp add: doomed_def)
next
  case (snoc d plan)
  obtain m w where d: "d = (m, w)" by fastforce
  have u: "undisturbed ts db e (m, w)" if "e \<in> set plan" for e using snoc(2) that by (simp add: d sorted_wrt_append)
  have s: "sorted_wrt (undisturbed ts db) plan" using snoc(2) by (simp add: sorted_wrt_append)
  let ?db = "foldl (run_delete ts) db plan"
  have h: "holds ts ?db m w r = holds ts db m w r" for r
    by (rule holds_undisturbed[where plan = plan]) (use u snoc.IH[OF s] in auto)
  show ?case by (auto simp: d run_delete_rows h snoc.IH[OF s] doomed_def intro!: filter_cong)
qed

text \<open>A plan stopped after any of its steps and run again from the start ends as if it had not been stopped.\<close>

lemma run_plan_again:
  assumes s: "sorted_wrt (undisturbed ts db) (pre @ post)"
  shows "foldl (run_delete ts) (foldl (run_delete ts) db pre) (pre @ post) = foldl (run_delete ts) db (pre @ post)"
proof
  fix n
  let ?db = "foldl (run_delete ts) db pre"
  have rows: "?db t = filter (\<lambda>r. \<not> doomed ts db pre t r) (db t)" for t
    by (rule run_plan_rows) (use s in \<open>simp add: sorted_wrt_append\<close>)
  have sub: "set (?db t) \<subseteq> set (db t)" for t by (auto simp: rows)
  have shrinks: "holds ts ?db t w r \<Longrightarrow> holds ts db t w r" for t w r by (rule holds_shrinks[OF sub])
  have keep: "undisturbed ts ?db e d" if "undisturbed ts db e d" for e d
    using that sub[of "fst e"] shrinks[of "fst e" "snd e"] by (fastforce simp: undisturbed_def split: where_cond.splits)
  have "sorted_wrt (undisturbed ts ?db) (pre @ post)" by (rule sorted_wrt_mono_rel[OF _ s]) (rule keep)
  note again = run_plan_rows[OF this]
  have eq: "doomed ts ?db (pre @ post) n r = doomed ts db (pre @ post) n r" if r: "\<not> doomed ts db pre n r" for r
  proof
    assume "doomed ts ?db (pre @ post) n r"
    then show "doomed ts db (pre @ post) n r" using shrinks by (fastforce simp: doomed_def)
  next
    assume "doomed ts db (pre @ post) n r"
    then obtain w where w: "(n, w) \<in> set (pre @ post)" "holds ts db n w r" by (auto simp: doomed_def)
    with r have "(n, w) \<in> set post" by (auto simp: doomed_def)
    then have "holds ts ?db n w r = holds ts db n w r"
      using s by (intro holds_undisturbed[where plan = pre]) (auto simp: rows sorted_wrt_append)
    then show "doomed ts ?db (pre @ post) n r" using w by (auto simp: doomed_def)
  qed
  have imp: "doomed ts db pre n r \<Longrightarrow> doomed ts db (pre @ post) n r" for r by (auto simp: doomed_def)
  have both: "(\<not> doomed ts db pre n r \<and> \<not> doomed ts ?db (pre @ post) n r) = (\<not> doomed ts db (pre @ post) n r)" for r
    using eq[of r] imp[of r] by blast
  show "foldl (run_delete ts) ?db (pre @ post) n = foldl (run_delete ts) db (pre @ post) n"
    unfolding again run_plan_rows[OF s] rows filter_filter both ..
qed


subsection \<open>Schemas whose plans are undisturbed\<close>

text \<open>What matters of a table: its name, its id column and its foreign keys.\<close>

type_synonym shape = "string \<times> string option \<times> (string \<times> string \<times> string) list"

definition shape :: "table \<Rightarrow> shape" where
  "shape t = (table_name t, id_column t, init_foreign t)"

definition shape_derived :: "shape list \<Rightarrow> (string \<times> string option \<times> string) list" where
  "shape_derived ss = concat (map (\<lambda>(n, i, fs). if n \<in> set COMMIT_SCOPED then []
     else map (\<lambda>(c, _, _). (n, i, c)) (filter (\<lambda>(_, p, _). p = ''m_file_blob'') fs)) ss)"

definition shape_children :: "shape list \<Rightarrow> string \<Rightarrow> (string \<times> string option \<times> string) list" where
  "shape_children ss parent = concat (map (\<lambda>(n, i, fs). map (\<lambda>(c, _, _). (n, i, c)) (filter (\<lambda>(_, p, _). p = parent) fs)) ss)"

lemma shape_derived: "shape_derived (map shape ts) = map (\<lambda>(t, c). (table_name t, id_column t, c)) (blob_derived_tables ts)"
  by (induction ts) (auto simp: shape_derived_def blob_derived_tables_def shape_def)

lemma shape_children: "shape_children (map shape ts) p = map (\<lambda>(t, c). (table_name t, id_column t, c)) (children ts p)"
  by (induction ts) (auto simp: shape_children_def children_def shape_def)

text \<open>
  A table with ids whose rows derive from blobs has one blob column, is not one of the version's tables, and hangs off no
  other such table.
\<close>

definition derived_ids :: "shape list \<Rightarrow> string list" where
  "derived_ids ss = map fst (filter (\<lambda>(_, i, _). i \<noteq> None) (shape_derived ss))"

definition plan_ok :: "shape list \<Rightarrow> bool" where
  "plan_ok ss \<longleftrightarrow> sorted_wrt (\<lambda>(n, _, _) (m, i, _). i \<noteq> None \<longrightarrow> n \<noteq> m) (shape_derived ss)
     \<and> list_all (\<lambda>n. n \<notin> set VERSION_ROWS \<and> list_all (\<lambda>(m, _, _). m \<notin> set (derived_ids ss)) (shape_children ss n)) (derived_ids ss)"

text \<open>Moreover names are distinct, a foreign key into a table with ids names its id column, and the tables that hold the marks and
  blobs of runs have neither ids nor foreign keys.\<close>

definition MARK_TABLES :: "string list" where
  "MARK_TABLES = [''m_ingest_watermark'', ''m_ingest_blob'']"

definition id_columns :: "shape list \<Rightarrow> (string \<times> string) list" where
  "id_columns ss = concat (map (\<lambda>(n, i, _). case i of Some c \<Rightarrow> [(n, c)] | None \<Rightarrow> []) ss)"

definition parent_keys :: "shape list \<Rightarrow> (string \<times> string) list" where
  "parent_keys ss = remdups (concat (map (\<lambda>(_, _, fs). map snd fs) ss))"

definition schema_ok :: "shape list \<Rightarrow> bool" where
  "schema_ok ss \<longleftrightarrow> plan_ok ss \<and> distinct (map fst ss)
     \<and> list_all (\<lambda>(p, pc). dict_get (id_columns ss) p \<in> {None, Some pc}) (parent_keys ss)
     \<and> list_all (\<lambda>n. n \<notin> set (map fst (id_columns ss))) (''m_ingest_state'' # MARK_TABLES)
     \<and> list_all (\<lambda>(n, _, fs). n \<in> set MARK_TABLES \<longrightarrow> fs = []) ss"

lemmas shape_defs = layout_defs shape_def id_column_def type_text_def STATIC_TABLES_def col_name_def

lemma TABLES_plan_ok: "plan_ok (map shape TABLES)"
  apply (simp add: shape_defs del: contains_sub.simps)
  apply code_simp
  done

lemma TABLES_id_columns: "id_columns (map shape TABLES) =
    [(''m_file_name'', ''fnid''), (''m_file_blob'', ''blob_id''), (''m_ast'', ''ast_id''), (''m_tag'', ''tag_id''),
     (''m_maintainer_person'', ''person_id''), (''m_maintainer_section'', ''sec_id''), (''m_credits_entry'', ''credit_id''),
     (''m_commit'', ''commit_id''), (''m_blob_symbol_def'', ''def_id''), (''m_blob_symbol_ref'', ''ref_id''),
     (''m_file_reference'', ''ref_id'')]"
  apply (simp add: shape_defs del: contains_sub.simps)
  apply code_simp
  done

lemma TABLES_parent_keys: "list_all (\<lambda>(p, pc). dict_get (id_columns (map shape TABLES)) p \<in> {None, Some pc}) (parent_keys (map shape TABLES))"
  unfolding TABLES_id_columns by (simp add: shape_defs parent_keys_def del: contains_sub.simps)

lemma TABLES_mark_tables: "list_all (\<lambda>(n, _, fs). n \<in> set MARK_TABLES \<longrightarrow> fs = []) (map shape TABLES)"
  by (simp add: shape_defs MARK_TABLES_def del: contains_sub.simps)

lemma TABLES_schema_ok: "schema_ok (map shape TABLES)"
proof -
  have "distinct (map fst (map shape TABLES))" using TABLES_distinct by (simp add: shape_def comp_def)
  moreover have "list_all (\<lambda>n. n \<notin> set (map fst (id_columns (map shape TABLES)))) (''m_ingest_state'' # MARK_TABLES)"
    unfolding TABLES_id_columns by (simp add: MARK_TABLES_def)
  ultimately show ?thesis unfolding schema_ok_def using TABLES_plan_ok TABLES_parent_keys TABLES_mark_tables by blast
qed

lemma sorted_wrt_all: "(\<And>x y. x \<in> set xs \<Longrightarrow> y \<in> set xs \<Longrightarrow> P x y) \<Longrightarrow> sorted_wrt P xs"
  by (induction xs) auto

lemma sorted_wrt_concat:
  "sorted_wrt P (concat xss) \<longleftrightarrow> (\<forall>xs \<in> set xss. sorted_wrt P xs) \<and> sorted_wrt (\<lambda>xs ys. \<forall>x \<in> set xs. \<forall>y \<in> set ys. P x y) xss"
  by (induction xss) (auto simp: sorted_wrt_append)

lemma set_in_chunks: "(\<Union>ns \<in> set (in_chunks xs). set ns) = set xs"
proof (induction xs rule: in_chunks.induct)
  case (1 xs)
  then show ?case using set_append[of "take 1000 xs" "drop 1000 xs"] by (cases "xs = []") (simp_all add: in_chunks.simps[of xs] in_chunks.simps[of "[]"])
qed

lemma in_chunks_disjoint: "distinct xs \<Longrightarrow> sorted_wrt (\<lambda>ms ns. set ms \<inter> set ns = {}) (in_chunks xs)"
proof (induction xs rule: in_chunks.induct)
  case (1 xs)
  have "set (take 1000 xs) \<inter> set ns = {}" if "ns \<in> set (in_chunks (drop 1000 xs))" for ns
    using that set_in_chunks[of "drop 1000 xs"] set_take_disj_set_drop_if_distinct[OF 1(2), of 1000 1000] by blast
  then show ?case using 1 by (cases "xs = []") (simp_all add: in_chunks.simps[of xs] in_chunks.simps[of "[]"])
qed

lemma derived_facts:
  assumes "plan_ok (map shape ts)" "(t, col) \<in> set (blob_derived_tables ts)" "id_column t \<noteq> None"
  shows "table_name t \<notin> set VERSION_ROWS" "(u, c) \<in> set (children ts (table_name t)) \<Longrightarrow> (v, d) \<in> set (blob_derived_tables ts) \<Longrightarrow>
    id_column v \<noteq> None \<Longrightarrow> table_name u \<noteq> table_name v"
proof -
  have mem: "table_name v \<in> set (derived_ids (map shape ts))" if "(v, d) \<in> set (blob_derived_tables ts)" "id_column v \<noteq> None" for v d
    using that by (force simp: derived_ids_def shape_derived)
  from mem[OF assms(2,3)] assms(1) show "table_name t \<notin> set VERSION_ROWS" by (simp add: plan_ok_def list_all_iff)
  assume u: "(u, c) \<in> set (children ts (table_name t))" and v: "(v, d) \<in> set (blob_derived_tables ts)" "id_column v \<noteq> None"
  have "table_name u \<notin> set (derived_ids (map shape ts))"
    using mem[OF assms(2,3)] assms(1) u by (fastforce simp: plan_ok_def list_all_iff shape_children)
  then show "table_name u \<noteq> table_name v" using mem[OF v] by auto
qed

lemma derived_order:
  assumes "plan_ok (map shape ts)"
  shows "sorted_wrt (\<lambda>x y. id_column (fst y) \<noteq> None \<longrightarrow> table_name (fst x) \<noteq> table_name (fst y)) (blob_derived_tables ts)"
  using assms by (simp add: plan_ok_def shape_derived sorted_wrt_map case_prod_unfold)

lemma blob_deletes_cases:
  assumes "(n, w) \<in> set (blob_deletes ts ns (t, col))"
  obtains "n = table_name t" "w = Among col ns"
  | pk u c where "Some pk = id_column t" "(u, c) \<in> set (children ts (table_name t))" "table_name u = n" "w = Hangs_off c pk (table_name t) col ns"
proof -
  from assms consider "n = table_name t \<and> w = Among col ns"
    | "\<exists>pk u c. Some pk = id_column t \<and> (u, c) \<in> set (children ts (table_name t)) \<and> table_name u = n \<and> w = Hangs_off c pk (table_name t) col ns"
    by (auto simp: blob_deletes_def split: option.splits)
  then show thesis using that by cases blast+
qed

lemma mark_deletes_plain: "d \<in> set (mark_deletes ts marks tc) \<Longrightarrow> undisturbed ts db e d"
  by (auto simp: mark_deletes_def Let_def split: prod.splits)


lemma blob_deletes_undisturbed:
  assumes ok: "plan_ok (map shape ts)" and u: "(u, uc) \<in> set (blob_derived_tables ts)" and t: "(t, tc) \<in> set (blob_derived_tables ts)"
    and e: "e \<in> set (blob_deletes ts ms (u, uc))" and d: "d \<in> set (blob_deletes ts ns (t, tc))"
    and own: "id_column t \<noteq> None \<Longrightarrow> table_name u = table_name t \<Longrightarrow> e = (table_name u, Among uc ms) \<Longrightarrow> uc = tc \<and> set ms \<inter> set ns = {}"
  shows "undisturbed ts db e d"
proof -
  obtain n w m v where nw: "d = (n, w)" "e = (m, v)" by fastforce
  from d[unfolded nw] show ?thesis
  proof (cases rule: blob_deletes_cases)
    case (2 pk x c)
    have i: "id_column t \<noteq> None" using 2(1) by (metis option.distinct(1))
    from e[unfolded nw] show ?thesis
    proof (cases rule: blob_deletes_cases)
      case 1
      then show ?thesis using own[OF i] 2(4) by (auto simp: nw undisturbed_def sql_among_def split: cell.splits)
    next
      case (2 pk' y c')
      have "id_column u \<noteq> None" using 2(1) by (metis option.distinct(1))
      then have "table_name y \<noteq> table_name t" using derived_facts(2)[OF ok u _ 2(2) t i] by blast
      then show ?thesis using 2(3) nw \<open>w = Hangs_off c pk (table_name t) tc ns\<close> by (simp add: nw undisturbed_def)
    qed
  qed (simp add: nw)
qed

lemma derived_own_column:
  assumes "plan_ok (map shape ts)" "(t, tc) \<in> set (blob_derived_tables ts)" "(u, uc) \<in> set (blob_derived_tables ts)"
    and "id_column t \<noteq> None" "distinct (map table_name ts)" "table_name u = table_name t"
  shows "uc = tc"
proof (rule ccontr)
  assume "uc \<noteq> tc"
  have "u \<in> set ts" "t \<in> set ts" using assms(2,3) by (auto simp: blob_derived_tables_def split: if_splits)
  then have ut: "u = t" using assms(5,6) by (meson distinct_map inj_onD)
  obtain i j where ij: "i < length (blob_derived_tables ts)" "j < length (blob_derived_tables ts)"
    "blob_derived_tables ts ! i = (t, tc)" "blob_derived_tables ts ! j = (u, uc)"
    using assms(2,3) by (metis in_set_conv_nth)
  then have "i < j \<or> j < i" using \<open>uc \<noteq> tc\<close> by (metis Pair_inject linorder_neqE_nat)
  then show False
  proof
    assume "i < j"
    then show False using derived_order[OF assms(1), unfolded sorted_wrt_iff_nth_less] ij assms(4) ut by force
  next
    assume "j < i"
    then show False using derived_order[OF assms(1), unfolded sorted_wrt_iff_nth_less] ij assms(4) ut by force
  qed
qed

lemma chunk_undisturbed:
  assumes ok: "plan_ok (map shape ts)"
  shows "sorted_wrt (undisturbed ts db) (concat (map (blob_deletes ts ns) (blob_derived_tables ts)))"
  unfolding sorted_wrt_concat sorted_wrt_map
proof
  show "\<forall>ds \<in> set (map (blob_deletes ts ns) (blob_derived_tables ts)). sorted_wrt (undisturbed ts db) ds"
  proof
    fix ds assume "ds \<in> set (map (blob_deletes ts ns) (blob_derived_tables ts))"
    then obtain t tc where t: "(t, tc) \<in> set (blob_derived_tables ts)" "ds = blob_deletes ts ns (t, tc)" by auto
    let ?hang = "case id_column t of Some pk \<Rightarrow> map (\<lambda>(child, cc). (table_name child, Hangs_off cc pk (table_name t) tc ns)) (children ts (table_name t)) | None \<Rightarrow> []"
    have ds: "ds = ?hang @ [(table_name t, Among tc ns)]" by (simp add: t(2) blob_deletes_def)
    have "undisturbed ts db e d" if e: "e \<in> set ?hang" and d: "d \<in> set ?hang" for e d
    proof (rule blob_deletes_undisturbed[OF ok t(1) t(1), of e ns d ns])
      show "e \<in> set (blob_deletes ts ns (t, tc))" "d \<in> set (blob_deletes ts ns (t, tc))"
        using e d by (simp_all add: ds[symmetric] t(2)[symmetric]) (simp_all add: ds)
      assume "e = (table_name t, Among tc ns)"
      then show "tc = tc \<and> set ns \<inter> set ns = {}" using e by (auto split: option.splits)
    qed
    then have "sorted_wrt (undisturbed ts db) ?hang" by (rule sorted_wrt_all)
    then show "sorted_wrt (undisturbed ts db) ds" unfolding ds by (simp add: sorted_wrt_append)
  qed
  show "sorted_wrt (\<lambda>x y. \<forall>e \<in> set (blob_deletes ts ns x). \<forall>d \<in> set (blob_deletes ts ns y). undisturbed ts db e d) (blob_derived_tables ts)"
  proof (rule sorted_wrt_mono_rel[OF _ derived_order[OF ok]])
    fix x y
    assume xy: "x \<in> set (blob_derived_tables ts)" "y \<in> set (blob_derived_tables ts)"
      and o: "id_column (fst y) \<noteq> None \<longrightarrow> table_name (fst x) \<noteq> table_name (fst y)"
    obtain u uc t tc where p: "x = (u, uc)" "y = (t, tc)" by fastforce
    show "\<forall>e \<in> set (blob_deletes ts ns x). \<forall>d \<in> set (blob_deletes ts ns y). undisturbed ts db e d"
      using blob_deletes_undisturbed[OF ok, of u uc t tc _ ns _ ns] xy o by (auto simp: p)
  qed
qed

text \<open>So the deletes of a schema in order do not disturb each other, whatever the database holds.\<close>

lemma all_deletes_undisturbed:
  assumes ok: "schema_ok (map shape ts)"
  shows "sorted_wrt (undisturbed ts db) (all_deletes ts marks c blobs)"
proof -
  let ?version = "map (\<lambda>n. (n, Equals ''commit_id'' c)) VERSION_ROWS"
  let ?chunk = "\<lambda>ns. concat (map (blob_deletes ts ns) (blob_derived_tables ts))"
  let ?blobs = "concat (map ?chunk (in_chunks (sort (remdups blobs))))"
  let ?marks = "concat (map (mark_deletes ts marks) (child_first_order (filter (\<lambda>(t, _). dict_get marks (table_name t) \<noteq> None) (marked_tables ts))))"
  have p: "plan_ok (map shape ts)" and dist: "distinct (map table_name ts)"
    using ok by (simp_all add: schema_ok_def shape_def comp_def)
  have version: "sorted_wrt (undisturbed ts db) ?version" by (rule sorted_wrt_all) auto
  have marks: "sorted_wrt (undisturbed ts db) ?marks" by (rule sorted_wrt_all) (auto intro: mark_deletes_plain)
  have cross: "undisturbed ts db e d" if e: "e \<in> set ?version" and d: "d \<in> set ?blobs" for e d
  proof -
    obtain n w where nw: "d = (n, w)" by fastforce
    obtain ns t tc where t: "(t, tc) \<in> set (blob_derived_tables ts)" "(n, w) \<in> set (blob_deletes ts ns (t, tc))"
      using d by (auto simp: nw)
    from t(2) show ?thesis
    proof (cases rule: blob_deletes_cases)
      case (2 pk x cc)
      then have "table_name t \<notin> set VERSION_ROWS" using derived_facts(1)[OF p t(1)] by (metis option.distinct(1))
      then show ?thesis using e by (auto simp: nw 2(4) undisturbed_def)
    qed (simp add: nw)
  qed
  have chunks: "sorted_wrt (undisturbed ts db) ?blobs"
    unfolding sorted_wrt_concat sorted_wrt_map
  proof
    show "\<forall>ds \<in> set (map ?chunk (in_chunks (sort (remdups blobs)))). sorted_wrt (undisturbed ts db) ds"
      using chunk_undisturbed[OF p] by simp
    show "sorted_wrt (\<lambda>x y. \<forall>e \<in> set (?chunk x). \<forall>d \<in> set (?chunk y). undisturbed ts db e d) (in_chunks (sort (remdups blobs)))"
    proof (rule sorted_wrt_mono_rel[OF _ in_chunks_disjoint], intro ballI)
      fix ms ns e d
      assume disj: "set ms \<inter> set ns = {}" and e: "e \<in> set (?chunk ms)" and d: "d \<in> set (?chunk ns)"
      from e obtain u uc where u: "(u, uc) \<in> set (blob_derived_tables ts)" "e \<in> set (blob_deletes ts ms (u, uc))" by auto
      from d obtain t tc where t: "(t, tc) \<in> set (blob_derived_tables ts)" "d \<in> set (blob_deletes ts ns (t, tc))" by auto
      show "undisturbed ts db e d"
        by (rule blob_deletes_undisturbed[OF p u(1) t(1) u(2) t(2)]) (use derived_own_column[OF p t(1) u(1) _ dist] disj in auto)
    qed simp
  qed
  have plain: "undisturbed ts db e d" if "d \<in> set ?marks" for e d using that by (auto intro: mark_deletes_plain)
  then have "sorted_wrt (undisturbed ts db) (?blobs @ ?marks)"
    unfolding sorted_wrt_append using chunks marks by blast
  moreover have "undisturbed ts db e d" if "e \<in> set ?version" "d \<in> set (?blobs @ ?marks)" for e d
    using that cross plain by (metis (no_types, lifting) Un_iff set_append)
  ultimately show ?thesis unfolding all_deletes_def sorted_wrt_append[of _ ?version] using version by blast
qed

lemma unique_deletes_sub: "set (unique_deletes seen known ds) \<subseteq> set ds"
  by (induction seen known ds rule: unique_deletes.induct) auto

lemma unique_deletes_sorted: "sorted_wrt P ds \<Longrightarrow> sorted_wrt P (unique_deletes seen known ds)"
proof (induction seen known ds rule: unique_deletes.induct)
  case (2 seen known d ds)
  then show ?case using unique_deletes_sub[of "d # seen" known ds] by auto
qed simp

lemma set_unique_deletes: "set (unique_deletes seen known ds) = {d \<in> set ds. d \<notin> set seen \<and> fst d \<in> set known}"
  by (induction seen known ds rule: unique_deletes.induct) auto

lemma rollback_plan_undisturbed: "schema_ok (map shape ts) \<Longrightarrow> sorted_wrt (undisturbed ts db) (rollback_plan ts marks c blobs)"
  unfolding rollback_plan_def by (rule unique_deletes_sorted[OF all_deletes_undisturbed])

lemma rollback_plan_rows:
  assumes "schema_ok (map shape ts)"
  shows "foldl (run_delete ts) db (rollback_plan ts marks c blobs) n = filter (\<lambda>r. \<not> doomed ts db (rollback_plan ts marks c blobs) n r) (db n)"
  by (rule run_plan_rows[OF rollback_plan_undisturbed[OF assms]])

lemma doomed_plan: "n \<in> table_name ` set ts \<Longrightarrow> doomed ts db (rollback_plan ts marks c blobs) n r = doomed ts db (all_deletes ts marks c blobs) n r"
  by (auto simp: doomed_def rollback_plan_def set_unique_deletes)

end
