(* ===== verification/Ingest_Rollback.thy ===== *)
theory Ingest_Rollback
  imports Ingest_Recovery
begin

section \<open>Interrupted runs and their rollback (core/ingest_state.py, main.py)\<close>

text \<open>
  A run begins with its marks, adds rows, and is interrupted.  The rollback then removes the rows of the run that its plan
  can find, and of the older rows those of its version and those derived from the blobs the run recorded.
\<close>

subsection \<open>Databases and runs\<close>

definition foreign_closed :: "table list \<Rightarrow> sql_db \<Rightarrow> bool" where
  "foreign_closed ts db \<longleftrightarrow> (\<forall>t \<in> set ts. \<forall>(c, p, pc) \<in> set (init_foreign t). \<forall>r \<in> set (db (table_name t)).
     sql_value ts (table_name t) c r = CNone \<or> (\<exists>q \<in> set (db p). sql_value ts p pc q = sql_value ts (table_name t) c r))"

text \<open>No row refers to a key above the highest one of the table it names, to an id that is still to be given out.\<close>

definition no_future_keys :: "table list \<Rightarrow> sql_db \<Rightarrow> bool" where
  "no_future_keys ts db \<longleftrightarrow> (\<forall>t \<in> set ts. \<forall>(c, p, pc) \<in> set (init_foreign t). \<forall>r \<in> set (db (table_name t)).
     \<not> sql_above (sql_value ts (table_name t) c r) (max_id ts p pc db))"

definition bookkeeping :: "string list" where
  "bookkeeping = ''m_ingest_state'' # MARK_TABLES"

text \<open>A row of the table \<open>t\<close> that a mark, the version or a recorded blob betrays: it has a new id, or, in a table without ids,
  belongs to the version, to a recorded blob, or refers to a row with a new id.\<close>

definition run_row :: "table list \<Rightarrow> (string, int) dict \<Rightarrow> int \<Rightarrow> int list \<Rightarrow> table \<Rightarrow> row \<Rightarrow> bool" where
  "run_row ts marks c blobs t r \<longleftrightarrow> (case id_column t of
       Some col \<Rightarrow> (\<exists>m. dict_get marks (table_name t) = Some m \<and> sql_above (sql_value ts (table_name t) col r) m)
     | None \<Rightarrow>
         table_name t \<in> set VERSION_ROWS \<and> sql_value ts (table_name t) ''commit_id'' r = CInt c
         \<or> (\<exists>col. (t, col) \<in> set (blob_derived_tables ts) \<and> sql_among (sql_value ts (table_name t) col r) blobs)
         \<or> (\<exists>(fc, p, _) \<in> set (init_foreign t). \<exists>m. dict_get marks p = Some m \<and> sql_above (sql_value ts (table_name t) fc r) m))"

text \<open>A row that refers to a row of the table \<open>t\<close> derived from one of the blobs.\<close>

definition hangs_off :: "table list \<Rightarrow> sql_db \<Rightarrow> string \<Rightarrow> row \<Rightarrow> int list \<Rightarrow> table \<times> string \<Rightarrow> bool" where
  "hangs_off ts db n r blobs tc \<longleftrightarrow> (case tc of (t, col) \<Rightarrow>
     \<exists>pk x cc q. id_column t = Some pk \<and> (x, cc) \<in> set (children ts (table_name t)) \<and> table_name x = n \<and> q \<in> set (db (table_name t))
       \<and> sql_among (sql_value ts (table_name t) col q) blobs \<and> sql_value ts (table_name t) pk q = sql_value ts n cc r \<and> sql_value ts n cc r \<noteq> CNone)"

text \<open>A row from before the run that the rollback removes.\<close>

definition cleared :: "table list \<Rightarrow> sql_db \<Rightarrow> int \<Rightarrow> int list \<Rightarrow> string \<Rightarrow> row \<Rightarrow> bool" where
  "cleared ts db c blobs n r \<longleftrightarrow>
     n \<in> set VERSION_ROWS \<and> sql_value ts n ''commit_id'' r = CInt c
     \<or> (\<exists>tc \<in> set (blob_derived_tables ts). table_name (fst tc) = n \<and> sql_among (sql_value ts n (snd tc) r) blobs \<or> hangs_off ts db n r blobs tc)"

definition of_version :: "table list \<Rightarrow> int \<Rightarrow> string \<Rightarrow> row \<Rightarrow> bool" where
  "of_version ts c n r \<longleftrightarrow> n \<in> set VERSION_ROWS \<and> sql_value ts n ''commit_id'' r = CInt c"

text \<open>A row the plan finds: by the row itself, or by a row it hangs off.\<close>

definition found_row :: "table list \<Rightarrow> (string, int) dict \<Rightarrow> int \<Rightarrow> int list \<Rightarrow> sql_db \<Rightarrow> table \<Rightarrow> row \<Rightarrow> bool" where
  "found_row ts marks c blobs db t r \<longleftrightarrow> run_row ts marks c blobs t r
     \<or> (\<exists>tc \<in> set (blob_derived_tables ts). hangs_off ts db (table_name t) r blobs tc)"

text \<open>
  The database after a run that began at \<open>db\<close> and was interrupted: the rows \<open>added\<close> follow those of \<open>db\<close>, of which the run
  may have replaced those of its version (\<open>main.update\<close> writes the layout of the architectures anew).  In a table with ids
  an added row has a new id; any row may be added to the other tables.
\<close>

definition interrupted_run :: "table list \<Rightarrow> int \<Rightarrow> int \<Rightarrow> int \<Rightarrow> sql_db \<Rightarrow> sql_db \<Rightarrow> sql_db \<Rightarrow> bool" where
  "interrupted_run ts network c now db added db2 \<longleftrightarrow> (case begin_run ts network c now db of (marks, db1) \<Rightarrow>
     db2 ''m_ingest_state'' = db1 ''m_ingest_state'' \<and> db2 ''m_ingest_watermark'' = db1 ''m_ingest_watermark''
     \<and> (\<forall>t \<in> set ts. table_name t \<notin> set bookkeeping \<longrightarrow>
         (\<exists>kept. db2 (table_name t) = kept @ added (table_name t)
            \<and> filter (\<lambda>r. \<not> of_version ts c (table_name t) r) kept = filter (\<lambda>r. \<not> of_version ts c (table_name t) r) (db (table_name t)))
         \<and> (\<forall>col. id_column t = Some col \<longrightarrow>
              list_all (\<lambda>r. sql_above (sql_value ts (table_name t) col r) (max_id ts (table_name t) col db)) (added (table_name t)))))"

subsection \<open>Marks\<close>

lemma max_id_upper:
  assumes "r \<in> set (db n)" "sql_value ts n c r = CInt k"
  shows "k \<le> max_id ts n c db"
proof -
  have least: "x \<le> foldl max x ks" for x and ks :: "int list"
    by (induction ks arbitrary: x) (auto intro: order_trans[OF max.cobounded1])
  have up: "m \<le> foldl max x ks" if "m \<in> set (x # ks)" for m x and ks :: "int list"
    using that least by (induction ks arbitrary: x) (auto intro: order_trans[OF max.cobounded1] order_trans[OF max.cobounded2])
  have "k \<in> set (column_ints ts n c (db n))" using assms by (force simp: column_ints_def)
  then show ?thesis using up unfolding max_id_def by (cases "column_ints ts n c (db n)") auto
qed

lemma closed_no_future: "foreign_closed ts db \<Longrightarrow> no_future_keys ts db"
  using max_id_upper[of _ db _ ts] by (fastforce simp: foreign_closed_def no_future_keys_def sql_above_def split: cell.splits)

lemma closed_below_mark:
  assumes "no_future_keys ts db" "t \<in> set ts" "(fc, p, pc) \<in> set (init_foreign t)" "r \<in> set (db (table_name t))"
  shows "\<not> sql_above (sql_value ts (table_name t) fc r) (max_id ts p pc db)"
  using assms by (fastforce simp: no_future_keys_def)

lemma marked_id_columns: "map (\<lambda>(t, c). (table_name t, c)) (marked_tables ts) = id_columns (map shape ts)"
  by (induction ts) (auto simp: marked_tables_def id_columns_def shape_def split: option.splits)

lemma marked_mem: "(t, c) \<in> set (marked_tables ts) \<longleftrightarrow> t \<in> set ts \<and> id_column t = Some c"
  by (auto simp: marked_tables_def split: option.splits)

lemma dict_get_foldl_other: "n \<notin> k ` set xs \<Longrightarrow> dict_get (foldl (\<lambda>d x. dict_set (k x) (v x) d) d0 xs) n = dict_get d0 n"
  by (induction xs arbitrary: d0) auto

lemma dict_get_foldl_set:
  "distinct (map k xs) \<Longrightarrow> x \<in> set xs \<Longrightarrow> dict_get (foldl (\<lambda>d x. dict_set (k x) (v x) d) d0 xs) (k x) = Some (v x)"
  by (induction xs arbitrary: d0) (auto simp: dict_get_foldl_other)

lemma marked_distinct: "distinct (map table_name ts) \<Longrightarrow> distinct (map (\<lambda>tc. table_name (fst tc)) (marked_tables ts))"
proof (induction ts)
  case (Cons t ts)
  have "set (map (\<lambda>tc. table_name (fst tc)) (marked_tables ts)) \<subseteq> set (map table_name ts)" by (auto simp: marked_mem)
  with Cons show ?case by (auto simp: marked_tables_def split: option.splits)
qed (simp add: marked_tables_def)


lemma order_from_set:
  "inj_on (table_name \<circ> fst) (set order \<union> set pending) \<Longrightarrow> set (order_from names order pending) = set order \<union> set pending"
proof (induction names order pending rule: order_from.induct)
  case (1 names order pending)
  show ?case
  proof (cases "pending = []")
    case False
    define ready where "ready = (if ready_tables names pending = [] then take 1 pending else ready_tables names pending)"
    define left where "left = filter (\<lambda>(t, _). table_name t \<notin> set (map (table_name \<circ> fst) (order @ ready))) pending"
    have ready: "set ready \<subseteq> set pending" by (auto simp: ready_def ready_tables_def dest: in_set_takeD)
    have both: "set (order @ ready) \<union> set left = set order \<union> set pending"
    proof
      show "set (order @ ready) \<union> set left \<subseteq> set order \<union> set pending" using ready by (auto simp: left_def)
      show "set order \<union> set pending \<subseteq> set (order @ ready) \<union> set left"
      proof
        fix x assume x: "x \<in> set order \<union> set pending"
        show "x \<in> set (order @ ready) \<union> set left"
        proof (cases "table_name (fst x) \<in> set (map (table_name \<circ> fst) (order @ ready))")
          case True
          then obtain y where y: "y \<in> set (order @ ready)" "(table_name \<circ> fst) x = (table_name \<circ> fst) y" by auto
          then have "y \<in> set order \<union> set pending" using ready by auto
          then have "x = y" using inj_onD[OF 1(2) y(2) x] by blast
          then show ?thesis using y by blast
        qed (use x in \<open>auto simp: left_def case_prod_unfold\<close>)
      qed
    qed
    have "order_from names order pending = order_from names (order @ ready) left"
      using order_from.simps[of names order pending] False unfolding ready_def left_def Let_def by presburger
    then show ?thesis using 1(1)[OF False ready_def refl] 1(2) both by (simp add: left_def)
  qed (simp add: order_from.simps[of names order "[]"])
qed

lemma child_first_order_set: "inj_on (table_name \<circ> fst) (set m) \<Longrightarrow> set (child_first_order m) = set m"
  by (simp add: child_first_order_def order_from_set)

lemma marked_inj: "distinct (map table_name ts) \<Longrightarrow> inj_on (table_name \<circ> fst) (set (marked_tables ts))"
  using marked_distinct[of ts] by (simp add: distinct_map comp_def)

text \<open>The key a foreign key names in a table with ids is its id column.\<close>

lemma foreign_id_column:
  assumes "schema_ok (map shape ts)" "(fc, table_name u, pc) \<in> set (init_foreign t)" "t \<in> set ts" "u \<in> set ts" "id_column u = Some col"
  shows "pc = col"
proof -
  have d: "distinct (map table_name ts)" using assms(1) by (simp add: schema_ok_def shape_def comp_def)
  have "(table_name u, pc) \<in> set (parent_keys (map shape ts))"
    using assms(2,3) by (force simp: parent_keys_def shape_def)
  then have "dict_get (id_columns (map shape ts)) (table_name u) \<in> {None, Some pc}" using assms(1) by (auto simp: schema_ok_def list_all_iff)
  moreover have "dict_get (id_columns (map shape ts)) (table_name u) = Some col"
  proof (rule map_of_is_SomeI)
    show "distinct (map fst (id_columns (map shape ts)))"
      using marked_distinct[OF d] by (simp add: marked_id_columns[symmetric] comp_def case_prod_unfold)
    show "(table_name u, col) \<in> set (id_columns (map shape ts))"
      using assms(4,5) by (force simp: marked_id_columns[symmetric] marked_mem)
  qed
  ultimately show ?thesis by simp
qed

lemma children_mem: "(t, c) \<in> set (children ts p) \<longleftrightarrow> t \<in> set ts \<and> (\<exists>pc. (c, p, pc) \<in> set (init_foreign t))"
  by (force simp: children_def)

lemma derived_mem: "(t, c) \<in> set (blob_derived_tables ts) \<Longrightarrow> t \<in> set ts"
  by (auto simp: blob_derived_tables_def split: if_splits)


subsection \<open>Old rows and new rows\<close>

definition ran :: "table list \<Rightarrow> (string, int) dict \<Rightarrow> int \<Rightarrow> sql_db \<Rightarrow> sql_db \<Rightarrow> sql_db \<Rightarrow> bool" where
  "ran ts marks c db added db2 \<longleftrightarrow> schema_ok (map shape ts) \<and> no_future_keys ts db
     \<and> (\<forall>t \<in> set ts. id_column t \<noteq> None \<longrightarrow> table_name t \<notin> set VERSION_ROWS)
     \<and> (\<forall>t \<in> set ts. \<forall>col. id_column t = Some col \<longrightarrow> dict_get marks (table_name t) = Some (max_id ts (table_name t) col db))
     \<and> (\<forall>n m. dict_get marks n = Some m \<longrightarrow> (\<exists>t \<in> set ts. table_name t = n \<and> id_column t \<noteq> None))
     \<and> (\<forall>t \<in> set ts. table_name t \<notin> set bookkeeping \<longrightarrow>
         (\<exists>kept. db2 (table_name t) = kept @ added (table_name t)
            \<and> filter (\<lambda>r. \<not> of_version ts c (table_name t) r) kept = filter (\<lambda>r. \<not> of_version ts c (table_name t) r) (db (table_name t)))
         \<and> (\<forall>col. id_column t = Some col \<longrightarrow>
              list_all (\<lambda>r. sql_above (sql_value ts (table_name t) col r) (max_id ts (table_name t) col db)) (added (table_name t))))"

lemma ran_distinct: "ran ts marks c db added db2 \<Longrightarrow> distinct (map table_name ts)"
  by (simp add: ran_def schema_ok_def shape_def comp_def)

lemma ran_same_name: "ran ts marks c db added db2 \<Longrightarrow> t \<in> set ts \<Longrightarrow> u \<in> set ts \<Longrightarrow> table_name t = table_name u \<Longrightarrow> t = u"
  using ran_distinct by (metis distinct_map inj_onD)

lemma ran_mark: "ran ts marks c db added db2 \<Longrightarrow> (t, col) \<in> set (marked_tables ts) \<Longrightarrow> dict_get marks (table_name t) = Some (max_id ts (table_name t) col db)"
  by (simp add: ran_def marked_mem)

lemma id_column_named:
  assumes "t \<in> set ts" "id_column t = Some col"
  shows "table_name t \<in> set (map fst (id_columns (map shape ts)))"
proof -
  have "(t, col) \<in> set (marked_tables ts)" using assms by (simp add: marked_mem)
  then have "(table_name t, col) \<in> set (id_columns (map shape ts))" unfolding marked_id_columns[symmetric] by force
  then show ?thesis by force
qed

lemma ran_not_bookkeeping:
  assumes "ran ts marks c db added db2" "t \<in> set ts" "id_column t = Some col"
  shows "table_name t \<notin> set bookkeeping"
proof -
  from id_column_named[OF assms(2,3)] show ?thesis using assms(1) unfolding ran_def schema_ok_def bookkeeping_def list_all_iff by blast
qed

lemma ran_appends:
  assumes R: "ran ts marks c db added db2" and t: "t \<in> set ts" "id_column t = Some col"
  shows "db2 (table_name t) = db (table_name t) @ added (table_name t)"
    "r \<in> set (added (table_name t)) \<Longrightarrow> sql_above (sql_value ts (table_name t) col r) (max_id ts (table_name t) col db)"
proof -
  note b = ran_not_bookkeeping[OF R t]
  have "\<not> of_version ts c (table_name t) r" for r using R t by (auto simp: ran_def of_version_def)
  then show "db2 (table_name t) = db (table_name t) @ added (table_name t)" using R t(1) b by (fastforce simp: ran_def)
  show "r \<in> set (added (table_name t)) \<Longrightarrow> sql_above (sql_value ts (table_name t) col r) (max_id ts (table_name t) col db)"
    using R t b by (force simp: ran_def list_all_iff)
qed

lemma old_row_below_marks:
  assumes R: "ran ts marks c db added db2" and t: "t \<in> set ts" "(fc, p, pc) \<in> set (init_foreign t)" "r \<in> set (db (table_name t))"
    and m: "dict_get marks p = Some m"
  shows "\<not> sql_above (sql_value ts (table_name t) fc r) m"
proof -
  obtain u col where u: "u \<in> set ts" "table_name u = p" "id_column u = Some col"
    using R m unfolding ran_def by blast
  then have "m = max_id ts p col db" using R m unfolding ran_def by fastforce
  moreover have "pc = col" using foreign_id_column[of ts fc u pc t col] R t u by (simp add: ran_def)
  moreover have "no_future_keys ts db" using R by (simp add: ran_def)
  ultimately show ?thesis using closed_below_mark[of ts db, OF _ t] by simp
qed

lemma old_row_not_marked:
  assumes R: "ran ts marks c db added db2" and t: "t \<in> set ts" "r \<in> set (db (table_name t))"
    and d: "(table_name t, w) \<in> set (mark_deletes ts marks (u, col))" and u: "(u, col) \<in> set (marked_tables ts)"
  shows "\<not> holds ts db2 (table_name t) w r"
proof -
  let ?m = "max_id ts (table_name u) col db"
  have m: "dict_get marks (table_name u) = Some ?m" by (rule ran_mark[OF R u])
  from d consider "table_name t = table_name u" "w = Above col ?m"
    | x cc where "(x, cc) \<in> set (children ts (table_name u))" "table_name t = table_name x" "w = Above cc ?m"
    by (auto simp: mark_deletes_def m Let_def)
  then show ?thesis
  proof cases
    case 1
    then show ?thesis using max_id_upper[of r db "table_name u" ts col] t by (force simp: sql_above_def split: cell.splits)
  next
    case 2
    then have "t = x" using ran_same_name[OF R t(1)] by (simp add: children_mem)
    then obtain pc where "(cc, table_name u, pc) \<in> set (init_foreign t)" using 2(1) by (auto simp: children_mem)
    then show ?thesis using old_row_below_marks[OF R t(1) _ t(2) m] 2(3) by simp
  qed
qed

lemma old_row_hangs_off_old:
  assumes R: "ran ts marks c db added db2" and x: "(x, cc) \<in> set (children ts (table_name t))" "r \<in> set (db (table_name x))"
    and t: "t \<in> set ts" "id_column t = Some pk" and q: "q \<in> set (db2 (table_name t))" "sql_value ts (table_name t) pk q = sql_value ts (table_name x) cc r"
  shows "q \<in> set (db (table_name t))"
proof (rule ccontr)
  assume old: "q \<notin> set (db (table_name t))"
  have m: "dict_get marks (table_name t) = Some (max_id ts (table_name t) pk db)" using ran_mark[OF R] t by (simp add: marked_mem)
  have "sql_above (sql_value ts (table_name t) pk q) (max_id ts (table_name t) pk db)" using ran_appends[OF R t] q(1) old by auto
  moreover obtain pc where "x \<in> set ts" "(cc, table_name t, pc) \<in> set (init_foreign x)" using x(1) by (auto simp: children_mem)
  ultimately show False using old_row_below_marks[OF R _ _ x(2) m] q(2) by metis
qed

lemma among_chunks: "(\<exists>ns \<in> set (in_chunks (sort (remdups blobs))). sql_among v ns) \<longleftrightarrow> sql_among v blobs"
proof -
  have "(\<Union>ns \<in> set (in_chunks (sort (remdups blobs))). set ns) = set blobs" by (simp add: set_in_chunks)
  then show ?thesis by (auto simp: sql_among_def split: cell.splits)
qed


abbreviation marked_order :: "table list \<Rightarrow> (string, int) dict \<Rightarrow> (table \<times> string) list" where
  "marked_order ts marks \<equiv> child_first_order (filter (\<lambda>(t, _). dict_get marks (table_name t) \<noteq> None) (marked_tables ts))"

lemma ran_marked_order:
  assumes R: "ran ts marks c db added db2"
  shows "set (marked_order ts marks) = set (marked_tables ts)"
proof -
  have "filter (\<lambda>(t, _). dict_get marks (table_name t) \<noteq> None) (marked_tables ts) = marked_tables ts"
    using ran_mark[OF R] by (auto simp: filter_id_conv)
  then show ?thesis using child_first_order_set[OF marked_inj[OF ran_distinct[OF R]]] by simp
qed

lemma doomed_all:
  assumes R: "ran ts marks c db added db2"
  shows "doomed ts d (all_deletes ts marks c blobs) n r \<longleftrightarrow>
      (n \<in> set VERSION_ROWS \<and> sql_value ts n ''commit_id'' r = CInt c)
    \<or> (\<exists>ns \<in> set (in_chunks (sort (remdups blobs))). \<exists>tc \<in> set (blob_derived_tables ts). \<exists>w. (n, w) \<in> set (blob_deletes ts ns tc) \<and> holds ts d n w r)
    \<or> (\<exists>(t, col) \<in> set (marked_tables ts). \<exists>w. (n, w) \<in> set (mark_deletes ts marks (t, col)) \<and> holds ts d n w r)"
proof -
  let ?blob = "concat (map (\<lambda>ns. concat (map (blob_deletes ts ns) (blob_derived_tables ts))) (in_chunks (sort (remdups blobs))))"
  let ?mark = "concat (map (mark_deletes ts marks) (marked_order ts marks))"
  have "doomed ts d (all_deletes ts marks c blobs) n r \<longleftrightarrow> doomed ts d (map (\<lambda>n. (n, Equals ''commit_id'' c)) VERSION_ROWS) n r
      \<or> doomed ts d ?blob n r \<or> doomed ts d ?mark n r"
    by (auto simp: doomed_def all_deletes_def)
  moreover have "doomed ts d (map (\<lambda>n. (n, Equals ''commit_id'' c)) VERSION_ROWS) n r \<longleftrightarrow> n \<in> set VERSION_ROWS \<and> sql_value ts n ''commit_id'' r = CInt c"
    by (auto simp: doomed_def)
  moreover have "doomed ts d ?blob n r \<longleftrightarrow> (\<exists>ns \<in> set (in_chunks (sort (remdups blobs))). \<exists>tc \<in> set (blob_derived_tables ts).
      \<exists>w. (n, w) \<in> set (blob_deletes ts ns tc) \<and> holds ts d n w r)"
    by (fastforce simp: doomed_def)
  moreover have "doomed ts d ?mark n r \<longleftrightarrow> (\<exists>(t, col) \<in> set (marked_tables ts). \<exists>w. (n, w) \<in> set (mark_deletes ts marks (t, col)) \<and> holds ts d n w r)"
    using ran_marked_order[OF R] by (fastforce simp: doomed_def)
  ultimately show ?thesis by blast
qed

lemma blob_deletes_holds:
  "(\<exists>w. (n, w) \<in> set (blob_deletes ts ns tc) \<and> holds ts d n w r) \<longleftrightarrow>
     table_name (fst tc) = n \<and> sql_among (sql_value ts n (snd tc) r) ns \<or> hangs_off ts d n r ns tc"
  by (cases tc; cases "id_column (fst tc)") (fastforce simp: blob_deletes_def hangs_off_def list_ex_iff)+

lemma hangs_off_chunks: "(\<exists>ns \<in> set (in_chunks (sort (remdups blobs))). hangs_off ts d n r ns tc) \<longleftrightarrow> hangs_off ts d n r blobs tc"
  unfolding hangs_off_def among_chunks[of blobs, symmetric] by (cases tc) blast

lemma old_rows_hang_off:
  assumes R: "ran ts marks c db added db2" and s: "r \<in> set (db n)" and t: "tc \<in> set (blob_derived_tables ts)"
  shows "hangs_off ts db2 n r bs tc = hangs_off ts db n r bs tc"
proof -
  obtain t col where tc: "tc = (t, col)" by fastforce
  have t: "t \<in> set ts" using derived_mem t tc by blast
  have sub: "set (db (table_name t)) \<subseteq> set (db2 (table_name t))" if "id_column t = Some pk" for pk
    using ran_appends[OF R t that] by auto
  show ?thesis
  proof
    assume "hangs_off ts db2 n r bs tc"
    then obtain pk x cc q where h: "id_column t = Some pk" "(x, cc) \<in> set (children ts (table_name t))" "table_name x = n"
      "q \<in> set (db2 (table_name t))" "sql_among (sql_value ts (table_name t) col q) bs"
      "sql_value ts (table_name t) pk q = sql_value ts n cc r" "sql_value ts n cc r \<noteq> CNone"
      by (auto simp: hangs_off_def tc)
    have "q \<in> set (db (table_name t))"
      using old_row_hangs_off_old[OF R h(2) _ t h(1) h(4)] s h(3,6) by simp
    then show "hangs_off ts db n r bs tc" using h unfolding hangs_off_def tc by blast
  next
    assume "hangs_off ts db n r bs tc"
    then show "hangs_off ts db2 n r bs tc" using sub unfolding hangs_off_def tc by blast
  qed
qed

lemma old_rows_doomed:
  assumes R: "ran ts marks c db added db2" and s: "s \<in> set ts" "r \<in> set (db (table_name s))"
  shows "doomed ts db2 (all_deletes ts marks c blobs) (table_name s) r = cleared ts db c blobs (table_name s) r"
proof -
  let ?n = "table_name s" and ?chunks = "in_chunks (sort (remdups blobs))"
  let ?own = "\<lambda>ns tc. table_name (fst tc) = ?n \<and> sql_among (sql_value ts ?n (snd tc) r) ns"
  have marks: "\<not> (\<exists>(t, col) \<in> set (marked_tables ts). \<exists>w. (?n, w) \<in> set (mark_deletes ts marks (t, col)) \<and> holds ts db2 ?n w r)"
    using old_row_not_marked[OF R s] by blast
  have "(\<exists>ns \<in> set ?chunks. ?own ns tc \<or> hangs_off ts db2 ?n r ns tc) \<longleftrightarrow> ?own blobs tc \<or> hangs_off ts db ?n r blobs tc"
    if "tc \<in> set (blob_derived_tables ts)" for tc
    unfolding old_rows_hang_off[OF R s(2) that, symmetric] hangs_off_chunks[where blobs = blobs, symmetric] using among_chunks[where blobs = blobs] by blast
  then have derived: "(\<exists>ns \<in> set ?chunks. \<exists>tc \<in> set (blob_derived_tables ts). ?own ns tc \<or> hangs_off ts db2 ?n r ns tc)
      \<longleftrightarrow> (\<exists>tc \<in> set (blob_derived_tables ts). ?own blobs tc \<or> hangs_off ts db ?n r blobs tc)"
    by blast
  show ?thesis unfolding doomed_all[OF R] blob_deletes_holds cleared_def using marks derived by blast
qed

lemma new_rows_doomed:
  assumes R: "ran ts marks c db added db2" and s: "s \<in> set ts" "run_row ts marks c blobs s r"
  shows "doomed ts db2 (all_deletes ts marks c blobs) (table_name s) r"
proof (cases "id_column s")
  case (Some col)
  then have m: "(s, col) \<in> set (marked_tables ts)" using s(1) by (simp add: marked_mem)
  then have "holds ts db2 (table_name s) (Above col (max_id ts (table_name s) col db)) r"
    using s(2) ran_mark[OF R m] Some by (simp add: run_row_def)
  moreover have "(table_name s, Above col (max_id ts (table_name s) col db)) \<in> set (mark_deletes ts marks (s, col))"
    using ran_mark[OF R m] by (simp add: mark_deletes_def Let_def)
  ultimately show ?thesis unfolding doomed_all[OF R] using m by blast
next
  case None
  with s(2) consider "table_name s \<in> set VERSION_ROWS \<and> sql_value ts (table_name s) ''commit_id'' r = CInt c"
    | col where "(s, col) \<in> set (blob_derived_tables ts)" "sql_among (sql_value ts (table_name s) col r) blobs"
    | fc p pc m where "(fc, p, pc) \<in> set (init_foreign s)" "dict_get marks p = Some m" "sql_above (sql_value ts (table_name s) fc r) m"
    by (auto simp: run_row_def)
  then show ?thesis
  proof cases
    case 2
    then obtain ns where "ns \<in> set (in_chunks (sort (remdups blobs)))" "sql_among (sql_value ts (table_name s) col r) ns"
      using among_chunks by blast
    then show ?thesis unfolding doomed_all[OF R] blob_deletes_holds using 2(1)
      by (intro disjI2 disjI1 bexI[of _ ns] bexI[of _ "(s, col)"]) simp_all
  next
    case 3
    obtain u col where u: "u \<in> set ts" "table_name u = p" "id_column u = Some col"
      using R 3(2) unfolding ran_def by blast
    then have um: "(u, col) \<in> set (marked_tables ts)" by (simp add: marked_mem)
    have "(table_name s, Above fc m) \<in> set (mark_deletes ts marks (u, col))"
      using 3 u None s(1) by (force simp: mark_deletes_def children_mem Let_def)
    then show ?thesis unfolding doomed_all[OF R] using um 3(3) by fastforce
  qed (simp add: doomed_all[OF R])
qed

lemma doomed_new_rows:
  assumes R: "ran ts marks c db added db2" and s: "s \<in> set ts" "id_column s = None"
    and d: "doomed ts db2 (all_deletes ts marks c blobs) (table_name s) r"
  shows "found_row ts marks c blobs db2 s r"
proof -
  have named: "u = s" if "u \<in> set ts" "table_name u = table_name s" for u using ran_same_name[OF R that(1) s(1) that(2)] .
  from d[unfolded doomed_all[OF R] blob_deletes_holds] consider "of_version ts c (table_name s) r"
    | ns t col where "ns \<in> set (in_chunks (sort (remdups blobs)))" "(t, col) \<in> set (blob_derived_tables ts)"
        "table_name t = table_name s" "sql_among (sql_value ts (table_name s) col r) ns"
    | ns tc where "ns \<in> set (in_chunks (sort (remdups blobs)))" "tc \<in> set (blob_derived_tables ts)" "hangs_off ts db2 (table_name s) r ns tc"
    | t col w where "(t, col) \<in> set (marked_tables ts)" "(table_name s, w) \<in> set (mark_deletes ts marks (t, col))" "holds ts db2 (table_name s) w r"
    unfolding of_version_def by fastforce
  then show ?thesis
  proof cases
    case 1
    then show ?thesis using s(2) by (simp add: found_row_def run_row_def of_version_def)
  next
    case 2
    then have "t = s" "sql_among (sql_value ts (table_name s) col r) blobs"
      using named[OF derived_mem[OF 2(2)]] among_chunks[of blobs] by blast+
    then show ?thesis using 2(2) s(2) by (auto simp: found_row_def run_row_def)
  next
    case 3
    then have "hangs_off ts db2 (table_name s) r blobs tc" using hangs_off_chunks[of blobs] by blast
    then show ?thesis using 3(2) by (auto simp: found_row_def)
  next
    case 4
    have t: "t \<in> set ts" "id_column t = Some col" "dict_get marks (table_name t) = Some (max_id ts (table_name t) col db)"
      using 4(1) ran_mark[OF R 4(1)] by (simp_all add: marked_mem)
    have "t \<noteq> s" using t(2) s(2) by auto
    then have "table_name t \<noteq> table_name s" using named t(1) by blast
    then obtain x cc where x: "(x, cc) \<in> set (children ts (table_name t))" "table_name x = table_name s"
      "w = Above cc (max_id ts (table_name t) col db)"
      using 4(2) t(3) by (auto simp: mark_deletes_def Let_def)
    then have "x = s" using named by (simp add: children_mem)
    then obtain pc where "(cc, table_name t, pc) \<in> set (init_foreign s)" using x(1) by (auto simp: children_mem)
    then have "run_row ts marks c blobs s r" using s(2) t(3) 4(3) x(3) by (force simp: run_row_def)
    then show ?thesis by (simp add: found_row_def)
  qed
qed

lemma new_rows:
  assumes R: "ran ts marks c db added db2" and t: "t \<in> set ts" and r: "id_column t = None \<or> r \<in> set (added (table_name t))"
  shows "doomed ts db2 (all_deletes ts marks c blobs) (table_name t) r = found_row ts marks c blobs db2 t r"
proof (cases "id_column t")
  case None
  have "doomed ts db2 (all_deletes ts marks c blobs) (table_name t) r" if "hangs_off ts db2 (table_name t) r blobs tc" "tc \<in> set (blob_derived_tables ts)" for tc
    using that unfolding doomed_all[OF R] blob_deletes_holds hangs_off_chunks[of blobs, symmetric] by blast
  then show ?thesis using doomed_new_rows[OF R t None] new_rows_doomed[OF R t] unfolding found_row_def by blast
next
  case (Some col)
  then have "run_row ts marks c blobs t r"
    using ran_appends(2)[OF R t Some] ran_mark[OF R, of t col] r t by (simp add: run_row_def marked_mem)
  then show ?thesis using new_rows_doomed[OF R t] by (simp add: found_row_def)
qed

lemma new_id_found:
  assumes R: "ran ts marks c db added db2" and t: "t \<in> set ts" "id_column t \<noteq> None"
  shows "\<forall>r \<in> set (added (table_name t)). found_row ts marks c blobs db2 t r"
proof -
  obtain col where col: "id_column t = Some col" using t(2) by blast
  then show ?thesis using ran_appends(2)[OF R t(1) col] ran_mark[OF R, of t col] t(1) by (simp add: found_row_def run_row_def marked_mem)
qed

lemma ran_rolled_back:
  assumes R: "ran ts marks c db added db2" and t: "t \<in> set ts" "table_name t \<notin> set bookkeeping"
  shows "foldl (run_delete ts) db2 (rollback_plan ts marks c blobs) (table_name t)
    = filter (\<lambda>r. \<not> cleared ts db c blobs (table_name t) r) (db (table_name t))
      @ filter (\<lambda>r. \<not> found_row ts marks c blobs db2 t r) (added (table_name t))"
proof -
  let ?n = "table_name t" and ?doomed = "doomed ts db2 (all_deletes ts marks c blobs) (table_name t)"
  have ok: "schema_ok (map shape ts)" using R by (simp add: ran_def)
  obtain kept where k: "db2 ?n = kept @ added ?n" "filter (\<lambda>r. \<not> of_version ts c ?n r) kept = filter (\<lambda>r. \<not> of_version ts c ?n r) (db ?n)"
    using R t unfolding ran_def by blast
  have v: "of_version ts c ?n r \<Longrightarrow> ?doomed r \<and> cleared ts db c blobs ?n r" for r
    unfolding doomed_all[OF R] of_version_def cleared_def by blast
  have "filter (\<lambda>r. \<not> ?doomed r) kept = filter (\<lambda>r. \<not> ?doomed r) (filter (\<lambda>r. \<not> of_version ts c ?n r) kept)"
    unfolding filter_filter using v by (intro filter_cong) auto
  also have "\<dots> = filter (\<lambda>r. \<not> cleared ts db c blobs ?n r) (db ?n)"
    unfolding k(2) filter_filter using v old_rows_doomed[OF R t(1)] by (intro filter_cong) auto
  finally have "filter (\<lambda>r. \<not> ?doomed r) kept = filter (\<lambda>r. \<not> cleared ts db c blobs ?n r) (db ?n)" .
  moreover have "filter (\<lambda>r. \<not> ?doomed r) (added ?n) = filter (\<lambda>r. \<not> found_row ts marks c blobs db2 t r) (added ?n)"
    using new_rows[OF R t(1)] by (intro filter_cong) auto
  ultimately show ?thesis unfolding rollback_plan_rows[OF ok] using t(1) by (simp add: doomed_plan k(1))
qed


subsection \<open>From the beginning of a run to its rollback\<close>

lemma TABLES_schema_distinct: "distinct (map table_name TABLES)" "distinct (map table_id TABLES)"
  using TABLES_distinct by (simp_all add: TABLES_ids)

lemma named_table: "t \<in> set TABLES \<Longrightarrow> u \<in> set TABLES \<Longrightarrow> table_name t = table_name u \<Longrightarrow> t = u"
  using TABLES_schema_distinct(1) by (metis distinct_map inj_onD)

lemma sql_value_at:
  assumes "t \<in> set TABLES" "table_name t = n" "col_index c (init_columns t) = Some i" "i < length r"
  shows "sql_value TABLES n c r = r ! i"
proof -
  obtain u where u: "find (\<lambda>u. table_name u = n) TABLES = Some u"
    using assms(1,2) by (cases "find (\<lambda>u. table_name u = n) TABLES") (auto simp: find_None_iff)
  then have "u = t" using named_table[OF _ assms(1)] assms(2) by (auto simp: find_Some_iff)
  then show ?thesis using u assms(3,4) by (simp add: sql_value_def)
qed

lemma example_tables:
  "m_file_blob \<in> set TABLES" "table_name m_file_blob = ''m_file_blob''" "init_foreign m_file_blob = []" "id_column m_file_blob = Some ''blob_id''"
  "m_bridge_tag \<in> set TABLES" "table_name m_bridge_tag = ''m_bridge_tag''" "id_column m_bridge_tag = None"
  "init_foreign m_bridge_tag = [(''blob_id'', ''m_file_blob'', ''blob_id''), (''tag_id'', ''m_tag'', ''tag_id'')]"
  "m_ast \<in> set TABLES" "table_name m_ast = ''m_ast''" "init_foreign m_ast = [(''type_id'', ''m_type_descriptor'', ''type_id'')]"
  "m_tag \<in> set TABLES" "table_name m_tag = ''m_tag''" "init_foreign m_tag = [(''ast_id'', ''m_ast'', ''ast_id'')]" "id_column m_tag = Some ''tag_id''"
  "m_map_ast \<in> set TABLES" "table_name m_map_ast = ''m_map_ast''" "init_foreign m_map_ast = [(''ast_id'', ''m_ast'', ''ast_id'')]" "id_column m_map_ast = None"
  by (simp_all add: TABLES_def m_file_blob_def m_bridge_tag_def m_ast_def m_tag_def m_map_ast_def id_column_def type_text_def STATIC_TABLES_def col_name_def
    upper_def py_lower_letter_def startswith_def)

lemma bookkeeping_tables:
  "m_ingest_state \<in> set TABLES" "table_name m_ingest_state = ''m_ingest_state''"
  "m_ingest_watermark \<in> set TABLES" "table_name m_ingest_watermark = ''m_ingest_watermark''"
  "m_ingest_blob \<in> set TABLES" "table_name m_ingest_blob = ''m_ingest_blob''"
  "(''commit_id'', ''m_commit'', ''commit_id'') \<in> set (init_foreign m_ingest_state)"
  by (simp_all add: TABLES_def m_ingest_state_def m_ingest_watermark_def m_ingest_blob_def)

lemma bookkeeping_columns:
  "sql_value TABLES ''m_ingest_watermark'' ''commit_id'' [a, b, d] = a"
  "sql_value TABLES ''m_ingest_watermark'' ''marked_table_id'' [a, b, d] = b"
  "sql_value TABLES ''m_ingest_watermark'' ''max_id'' [a, b, d] = d"
  "sql_value TABLES ''m_ingest_state'' ''status'' [a, b, d, e] = d"
  "sql_value TABLES ''m_ingest_blob'' ''commit_id'' [a, b] = a"
  "sql_value TABLES ''m_ingest_blob'' ''blob_id'' [a, b] = b"
  by (simp_all add: sql_value_at[OF bookkeeping_tables(3,4)] sql_value_at[OF bookkeeping_tables(1,2)] sql_value_at[OF bookkeeping_tables(5,6)]
    m_ingest_watermark_def m_ingest_state_def m_ingest_blob_def col_name_def)

lemma example_columns:
  "sql_value TABLES ''m_file_blob'' ''blob_id'' [a, b, d] = a" "sql_value TABLES ''m_bridge_tag'' ''blob_id'' (a # w) = a"
  "sql_value TABLES ''m_ast'' ''type_id'' [a, b, d] = d" "sql_value TABLES ''m_tag'' ''tag_id'' (a # w) = a"
  by (simp_all add: sql_value_at[OF example_tables(1,2)] sql_value_at[OF example_tables(5,6)] sql_value_at[OF example_tables(9,10)]
    sql_value_at[OF example_tables(12,13)] m_file_blob_def m_bridge_tag_def m_ast_def m_tag_def col_name_def)

lemma table_of_id:
  assumes t: "t \<in> set TABLES"
  shows "find (\<lambda>u. table_id u = table_id t) TABLES = Some t"
proof -
  from t obtain u where u: "find (\<lambda>u. table_id u = table_id t) TABLES = Some u"
    by (cases "find (\<lambda>u. table_id u = table_id t) TABLES") (auto simp: find_None_iff)
  then have "u \<in> set TABLES" "table_id u = table_id t" by (auto simp: find_Some_iff)
  then have "u = t" using TABLES_schema_distinct(2) t by (metis distinct_map inj_onD)
  then show ?thesis using u by simp
qed

definition run_marks :: "table list \<Rightarrow> sql_db \<Rightarrow> (string, int) dict" where
  "run_marks ts db = foldl (\<lambda>d tc. dict_set (table_name (fst tc)) (mark_of ts db tc) d) [] (marked_tables ts)"

lemma discard_other: "n \<notin> set MARK_TABLES \<Longrightarrow> discard_marks ts c db n = db n"
  by (simp add: discard_marks_def delete_where_def MARK_TABLES_def)

lemma begin_run_db:
  assumes "c \<noteq> 0"
  shows "begin_run ts network c now db = (run_marks ts (discard_marks ts c db),
    (discard_marks ts c db)(''m_ingest_watermark'' := discard_marks ts c db ''m_ingest_watermark''
        @ map (\<lambda>tc. [CInt c, CInt (int (table_id (fst tc))), CInt (mark_of ts (discard_marks ts c db) tc)]) (marked_tables ts),
      ''m_ingest_state'' := upsert_state network c INGEST_PARSING now (db ''m_ingest_state'')))"
  using assms by (simp add: begin_run_def run_marks_def set_status_def INGEST_PARSING_def INGEST_DONE_def Let_def discard_other MARK_TABLES_def)

lemma fetch_begun:
  assumes w: "db2 ''m_ingest_watermark'' = filter (\<lambda>r. sql_value TABLES ''m_ingest_watermark'' ''commit_id'' r \<noteq> CInt c) old
      @ map (\<lambda>tc. [CInt c, CInt (int (table_id (fst tc))), CInt (mark_of TABLES db tc)]) (marked_tables TABLES)"
  shows "fetch_marks TABLES c db2 = run_marks TABLES db"
proof -
  let ?step = "\<lambda>d r. (case (sql_value TABLES ''m_ingest_watermark'' ''commit_id'' r, sql_value TABLES ''m_ingest_watermark'' ''marked_table_id'' r, sql_value TABLES ''m_ingest_watermark'' ''max_id'' r) of
          (CInt c', CInt tid, CInt m) \<Rightarrow>
            (case find (\<lambda>t. int (table_id t) = tid) TABLES of
               Some t \<Rightarrow> if c' = c then dict_set (table_name t) m d else d
             | None \<Rightarrow> d)
        | _ \<Rightarrow> d)"
  have skip: "foldl ?step d (filter (\<lambda>r. sql_value TABLES ''m_ingest_watermark'' ''commit_id'' r \<noteq> CInt c) rs) = d" for d rs
    by (induction rs) (auto split: cell.splits option.splits)
  have new: "foldl ?step d (map (\<lambda>tc. [CInt c, CInt (int (table_id (fst tc))), CInt (mark_of TABLES db tc)]) ms)
      = foldl (\<lambda>d tc. dict_set (table_name (fst tc)) (mark_of TABLES db tc) d) d ms" if "set ms \<subseteq> set (marked_tables TABLES)" for d ms
    using that
  proof (induction ms arbitrary: d)
    case (Cons tc ms)
    have "fst tc \<in> set TABLES" using Cons(2) by (cases tc) (auto simp: marked_mem)
    then show ?case using Cons by (simp add: bookkeeping_columns table_of_id)
  qed simp
  show ?thesis unfolding fetch_marks_def w foldl_append skip run_marks_def by (rule new) simp
qed

lemma run_marks_get:
  assumes "distinct (map table_name ts)" "(t, col) \<in> set (marked_tables ts)"
  shows "dict_get (run_marks ts db) (table_name t) = Some (max_id ts (table_name t) col db)"
  using dict_get_foldl_set[where k = "\<lambda>tc. table_name (fst tc)" and x = "(t, col)" and v = "mark_of ts db", OF marked_distinct[OF assms(1)] assms(2)]
  by (simp add: run_marks_def mark_of_def)

lemma run_marks_only: "dict_get (run_marks ts db) n = Some m \<Longrightarrow> \<exists>t \<in> set ts. table_name t = n \<and> id_column t \<noteq> None"
  using dict_get_foldl_other[of n "\<lambda>tc. table_name (fst tc)" "marked_tables ts" "mark_of ts db" "[]"]
  by (force simp: run_marks_def marked_mem)

lemma interrupted_ran:
  assumes "no_future_keys TABLES db" "c \<noteq> 0" "interrupted_run TABLES network c now db added db2"
  shows "ran TABLES (run_marks TABLES (discard_marks TABLES c db)) c db added db2"
proof -
  have "max_id TABLES (table_name t) col (discard_marks TABLES c db) = max_id TABLES (table_name t) col db"
    if "t \<in> set TABLES" "id_column t = Some col" for t col
  proof -
    from id_column_named[OF that] have "table_name t \<notin> set MARK_TABLES"
      using TABLES_schema_ok unfolding schema_ok_def list_all_iff by (metis list.set_intros(2))
    then show ?thesis by (simp add: max_id_def discard_other)
  qed
  moreover have "table_name t \<notin> set VERSION_ROWS" if "t \<in> set TABLES" "id_column t \<noteq> None" for t
    using id_column_named[OF that(1)] that(2) by (auto simp: TABLES_id_columns VERSION_ROWS_def)
  ultimately show ?thesis
    using assms TABLES_schema_ok run_marks_get[OF TABLES_schema_distinct(1)] run_marks_only
    unfolding ran_def interrupted_run_def begin_run_db[OF assms(2)] marked_mem by (simp add: marked_mem)
qed


lemma precheck_passes:
  assumes R: "ran ts marks c db added db2"
  shows "find (failed_precheck ts db2) (precheck_queries ts marks) = None"
proof -
  have "\<not> failed_precheck ts db2 q" if "q \<in> set (precheck_queries ts marks)" for q
  proof -
    from that obtain t col m fc p pc pm where q: "q = (table_name t, col, m, fc, pm)" "(t, col) \<in> set (marked_tables ts)"
      "dict_get marks (table_name t) = Some m" "(fc, p, pc) \<in> set (init_foreign t)" "dict_get marks p = Some pm"
      by (auto simp: precheck_queries_def split: option.splits if_splits)
    have t: "t \<in> set ts" "id_column t = Some col" using q(2) by (simp_all add: marked_mem)
    have m: "m = max_id ts (table_name t) col db" using ran_mark[OF R q(2)] q(3) by simp
    have "\<not> sql_above (sql_value ts (table_name t) fc r) pm" if "r \<in> set (db2 (table_name t))" "sql_value ts (table_name t) col r = CInt k" "k \<le> m" for r k
    proof -
      have "r \<notin> set (added (table_name t))" using that(2,3) m ran_appends(2)[OF R t, of r] by (auto simp: sql_above_def)
      then have "r \<in> set (db (table_name t))" using that(1) ran_appends(1)[OF R t] by auto
      then show ?thesis using old_row_below_marks[OF R t(1) q(4) _ q(5)] by blast
    qed
    then show ?thesis by (auto simp: failed_precheck_def q(1) list_ex_iff split: cell.splits)
  qed
  then show ?thesis by (simp add: find_None_iff)
qed

lemma TABLES_m_commit: "(m_commit, ''commit_id'') \<in> set (marked_tables TABLES)" "table_name m_commit = ''m_commit''"
proof -
  show n: "table_name m_commit = ''m_commit''" by (simp add: m_commit_def)
  have m: "m_commit \<in> set TABLES" by (simp add: TABLES_def)
  have "(''m_commit'', ''commit_id'') \<in> set (map (\<lambda>(t, c). (table_name t, c)) (marked_tables TABLES))"
    unfolding marked_id_columns TABLES_id_columns by simp
  then obtain t where t: "(t, ''commit_id'') \<in> set (marked_tables TABLES)" "table_name t = ''m_commit''" by auto
  then have "t = m_commit" using named_table[OF _ m] n by (auto simp: marked_mem)
  then show "(m_commit, ''commit_id'') \<in> set (marked_tables TABLES)" using t(1) by simp
qed

lemma upsert_state_mem: "r \<in> set (upsert_state network c status now rs) \<Longrightarrow> r \<in> set rs \<or> r = [CInt network, CInt c, CInt status, CInt now]"
  by (auto simp: upsert_state_def split: if_splits)

lemma completed_after_None: "completed_after ts marks d = None \<longleftrightarrow> (\<forall>m. dict_get marks ''m_commit'' = Some m \<longrightarrow>
    (\<forall>r \<in> set (d ''m_ingest_state''). \<not> (sql_value ts ''m_ingest_state'' ''status'' r = CInt INGEST_DONE \<and> sql_above (sql_value ts ''m_ingest_state'' ''commit_id'' r) m)))"
proof (cases "dict_get marks ''m_commit''")
  case (Some m)
  let ?xs = "filter (\<lambda>r. sql_value ts ''m_ingest_state'' ''status'' r = CInt INGEST_DONE \<and> sql_above (sql_value ts ''m_ingest_state'' ''commit_id'' r) m) (d ''m_ingest_state'')"
  have "column_ints ts ''m_ingest_state'' ''commit_id'' ?xs = [] \<longleftrightarrow> ?xs = []"
    by (auto simp: column_ints_def filter_empty_conv sql_above_def split: cell.splits)
  moreover have "completed_after ts marks d = None \<longleftrightarrow> column_ints ts ''m_ingest_state'' ''commit_id'' ?xs = []"
    by (simp add: completed_after_def Some Let_def split: list.split)
  ultimately show ?thesis by (auto simp: Some filter_empty_conv)
qed (simp add: completed_after_def)

lemma none_completed:
  assumes R: "ran TABLES marks c db added db2" and s: "db2 ''m_ingest_state'' = upsert_state network c INGEST_PARSING now (db ''m_ingest_state'')"
  shows "completed_after TABLES marks db2 = None"
proof -
  obtain m where m: "dict_get marks ''m_commit'' = Some m" using ran_mark[OF R TABLES_m_commit(1)] TABLES_m_commit(2) by simp
  have "\<not> (sql_value TABLES ''m_ingest_state'' ''status'' r = CInt INGEST_DONE \<and> sql_above (sql_value TABLES ''m_ingest_state'' ''commit_id'' r) m)"
    if r: "r \<in> set (db2 ''m_ingest_state'')" for r
    using upsert_state_mem[OF r[unfolded s]]
  proof
    assume "r \<in> set (db ''m_ingest_state'')"
    then show ?thesis using old_row_below_marks[OF R bookkeeping_tables(1,7) _ m] bookkeeping_tables(2) by simp
  qed (simp add: bookkeeping_columns INGEST_PARSING_def INGEST_DONE_def)
  then show ?thesis using m by (simp add: completed_after_None)
qed

lemma rollback_of_run:
  assumes "no_future_keys TABLES db" "c \<noteq> 0" "interrupted_run TABLES network c now db added db2"
  shows "fetch_marks TABLES c db2 = run_marks TABLES (discard_marks TABLES c db)" "rollback_version TABLES c db2 = Rolled_back True (discard_marks TABLES c
    (foldl (run_delete TABLES) db2 (rollback_plan TABLES (run_marks TABLES (discard_marks TABLES c db)) c (parsed_blobs TABLES c db2))))"
proof -
  let ?marks = "run_marks TABLES (discard_marks TABLES c db)"
  note R = interrupted_ran[OF assms]
  show w: "fetch_marks TABLES c db2 = ?marks"
    using assms(3) by (intro fetch_begun) (simp add: interrupted_run_def begin_run_db[OF assms(2)] discard_marks_def delete_where_def)
  have s: "db2 ''m_ingest_state'' = upsert_state network c INGEST_PARSING now (db ''m_ingest_state'')"
    using assms(3) by (simp add: interrupted_run_def begin_run_db[OF assms(2)])
  have "?marks \<noteq> []" using ran_mark[OF R TABLES_m_commit(1)] by auto
  then show "rollback_version TABLES c db2 = Rolled_back True (discard_marks TABLES c (foldl (run_delete TABLES) db2 (rollback_plan TABLES ?marks c (parsed_blobs TABLES c db2))))"
    by (simp only: rollback_version_def w Let_def if_False none_completed[OF R s] precheck_passes[OF R] option.case simp_thms)
qed

text \<open>
  C2: A rollback undoes an interrupted run.  A run began on a database in which no row refers to an id still to be given
  out, replaced rows of its version, added any rows, in tables with ids under new ids, and was interrupted.  Then
  \<open>rollback_version\<close> succeeds, and every table except the bookkeeping ones holds the rows from before the run, in their order,
  without those of the version's checkpoint and layout and without those derived from the blobs the run had recorded,
  followed by the added rows that no step of the plan finds.  A table with ids keeps none of the added rows; in a table without
  ids those are left that belong neither to the version nor to a recorded blob, refer to no new id by a declared foreign key
  and hang off no row of a recorded blob (such as overlay rows of \<open>m_map_ast\<close> for older nodes).
\<close>

theorem rollback_undoes_run:
  assumes "no_future_keys TABLES db" "c \<noteq> 0" "interrupted_run TABLES network c now db added db2"
  shows "\<exists>db3. rollback_version TABLES c db2 = Rolled_back True db3 \<and>
    (\<forall>t \<in> set TABLES. table_name t \<notin> set bookkeeping \<longrightarrow>
      db3 (table_name t) = filter (\<lambda>r. \<not> cleared TABLES db c (parsed_blobs TABLES c db2) (table_name t) r) (db (table_name t))
        @ filter (\<lambda>r. \<not> found_row TABLES (fetch_marks TABLES c db2) c (parsed_blobs TABLES c db2) db2 t r) (added (table_name t))
      \<and> (id_column t \<noteq> None \<longrightarrow>
          db3 (table_name t) = filter (\<lambda>r. \<not> cleared TABLES db c (parsed_blobs TABLES c db2) (table_name t) r) (db (table_name t))))"
proof -
  let ?marks = "run_marks TABLES (discard_marks TABLES c db)" and ?blobs = "parsed_blobs TABLES c db2"
  let ?rolled = "foldl (run_delete TABLES) db2 (rollback_plan TABLES ?marks c ?blobs)"
  note R = interrupted_ran[OF assms]
  have rows: "discard_marks TABLES c ?rolled (table_name t) = filter (\<lambda>r. \<not> cleared TABLES db c ?blobs (table_name t) r) (db (table_name t))
      @ filter (\<lambda>r. \<not> found_row TABLES ?marks c ?blobs db2 t r) (added (table_name t))"
    if t: "t \<in> set TABLES" "table_name t \<notin> set bookkeeping" for t
  proof -
    have n: "table_name t \<notin> set MARK_TABLES" using t(2) by (simp add: bookkeeping_def)
    show ?thesis unfolding discard_other[OF n] by (rule ran_rolled_back[OF R t])
  qed
  moreover have "filter (\<lambda>r. \<not> found_row TABLES ?marks c ?blobs db2 t r) (added (table_name t)) = []"
    if t: "t \<in> set TABLES" "id_column t \<noteq> None" for t
    using new_id_found[OF R t] by (simp add: filter_empty_conv)
  ultimately show ?thesis using rollback_of_run[OF assms] by simp
qed

subsection \<open>Runs as sequences of inserts\<close>

text \<open>The inserts of a run; in a table with ids only a row above the ids given out so far is accepted.\<close>

fun run_inserts :: "table list \<Rightarrow> sql_db \<Rightarrow> (string \<times> row) list \<Rightarrow> sql_db option" where
  "run_inserts ts db [] = Some db"
| "run_inserts ts db ((n, r) # ins) = (case find (\<lambda>t. table_name t = n) ts of
     None \<Rightarrow> None
   | Some t \<Rightarrow> (case id_column t of
         None \<Rightarrow> run_inserts ts (db(n := db n @ [r])) ins
       | Some col \<Rightarrow> if sql_above (sql_value ts n col r) (max_id ts n col db) then run_inserts ts (db(n := db n @ [r])) ins else None))"

definition rows_for :: "string \<Rightarrow> (string \<times> row) list \<Rightarrow> row list" where
  "rows_for n ins = map snd (filter (\<lambda>(m, _). m = n) ins)"

lemma rows_for_simps [simp]: "rows_for n [] = []" "rows_for n ((m, r) # ins) = (if m = n then r # rows_for n ins else rows_for n ins)"
  by (simp_all add: rows_for_def)

lemma max_id_appended: "sql_above (sql_value ts n c r) (max_id ts n c db) \<Longrightarrow> max_id ts n c db \<le> max_id ts n c (db(n := db n @ [r]))"
proof -
  assume a: "sql_above (sql_value ts n c r) (max_id ts n c db)"
  then obtain k where k: "sql_value ts n c r = CInt k" "max_id ts n c db < k" by (auto simp: sql_above_def split: cell.splits)
  have "column_ints ts n c (db n @ [r]) = column_ints ts n c (db n) @ [k]" by (simp add: column_ints_def k(1))
  then show ?thesis using k(2) by (cases "column_ints ts n c (db n)") (simp_all add: max_id_def)
qed

lemma run_inserts_appends: "run_inserts ts db ins = Some db2 \<Longrightarrow> db2 n = db n @ rows_for n ins"
  by (induction ts db ins rule: run_inserts.induct) (auto split: option.splits if_splits)

lemma run_inserts_new_ids:
  assumes "run_inserts ts db ins = Some db2" "t \<in> set ts" "distinct (map table_name ts)" "id_column t = Some col" "r \<in> set (rows_for (table_name t) ins)"
  shows "sql_above (sql_value ts (table_name t) col r) (max_id ts (table_name t) col db)"
  using assms
proof (induction ts db ins rule: run_inserts.induct)
  case (2 ts db n r' ins)
  obtain u where u: "find (\<lambda>t. table_name t = n) ts = Some u" using "2.prems"(1) by (auto split: option.splits)
  then have un: "u \<in> set ts" "table_name u = n" by (auto simp: find_Some_iff)
  let ?db = "db(n := db n @ [r'])"
  have rest: "run_inserts ts ?db ins = Some db2" using "2.prems"(1) u by (auto split: option.splits if_splits)
  have grows: "max_id ts (table_name t) col db \<le> max_id ts (table_name t) col ?db"
  proof (cases "table_name t = n")
    case True
    then have "t = u" using un "2.prems"(2,3) by (metis distinct_map inj_onD)
    then have "sql_above (sql_value ts n col r') (max_id ts n col db)" using "2.prems"(1,4) u by (auto split: if_splits)
    then show ?thesis using max_id_appended[of ts n col r' db] True by simp
  qed (simp add: max_id_def)
  show ?case
  proof (cases "r \<in> set (rows_for (table_name t) ins)")
    case True
    have "sql_above (sql_value ts (table_name t) col r) (max_id ts (table_name t) col ?db)"
      by (cases "id_column u") (use "2.IH"(1,2)[OF u] "2.prems"(1-4) True rest u in \<open>auto simp del: fun_upd_apply split: if_splits\<close>)
    then show ?thesis using grows by (auto simp: sql_above_def split: cell.splits)
  next
    case False
    then have "table_name t = n" "r = r'" using "2.prems"(5) by (auto split: if_splits)
    moreover from this have "t = u" using un "2.prems"(2,3) by (metis distinct_map inj_onD)
    ultimately show ?thesis using "2.prems"(1,4) u by (auto split: if_splits)
  qed
qed simp

lemma run_inserts_interrupted:
  assumes "c \<noteq> 0" "run_inserts TABLES (record_blobs c blobs (snd (begin_run TABLES network c now db))) ins = Some db2"
    and "\<forall>(n, r) \<in> set ins. n \<notin> set bookkeeping"
  shows "interrupted_run TABLES network c now db (\<lambda>n. rows_for n ins) db2"
proof -
  let ?db0 = "record_blobs c blobs (snd (begin_run TABLES network c now db))"
  have none: "rows_for n ins = []" if "n \<in> set bookkeeping" for n
    using assms(3) that by (induction ins) auto
  have same: "?db0 n = db n" if "n \<notin> set bookkeeping" for n
    using that assms(1) by (simp add: record_blobs_def begin_run_db bookkeeping_def MARK_TABLES_def discard_other)
  have kept: "?db0 n = snd (begin_run TABLES network c now db) n" if "n \<noteq> ''m_ingest_blob''" for n
    using that assms(1) by (simp add: record_blobs_def)
  have ids: "list_all (\<lambda>r. sql_above (sql_value TABLES (table_name t) col r) (max_id TABLES (table_name t) col db)) (rows_for (table_name t) ins)"
    if t: "t \<in> set TABLES" "table_name t \<notin> set bookkeeping" "id_column t = Some col" for t col
    using run_inserts_new_ids[OF assms(2) t(1) TABLES_schema_distinct(1) t(3)] same[OF t(2)] by (auto simp: list_all_iff max_id_def)
  show ?thesis
    using run_inserts_appends[OF assms(2)] none kept same ids
    by (auto simp: interrupted_run_def bookkeeping_def MARK_TABLES_def split: prod.splits)
qed

subsection \<open>An example\<close>

text \<open>
  A blob 7 and a node 5 from before the run.  The run records the blob, adds a blob 8, and in the blob 7 a tag 9 with an overlay that
  names the node 5; then it stops.
\<close>

definition small_db :: sql_db where
  "small_db n = (if n = ''m_file_blob'' then [[CInt 7, CBytes [], CInt 1]] else if n = ''m_ast'' then [[CInt 5, CStr ''x'', CInt 0]] else [])"

definition small_rows :: "(string \<times> row) list" where
  "small_rows = [(''m_file_blob'', [CInt 8, CBytes [], CInt 1]), (''m_tag'', [CInt 9, CBytes [], CInt 5, CInt 0, CInt 0]),
     (''m_bridge_tag'', [CInt 7, CInt 9, CInt 1, CInt 5, CInt 0, CInt 0]),
     (''m_map_ast'', [CInt 9, CInt 1, CInt 1, CInt 4, CInt 0, CInt 5])]"

definition small_start :: sql_db where
  "small_start = record_blobs 10 [7] (snd (begin_run TABLES 1 10 0 small_db))"

definition small_run :: sql_db where
  "small_run = (\<lambda>n. small_start n @ rows_for n small_rows)"

lemma find_table: "t \<in> set TABLES \<Longrightarrow> table_name t = n \<Longrightarrow> find (\<lambda>u. table_name u = n) TABLES = Some t"
  using named_table by (cases "find (\<lambda>u. table_name u = n) TABLES") (fastforce simp: find_None_iff find_Some_iff)+

lemma small_db_ok: "no_future_keys TABLES small_db"
proof -
  have "t = m_file_blob \<or> t = m_ast" if "t \<in> set TABLES" "small_db (table_name t) \<noteq> []" for t
    using that named_table[OF that(1) example_tables(1)] named_table[OF that(1) example_tables(9)] example_tables(2,10)
    by (auto simp: small_db_def split: if_splits)
  then show ?thesis unfolding no_future_keys_def
    by (fastforce simp: example_tables small_db_def example_columns sql_above_def max_id_def column_ints_def)
qed

lemma small_start_rows: "n \<notin> set bookkeeping \<Longrightarrow> small_start n = small_db n"
  by (simp add: small_start_def record_blobs_def begin_run_db bookkeeping_def MARK_TABLES_def discard_other)

lemma small_run_inserts: "run_inserts TABLES small_start small_rows = Some small_run"
proof -
  have "\<exists>db2. run_inserts TABLES small_start small_rows = Some db2"
    by (simp add: small_rows_def find_table[OF example_tables(1,2)] find_table[OF example_tables(5,6)] find_table[OF example_tables(12,13)]
      find_table[OF example_tables(16,17)] example_tables example_columns small_start_rows bookkeeping_def MARK_TABLES_def
      max_id_def column_ints_def small_db_def sql_above_def)
  then obtain db2 where db2: "run_inserts TABLES small_start small_rows = Some db2" by blast
  then have "db2 = small_run" using run_inserts_appends[OF db2] by (auto simp: small_run_def)
  with db2 show ?thesis by simp
qed

lemma small_run_interrupted: "interrupted_run TABLES 1 10 0 small_db (\<lambda>n. rows_for n small_rows) small_run"
  by (rule run_inserts_interrupted[where blobs = "[7]"])
    (use small_run_inserts in \<open>auto simp: small_start_def small_rows_def bookkeeping_def MARK_TABLES_def\<close>)

theorem rollback_undoes_run_witness:
  "\<exists>db3. rollback_version TABLES 10 small_run = Rolled_back True db3 \<and> db3 ''m_tag'' = [] \<and> db3 ''m_bridge_tag'' = []
     \<and> set (db3 ''m_file_blob'') \<subseteq> {[CInt 7, CBytes [], CInt 1]}"
proof -
  obtain db3 where a: "rollback_version TABLES 10 small_run = Rolled_back True db3"
    and b: "\<forall>t \<in> set TABLES. table_name t \<notin> set bookkeeping \<longrightarrow>
      db3 (table_name t) = filter (\<lambda>r. \<not> cleared TABLES small_db 10 (parsed_blobs TABLES 10 small_run) (table_name t) r) (small_db (table_name t))
        @ filter (\<lambda>r. \<not> found_row TABLES (fetch_marks TABLES 10 small_run) 10 (parsed_blobs TABLES 10 small_run) small_run t r) (rows_for (table_name t) small_rows)
      \<and> (id_column t \<noteq> None \<longrightarrow>
          db3 (table_name t) = filter (\<lambda>r. \<not> cleared TABLES small_db 10 (parsed_blobs TABLES 10 small_run) (table_name t) r) (small_db (table_name t)))"
    using rollback_undoes_run[OF small_db_ok _ small_run_interrupted] by auto
  have blobs: "parsed_blobs TABLES 10 small_run = [7]"
    by (simp add: parsed_blobs_def small_run_def small_start_def small_rows_def record_blobs_def begin_run_db discard_marks_def delete_where_def
      small_db_def append_new_def bookkeeping_columns column_ints_def)
  have d: "(m_bridge_tag, ''blob_id'') \<in> set (blob_derived_tables TABLES)"
    using example_tables(5,6,8) by (force simp: blob_derived_tables_def COMMIT_SCOPED_def)
  have "found_row TABLES m 10 [7] small_run m_bridge_tag (CInt 7 # w)" for m w
    using d by (force simp: found_row_def run_row_def example_tables example_columns sql_among_def)
  then have "db3 ''m_bridge_tag'' = []" using bspec[OF b example_tables(5)]
    by (simp add: example_tables bookkeeping_def MARK_TABLES_def small_db_def small_rows_def blobs)
  moreover have "\<exists>P. db3 ''m_tag'' = filter P (small_db ''m_tag'')"
    using bspec[OF b example_tables(12)] unfolding example_tables by (auto simp: bookkeeping_def MARK_TABLES_def)
  moreover have "\<exists>P. db3 ''m_file_blob'' = filter P (small_db ''m_file_blob'')"
    using bspec[OF b example_tables(1)] unfolding example_tables by (auto simp: bookkeeping_def MARK_TABLES_def)
  ultimately show ?thesis using a by (auto simp: small_db_def split: if_splits)
qed

subsection \<open>A rollback can be interrupted too\<close>

lemma all_deletes_cases:
  assumes "(n, w) \<in> set (all_deletes ts marks c blobs)" "distinct (map table_name ts)"
  obtains "n \<in> set VERSION_ROWS" "w = Equals ''commit_id'' c"
  | ns t col where "(t, col) \<in> set (blob_derived_tables ts)" "(n, w) \<in> set (blob_deletes ts ns (t, col))"
  | t col where "(t, col) \<in> set (marked_tables ts)" "(n, w) \<in> set (mark_deletes ts marks (t, col))"
proof -
  have order: "tc \<in> set (marked_tables ts)" if "tc \<in> set (marked_order ts marks)" for tc
  proof -
    have "inj_on (table_name \<circ> fst) (set (filter (\<lambda>(t, _). dict_get marks (table_name t) \<noteq> None) (marked_tables ts)))"
      using marked_inj[OF assms(2)] by (rule inj_on_subset) auto
    then show ?thesis using that child_first_order_set by fastforce
  qed
  from assms(1) consider "(n, w) \<in> set (map (\<lambda>n. (n, Equals ''commit_id'' c)) VERSION_ROWS)"
    | "(n, w) \<in> set (concat (map (\<lambda>ns. concat (map (blob_deletes ts ns) (blob_derived_tables ts))) (in_chunks (sort (remdups blobs)))))"
    | "(n, w) \<in> set (concat (map (mark_deletes ts marks) (marked_order ts marks)))"
    unfolding all_deletes_def set_append by blast
  then show thesis
  proof cases
    case 1
    then show ?thesis using that(1) by auto
  next
    case 2
    then show ?thesis using that(2) by auto
  next
    case 3
    then obtain tc where tc: "tc \<in> set (marked_order ts marks)" "(n, w) \<in> set (mark_deletes ts marks tc)"
      unfolding set_concat set_map by blast
    then show ?thesis using order that(3)[of "fst tc" "snd tc"] by simp
  qed
qed

lemma plan_spares_marks:
  assumes "schema_ok (map shape ts)" "(n, w) \<in> set (rollback_plan ts marks c blobs)"
  shows "n \<notin> set MARK_TABLES"
proof -
  have no_fk: "table_name t \<notin> set MARK_TABLES" if "t \<in> set ts" "init_foreign t \<noteq> []" for t
    using assms(1) that by (force simp: schema_ok_def list_all_iff shape_def)
  have no_id: "table_name t \<notin> set MARK_TABLES" if "(t, col) \<in> set (marked_tables ts)" for t col
    using assms(1) id_column_named[of t ts col] that unfolding marked_mem schema_ok_def list_all_iff by (metis list.set_intros(2))
  have child: "table_name x \<notin> set MARK_TABLES" if "(x, cc) \<in> set (children ts p)" for x cc p
    using that no_fk by (force simp: children_mem)
  have derived: "table_name t \<notin> set MARK_TABLES" if "(t, col) \<in> set (blob_derived_tables ts)" for t col
    using that no_fk[OF derived_mem[OF that]] by (force simp: blob_derived_tables_def split: if_splits)
  have d: "distinct (map table_name ts)" using assms(1) by (simp add: schema_ok_def shape_def comp_def)
  have "(n, w) \<in> set (all_deletes ts marks c blobs)" using assms(2) by (simp add: rollback_plan_def set_unique_deletes)
  from this d show ?thesis
  proof (cases rule: all_deletes_cases)
    case (2 ns t col)
    from 2(2) show ?thesis by (cases rule: blob_deletes_cases) (use derived[OF 2(1)] child in auto)
  next
    case (3 t col)
    then consider "n = table_name t" | x cc where "(x, cc) \<in> set (children ts (table_name t))" "n = table_name x"
      by (auto simp: mark_deletes_def Let_def)
    then show ?thesis using no_id[OF 3(1)] child by cases auto
  qed (auto simp: VERSION_ROWS_def MARK_TABLES_def)
qed

lemma run_deletes_other: "\<forall>d \<in> set ds. fst d \<noteq> n \<Longrightarrow> foldl (run_delete ts) db ds n = db n"
  by (induction ds arbitrary: db) (auto simp: run_delete_rows)

lemma run_deletes_shrink: "set (foldl (run_delete ts) db ds n) \<subseteq> set (db n)"
proof (induction ds arbitrary: db)
  case (Cons d ds)
  have "set (run_delete ts db d n) \<subseteq> set (db n)" by (cases d) (auto simp: run_delete_rows)
  with Cons[of "run_delete ts db d"] show ?case by simp
qed simp

lemma completed_after_shrinks:
  "set (db' ''m_ingest_state'') \<subseteq> set (db ''m_ingest_state'') \<Longrightarrow> completed_after ts marks db = None \<Longrightarrow> completed_after ts marks db' = None"
  unfolding completed_after_None by blast

text \<open>
  C10: A rollback that is itself interrupted can be repeated.  After any number of its steps, \<open>rollback_version\<close> started
  again finds its marks, passes its checks and ends with the database the undisturbed rollback would have left.
\<close>

theorem rollback_repeatable:
  assumes "rollback_version TABLES c db = Rolled_back True db'"
    and "half = foldl (run_delete TABLES) db (take k (rollback_plan TABLES (fetch_marks TABLES c db) c (parsed_blobs TABLES c db)))"
  shows "rollback_version TABLES c half = Rolled_back True db'"
proof -
  let ?marks = "fetch_marks TABLES c db" and ?blobs = "parsed_blobs TABLES c db"
  let ?plan = "rollback_plan TABLES ?marks c ?blobs"
  have spared: "half n = db n" if "n \<in> set MARK_TABLES" for n
    unfolding assms(2) by (rule run_deletes_other) (use plan_spares_marks[OF TABLES_schema_ok] that in \<open>force dest: in_set_takeD\<close>)
  have fetch: "fetch_marks TABLES c half = ?marks" "parsed_blobs TABLES c half = ?blobs"
    using spared by (simp_all add: fetch_marks_def parsed_blobs_def MARK_TABLES_def)
  have shrink: "set (half n) \<subseteq> set (db n)" for n unfolding assms(2) by (rule run_deletes_shrink)
  from assms(1) have run: "?marks \<noteq> []" "completed_after TABLES ?marks db = None" "find (failed_precheck TABLES db) (precheck_queries TABLES ?marks) = None"
    "db' = discard_marks TABLES c (foldl (run_delete TABLES) db ?plan)"
    by (auto simp: rollback_version_def Let_def split: if_splits option.splits)
  have "failed_precheck TABLES half q \<Longrightarrow> failed_precheck TABLES db q" for q
    using shrink by (cases q) (fastforce simp: failed_precheck_def list_ex_iff)
  then have "find (failed_precheck TABLES half) (precheck_queries TABLES ?marks) = None" using run(3) unfolding find_None_iff by blast
  moreover have "completed_after TABLES ?marks half = None" by (rule completed_after_shrinks[of half db, OF shrink run(2)])
  moreover have "foldl (run_delete TABLES) half ?plan = foldl (run_delete TABLES) db ?plan"
    using run_plan_again[of TABLES db "take k ?plan" "drop k ?plan"] rollback_plan_undisturbed[OF TABLES_schema_ok, of db ?marks c ?blobs]
    by (simp only: append_take_drop_id assms(2))
  ultimately show ?thesis by (simp add: rollback_version_def fetch run(1,4))
qed


theorem rollback_repeatable_witness:
  "\<exists>db'. rollback_version TABLES 10 small_run = Rolled_back True db' \<and> rollback_version TABLES 10 (foldl (run_delete TABLES) small_run
     (take 3 (rollback_plan TABLES (fetch_marks TABLES 10 small_run) 10 (parsed_blobs TABLES 10 small_run)))) = Rolled_back True db'"
  using rollback_of_run(2)[OF small_db_ok _ small_run_interrupted] rollback_repeatable by fastforce

subsection \<open>Rows the plan does not find\<close>

text \<open>
  \<open>m_map_ast\<close> holds the overlay of a tag under the tag's id, but declares no foreign key for it.  A rollback therefore keeps
  the overlay rows of the tags it deletes, unless their node is new as well; the ids of these tags are given out again.
\<close>

lemma overlay_rows_survive:
  assumes "r \<in> set (db ''m_map_ast'')" "dict_get marks ''m_ast'' = Some m" "\<not> sql_above (sql_value TABLES ''m_map_ast'' ''ast_id'' r) m"
  shows "r \<in> set (foldl (run_delete TABLES) db (rollback_plan TABLES marks c blobs) ''m_map_ast'')"
proof -
  have map_ast: "m_map_ast \<in> set TABLES" "table_name m_map_ast = ''m_map_ast''" "id_column m_map_ast = None"
    "init_foreign m_map_ast = [(''ast_id'', ''m_ast'', ''ast_id'')]"
    by (simp_all add: TABLES_def m_map_ast_def id_column_def)
  have ast: "m_ast \<in> set TABLES" "table_name m_ast = ''m_ast''" "init_foreign m_ast = [(''type_id'', ''m_type_descriptor'', ''type_id'')]"
    by (simp_all add: TABLES_def m_ast_def)
  have child: "p = ''m_ast'' \<and> cc = ''ast_id''" if "(x, cc) \<in> set (children TABLES p)" "table_name x = ''m_map_ast''" for x cc p
    using that named_table[OF _ map_ast(1), of x] map_ast(2,4) by (auto simp: children_mem)
  have blob: "(''m_file_blob'') \<in> set (map (fst \<circ> snd) (init_foreign t))" if "(t, col) \<in> set (blob_derived_tables TABLES)" for t col
    using that by (force simp: blob_derived_tables_def split: if_splits)
  have "\<not> holds TABLES db ''m_map_ast'' w r" if w: "(''m_map_ast'', w) \<in> set (all_deletes TABLES marks c blobs)" for w
    using w TABLES_distinct
  proof (cases rule: all_deletes_cases)
    case 1
    then show ?thesis by (simp add: VERSION_ROWS_def)
  next
    case (2 ns t col)
    from 2(2) show ?thesis
    proof (cases rule: blob_deletes_cases)
      case 1
      then have "t = m_map_ast" using named_table[OF derived_mem[OF 2(1)] map_ast(1)] map_ast(2) by simp
      then show ?thesis using blob[OF 2(1)] map_ast(4) by simp
    next
      case (2 pk x cc)
      then have "t = m_ast" using child[OF 2(2)] named_table[OF derived_mem[OF \<open>(t, col) \<in> set (blob_derived_tables TABLES)\<close>] ast(1)] ast(2) by simp
      then show ?thesis using blob[OF \<open>(t, col) \<in> set (blob_derived_tables TABLES)\<close>] ast(3) by simp
    qed
  next
    case (3 t col)
    have "t \<noteq> m_map_ast" using 3(1) map_ast(3) by (auto simp: marked_mem)
    then have "table_name t \<noteq> ''m_map_ast''" using named_table[OF _ map_ast(1), of t] map_ast(2) 3(1) by (auto simp: marked_mem)
    then obtain x cc where x: "(x, cc) \<in> set (children TABLES (table_name t))" "table_name x = ''m_map_ast''"
      "w = Above cc (case dict_get marks (table_name t) of Some m \<Rightarrow> m | None \<Rightarrow> 0)"
      using 3(2) by (auto simp: mark_deletes_def Let_def)
    then show ?thesis using child[OF x(1,2)] assms(2,3) by simp
  qed
  then have "\<not> doomed TABLES db (rollback_plan TABLES marks c blobs) ''m_map_ast'' r"
    by (auto simp: doomed_def rollback_plan_def set_unique_deletes)
  then show ?thesis using assms(1) by (simp add: rollback_plan_rows[OF TABLES_schema_ok])
qed

end
