(* ===== verification/Spec2Isabelle.thy ===== *)
theory Spec2Isabelle
  imports Kbuild_Conditions Engine_Commits Kconfig_Extents ChangeSet_Scopes Sched_Run Kconfig_Config Ingest_Rollback
begin

text \<open>
  Verification of the core of KernelInfo-Parser: the path on which the files of a Linux tree become rows of a database.

  The program parses every file of a version into a change set: a list of table operations whose columns may refer to rows
  of the same file or to symbols of other files (\<open>core/TableHandling.py\<close>).  A scheduler (\<open>main.py\<close>) runs the change sets as
  their references become resolvable, keeping them in a compressed dictionary (\<open>core/GreatProcessor.py\<close>) in between.
  Running one stages rows in a table engine (\<open>table_engine/te_direct_db.py\<close>), which gives out ids, answers reads from what
  is staged and commits batches to a database driver (\<open>db_engine/\<close>).  Beside this path stand the parsers of the Kconfig
  language (\<open>parser/kconfig_ast/\<close>) and of the build conditions in Kbuild files (\<open>parser/kbuild_conditions.py\<close>).

  \<^bold>\<open>Theories and code.\<close>  Definitions keep the names of the functions they model, with an underscore form or suffix where HOL
  has the name already.

  \<^item> \<open>Prelude_KI\<close>: dictionaries as association lists in insertion order (\<open>dict\<close>), \<open>append_new\<close> for sets kept in order,
    helpers on options, sums and lists.
  \<^item> \<open>Table_Schema\<close>: tables, cells, rows and join graphs (\<open>Table\<close>, \<open>TableMeta\<close>).  \<open>Db_Store\<close>: \<open>MockDB\<close> with its selects, joins
    and commits.  \<open>Table_Engine\<close>: \<open>TEDirectDB\<close>: staging, ids, de-duplication, reads through the staged rows, views, taking
    and restoring a batch.  \<open>Engine_Commits\<close>: commits in the foreground and background, over every driver that keeps the
    locale contract of that theory, with \<open>MockDB\<close> as an instance.
  \<^item> \<open>ChangeSet_Routes\<close>: the link stack, canonical routes, \<open>store\<close>, the index and the local part of \<open>resolve_ref\<close>;
    \<open>ChangeSet_Scopes\<close>: what with-blocks keep.  \<open>ChangeSet_Store\<close>: \<open>CompressedChangeSetDict\<close>.  \<open>ChangeSet_Symbols\<close> and
    \<open>ChangeSet_Once\<close>: references into other files, with every cache on the way.  \<open>ChangeSet_Execute\<close>: \<open>execute\<close> with the
    views that follow a schema; \<open>ChangeSet_Progress\<close>: what repeated calls keep.  \<open>ChangeSet_Evacuate\<close>:
    \<open>extract_tags_and_evacuate_cs\<close> and the file-id lookups of \<open>main.py\<close>.
  \<^item> \<open>Sched_Waves\<close>: \<open>execute_phase2_parallel_waves\<close> over an abstract world; \<open>Sched_Stream\<close>: \<open>DependencyScheduler\<close> likewise;
    \<open>Sched_Run\<close>: both on the model's change sets, dictionary and engine.
  \<^item> \<open>Kconfig_Lexer\<close>, \<open>Kconfig_Syntax\<close>, \<open>Kconfig_Parser\<close>: the lexer and recursive-descent parser; \<open>Kconfig_Progress\<close> and
    \<open>Kconfig_Extents\<close>: that they end, and where the entries lie.
  \<^item> \<open>Kconfig_Numbers\<close>: the number formats of \<open>kconfig_eval.py\<close>.  \<open>Kconfig_Eval\<close>: \<open>KconfigEvaluator\<close>, its caches and the
    queries that call each other (expressions, visibility, values, selections of choices); \<open>Kconfig_Eval_Facts\<close>: that they
    end and what they compute.  \<open>Kconfig_Config\<close>: setting values, reading a \<open>.config\<close> and writing its lines.
  \<^item> \<open>Kbuild_Conditions\<close>: the conditions under which files are
    built.

  \<^bold>\<open>State.\<close>  Objects are records passed through the operations: \<open>'db te\<close> is the engine with its database, \<open>changeset\<close> a change
  set, \<open>'b gproc\<close> the processor, \<open>waves\<close> and \<open>sched\<close> the schedulers.  A driver, a pickling codec, the digest of view keys, the
  shared-memory tables of the workers, the clock and the memory state are parameters; what is assumed of them stands as a
  named hypothesis (\<open>commit_driver\<close>, \<open>faithful_codec\<close>).  Exceptions are the left values of sums.  Python sets are lists without
  duplicates; where the code iterates over a set the model fixes one order, and no statement about ids depends on it.

  \<^bold>\<open>What the lemmas show.\<close>  For the engine: failed batches are restored exactly, ids are fresh and one per row, a commit writes
  what is staged, a background commit ends like a foreground one, reads see staged rows.  For change sets: with-blocks
  restore the scope, the index stays in range, the dictionary behaves like a plain map, an execution makes progress and
  keeps it, lookups are stable, evacuated symbols are found.  For the schedulers: the wave pass ends, runs every file once
  after the files it depends on and forces no stub without a cycle; the streaming scheduler loses no file.  For Kconfig: the
  parser is total and its entries nest; every query on a model ends, recursive dependencies included, values have their
  symbol's type, a choice has one selection, bounds and configuration lines read back as they were written.  For Kbuild: a three-valued answer is not changed by what was unknown becoming known.
  The contracts are locales (\<open>commit_driver\<close>, \<open>exec_steps\<close>, \<open>stored_files\<close>), each interpreted on
  the model's definitions.

  \<^bold>\<open>Bounds.\<close>  Loops end by a measure where the code gives one (\<open>drain_ready\<close>, \<open>evict_lru\<close>).  Elsewhere a fuel is passed: the
  Kconfig parser gets \<open>8 * length + 16\<close> for a token list, of which an expression takes at most six and an item at most eight
  units per token; the wave loop gets the number of remaining files, each round taking one or more.  A query on a
  Kconfig model gets \<open>eval_fuel\<close>, (2 * symbols + 1) * (expression nodes + 3): a symbol opens at most two computations before
  it is found in a cache, and between two of them an expression is walked.  The theorems show that this is enough.

  \<^bold>\<open>Not modelled.\<close>  The extractors that walk foreign syntax trees (libclang, tree-sitter), git and mail access, the MySQL
  driver, the engine with preloaded tables, worker processes, the web application, and of Kconfig the model
  builder, the macro preprocessor, the menu tree and the solver.  In the modelled parts: references to other files by routes other than the four-link form of
  \<open>resolve_ref\<close>, and schemas whose route leads into another file, which no parser builds; profiling and logging.
\<close>

end
